(* ===== verification/Prelude.thy ===== *)
theory Prelude
  imports Main "HOL-Library.Word"
begin

unbundle bit_operations_syntax

text \<open>
  What the components share: bytes and little-endian fields, times, JavaScript's array reads and
  slices, the queue of timed entries that three classes of the host keep in the same way, the
  UART wire that three classes keep in the same way, and the xorshift generator that two of them
  use. The two interfaces are locales; each component interprets them on its own operations.
\<close>

named_theorems host_defs \<open>definitions of small host operations, for unfolding\<close>

section \<open>Bytes, numbers and arrays\<close>

text \<open>
  A byte is a number below 256 (\<open>is_bytes\<close> says so where it matters), an offset or a length is a
  \<open>nat\<close>, and a time in nanoseconds is an unbounded BigInt, so an \<open>int\<close>. Reading an array past its
  end gives \<open>undefined\<close>, which every bitwise operator, and every conversion to a WebAssembly
  integer, takes as 0: \<open>byte_at\<close> is a read in such a place.
\<close>

type_synonym byte = nat
type_synonym ns = int

definition is_bytes :: "nat list \<Rightarrow> bool" where
  "is_bytes xs \<longleftrightarrow> (\<forall>x \<in> set xs. x < 256)"

definition byte_at :: "nat list \<Rightarrow> nat \<Rightarrow> nat" where
  "byte_at xs i = (if i < length xs then xs ! i else 0)"

text \<open>\<open>xs.slice(a, b)\<close> for \<open>0 \<le> a\<close> and \<open>0 \<le> b\<close>.\<close>

definition js_slice :: "'a list \<Rightarrow> nat \<Rightarrow> nat \<Rightarrow> 'a list" where
  "js_slice xs a b = take (b - a) (drop a xs)"

text \<open>\<open>[v & 0xff, (v >> 8) & 0xff]\<close> and \<open>b[i] | (b[i + 1] << 8)\<close>; on bytes the two halves of the
  latter share no bit, so the disjunction is a sum.\<close>

definition le16 :: "nat \<Rightarrow> byte list" where
  "le16 v = [v mod 256, (v div 256) mod 256]"

definition rd16 :: "byte list \<Rightarrow> nat \<Rightarrow> nat" where
  "rd16 b i = byte_at b i + 256 * byte_at b (i + 1)"

text \<open>\<open>xs.every((b, i) => b === ys[i])\<close>: every byte of the first array is where the second has it.\<close>

definition every_eq :: "nat list \<Rightarrow> nat list \<Rightarrow> bool" where
  "every_eq xs ys \<longleftrightarrow> take (length xs) ys = xs"

lemma is_bytes_simps [simp]:
  "is_bytes []" "is_bytes (x # xs) \<longleftrightarrow> x < 256 \<and> is_bytes xs"
  "is_bytes (xs @ ys) \<longleftrightarrow> is_bytes xs \<and> is_bytes ys"
  by (auto simp: is_bytes_def)

lemma is_bytes_take [intro]: "is_bytes xs \<Longrightarrow> is_bytes (take n xs)"
  and is_bytes_drop [intro]: "is_bytes xs \<Longrightarrow> is_bytes (drop n xs)"
  by (auto simp: is_bytes_def dest: in_set_takeD in_set_dropD)

lemma is_bytes_slice [intro]: "is_bytes xs \<Longrightarrow> is_bytes (js_slice xs a b)"
  by (auto simp: js_slice_def)

lemma is_bytes_replicate [simp]: "is_bytes (replicate n x) \<longleftrightarrow> n = 0 \<or> x < 256"
  by (auto simp: is_bytes_def)

lemma byte_at_less [intro]: "is_bytes xs \<Longrightarrow> byte_at xs i < 256"
  by (auto simp: byte_at_def is_bytes_def)

lemma byte_at_Cons_0 [simp]: "byte_at (x # xs) 0 = x"
  and byte_at_Cons_Suc [simp]: "byte_at (x # xs) (Suc i) = byte_at xs i"
  and byte_at_Nil [simp]: "byte_at [] i = 0"
  by (auto simp: byte_at_def)

lemma byte_at_numeral [simp]: "byte_at (x # xs) (numeral k) = byte_at xs (pred_numeral k)"
  by (simp add: numeral_eq_Suc)

lemma byte_at_append: "byte_at (xs @ ys) i = (if i < length xs then byte_at xs i
    else byte_at ys (i - length xs))"
  by (auto simp: byte_at_def nth_append)

lemma length_slice [simp]: "length (js_slice xs a b) = min (b - a) (length xs - a)"
  by (auto simp: js_slice_def min_def)

lemma length_slice_le: "length (js_slice xs a b) \<le> b - a"
  by simp

lemma slice_all: "js_slice (xs @ ys) (length xs) (length xs + length ys) = ys"
  by (simp add: js_slice_def)

lemma is_bytes_le16 [simp]: "is_bytes (le16 v)"
  and length_le16 [simp]: "length (le16 v) = 2"
  by (simp_all add: le16_def)

lemma rd16_le16: "v < 65536 \<Longrightarrow> rd16 (le16 v @ xs) 0 = v"
  by (simp add: rd16_def le16_def)

lemma rd16_less: "is_bytes xs \<Longrightarrow> rd16 xs i < 65536"
  using byte_at_less [of xs i] byte_at_less [of xs "i + 1"] by (simp add: rd16_def)

lemma every_eq_refl [simp]: "every_eq xs xs"
  by (simp add: every_eq_def)

lemma every_eq_same_length: "length xs = length ys \<Longrightarrow> every_eq xs ys \<longleftrightarrow> xs = ys"
  by (auto simp: every_eq_def)

section \<open>The earlier of two times, where null is never\<close>

fun min_big :: "ns option \<Rightarrow> ns option \<Rightarrow> ns option" where
  "min_big None b = b"
| "min_big (Some a) None = Some a"
| "min_big (Some a) (Some b) = Some (if a < b then a else b)"

lemma min_big_None [simp]: "min_big a None = a"
  by (cases a) auto

lemma min_big_eq_None [simp]: "min_big a b = None \<longleftrightarrow> a = None \<and> b = None"
  by (cases a; cases b) auto

lemma min_big_Some_iff:
  "min_big a b = Some t \<longleftrightarrow>
    (a = Some t \<or> b = Some t) \<and> (\<forall>x. a = Some x \<longrightarrow> t \<le> x) \<and> (\<forall>x. b = Some x \<longrightarrow> t \<le> x)"
  by (cases a; cases b) auto

text \<open>A time that may be null, compared with a bound: never is after every bound.\<close>

definition after_opt :: "ns \<Rightarrow> ns option \<Rightarrow> bool" where
  "after_opt t a \<longleftrightarrow> (\<forall>x. a = Some x \<longrightarrow> t < x)"

lemma after_opt_simps [simp]: "after_opt t None" "after_opt t (Some x) \<longleftrightarrow> t < x"
  by (auto simp: after_opt_def)

lemma after_opt_min_big [simp]: "after_opt t (min_big a b) \<longleftrightarrow> after_opt t a \<and> after_opt t b"
  by (cases a; cases b) auto

section \<open>Exceptions\<close>

text \<open>What the host's own arithmetic and lookups can throw: a division of a BigInt by zero, and the
  errors the code throws by name. A call that may throw returns a sum, \<open>Inl\<close> the exception.\<close>

datatype js_error = RangeError | UnknownContext nat | TypeError | Lan_refused nat

section \<open>The entropy generator\<close>

text \<open>
  xorshift32, which \<open>Host.nextRandomByte\<close> (host/core.mjs) and \<open>BtController.rand8\<close> (host/bt.mjs)
  both write out. JavaScript's bitwise operators work modulo \<open>2 ^ 32\<close>, and \<open>x >>>= 0\<close> only
  chooses the representative, so the state is a 32-bit word.
\<close>

definition xorshift32 :: "32 word \<Rightarrow> 32 word" where
  "xorshift32 x =
    (let x = x XOR push_bit 13 x;
         x = x XOR drop_bit 17 x
     in x XOR push_bit 5 x)"

text \<open>\<open>n\<close> bytes, each the low byte of the next state, and the state after the last.\<close>

fun random_bytes :: "nat \<Rightarrow> 32 word \<Rightarrow> nat list \<times> 32 word" where
  "random_bytes 0 x = ([], x)"
| "random_bytes (Suc n) x =
    (let x = xorshift32 x; (out, x') = random_bytes n x in (unat (x AND 0xff) # out, x'))"

lemma word_xor_eq_0D:
  fixes x y :: "32 word"
  shows "x XOR y = 0 \<Longrightarrow> x = y"
  by (rule bit_eqI) (auto simp: bit_eq_iff bit_xor_iff)

lemma xor_push_bit_0:
  fixes x :: "32 word"
  assumes "0 < k" and "x XOR push_bit k x = 0"
  shows "x = 0"
proof -
  have eq: "x = push_bit k x"
    using assms(2) by (rule word_xor_eq_0D)
  have "\<not> bit x n" for n
  proof (induction n rule: less_induct)
    case (less n)
    show ?case
    proof
      assume b: "bit x n"
      then have "bit (push_bit k x) n" using eq by simp
      then have "k \<le> n" and "bit x (n - k)" by (auto simp: bit_push_bit_iff)
      then show False using less.IH [of "n - k"] assms(1) by simp
    qed
  qed
  then show ?thesis by (auto intro: bit_eqI)
qed

lemma xor_drop_bit_0:
  fixes x :: "32 word"
  assumes "0 < k" and "x XOR drop_bit k x = 0"
  shows "x = 0"
proof -
  have eq: "x = drop_bit k x"
    using assms(2) by (rule word_xor_eq_0D)
  have "\<not> bit x n" if "32 - n = m" for n m
    using that
  proof (induction m arbitrary: n rule: less_induct)
    case (less m)
    show ?case
    proof
      assume b: "bit x n"
      then have n: "n < 32" by (auto dest: bit_imp_le_length)
      from b have "bit x (k + n)" using eq by (metis bit_drop_bit_eq comp_apply)
      moreover have "32 - (k + n) < m" using n less.prems assms(1) by simp
      ultimately show False using less.IH by blast
    qed
  qed
  then show ?thesis by (auto intro: bit_eqI)
qed

lemma xorshift32_eq_0_iff [simp]: "xorshift32 x = 0 \<longleftrightarrow> x = 0"
proof
  assume "xorshift32 x = 0"
  then show "x = 0"
    unfolding xorshift32_def Let_def
    by (blast dest: xor_push_bit_0 [of 13 x, simplified] xor_drop_bit_0 [of 17, simplified]
        xor_push_bit_0 [of 5, simplified])
qed (simp add: xorshift32_def)

lemma length_random_bytes [simp]: "length (fst (random_bytes n x)) = n"
  by (induction n arbitrary: x) (simp_all add: Let_def split_beta)

lemma random_bytes_byte [simp]: "is_bytes (fst (random_bytes n x))"
proof (induction n arbitrary: x)
  case (Suc n)
  have "unat (y AND 0xff) < 256" for y :: "32 word"
    using word_and_le1 [of y "0xff"] by (simp add: word_le_nat_alt)
  with Suc show ?case by (simp add: Let_def split_beta)
qed simp

lemma random_bytes_state_nonzero: "x \<noteq> 0 \<Longrightarrow> snd (random_bytes n x) \<noteq> 0"
  by (induction n arbitrary: x) (simp_all add: Let_def split_beta)

lemma random_bytes_add:
  "random_bytes (m + n) x =
    (fst (random_bytes m x) @ fst (random_bytes n (snd (random_bytes m x))),
     snd (random_bytes n (snd (random_bytes m x))))"
  by (induction m arbitrary: x) (simp_all add: Let_def split_beta)

end
