(* ===== verification/Timed_Queue.thy ===== *)
theory Timed_Queue
  imports Prelude "HOL-Library.Multiset"
begin

text \<open>
  The queue of entries in the order they are due. \<open>Host.pushEthernet\<close> (host/core.mjs),
  \<open>BtController.fromAir\<close> (host/bt.mjs) and \<open>Lan.at\<close> (host/lan.mjs) each insert with the same
  loop: walk back from the end past the entries that are due later, and splice there. The locale
  \<open>timed_queue\<close> is what their clients rely on; each class interprets it on its own state.
\<close>

section \<open>The insertion loop\<close>

text \<open>
  \<^verbatim>\<open>let i = q.length; while (i > 0 && q[i - 1].atNs > atNs) i--;\<close>
  An entry is its due time and what is due.
\<close>

fun tq_pos :: "(ns \<times> 'a) list \<Rightarrow> ns \<Rightarrow> nat \<Rightarrow> nat" where
  "tq_pos q t 0 = 0"
| "tq_pos q t (Suc i) = (if fst (q ! i) > t then tq_pos q t i else Suc i)"

text \<open>\<^verbatim>\<open>q.splice(i, 0, { atNs, ... })\<close>\<close>

definition tq_insert :: "ns \<Rightarrow> 'a \<Rightarrow> (ns \<times> 'a) list \<Rightarrow> (ns \<times> 'a) list" where
  "tq_insert t x q = (let i = tq_pos q t (length q) in take i q @ (t, x) # drop i q)"

abbreviation tq_sorted :: "(ns \<times> 'a) list \<Rightarrow> bool" where
  "tq_sorted q \<equiv> sorted (map fst q)"

lemma tq_pos_le: "tq_pos q t n \<le> n"
  by (induction q t n rule: tq_pos.induct) auto

lemma tq_pos_later: "tq_pos q t n \<le> i \<Longrightarrow> i < n \<Longrightarrow> t < fst (q ! i)"
  by (induction q t n rule: tq_pos.induct) (auto simp: less_Suc_eq split: if_splits)

lemma tq_pos_before: "0 < tq_pos q t n \<Longrightarrow> fst (q ! (tq_pos q t n - 1)) \<le> t"
  by (induction q t n rule: tq_pos.induct) auto

lemma tq_pos_append: "n \<le> length q \<Longrightarrow> tq_pos (q @ r) t n = tq_pos q t n"
  by (induction q t n rule: tq_pos.induct) (auto simp: nth_append)

text \<open>On an ordered queue the loop stops after everything due no later, so entries due at the
  same time leave in the order they came.\<close>

lemma tq_insert_snoc:
  "tq_insert t x (q @ [e]) = (if fst e > t then tq_insert t x q @ [e] else q @ [e, (t, x)])"
proof (cases "fst e > t")
  case True
  then have "tq_pos (q @ [e]) t (length (q @ [e])) = tq_pos q t (length q)"
    by (simp add: tq_pos_append)
  with True show ?thesis
    using tq_pos_le [of q t "length q"] by (simp add: tq_insert_def Let_def)
next
  case False
  then show ?thesis by (simp add: tq_insert_def)
qed

lemma tq_insert_Nil [simp]: "tq_insert t x [] = [(t, x)]"
  by (simp add: tq_insert_def)

lemma tq_insert_sorted_eq:
  "tq_sorted q \<Longrightarrow>
   tq_insert t x q = filter (\<lambda>e. fst e \<le> t) q @ (t, x) # filter (\<lambda>e. t < fst e) q"
proof (induction q rule: rev_induct)
  case Nil
  then show ?case by simp
next
  case (snoc e q)
  then have s: "tq_sorted q" and le: "\<forall>d \<in> set q. fst d \<le> fst e"
    by (auto simp: sorted_append)
  show ?case
  proof (cases "fst e > t")
    case True
    with snoc.IH [OF s] show ?thesis by (simp add: tq_insert_snoc)
  next
    case False
    with le have "filter (\<lambda>d. fst d \<le> t) q = q" and "filter (\<lambda>d. t < fst d) q = []"
      by (auto simp: filter_id_conv filter_empty_conv)
    with False show ?thesis by (simp add: tq_insert_snoc)
  qed
qed

lemma set_tq_insert [simp]: "set (tq_insert t x q) = insert (t, x) (set q)"
  by (induction q rule: rev_induct) (auto simp: tq_insert_snoc)

lemma length_tq_insert [simp]: "length (tq_insert t x q) = Suc (length q)"
  by (induction q rule: rev_induct) (auto simp: tq_insert_snoc)

lemma tq_sorted_insert: "tq_sorted q \<Longrightarrow> tq_sorted (tq_insert t x q)"
proof (induction q rule: rev_induct)
  case Nil
  then show ?case by simp
next
  case (snoc e q)
  then have s: "tq_sorted (tq_insert t x q)" and le: "\<forall>d \<in> set q. fst d \<le> fst e"
    by (auto simp: sorted_append)
  then show ?case
    using snoc.prems by (auto simp: tq_insert_snoc sorted_append intro: order_trans)
qed

lemma tq_insert_last: "\<forall>e \<in> set q. fst e \<le> t \<Longrightarrow> tq_insert t x q = q @ [(t, x)]"
  by (cases q rule: rev_cases) (auto simp: tq_insert_snoc)

lemma tq_insert_not_Nil [simp]: "tq_insert t x q \<noteq> []"
  using length_tq_insert [of t x q] by (metis length_0_conv nat.distinct(1))

text \<open>The head after an insertion: the new entry, when it is due before everything else.\<close>

lemma hd_tq_insert:
  "tq_sorted q \<Longrightarrow> hd (tq_insert t x q) = (if q = [] \<or> t < fst (hd q) then (t, x) else hd q)"
proof (cases q)
  case (Cons e r)
  moreover assume "tq_sorted q"
  ultimately have "t < fst e \<Longrightarrow> filter (\<lambda>e. fst e \<le> t) r = []"
    by (auto simp: filter_empty_conv)
  with Cons \<open>tq_sorted q\<close> show ?thesis by (auto simp: tq_insert_sorted_eq)
qed simp

lemma tq_sorted_hd: "tq_sorted q \<Longrightarrow> e \<in> set q \<Longrightarrow> fst (hd q) \<le> fst e"
  by (cases q) auto

lemma tq_sorted_tl: "tq_sorted q \<Longrightarrow> tq_sorted (tl q)"
  by (cases q) auto

text \<open>So inserting one by one is a stable sort by due time.\<close>

lemma mset_tq_insert: "mset (tq_insert t x q) = add_mset (t, x) (mset q)"
  by (induction q rule: rev_induct) (auto simp: tq_insert_snoc)

lemma tq_insert_sort:
  assumes "tq_sorted q"
  shows "tq_insert t x q = sort_key fst (q @ [(t, x)])"
proof (rule properties_for_sort_key [symmetric])
  show "mset (tq_insert t x q) = mset (q @ [(t, x)])" by (simp add: mset_tq_insert)
  show "tq_sorted (tq_insert t x q)" using assms by (rule tq_sorted_insert)
  show "filter (\<lambda>e. fst k = fst e) (tq_insert t x q) = filter (\<lambda>e. fst k = fst e) (q @ [(t, x)])"
    if "k \<in> set (tq_insert t x q)" for k
  proof (cases "fst k \<le> t")
    case True
    then have "filter (\<lambda>e. fst k = fst e) (filter (\<lambda>e. fst e \<le> t) q) = filter (\<lambda>e. fst k = fst e) q"
      and "filter (\<lambda>e. fst k = fst e) (filter (\<lambda>e. t < fst e) q) = []"
      by (auto intro!: filter_cong simp: filter_empty_conv)
    then show ?thesis using assms by (simp add: tq_insert_sorted_eq)
  next
    case False
    then have "filter (\<lambda>e. fst k = fst e) (filter (\<lambda>e. t < fst e) q) = filter (\<lambda>e. fst k = fst e) q"
      and "filter (\<lambda>e. fst k = fst e) (filter (\<lambda>e. fst e \<le> t) q) = []"
      by (auto intro!: filter_cong simp: filter_empty_conv)
    then show ?thesis using assms False by (simp add: tq_insert_sorted_eq)
  qed
qed

lemma sort_key_twice: "sort_key f (sort_key f xs @ ys) = sort_key f (xs @ ys)"
proof (rule properties_for_sort_key)
  show "filter (\<lambda>x. f k = f x) (sort_key f (xs @ ys)) = filter (\<lambda>x. f k = f x) (sort_key f xs @ ys)" for k
    using sort_key_stable [of f "f k"] by (simp add: eq_commute [of "f k"])
qed simp_all

section \<open>The interface\<close>

text \<open>
  \<open>entries\<close> is the queue a class keeps, \<open>push\<close> its insertion and \<open>room\<close> whether it takes another
  entry: the Ethernet queue of a board drops a frame once a backlog has built up.
\<close>

locale timed_queue =
  fixes entries :: "'s \<Rightarrow> (ns \<times> 'a) list"
    and push :: "ns \<Rightarrow> 'a \<Rightarrow> 's \<Rightarrow> 's"
    and room :: "'s \<Rightarrow> bool"
  assumes push_room: "room s \<Longrightarrow> entries (push t x s) = tq_insert t x (entries s)"
    and push_full: "\<not> room s \<Longrightarrow> entries (push t x s) = entries s"
begin

lemma push_sorted: "tq_sorted (entries s) \<Longrightarrow> tq_sorted (entries (push t x s))"
  by (cases "room s") (simp_all add: push_room push_full tq_sorted_insert)

lemma push_subset: "set (entries (push t x s)) \<subseteq> insert (t, x) (set (entries s))"
  by (cases "room s") (auto simp: push_room push_full)

lemma push_all_sorted:
  "tq_sorted (entries s) \<Longrightarrow> tq_sorted (entries (fold (\<lambda>(t, x). push t x) es s))"
  by (induction es arbitrary: s) (auto simp: push_sorted)

text \<open>Where there is always room, what was pushed is there, sorted by due time and otherwise in the
  order it was pushed.\<close>

lemma push_all_sort:
  assumes "\<And>s. room s" and "tq_sorted (entries s)"
  shows "entries (fold (\<lambda>(t, x). push t x) es s) = sort_key fst (entries s @ es)"
  using assms(2)
proof (induction es arbitrary: s)
  case Nil
  then show ?case by (simp add: sort_key_id_if_sorted)
next
  case (Cons e es)
  obtain t x where e: "e = (t, x)" by fastforce
  have "entries (fold (\<lambda>(t, x). push t x) es (push t x s))
      = sort_key fst (sort_key fst (entries s @ [(t, x)]) @ es)"
    using Cons.IH [of "push t x s"] Cons.prems assms(1)
    by (simp add: push_sorted push_room tq_insert_sort)
  also have "\<dots> = sort_key fst (entries s @ [(t, x)] @ es)"
    by (simp only: sort_key_twice append_assoc)
  finally show ?case by (simp add: e)
qed

text \<open>What is pushed in the order it is due leaves in that order: the queue is a FIFO.\<close>

lemma push_in_order:
  assumes "room s" and "\<forall>e \<in> set (entries s). fst e \<le> t"
  shows "entries (push t x s) = entries s @ [(t, x)]"
  using assms by (simp add: push_room tq_insert_last)

text \<open>A push never moves what is due earlier, or at the same time.\<close>

lemma push_keeps_earlier:
  assumes "tq_sorted (entries s)"
  shows "filter (\<lambda>e. fst e < t) (entries (push t x s)) = filter (\<lambda>e. fst e < t) (entries s)"
proof (cases "room s")
  case True
  have "filter (\<lambda>e. fst e < t) (filter (\<lambda>e. fst e \<le> t) (entries s))
      @ filter (\<lambda>e. fst e < t) (filter (\<lambda>e. t < fst e) (entries s))
      = filter (\<lambda>e. fst e < t) (entries s)"
    by (auto intro!: filter_cong simp: filter_empty_conv)
  with True assms show ?thesis by (simp add: push_room tq_insert_sorted_eq)
next
  case False
  then show ?thesis by (simp add: push_full)
qed

end

end
