(* ===== verification/Uart_Wire.thy ===== *)
theory Uart_Wire
  imports Prelude
begin

text \<open>
  A UART towards the guest, as the console keeps it (host/core.mjs), the emulated Bluetooth
  controller (host/bt.mjs) and the real controller on a serial port (host/hci_serial.mjs): bytes
  waiting, and the time the next one has come down the wire, one byte time after the last was
  taken. The guest's read takes a byte, or gets -1.
\<close>

section \<open>The interface\<close>

locale uart_wire =
  fixes waiting :: "'s \<Rightarrow> nat list"
    and ready_ns :: "'s \<Rightarrow> ns"
    and taken :: "'s \<Rightarrow> nat"
    and poll_in :: "ns \<Rightarrow> 's \<Rightarrow> int \<times> 's"
    and byte_ns :: ns
  assumes poll_empty: "waiting s = [] \<or> now < ready_ns s \<Longrightarrow> poll_in now s = (- 1, s)"
    and poll_byte: "waiting s = b # bs \<Longrightarrow> ready_ns s \<le> now \<Longrightarrow> fst (poll_in now s) = int b"
    and poll_waiting: "waiting s = b # bs \<Longrightarrow> ready_ns s \<le> now \<Longrightarrow>
      waiting (snd (poll_in now s)) = bs"
    and poll_ready: "waiting s = b # bs \<Longrightarrow> ready_ns s \<le> now \<Longrightarrow>
      ready_ns (snd (poll_in now s)) = now + byte_ns"
    and poll_taken: "waiting s = b # bs \<Longrightarrow> ready_ns s \<le> now \<Longrightarrow>
      taken (snd (poll_in now s)) = Suc (taken s)"
    and byte_ns_pos: "0 < byte_ns"
begin

text \<open>The guest reads at the times given, nothing else touching the UART: what it got, each byte
  with its time, and the state it leaves.\<close>

fun polls :: "ns list \<Rightarrow> 's \<Rightarrow> (ns \<times> nat) list \<times> 's" where
  "polls [] s = ([], s)"
| "polls (t # ts) s =
    (let (r, s') = poll_in t s; (got, s'') = polls ts s'
     in (if r = - 1 then got else (t, nat r) # got, s''))"

lemma poll_cases:
  obtains (none) "waiting s = [] \<or> now < ready_ns s" "poll_in now s = (- 1, s)"
  | (byte) b bs s' where "waiting s = b # bs" "ready_ns s \<le> now" "poll_in now s = (int b, s')"
      "waiting s' = bs" "ready_ns s' = now + byte_ns" "taken s' = Suc (taken s)"
proof (cases "waiting s = [] \<or> now < ready_ns s")
  case True
  then show ?thesis using none poll_empty by blast
next
  case False
  then obtain b bs where w: "waiting s = b # bs" and r: "ready_ns s \<le> now"
    by (cases "waiting s") auto
  have "poll_in now s = (int b, snd (poll_in now s))"
    using poll_byte [OF w r] by (simp add: prod_eq_iff)
  with w r show ?thesis
    using byte poll_waiting [OF w r] poll_ready [OF w r] poll_taken [OF w r] by blast
qed

text \<open>No byte is lost, duplicated or reordered.\<close>

lemma polls_in_order: "map snd (fst (polls ts s)) @ waiting (snd (polls ts s)) = waiting s"
proof (induction ts arbitrary: s)
  case Nil
  then show ?case by simp
next
  case (Cons t ts)
  show ?case
    by (cases rule: poll_cases [where s = s and now = t]) (use Cons in \<open>auto simp: split_beta Let_def\<close>)
qed

text \<open>And none comes sooner than a byte time after the one before it.\<close>

lemma polls_paced:
  "sorted_wrt (\<lambda>a b. fst a + byte_ns \<le> fst b) (fst (polls ts s)) \<and>
   (\<forall>e \<in> set (fst (polls ts s)). ready_ns s \<le> fst e)"
proof (induction ts arbitrary: s)
  case Nil
  then show ?case by simp
next
  case (Cons t ts)
  show ?case
  proof (cases rule: poll_cases [where s = s and now = t])
    case none
    then show ?thesis using Cons [of s] by (auto simp: split_beta Let_def)
  next
    case (byte b bs s')
    then show ?thesis using Cons [of s'] byte_ns_pos
      by (fastforce simp: split_beta Let_def)
  qed
qed

lemma polls_taken: "taken (snd (polls ts s)) = taken s + length (fst (polls ts s))"
proof (induction ts arbitrary: s)
  case Nil
  then show ?case by simp
next
  case (Cons t ts)
  show ?case
    by (cases rule: poll_cases [where s = s and now = t]) (use Cons in \<open>auto simp: split_beta Let_def\<close>)
qed

text \<open>A guest that keeps reading gets every byte: one read a byte time apart is enough for each.\<close>

lemma polls_drain:
  assumes "ready_ns s \<le> t0" and "length (waiting s) \<le> n"
  shows "map snd (fst (polls (map (\<lambda>i. t0 + int i * byte_ns) [0..<n]) s)) = waiting s"
  using assms
proof (induction n arbitrary: s t0)
  case 0
  then show ?case by simp
next
  case (Suc n)
  have times: "map (\<lambda>i. t0 + int i * byte_ns) [0..<Suc n]
      = t0 # map (\<lambda>i. (t0 + byte_ns) + int i * byte_ns) [0..<n]"
    by (simp add: upt_conv_Cons map_Suc_upt [symmetric] o_def algebra_simps del: upt_Suc)
  show ?case
  proof (cases rule: poll_cases [where s = s and now = t0])
    case none
    with Suc.prems have e: "waiting s = []" by auto
    have "map snd (fst (polls ts s)) = []" for ts
      using polls_in_order [of ts s] e by simp
    with e show ?thesis by simp
  next
    case (byte b bs s')
    with Suc.IH [of s' "t0 + byte_ns"] Suc.prems show ?thesis
      unfolding times by (simp add: split_beta Let_def)
  qed
qed

end

end
