(* ===== verification/Bt.thy ===== *)
theory Bt
  imports Timed_Queue Uart_Wire
begin

text \<open>
  The emulated Bluetooth controller of host/bt.mjs: its state (\<open>BtController.s\<close>), the UART towards
  the guest, the HCI commands, ACL data, the radio and the clock-driven \<open>advance\<close>. Names follow the
  source. A link is named by its handle where the code holds a reference to the object; handles are
  unique (\<open>Bt_Links\<close>), so the two agree. An array element that may be \<open>undefined\<close> is an option
  where the code tells it from a number (the advertising PDU type), and 0 where it only ends up in
  a bitwise operator or as a byte the guest reads, which WebAssembly takes as 0.
  Nothing here is proved about the controller; the theories \<open>Bt_Events\<close>, \<open>Bt_Links\<close>, \<open>Bt_Time\<close> and
  \<open>Bt_Air\<close> do that.
\<close>

section \<open>Constants\<close>

abbreviation (input) H4_CMD :: nat where "H4_CMD \<equiv> 0x01"
abbreviation (input) H4_ACL :: nat where "H4_ACL \<equiv> 0x02"
abbreviation (input) H4_EVT :: nat where "H4_EVT \<equiv> 0x04"

abbreviation (input) EVT_DISCONN_COMPLETE :: nat where "EVT_DISCONN_COMPLETE \<equiv> 0x05"
abbreviation (input) EVT_ENCRYPT_CHANGE :: nat where "EVT_ENCRYPT_CHANGE \<equiv> 0x08"
abbreviation (input) EVT_REMOTE_VERSION :: nat where "EVT_REMOTE_VERSION \<equiv> 0x0c"
abbreviation (input) EVT_CMD_COMPLETE :: nat where "EVT_CMD_COMPLETE \<equiv> 0x0e"
abbreviation (input) EVT_CMD_STATUS :: nat where "EVT_CMD_STATUS \<equiv> 0x0f"
abbreviation (input) EVT_NUM_COMPLETED :: nat where "EVT_NUM_COMPLETED \<equiv> 0x13"
abbreviation (input) EVT_KEY_REFRESH_COMPLETE :: nat where "EVT_KEY_REFRESH_COMPLETE \<equiv> 0x30"
abbreviation (input) EVT_LE_META :: nat where "EVT_LE_META \<equiv> 0x3e"
abbreviation (input) LE_CONN_COMPLETE :: nat where "LE_CONN_COMPLETE \<equiv> 0x01"
abbreviation (input) LE_ADV_REPORT :: nat where "LE_ADV_REPORT \<equiv> 0x02"
abbreviation (input) LE_CONN_UPDATE_COMPLETE :: nat where "LE_CONN_UPDATE_COMPLETE \<equiv> 0x03"
abbreviation (input) LE_REMOTE_FEATURES :: nat where "LE_REMOTE_FEATURES \<equiv> 0x04"
abbreviation (input) LE_LTK_REQUEST :: nat where "LE_LTK_REQUEST \<equiv> 0x05"

abbreviation (input) OK :: nat where "OK \<equiv> 0x00"
abbreviation (input) UNKNOWN_COMMAND :: nat where "UNKNOWN_COMMAND \<equiv> 0x01"
abbreviation (input) UNKNOWN_CONN :: nat where "UNKNOWN_CONN \<equiv> 0x02"
abbreviation (input) KEY_MISSING :: nat where "KEY_MISSING \<equiv> 0x06"
abbreviation (input) CONN_LIMIT :: nat where "CONN_LIMIT \<equiv> 0x09"
abbreviation (input) DISALLOWED :: nat where "DISALLOWED \<equiv> 0x0c"
abbreviation (input) LOCAL_HOST_TERMINATED :: nat where "LOCAL_HOST_TERMINATED \<equiv> 0x16"
abbreviation (input) MIC_FAILURE :: nat where "MIC_FAILURE \<equiv> 0x3d"

abbreviation (input) ADV_IND :: nat where "ADV_IND \<equiv> 0x00"
abbreviation (input) ADV_DIRECT_IND :: nat where "ADV_DIRECT_IND \<equiv> 0x01"
abbreviation (input) ADV_SCAN_IND :: nat where "ADV_SCAN_IND \<equiv> 0x02"
abbreviation (input) ADV_DIRECT_IND_LOW :: nat where "ADV_DIRECT_IND_LOW \<equiv> 0x04"
abbreviation (input) SCAN_RSP :: nat where "SCAN_RSP \<equiv> 0x04"

text \<open>\<open>RSSI & 0xff\<close> for an RSSI of -40.\<close>

definition rssi_byte :: nat where "rssi_byte = nat ((- 40) mod 256)"

definition MAX_LINKS :: nat where "MAX_LINKS = 64"
definition ACL_LEN :: nat where "ACL_LEN = 27"
definition ACL_NUM :: nat where "ACL_NUM = 3"
definition UNIT_CONN_NS :: ns where "UNIT_CONN_NS = 1250000"
definition UNIT_ADV_NS :: ns where "UNIT_ADV_NS = 625000"
definition HCI_BYTE_NS :: ns where "HCI_BYTE_NS = 10000"

abbreviation (input) OP_DISCONNECT :: nat where "OP_DISCONNECT \<equiv> 0x0406"
abbreviation (input) OP_READ_REMOTE_VERSION :: nat where "OP_READ_REMOTE_VERSION \<equiv> 0x041d"
abbreviation (input) OP_SET_EVENT_MASK :: nat where "OP_SET_EVENT_MASK \<equiv> 0x0c01"
abbreviation (input) OP_RESET :: nat where "OP_RESET \<equiv> 0x0c03"
abbreviation (input) OP_READ_LOCAL_VERSION :: nat where "OP_READ_LOCAL_VERSION \<equiv> 0x1001"
abbreviation (input) OP_READ_LOCAL_COMMANDS :: nat where "OP_READ_LOCAL_COMMANDS \<equiv> 0x1002"
abbreviation (input) OP_READ_LOCAL_FEATURES :: nat where "OP_READ_LOCAL_FEATURES \<equiv> 0x1003"
abbreviation (input) OP_READ_BD_ADDR :: nat where "OP_READ_BD_ADDR \<equiv> 0x1009"
abbreviation (input) OP_LE_SET_EVENT_MASK :: nat where "OP_LE_SET_EVENT_MASK \<equiv> 0x2001"
abbreviation (input) OP_LE_READ_BUFFER_SIZE :: nat where "OP_LE_READ_BUFFER_SIZE \<equiv> 0x2002"
abbreviation (input) OP_LE_READ_LOCAL_FEATURES :: nat where "OP_LE_READ_LOCAL_FEATURES \<equiv> 0x2003"
abbreviation (input) OP_LE_SET_RANDOM_ADDRESS :: nat where "OP_LE_SET_RANDOM_ADDRESS \<equiv> 0x2005"
abbreviation (input) OP_LE_SET_ADV_PARAMS :: nat where "OP_LE_SET_ADV_PARAMS \<equiv> 0x2006"
abbreviation (input) OP_LE_READ_ADV_TX_POWER :: nat where "OP_LE_READ_ADV_TX_POWER \<equiv> 0x2007"
abbreviation (input) OP_LE_SET_ADV_DATA :: nat where "OP_LE_SET_ADV_DATA \<equiv> 0x2008"
abbreviation (input) OP_LE_SET_SCAN_RSP_DATA :: nat where "OP_LE_SET_SCAN_RSP_DATA \<equiv> 0x2009"
abbreviation (input) OP_LE_SET_ADV_ENABLE :: nat where "OP_LE_SET_ADV_ENABLE \<equiv> 0x200a"
abbreviation (input) OP_LE_SET_SCAN_PARAMS :: nat where "OP_LE_SET_SCAN_PARAMS \<equiv> 0x200b"
abbreviation (input) OP_LE_SET_SCAN_ENABLE :: nat where "OP_LE_SET_SCAN_ENABLE \<equiv> 0x200c"
abbreviation (input) OP_LE_CREATE_CONN :: nat where "OP_LE_CREATE_CONN \<equiv> 0x200d"
abbreviation (input) OP_LE_CREATE_CONN_CANCEL :: nat where "OP_LE_CREATE_CONN_CANCEL \<equiv> 0x200e"
abbreviation (input) OP_LE_READ_FAL_SIZE :: nat where "OP_LE_READ_FAL_SIZE \<equiv> 0x200f"
abbreviation (input) OP_LE_CLEAR_FAL :: nat where "OP_LE_CLEAR_FAL \<equiv> 0x2010"
abbreviation (input) OP_LE_CONN_UPDATE :: nat where "OP_LE_CONN_UPDATE \<equiv> 0x2013"
abbreviation (input) OP_LE_READ_REMOTE_FEATURES :: nat where "OP_LE_READ_REMOTE_FEATURES \<equiv> 0x2016"
abbreviation (input) OP_LE_RAND :: nat where "OP_LE_RAND \<equiv> 0x2018"
abbreviation (input) OP_LE_START_ENCRYPTION :: nat where "OP_LE_START_ENCRYPTION \<equiv> 0x2019"
abbreviation (input) OP_LE_LTK_REPLY :: nat where "OP_LE_LTK_REPLY \<equiv> 0x201a"
abbreviation (input) OP_LE_LTK_NEG_REPLY :: nat where "OP_LE_LTK_NEG_REPLY \<equiv> 0x201b"

text \<open>The object \<open>OP\<close>: every command the controller knows, in the source's order.\<close>

definition OPS :: "nat list" where
  "OPS = [OP_DISCONNECT, OP_READ_REMOTE_VERSION, OP_SET_EVENT_MASK, OP_RESET,
    OP_READ_LOCAL_VERSION, OP_READ_LOCAL_COMMANDS, OP_READ_LOCAL_FEATURES, OP_READ_BD_ADDR,
    OP_LE_SET_EVENT_MASK, OP_LE_READ_BUFFER_SIZE, OP_LE_READ_LOCAL_FEATURES,
    OP_LE_SET_RANDOM_ADDRESS, OP_LE_SET_ADV_PARAMS, OP_LE_READ_ADV_TX_POWER, OP_LE_SET_ADV_DATA,
    OP_LE_SET_SCAN_RSP_DATA, OP_LE_SET_ADV_ENABLE, OP_LE_SET_SCAN_PARAMS, OP_LE_SET_SCAN_ENABLE,
    OP_LE_CREATE_CONN, OP_LE_CREATE_CONN_CANCEL, OP_LE_READ_FAL_SIZE, OP_LE_CLEAR_FAL,
    OP_LE_CONN_UPDATE, OP_LE_READ_REMOTE_FEATURES, OP_LE_RAND, OP_LE_START_ENCRYPTION,
    OP_LE_LTK_REPLY, OP_LE_LTK_NEG_REPLY]"

definition SUPPORTED :: "(nat \<times> nat) list" where
  "SUPPORTED = [(0, 5), (2, 7), (5, 6), (5, 7), (14, 3), (14, 5), (15, 1),
    (25, 0), (25, 1), (25, 2), (25, 4), (25, 5), (25, 6), (25, 7),
    (26, 0), (26, 1), (26, 2), (26, 3), (26, 4), (26, 5), (26, 6), (26, 7),
    (27, 2), (27, 5), (27, 7), (28, 0), (28, 1), (28, 2)]"

section \<open>State\<close>

record adv =
  adv_type :: "nat option"
  adv_own_type :: nat
  adv_interval :: ns
  adv_data :: "nat list"
  adv_scan_rsp :: "nat list"
  adv_enabled :: bool
  adv_next :: "ns option"

text \<open>\<open>seen\<close> holds strings \<open>type:addrType:addr\<close>; the triple is the same key.\<close>

record scan =
  scan_active :: bool
  scan_enabled :: bool
  filter_dup :: bool
  seen :: "(nat option \<times> nat \<times> nat list) list"

record initiator =
  ini_peer_type :: nat
  ini_peer_addr :: "nat list"
  ini_own_type :: nat
  ini_interval :: nat
  ini_latency :: nat
  ini_timeout :: nat

record acl =
  acl_pb :: nat
  acl_data :: "nat list"

record link =
  handle :: nat
  link_key :: nat
  role :: nat
  peer_type :: nat
  peer_addr :: "nat list"
  interval :: nat
  latency :: nat
  timeout :: nat
  interval_ns :: ns
  anchor_ns :: ns
  since :: ns
  tx :: "acl list"
  pending :: "(nat \<times> nat list) list"
  encrypted :: bool
  enc_pending :: "nat list option"

text \<open>A PDU on the air, by its \<open>kind\<close>. The fields are in the source's order, the link's key last.\<close>

datatype pdu =
  Adv "nat option" nat "nat list" "nat list" "nat list"
| Connect nat "nat list" nat "nat list" nat nat nat nat
| Acl nat "nat list" nat
| Update nat nat nat nat
| EncReq "nat list" "nat list" "nat list" nat
| EncRsp bool nat
| Terminate nat nat

text \<open>\<open>BtController.s\<close>\<close>

record bt_state =
  rx :: "nat list"
  rx_taken :: nat
  rx_raised_at :: nat
  rx_ready_ns :: ns
  pkt :: "nat list"
  rng :: "32 word"
  random_addr :: "nat list option"
  adv :: adv
  scan :: scan
  initiating :: "initiator option"
  conns :: "link list"
  air :: "(ns \<times> pdu) list"
  air_sent :: nat
  air_received :: nat

text \<open>The controller: its state, its address, whether it was given \<open>airSend\<close>, and what it has handed
  to \<open>airSend\<close>, in order, each PDU with the time it goes. The callback (\<open>Host.btController\<close>) takes
  the PDUs from there.\<close>

record bt = bt_state +
  address :: "nat list"
  has_air :: bool
  outbox :: "(ns \<times> pdu) list"

definition initial_adv :: adv where
  "initial_adv = \<lparr>adv_type = Some ADV_IND, adv_own_type = 0, adv_interval = 100000000,
    adv_data = [], adv_scan_rsp = [], adv_enabled = False, adv_next = None\<rparr>"

definition initial_scan :: scan where
  "initial_scan = \<lparr>scan_active = False, scan_enabled = False, filter_dup = False, seen = []\<rparr>"

definition initial_state :: "32 word \<Rightarrow> bt_state" where
  "initial_state seed = \<lparr>rx = [], rx_taken = 0, rx_raised_at = 0, rx_ready_ns = 0, pkt = [],
    rng = (if seed = 0 then 1 else seed), random_addr = None, adv = initial_adv,
    scan = initial_scan, initiating = None, conns = [], air = [], air_sent = 0,
    air_received = 0\<rparr>"

text \<open>\<open>new BtController(opts)\<close>\<close>

definition new_bt :: "nat list \<Rightarrow> 32 word \<Rightarrow> bool \<Rightarrow> bt" where
  "new_bt addr seed air_given =
    bt_state.extend (initial_state seed) (bt.fields addr air_given [])"

text \<open>\<open>this.s = ...\<close>: everything but the state stays.\<close>

definition set_state :: "bt_state \<Rightarrow> bt \<Rightarrow> bt" where
  "set_state st b = bt_state.extend st (bt.fields (address b) (has_air b) (outbox b))"

definition snapshot :: "bt \<Rightarrow> bt_state" where
  "snapshot b = bt_state.truncate b"

definition restore :: "bt_state \<Rightarrow> bt \<Rightarrow> bt" where
  "restore st b = set_state st b"

section \<open>The UART, guest side\<close>

definition rx_ready :: "ns \<Rightarrow> bt \<Rightarrow> bool" where
  "rx_ready now b \<longleftrightarrow> rx b \<noteq> [] \<and> now \<ge> rx_ready_ns b"

definition rx_take :: "ns \<Rightarrow> bt \<Rightarrow> int \<times> bt" where
  "rx_take now b =
    (if \<not> rx_ready now b then (- 1, b)
     else (int (hd (rx b)),
       b\<lparr>rx_taken := rx_taken b + 1, rx_ready_ns := now + HCI_BYTE_NS, rx := tl (rx b)\<rparr>))"

interpretation bt_uart: uart_wire rx rx_ready_ns rx_taken rx_take HCI_BYTE_NS
  by unfold_locales (auto simp: rx_take_def rx_ready_def HCI_BYTE_NS_def)

section \<open>Events to the host\<close>

definition event :: "nat \<Rightarrow> nat list \<Rightarrow> bt \<Rightarrow> bt" where
  "event code params b = b\<lparr>rx := rx b @ [H4_EVT, code, length params] @ params\<rparr>"

definition le_meta :: "nat \<Rightarrow> nat list \<Rightarrow> bt \<Rightarrow> bt" where
  "le_meta sub params = event EVT_LE_META (sub # params)"

definition complete :: "nat \<Rightarrow> nat list \<Rightarrow> bt \<Rightarrow> bt" where
  "complete op params = event EVT_CMD_COMPLETE ([1] @ le16 op @ params)"

definition status :: "nat \<Rightarrow> nat \<Rightarrow> bt \<Rightarrow> bt" where
  "status op st = event EVT_CMD_STATUS ([st, 1] @ le16 op)"

definition rand8 :: "bt \<Rightarrow> nat list \<times> bt" where
  "rand8 b = (let (out, x) = random_bytes 8 (rng b) in (out, b\<lparr>rng := x\<rparr>))"

section \<open>Links\<close>

definition by_handle :: "nat \<Rightarrow> bt \<Rightarrow> link option" where
  "by_handle h b = find (\<lambda>c. handle c = h) (conns b)"

definition by_key :: "nat \<Rightarrow> bt \<Rightarrow> link option" where
  "by_key k b = find (\<lambda>c. link_key c = k) (conns b)"

text \<open>A write to the fields of link \<open>c\<close>.\<close>

definition upd_link :: "nat \<Rightarrow> (link \<Rightarrow> link) \<Rightarrow> bt \<Rightarrow> bt" where
  "upd_link h f b = b\<lparr>conns := map (\<lambda>c. if handle c = h then f c else c) (conns b)\<rparr>"

definition drop_link :: "nat \<Rightarrow> bt \<Rightarrow> bt" where
  "drop_link h b = b\<lparr>conns := filter (\<lambda>x. handle x \<noteq> h) (conns b)\<rparr>"

definition send :: "pdu \<Rightarrow> ns \<Rightarrow> bt \<Rightarrow> bt" where
  "send p at b =
    (let b = b\<lparr>air_sent := air_sent b + 1\<rparr>
     in if has_air b then b\<lparr>outbox := outbox b @ [(at, p)]\<rparr> else b)"

text \<open>\<open>{ ...pdu, key: c.key }\<close>: the PDU is what the key completes.\<close>

definition send_on :: "link \<Rightarrow> (nat \<Rightarrow> pdu) \<Rightarrow> ns \<Rightarrow> bt \<Rightarrow> bt" where
  "send_on c p at = send (p (link_key c)) at"

definition own_address :: "nat \<Rightarrow> bt \<Rightarrow> nat \<times> nat list" where
  "own_address own_type b =
    (case random_addr b of
      Some a \<Rightarrow> if odd own_type then (1, a) else (0, address b)
    | None \<Rightarrow> (0, address b))"

definition link_encrypted :: "link \<Rightarrow> nat \<Rightarrow> bt \<Rightarrow> bt" where
  "link_encrypted c st b =
    (if st \<noteq> OK then event EVT_ENCRYPT_CHANGE ([st] @ le16 (handle c) @ [0x00]) b
     else if encrypted c then event EVT_KEY_REFRESH_COMPLETE ([OK] @ le16 (handle c)) b
     else event EVT_ENCRYPT_CHANGE ([OK] @ le16 (handle c) @ [0x01])
       (upd_link (handle c) (\<lambda>c. c\<lparr>encrypted := True\<rparr>) b))"

definition apply_update :: "link \<Rightarrow> nat \<Rightarrow> nat \<Rightarrow> nat \<Rightarrow> ns \<Rightarrow> bt \<Rightarrow> bt" where
  "apply_update c ivl lat tmo at b =
    le_meta LE_CONN_UPDATE_COMPLETE ([OK] @ le16 (handle c) @ le16 ivl @ le16 lat @ le16 tmo)
      (upd_link (handle c) (\<lambda>c. c\<lparr>interval_ns := int ivl * UNIT_CONN_NS, anchor_ns := at,
         interval := ivl, latency := lat, timeout := tmo\<rparr>) b)"

text \<open>\<open>let handle = 0; while (this.byHandle(handle)) handle++;\<close>\<close>

function free_handle :: "nat \<Rightarrow> bt \<Rightarrow> nat" where
  "free_handle h b = (if by_handle h b \<noteq> None then free_handle (h + 1) b else h)"
  by pat_completeness auto
termination
proof (relation "measure (\<lambda>(h, b). card {c \<in> handle ` set (conns b). h \<le> c})")
  fix h :: nat and b :: bt
  assume "by_handle h b \<noteq> None"
  then have h: "h \<in> handle ` set (conns b)"
    by (auto simp: by_handle_def find_Some_iff)
  have "{c \<in> handle ` set (conns b). h + 1 \<le> c} \<subset> {c \<in> handle ` set (conns b). h \<le> c}"
    using h by (intro psubsetI) (auto dest!: eqset_imp_iff [of _ _ h])
  then show "((h + 1, b), h, b) \<in> measure (\<lambda>(h, b). card {c \<in> handle ` set (conns b). h \<le> c})"
    by (simp add: psubset_card_mono)
qed simp

declare free_handle.simps [simp del]

text \<open>The new link goes to the end of \<open>conns\<close>; its handle, and its key when none is given, are the
  lowest free handle.\<close>

definition new_link :: "nat \<Rightarrow> nat option \<Rightarrow> nat \<Rightarrow> nat list \<Rightarrow> nat \<Rightarrow> nat \<Rightarrow> nat \<Rightarrow> ns \<Rightarrow> bt \<Rightarrow> link" where
  "new_link rl key ptype paddr ivl lat tmo at b =
    (let h = free_handle 0 b
     in \<lparr>handle = h, link_key = (case key of Some k \<Rightarrow> k | None \<Rightarrow> h), role = rl,
         peer_type = ptype, peer_addr = paddr, interval = ivl, latency = lat, timeout = tmo,
         interval_ns = int ivl * UNIT_CONN_NS, anchor_ns = at, since = at, tx = [],
         pending = [], encrypted = False, enc_pending = None\<rparr>)"

definition connect :: "link \<Rightarrow> bt \<Rightarrow> bt" where
  "connect c b =
    le_meta LE_CONN_COMPLETE ([OK] @ le16 (handle c) @ [role c, peer_type c] @ peer_addr c
        @ le16 (interval c) @ le16 (latency c) @ le16 (timeout c) @ [0x00])
      (b\<lparr>conns := conns b @ [c]\<rparr>)"

section \<open>Commands\<close>

definition cmd_reset :: "bt \<Rightarrow> bt" where
  "cmd_reset b = complete OP_RESET [OK]
    (set_state ((initial_state (rng b))\<lparr>rx := rx b, rx_taken := rx_taken b,
       rx_raised_at := rx_raised_at b, rx_ready_ns := rx_ready_ns b, air_sent := air_sent b,
       air_received := air_received b\<rparr>) b)"

definition local_commands :: "nat list" where
  "local_commands =
    fold (\<lambda>(octet, bit) bits. bits[octet := bits ! octet OR push_bit bit 1]) SUPPORTED
      (replicate 64 0)"

definition cmd_adv_params :: "nat list \<Rightarrow> bt \<Rightarrow> bt" where
  "cmd_adv_params p b =
    (if adv_enabled (adv b) then complete OP_LE_SET_ADV_PARAMS [DISALLOWED] b
     else complete OP_LE_SET_ADV_PARAMS [OK]
       (b\<lparr>adv := (adv b)\<lparr>adv_interval := int (rd16 p 0) * UNIT_ADV_NS,
          adv_type := (if 4 < length p then Some (p ! 4) else None),
          adv_own_type := byte_at p 5\<rparr>\<rparr>))"

definition cmd_adv_enable :: "nat list \<Rightarrow> ns \<Rightarrow> bt \<Rightarrow> bt" where
  "cmd_adv_enable p now b =
    (let on = byte_at p 0 \<noteq> 0
     in complete OP_LE_SET_ADV_ENABLE [OK]
       (b\<lparr>adv := (adv b)\<lparr>adv_enabled := on, adv_next := (if on then Some now else None)\<rparr>\<rparr>))"

definition cmd_scan_params :: "nat list \<Rightarrow> bt \<Rightarrow> bt" where
  "cmd_scan_params p b =
    (if scan_enabled (scan b) then complete OP_LE_SET_SCAN_PARAMS [DISALLOWED] b
     else complete OP_LE_SET_SCAN_PARAMS [OK]
       (b\<lparr>scan := (scan b)\<lparr>scan_active := byte_at p 0 = 1\<rparr>\<rparr>))"

definition cmd_scan_enable :: "nat list \<Rightarrow> bt \<Rightarrow> bt" where
  "cmd_scan_enable p b = complete OP_LE_SET_SCAN_ENABLE [OK]
    (b\<lparr>scan := (scan b)\<lparr>scan_enabled := byte_at p 0 \<noteq> 0, filter_dup := byte_at p 1 \<noteq> 0,
       seen := []\<rparr>\<rparr>)"

definition cmd_create_conn :: "nat list \<Rightarrow> bt \<Rightarrow> bt" where
  "cmd_create_conn p b =
    (if initiating b \<noteq> None then status OP_LE_CREATE_CONN DISALLOWED b
     else if length (conns b) \<ge> MAX_LINKS then status OP_LE_CREATE_CONN CONN_LIMIT b
     else status OP_LE_CREATE_CONN OK
       (b\<lparr>initiating := Some \<lparr>ini_peer_type = byte_at p 5, ini_peer_addr = js_slice p 6 12,
          ini_own_type = byte_at p 12, ini_interval = rd16 p 13, ini_latency = rd16 p 17,
          ini_timeout = rd16 p 19\<rparr>\<rparr>))"

definition cmd_create_conn_cancel :: "bt \<Rightarrow> bt" where
  "cmd_create_conn_cancel b =
    (if initiating b = None then complete OP_LE_CREATE_CONN_CANCEL [DISALLOWED] b
     else le_meta LE_CONN_COMPLETE (UNKNOWN_CONN # replicate 17 0)
       (complete OP_LE_CREATE_CONN_CANCEL [OK] (b\<lparr>initiating := None\<rparr>)))"

definition cmd_rand :: "bt \<Rightarrow> bt" where
  "cmd_rand b = (let (out, b) = rand8 b in complete OP_LE_RAND (OK # out) b)"

definition cmd_ltk :: "nat \<Rightarrow> nat list \<Rightarrow> ns \<Rightarrow> bt \<Rightarrow> bt" where
  "cmd_ltk op p now b =
    (let h = rd16 p 0 mod 4096
     in case by_handle h b of
       None \<Rightarrow> complete op ([DISALLOWED] @ le16 h) b
     | Some c \<Rightarrow>
       (case enc_pending c of
         None \<Rightarrow> complete op ([DISALLOWED] @ le16 h) b
       | Some theirs \<Rightarrow>
         (let b = upd_link h (\<lambda>c. c\<lparr>enc_pending := None\<rparr>) (complete op ([OK] @ le16 h) b)
          in if op = OP_LE_LTK_NEG_REPLY then send_on c (EncRsp False) now b
             else if every_eq (js_slice p 2 18) theirs
             then send_on c (EncRsp True) now (link_encrypted c OK b)
             else drop_link (handle c)
               (event EVT_DISCONN_COMPLETE ([OK] @ le16 (handle c) @ [MIC_FAILURE])
                 (send_on c (Terminate MIC_FAILURE) now b)))))"

definition cmd_on_link :: "nat \<Rightarrow> nat list \<Rightarrow> bt \<Rightarrow> bt" where
  "cmd_on_link op p b =
    (let h = rd16 p 0 mod 4096
     in case by_handle h b of
       None \<Rightarrow> status op UNKNOWN_CONN b
     | Some c \<Rightarrow> upd_link h (\<lambda>c. c\<lparr>pending := pending c @ [(op, p)]\<rparr>) (status op OK b))"

definition command :: "nat \<Rightarrow> nat list \<Rightarrow> ns \<Rightarrow> bt \<Rightarrow> bt" where
  "command op p now b =
    (if op = OP_RESET then cmd_reset b
     else if op = OP_SET_EVENT_MASK \<or> op = OP_LE_SET_EVENT_MASK \<or> op = OP_LE_CLEAR_FAL
       then complete op [OK] b
     else if op = OP_READ_LOCAL_VERSION
       then complete op ([OK, 0x09] @ le16 0 @ [0x09] @ le16 0xffff @ le16 0) b
     else if op = OP_READ_LOCAL_COMMANDS then complete op (OK # local_commands) b
     else if op = OP_READ_LOCAL_FEATURES
       then complete op (OK # (replicate 8 0)[4 := 0x40 OR 0x20]) b
     else if op = OP_READ_BD_ADDR then complete op (OK # address b) b
     else if op = OP_LE_READ_BUFFER_SIZE then complete op ([OK] @ le16 ACL_LEN @ [ACL_NUM]) b
     else if op = OP_LE_READ_LOCAL_FEATURES then complete op [OK, 0x01, 0, 0, 0, 0, 0, 0, 0] b
     else if op = OP_LE_SET_RANDOM_ADDRESS
       then complete op [OK] (b\<lparr>random_addr := Some (js_slice p 0 6)\<rparr>)
     else if op = OP_LE_SET_ADV_PARAMS then cmd_adv_params p b
     else if op = OP_LE_READ_ADV_TX_POWER then complete op [OK, 0] b
     else if op = OP_LE_SET_ADV_DATA
       then complete op [OK]
         (b\<lparr>adv := (adv b)\<lparr>adv_data := js_slice p 1 (1 + min (byte_at p 0) 31)\<rparr>\<rparr>)
     else if op = OP_LE_SET_SCAN_RSP_DATA
       then complete op [OK]
         (b\<lparr>adv := (adv b)\<lparr>adv_scan_rsp := js_slice p 1 (1 + min (byte_at p 0) 31)\<rparr>\<rparr>)
     else if op = OP_LE_SET_ADV_ENABLE then cmd_adv_enable p now b
     else if op = OP_LE_SET_SCAN_PARAMS then cmd_scan_params p b
     else if op = OP_LE_SET_SCAN_ENABLE then cmd_scan_enable p b
     else if op = OP_LE_CREATE_CONN then cmd_create_conn p b
     else if op = OP_LE_CREATE_CONN_CANCEL then cmd_create_conn_cancel b
     else if op = OP_LE_READ_FAL_SIZE then complete op [OK, 8] b
     else if op = OP_LE_RAND then cmd_rand b
     else if op = OP_LE_LTK_REPLY \<or> op = OP_LE_LTK_NEG_REPLY then cmd_ltk op p now b
     else if op = OP_LE_START_ENCRYPTION \<or> op = OP_LE_CONN_UPDATE
         \<or> op = OP_LE_READ_REMOTE_FEATURES \<or> op = OP_READ_REMOTE_VERSION \<or> op = OP_DISCONNECT
       then cmd_on_link op p b
     else complete op [UNKNOWN_COMMAND] b)"

section \<open>Bytes from the host\<close>

definition acl_from_host :: "nat list \<Rightarrow> bt \<Rightarrow> bt" where
  "acl_from_host pk b =
    (let hdr = rd16 pk 0
     in case by_handle (hdr mod 4096) b of
       None \<Rightarrow> b
     | Some c \<Rightarrow>
       (let pb = (hdr div 4096) mod 4
        in upd_link (handle c) (\<lambda>c. c\<lparr>tx := tx c @
             [\<lparr>acl_pb = (if pb = 1 then 1 else 2), acl_data = drop 4 pk\<rparr>]\<rparr>) b))"

definition from_host :: "nat \<Rightarrow> ns \<Rightarrow> bt \<Rightarrow> bt" where
  "from_host byte now b =
    (let p = pkt b @ [byte]; type = hd p
     in if type = H4_CMD
        then (if length p \<ge> 4 \<and> length p = 4 + byte_at p 3
              then command (rd16 p 1) (drop 4 p) now (b\<lparr>pkt := []\<rparr>)
              else b\<lparr>pkt := p\<rparr>)
        else if type = H4_ACL
        then (if length p \<ge> 5 \<and> length p = 5 + rd16 p 3
              then acl_from_host (drop 1 p) (b\<lparr>pkt := []\<rparr>)
              else b\<lparr>pkt := p\<rparr>)
        else b\<lparr>pkt := []\<rparr>)"

text \<open>The guest writes its bytes one by one.\<close>

definition from_host_all :: "nat list \<Rightarrow> ns \<Rightarrow> bt \<Rightarrow> bt" where
  "from_host_all bs now b = fold (\<lambda>x. from_host x now) bs b"

end
