(* ===== verification/Bt_Radio.thy ===== *)
theory Bt_Radio
  imports Bt
begin

text \<open>
  The radio side of the controller of host/bt.mjs: PDUs out of an advertising or a connection event,
  PDUs in from the other board's controller, and the clock that drives them (\<open>advance\<close>).
\<close>

section \<open>The radio\<close>

definition adv_event :: "ns \<Rightarrow> bt \<Rightarrow> bt" where
  "adv_event at b =
    (let b = b\<lparr>adv := (adv b)\<lparr>adv_next := Some (at + adv_interval (adv b))\<rparr>\<rparr>;
         own = own_address (adv_own_type (adv b)) b
     in send (Adv (adv_type (adv b)) (fst own) (snd own) (adv_data (adv b))
          (adv_scan_rsp (adv b))) at b)"

text \<open>One pending procedure; \<open>break\<close> once the link is gone, since nothing after it can bring it
  back.\<close>

definition conn_procedure :: "link \<Rightarrow> ns \<Rightarrow> nat \<times> nat list \<Rightarrow> bt \<Rightarrow> bt" where
  "conn_procedure c at opp b =
    (let (op, p) = opp
     in if by_handle (handle c) b = None then b
     else if op = OP_DISCONNECT
       then drop_link (handle c)
         (event EVT_DISCONN_COMPLETE ([OK] @ le16 (handle c) @ [LOCAL_HOST_TERMINATED])
           (send_on c (Terminate (byte_at p 2)) at b))
     else if op = OP_LE_CONN_UPDATE
       then apply_update c (rd16 p 4) (rd16 p 6) (rd16 p 8) at
         (send_on c (Update (rd16 p 4) (rd16 p 6) (rd16 p 8)) at b)
     else if op = OP_LE_START_ENCRYPTION
       then send_on c (EncReq (js_slice p 2 10) (js_slice p 10 12) (js_slice p 12 28)) at b
     else if op = OP_LE_READ_REMOTE_FEATURES
       then le_meta LE_REMOTE_FEATURES ([OK] @ le16 (handle c) @ [0x01, 0, 0, 0, 0, 0, 0, 0]) b
     else if op = OP_READ_REMOTE_VERSION
       then event EVT_REMOTE_VERSION
         ([OK] @ le16 (handle c) @ [0x09] @ le16 0xffff @ le16 0) b
     else b)"

definition conn_event :: "link \<Rightarrow> ns \<Rightarrow> bt \<Rightarrow> bt" where
  "conn_event c at b =
    (let sent = length (tx c);
         b = fold (\<lambda>pk. send_on c (Acl (acl_pb pk) (acl_data pk)) at) (tx c) b;
         b = upd_link (handle c) (\<lambda>c. c\<lparr>tx := []\<rparr>) b;
         b = (if sent > 0
              then event EVT_NUM_COMPLETED ([1] @ le16 (handle c) @ le16 sent) b else b);
         b = upd_link (handle c) (\<lambda>c. c\<lparr>pending := []\<rparr>) b;
         b = fold (conn_procedure c at) (pending c) b
     in upd_link (handle c) (\<lambda>c. c\<lparr>since := at + 1\<rparr>) b)"

text \<open>An \<open>undefined\<close> type reaches the guest as the byte 0.\<close>

definition report :: "nat option \<Rightarrow> nat \<Rightarrow> nat list \<Rightarrow> nat list \<Rightarrow> bt \<Rightarrow> bt" where
  "report type atype addr dat b =
    (let key = (type, atype, addr);
         ev = le_meta LE_ADV_REPORT ([1, case type of Some t \<Rightarrow> t | None \<Rightarrow> 0, atype] @ addr
           @ [length dat] @ dat @ [rssi_byte])
     in if filter_dup (scan b)
        then (if key \<in> set (seen (scan b)) then b
              else ev (b\<lparr>scan := (scan b)\<lparr>seen := seen (scan b) @ [key]\<rparr>\<rparr>))
        else ev b)"

definition connectable :: "nat option \<Rightarrow> bool" where
  "connectable t \<longleftrightarrow> t = Some ADV_IND \<or> t = Some ADV_DIRECT_IND \<or> t = Some ADV_DIRECT_IND_LOW"

definition scannable :: "nat option \<Rightarrow> bool" where
  "scannable t \<longleftrightarrow> t = Some ADV_IND \<or> t = Some ADV_SCAN_IND"

definition directed :: "nat option \<Rightarrow> bool" where
  "directed t \<longleftrightarrow> t = Some ADV_DIRECT_IND \<or> t = Some ADV_DIRECT_IND_LOW"

text \<open>Does the initiator want this advertiser?\<close>

definition wants :: "bt \<Rightarrow> nat option \<Rightarrow> nat \<Rightarrow> nat list \<Rightarrow> bool" where
  "wants b type atype addr \<longleftrightarrow>
    (case initiating b of
      None \<Rightarrow> False
    | Some ini \<Rightarrow> connectable type \<and> atype = ini_peer_type ini mod 2 \<and>
        every_eq addr (ini_peer_addr ini))"

definition receive_adv ::
  "nat option \<Rightarrow> nat \<Rightarrow> nat list \<Rightarrow> nat list \<Rightarrow> nat list \<Rightarrow> ns \<Rightarrow> bt \<Rightarrow> bt" where
  "receive_adv type atype addr dat rsp at b =
    (if wants b type atype addr
     then (let ini = the (initiating b);
               b = b\<lparr>initiating := None\<rparr>;
               own = own_address (ini_own_type ini) b;
               c = new_link 0x00 None atype addr (ini_interval ini) (ini_latency ini)
                 (ini_timeout ini) at b
           in send_on c (Connect (fst own) (snd own) atype addr (ini_interval ini)
                (ini_latency ini) (ini_timeout ini)) at (connect c b))
     else if \<not> scan_enabled (scan b) then b
     else (let t = (if type = Some ADV_DIRECT_IND_LOW then Some ADV_DIRECT_IND else type);
               b = report t atype addr (if directed type then [] else dat) b
           in if scan_active (scan b) \<and> scannable type
              then report (Some SCAN_RSP) atype addr rsp b else b))"

definition receive_connect ::
  "nat \<Rightarrow> nat list \<Rightarrow> nat \<Rightarrow> nat list \<Rightarrow> nat \<Rightarrow> nat \<Rightarrow> nat \<Rightarrow> nat \<Rightarrow> ns \<Rightarrow> bt \<Rightarrow> bt" where
  "receive_connect atype addr ttype target ivl lat tmo key at b =
    (let own = own_address (adv_own_type (adv b)) b
     in if \<not> adv_enabled (adv b) \<or> length (conns b) \<ge> MAX_LINKS \<or>
           \<not> connectable (adv_type (adv b)) \<or> ttype \<noteq> fst own \<or> \<not> every_eq target (snd own)
        then b
        else (let b = b\<lparr>adv := (adv b)\<lparr>adv_enabled := False, adv_next := None\<rparr>\<rparr>
              in connect (new_link 0x01 (Some key) atype addr ivl lat tmo at b) b))"

definition receive_on_link :: "pdu \<Rightarrow> link \<Rightarrow> ns \<Rightarrow> bt \<Rightarrow> bt" where
  "receive_on_link p c at b =
    (case p of
      Acl pb dat _ \<Rightarrow>
        b\<lparr>rx := rx b @ [H4_ACL] @ le16 (handle c OR push_bit 12 pb) @ le16 (length dat) @ dat\<rparr>
    | Update ivl lat tmo _ \<Rightarrow> apply_update c ivl lat tmo at b
    | EncReq rand ediv ltk _ \<Rightarrow>
        le_meta LE_LTK_REQUEST (le16 (handle c) @ rand @ ediv)
          (upd_link (handle c) (\<lambda>c. c\<lparr>enc_pending := Some ltk\<rparr>) b)
    | EncRsp ok _ \<Rightarrow> link_encrypted c (if ok then OK else KEY_MISSING) b
    | Terminate reason _ \<Rightarrow>
        drop_link (handle c)
          (event EVT_DISCONN_COMPLETE ([OK] @ le16 (handle c) @ [reason]) b)
    | _ \<Rightarrow> b)"

text \<open>The link a PDU's key names, for the PDUs that are about a link.\<close>

fun pdu_key :: "pdu \<Rightarrow> nat option" where
  "pdu_key (Acl _ _ k) = Some k"
| "pdu_key (Update _ _ _ k) = Some k"
| "pdu_key (EncReq _ _ _ k) = Some k"
| "pdu_key (EncRsp _ k) = Some k"
| "pdu_key (Terminate _ k) = Some k"
| "pdu_key _ = None"

definition receive_keyed :: "pdu \<Rightarrow> nat \<Rightarrow> ns \<Rightarrow> bt \<Rightarrow> bt" where
  "receive_keyed p k at b =
    (case by_key k b of None \<Rightarrow> b | Some c \<Rightarrow> receive_on_link p c at b)"

definition receive :: "pdu \<Rightarrow> ns \<Rightarrow> bt \<Rightarrow> bt" where
  "receive p at b =
    (let b = b\<lparr>air_received := air_received b + 1\<rparr>
     in case p of
       Adv type atype addr dat rsp \<Rightarrow> receive_adv type atype addr dat rsp at b
     | Connect atype addr ttype target ivl lat tmo key \<Rightarrow>
         receive_connect atype addr ttype target ivl lat tmo key at b
     | Acl _ _ k \<Rightarrow> receive_keyed p k at b
     | Update _ _ _ k \<Rightarrow> receive_keyed p k at b
     | EncReq _ _ _ k \<Rightarrow> receive_keyed p k at b
     | EncRsp _ k \<Rightarrow> receive_keyed p k at b
     | Terminate _ k \<Rightarrow> receive_keyed p k at b)"

text \<open>A PDU from the other controller joins those on their way, by arrival time.\<close>

definition from_air :: "ns \<Rightarrow> pdu \<Rightarrow> bt \<Rightarrow> bt" where
  "from_air at p b = b\<lparr>air := tq_insert at p (air b)\<rparr>"

interpretation bt_air: timed_queue air from_air "\<lambda>_. True"
  by unfold_locales (simp_all add: from_air_def)

section \<open>Time\<close>

text \<open>The first connection event of \<open>c\<close> at or after \<open>t\<close>. BigInt division by a zero interval throws
  a \<open>RangeError\<close>.\<close>

definition conn_event_at :: "link \<Rightarrow> ns \<Rightarrow> js_error + ns" where
  "conn_event_at c t =
    (if t \<le> anchor_ns c then Inr (anchor_ns c)
     else if interval_ns c = 0 then Inl RangeError
     else (let n = (t - anchor_ns c + interval_ns c - 1) div interval_ns c
           in Inr (anchor_ns c + n * interval_ns c)))"

definition has_work :: "link \<Rightarrow> bool" where
  "has_work c \<longleftrightarrow> tx c \<noteq> [] \<or> pending c \<noteq> []"

fun next_link_in :: "link list \<Rightarrow> (link \<times> ns) option \<Rightarrow> js_error + (link \<times> ns) option" where
  "next_link_in [] best = Inr best"
| "next_link_in (c # cs) best =
    (if \<not> has_work c then next_link_in cs best
     else case conn_event_at c (since c) of
       Inl e \<Rightarrow> Inl e
     | Inr at \<Rightarrow>
       next_link_in cs
         (case best of None \<Rightarrow> Some (c, at)
          | Some (_, best_at) \<Rightarrow> if at < best_at then Some (c, at) else best))"

definition next_link :: "bt \<Rightarrow> js_error + (link \<times> ns) option" where
  "next_link b = next_link_in (conns b) None"

definition adv_at :: "bt \<Rightarrow> ns option" where
  "adv_at b = (if adv_enabled (adv b) then adv_next (adv b) else None)"

definition air_at :: "bt \<Rightarrow> ns option" where
  "air_at b = (case air b of [] \<Rightarrow> None | e # _ \<Rightarrow> Some (fst e))"

definition next_ns :: "ns \<Rightarrow> bt \<Rightarrow> js_error + ns option" where
  "next_ns now b =
    (case next_link b of
      Inl e \<Rightarrow> Inl e
    | Inr link \<Rightarrow>
      (let at = (if rx b \<noteq> [] \<and> rx_ready_ns b > now then Some (rx_ready_ns b) else None);
           at = min_big at (adv_at b);
           at = min_big at (map_option snd link)
       in Inr (min_big at (air_at b))))"

text \<open>One round of \<open>advance\<close>'s loop: \<open>None\<close> when nothing is due by \<open>now\<close>. Ties go to what arrived,
  then to the connection, then to advertising.\<close>

definition due_event :: "ns \<Rightarrow> bt \<Rightarrow> js_error + bt option" where
  "due_event now b =
    (case next_link b of
      Inl e \<Rightarrow> Inl e
    | Inr link \<Rightarrow>
      (case min_big (min_big (adv_at b) (map_option snd link)) (air_at b) of
        None \<Rightarrow> Inr None
      | Some at \<Rightarrow>
        if at > now then Inr None
        else if air_at b = Some at
          then Inr (Some (receive (snd (hd (air b))) at (b\<lparr>air := tl (air b)\<rparr>)))
        else if map_option snd link = Some at
          then Inr (Some (conn_event (fst (the link)) at b))
        else Inr (Some (adv_event at b))))"

text \<open>The loop itself. \<open>None\<close> is a call that never returns.\<close>

partial_function (option) advance :: "ns \<Rightarrow> bt \<Rightarrow> (js_error + bt) option" where
  "advance now b =
    (case due_event now b of
      Inl e \<Rightarrow> Some (Inl e)
    | Inr None \<Rightarrow> Some (Inr b)
    | Inr (Some b') \<Rightarrow> advance now b')"

end
