(* ===== verification/Bt_Events.thy ===== *)
theory Bt_Events
  imports Bt_Radio
begin

text \<open>
  What the controller of host/bt.mjs says to the host, and to the air. Its UART carries H4 packets:
  every operation appends whole, well-formed packets, so the host's H4 driver never loses its place.
  Every command is answered at once, once, by a Command Complete or a Command Status that names its
  opcode, and nothing else the controller does sends either. \<open>bt_ok\<close> is what that needs of the
  state; \<open>bt_step\<close> is everything that can happen to a controller.
\<close>

section \<open>Packets\<close>

definition h4_event :: "nat \<Rightarrow> nat list \<Rightarrow> nat list" where
  "h4_event code ps = [H4_EVT, code, length ps] @ ps"

definition h4_acl :: "nat \<Rightarrow> nat list \<Rightarrow> nat list" where
  "h4_acl hdr d = [H4_ACL] @ le16 hdr @ le16 (length d) @ d"

definition event_ok :: "nat list \<Rightarrow> bool" where
  "event_ok p \<longleftrightarrow> (\<exists>code ps. p = h4_event code ps \<and> code < 256 \<and> length ps < 256 \<and> is_bytes ps)"

definition acl_ok :: "nat list \<Rightarrow> bool" where
  "acl_ok p \<longleftrightarrow> (\<exists>hdr d. p = h4_acl hdr d \<and> length d < 65536 \<and> is_bytes d)"

text \<open>A Command Complete or Command Status event, and one that answers a given command.\<close>

definition is_response :: "nat list \<Rightarrow> bool" where
  "is_response p \<longleftrightarrow> take 2 p = [H4_EVT, EVT_CMD_COMPLETE] \<or> take 2 p = [H4_EVT, EVT_CMD_STATUS]"

definition answers :: "nat \<Rightarrow> nat list \<Rightarrow> bool" where
  "answers op p \<longleftrightarrow>
    (\<exists>ps. p = h4_event EVT_CMD_COMPLETE ([1] @ le16 op @ ps)) \<or>
    (\<exists>st. p = h4_event EVT_CMD_STATUS ([st, 1] @ le16 op))"

definition h4_packet :: "nat list \<Rightarrow> bool" where
  "h4_packet p \<longleftrightarrow> event_ok p \<or> acl_ok p"

definition async_packet :: "nat list \<Rightarrow> bool" where
  "async_packet p \<longleftrightarrow> h4_packet p \<and> \<not> is_response p"

text \<open>The operation that took \<open>b\<close> to \<open>b'\<close> gave the host packets with \<open>Q\<close>, and nothing else.\<close>

definition emits :: "(nat list \<Rightarrow> bool) \<Rightarrow> bt \<Rightarrow> bt \<Rightarrow> bool" where
  "emits Q b b' \<longleftrightarrow> (\<exists>ps. rx b' = rx b @ concat ps \<and> (\<forall>p \<in> set ps. Q p))"

lemma emits_refl [intro]: "rx b' = rx b \<Longrightarrow> emits Q b b'"
  unfolding emits_def by (rule exI [of _ "[]"]) simp

lemma emits_trans: "emits Q a b \<Longrightarrow> emits Q b c \<Longrightarrow> emits Q a c"
  unfolding emits_def
  by (elim exE conjE, rename_tac ps qs, rule_tac x = "ps @ qs" in exI) auto

lemma emits_one: "rx b' = rx b @ p \<Longrightarrow> Q p \<Longrightarrow> emits Q b b'"
  unfolding emits_def by (rule exI [of _ "[p]"]) simp

lemma emits_mono: "emits Q a b \<Longrightarrow> (\<And>p. Q p \<Longrightarrow> R p) \<Longrightarrow> emits R a b"
  unfolding emits_def by blast

lemma emits_fold:
  assumes "\<And>x b. x \<in> set xs \<Longrightarrow> I b \<Longrightarrow> I (f x b) \<and> emits Q b (f x b)" and "I b"
  shows "I (fold f xs b) \<and> emits Q b (fold f xs b)"
  using assms
proof (induction xs arbitrary: b)
  case Nil
  then show ?case by (simp add: emits_refl)
next
  case (Cons x xs)
  then have "I (f x b)" and e: "emits Q b (f x b)" by auto
  with Cons.IH [of "f x b"] Cons.prems have "I (fold f xs (f x b))"
    and "emits Q (f x b) (fold f xs (f x b))" by auto
  with e show ?case by (auto intro: emits_trans)
qed

lemma async_eventI:
  assumes "code < 256" "length ps < 256" "is_bytes ps"
    "code \<noteq> EVT_CMD_COMPLETE" "code \<noteq> EVT_CMD_STATUS"
  shows "async_packet (h4_event code ps)"
  using assms unfolding async_packet_def h4_packet_def event_ok_def is_response_def
  by (auto simp: h4_event_def)

lemma async_aclI: "length d < 65536 \<Longrightarrow> is_bytes d \<Longrightarrow> async_packet (h4_acl hdr d)"
  unfolding async_packet_def h4_packet_def acl_ok_def is_response_def
  by (auto simp: h4_acl_def)

lemma answers_response: "answers op p \<Longrightarrow> is_response p"
  by (auto simp: answers_def is_response_def h4_event_def)

section \<open>Which fields an operation writes\<close>

lemma event_rx: "rx (event code ps b) = rx b @ h4_event code ps"
  by (simp add: event_def h4_event_def)

lemma event_frame [simp]:
  "pkt (event code ps b) = pkt b" "rng (event code ps b) = rng b"
  "random_addr (event code ps b) = random_addr b" "adv (event code ps b) = adv b"
  "scan (event code ps b) = scan b" "initiating (event code ps b) = initiating b"
  "conns (event code ps b) = conns b" "air (event code ps b) = air b"
  "address (event code ps b) = address b" "outbox (event code ps b) = outbox b"
  "has_air (event code ps b) = has_air b" "rx_taken (event code ps b) = rx_taken b"
  "rx_ready_ns (event code ps b) = rx_ready_ns b"
  by (simp_all add: event_def)

lemma upd_link_frame [simp]:
  "rx (upd_link h f b) = rx b" "pkt (upd_link h f b) = pkt b"
  "random_addr (upd_link h f b) = random_addr b" "adv (upd_link h f b) = adv b"
  "scan (upd_link h f b) = scan b" "initiating (upd_link h f b) = initiating b"
  "air (upd_link h f b) = air b" "address (upd_link h f b) = address b"
  "outbox (upd_link h f b) = outbox b" "has_air (upd_link h f b) = has_air b"
  by (simp_all add: upd_link_def)

lemma drop_link_frame [simp]:
  "rx (drop_link h b) = rx b" "pkt (drop_link h b) = pkt b"
  "random_addr (drop_link h b) = random_addr b" "adv (drop_link h b) = adv b"
  "scan (drop_link h b) = scan b" "initiating (drop_link h b) = initiating b"
  "air (drop_link h b) = air b" "address (drop_link h b) = address b"
  "outbox (drop_link h b) = outbox b" "has_air (drop_link h b) = has_air b"
  by (simp_all add: drop_link_def)

lemma send_frame [simp]:
  "rx (send p at b) = rx b" "pkt (send p at b) = pkt b"
  "random_addr (send p at b) = random_addr b" "adv (send p at b) = adv b"
  "scan (send p at b) = scan b" "initiating (send p at b) = initiating b"
  "conns (send p at b) = conns b" "air (send p at b) = air b"
  "address (send p at b) = address b" "has_air (send p at b) = has_air b"
  by (simp_all add: send_def Let_def)

lemma send_outbox: "outbox (send p at b) = (if has_air b then outbox b @ [(at, p)] else outbox b)"
  by (simp add: send_def Let_def)

lemma set_state_sel [simp]:
  "rx (set_state st b) = rx st" "pkt (set_state st b) = pkt st"
  "random_addr (set_state st b) = random_addr st" "adv (set_state st b) = adv st"
  "scan (set_state st b) = scan st" "initiating (set_state st b) = initiating st"
  "conns (set_state st b) = conns st" "air (set_state st b) = air st" "rng (set_state st b) = rng st"
  "rx_ready_ns (set_state st b) = rx_ready_ns st" "rx_taken (set_state st b) = rx_taken st"
  "address (set_state st b) = address b" "outbox (set_state st b) = outbox b"
  "has_air (set_state st b) = has_air b"
  by (simp_all add: set_state_def bt_state.defs bt.defs)

lemma new_bt_sel [simp]:
  "rx (new_bt a s h) = []" "pkt (new_bt a s h) = []" "random_addr (new_bt a s h) = None"
  "adv (new_bt a s h) = initial_adv" "scan (new_bt a s h) = initial_scan"
  "initiating (new_bt a s h) = None" "conns (new_bt a s h) = []" "air (new_bt a s h) = []"
  "address (new_bt a s h) = a" "outbox (new_bt a s h) = []" "has_air (new_bt a s h) = h"
  "rx_taken (new_bt a s h) = 0" "rx_ready_ns (new_bt a s h) = 0"
  by (simp_all add: new_bt_def initial_state_def bt_state.defs bt.defs)

lemma initial_state_sel [simp]:
  "rx (initial_state s) = []" "pkt (initial_state s) = []" "random_addr (initial_state s) = None"
  "adv (initial_state s) = initial_adv" "scan (initial_state s) = initial_scan"
  "initiating (initial_state s) = None" "conns (initial_state s) = []"
  "air (initial_state s) = []"
  by (simp_all add: initial_state_def)

lemma by_handle_SomeD: "by_handle h b = Some c \<Longrightarrow> c \<in> set (conns b) \<and> handle c = h"
  by (auto simp: by_handle_def find_Some_iff)

lemma by_key_SomeD: "by_key k b = Some c \<Longrightarrow> c \<in> set (conns b) \<and> link_key c = k"
  by (auto simp: by_key_def find_Some_iff)

section \<open>Well-formed states\<close>

definition addr_ok :: "nat list \<Rightarrow> bool" where
  "addr_ok a \<longleftrightarrow> length a \<le> 6 \<and> is_bytes a"

definition adv_data_ok :: "nat list \<Rightarrow> bool" where
  "adv_data_ok d \<longleftrightarrow> length d \<le> 31 \<and> is_bytes d"

definition type_ok :: "nat option \<Rightarrow> bool" where
  "type_ok t \<longleftrightarrow> (\<forall>x. t = Some x \<longrightarrow> x < 256)"

fun pdu_ok :: "pdu \<Rightarrow> bool" where
  "pdu_ok (Adv t atype a d r) \<longleftrightarrow> type_ok t \<and> atype < 256 \<and> addr_ok a \<and> adv_data_ok d \<and> adv_data_ok r"
| "pdu_ok (Connect atype a _ _ _ _ _ _) \<longleftrightarrow> atype < 256 \<and> addr_ok a"
| "pdu_ok (Acl _ d _) \<longleftrightarrow> length d < 65536 \<and> is_bytes d"
| "pdu_ok (Update _ _ _ _) \<longleftrightarrow> True"
| "pdu_ok (EncReq rand ediv _ _) \<longleftrightarrow> length rand \<le> 8 \<and> is_bytes rand \<and> length ediv \<le> 2 \<and> is_bytes ediv"
| "pdu_ok (EncRsp _ _) \<longleftrightarrow> True"
| "pdu_ok (Terminate reason _) \<longleftrightarrow> reason < 256"

definition link_ok :: "link \<Rightarrow> bool" where
  "link_ok c \<longleftrightarrow> (\<forall>a \<in> set (tx c). length (acl_data a) < 65536 \<and> is_bytes (acl_data a)) \<and>
    (\<forall>(op, p) \<in> set (pending c). is_bytes p)"

definition bt_ok :: "bt \<Rightarrow> bool" where
  "bt_ok b \<longleftrightarrow> type_ok (adv_type (adv b)) \<and> adv_data_ok (adv_data (adv b)) \<and>
    adv_data_ok (adv_scan_rsp (adv b)) \<and> (\<forall>a. random_addr b = Some a \<longrightarrow> addr_ok a) \<and>
    addr_ok (address b) \<and> is_bytes (pkt b) \<and> (\<forall>c \<in> set (conns b). link_ok c) \<and>
    (\<forall>e \<in> set (air b). pdu_ok (snd e)) \<and> (\<forall>e \<in> set (outbox b). pdu_ok (snd e))"

lemma addr_ok_Nil [simp]: "addr_ok []" and adv_data_ok_Nil [simp]: "adv_data_ok []"
  and type_ok_None [simp]: "type_ok None" and type_ok_Some [simp]: "type_ok (Some x) \<longleftrightarrow> x < 256"
  by (simp_all add: addr_ok_def adv_data_ok_def type_ok_def)

lemma bt_ok_new: "addr_ok a \<Longrightarrow> bt_ok (new_bt a seed h)"
  by (simp add: bt_ok_def initial_adv_def)

text \<open>The primitive operations keep \<open>bt_ok\<close>.\<close>

named_theorems bt_ok_intros \<open>operations that keep \<open>bt_ok\<close>\<close>

lemma bt_ok_event [bt_ok_intros, simp]: "bt_ok (event code ps b) \<longleftrightarrow> bt_ok b"
  by (simp add: bt_ok_def)

lemma bt_ok_send [bt_ok_intros]: "bt_ok b \<Longrightarrow> pdu_ok p \<Longrightarrow> bt_ok (send p at b)"
  by (auto simp: bt_ok_def send_outbox)

lemma bt_ok_upd_link [bt_ok_intros]:
  "bt_ok b \<Longrightarrow> (\<And>c. link_ok c \<Longrightarrow> link_ok (f c)) \<Longrightarrow> bt_ok (upd_link h f b)"
  by (auto simp: bt_ok_def) (auto simp: upd_link_def)

lemma bt_ok_drop_link [bt_ok_intros]: "bt_ok b \<Longrightarrow> bt_ok (drop_link h b)"
  by (auto simp: bt_ok_def) (auto simp: drop_link_def)

lemma link_ok_updates [simp]:
  "link_ok (c\<lparr>encrypted := e\<rparr>) \<longleftrightarrow> link_ok c" "link_ok (c\<lparr>enc_pending := l\<rparr>) \<longleftrightarrow> link_ok c"
  "link_ok (c\<lparr>since := t\<rparr>) \<longleftrightarrow> link_ok c"
  "link_ok (c\<lparr>interval := i, latency := l', timeout := t', interval_ns := n, anchor_ns := a\<rparr>)
    \<longleftrightarrow> link_ok c"
  "link_ok (c\<lparr>interval_ns := n, anchor_ns := a, interval := i, latency := l', timeout := t'\<rparr>)
    \<longleftrightarrow> link_ok c"
  by (simp_all add: link_ok_def)

lemma link_ok_cleared [simp]:
  "link_ok c \<Longrightarrow> link_ok (c\<lparr>tx := []\<rparr>)" "link_ok c \<Longrightarrow> link_ok (c\<lparr>pending := []\<rparr>)"
  by (simp_all add: link_ok_def)

lemma bt_ok_link: "bt_ok b \<Longrightarrow> c \<in> set (conns b) \<Longrightarrow> link_ok c"
  by (simp add: bt_ok_def)

lemma bt_ok_own_address: "bt_ok b \<Longrightarrow> fst (own_address t b) < 256 \<and> addr_ok (snd (own_address t b))"
  by (auto simp: own_address_def bt_ok_def split: option.splits)

section \<open>Commands are answered\<close>

text \<open>\<open>b'\<close> is \<open>b\<close> with one answer to \<open>op\<close>, then perhaps other packets, none of them an answer.\<close>

definition answered :: "nat \<Rightarrow> bt \<Rightarrow> bt \<Rightarrow> bool" where
  "answered op b b' \<longleftrightarrow>
    (\<exists>r ps. rx b' = rx b @ r @ concat ps \<and> answers op r \<and> h4_packet r \<and>
       (\<forall>p \<in> set ps. async_packet p))"

lemma answered_complete:
  assumes "rx b1 = rx b" and "is_bytes ps" and "length ps \<le> 252"
  shows "answered op b (complete op ps b1)"
  unfolding answered_def
proof (intro exI conjI)
  let ?r = "h4_event EVT_CMD_COMPLETE ([1] @ le16 op @ ps)"
  show "rx (complete op ps b1) = rx b @ ?r @ concat []"
    using assms(1) by (simp add: complete_def event_rx)
  show "answers op ?r" by (auto simp: answers_def)
  show "h4_packet ?r"
    using assms(2,3) unfolding h4_packet_def event_ok_def by (intro disjI1 exI) (auto simp: le16_def)
qed simp

lemma answered_status:
  assumes "rx b1 = rx b" and "st < 256"
  shows "answered op b (status op st b1)"
  unfolding answered_def
proof (intro exI conjI)
  let ?r = "h4_event EVT_CMD_STATUS ([st, 1] @ le16 op)"
  show "rx (status op st b1) = rx b @ ?r @ concat []"
    using assms(1) by (simp add: status_def event_rx)
  show "answers op ?r" by (auto simp: answers_def)
  show "h4_packet ?r"
    using assms(2) unfolding h4_packet_def event_ok_def by (intro disjI1 exI) (auto simp: le16_def)
qed simp

lemma answered_emits: "answered op a b \<Longrightarrow> emits async_packet b c \<Longrightarrow> answered op a c"
  unfolding answered_def emits_def
  by (elim exE conjE, rename_tac r ps qs, rule_tac x = r in exI, rule_tac x = "ps @ qs" in exI)
     auto

lemma answered_same: "answered op a b \<Longrightarrow> rx b' = rx b \<Longrightarrow> answered op a b'"
  by (simp add: answered_def)

lemma complete_frame [simp]: "bt_ok (complete op ps b) \<longleftrightarrow> bt_ok b"
  "bt_ok (status op st b) \<longleftrightarrow> bt_ok b" "bt_ok (le_meta sub ps b) \<longleftrightarrow> bt_ok b"
  by (simp_all add: complete_def status_def le_meta_def)

lemma emits_event:
  assumes "rx b' = rx b" "code < 256" "length ps < 256" "is_bytes ps"
    "code \<noteq> EVT_CMD_COMPLETE" "code \<noteq> EVT_CMD_STATUS"
  shows "emits async_packet b (event code ps b')"
  by (rule emits_one [of _ _ "h4_event code ps"]) (use assms in \<open>simp_all add: event_rx async_eventI\<close>)

lemma emits_le_meta:
  "rx b' = rx b \<Longrightarrow> sub < 256 \<Longrightarrow> length ps < 255 \<Longrightarrow> is_bytes ps \<Longrightarrow>
   emits async_packet b (le_meta sub ps b')"
  unfolding le_meta_def by (rule emits_event) auto

lemma local_commands_ok: "length local_commands = 64" "is_bytes local_commands"
  by (code_simp, simp add: is_bytes_def, code_simp)

lemma cmd_reset_ok: "bt_ok b \<Longrightarrow> bt_ok (cmd_reset b)"
  by (simp add: cmd_reset_def bt_ok_def) (simp add: complete_def initial_adv_def)

lemma link_encrypted_ok: "bt_ok b \<Longrightarrow> bt_ok (link_encrypted c st b)"
  by (auto simp: link_encrypted_def intro!: bt_ok_intros)

lemma link_encrypted_emits: "st < 256 \<Longrightarrow> emits async_packet b (link_encrypted c st b)"
  unfolding link_encrypted_def by (auto intro!: emits_event simp: le16_def)

lemma cmd_ltk_ok: "bt_ok b \<Longrightarrow> bt_ok (cmd_ltk op p now b)"
  by (auto simp: cmd_ltk_def Let_def send_on_def split: option.splits
      intro!: bt_ok_intros link_encrypted_ok)

lemma cmd_ltk_answered: "answered op b (cmd_ltk op p now b)"
proof -
  define h where "h = rd16 p 0 mod 4096"
  have no: "answered op b (complete op ([DISALLOWED] @ le16 h) b)"
    by (rule answered_complete) simp_all
  have yes: "answered op b (complete op ([OK] @ le16 h) b)"
    by (rule answered_complete) simp_all
  show ?thesis
  proof (cases "by_handle h b")
    case None
    with no show ?thesis by (simp add: cmd_ltk_def h_def [symmetric] Let_def del: append.simps)
  next
    case (Some c)
    show ?thesis
    proof (cases "enc_pending c")
      case None
      with Some no show ?thesis
        by (simp add: cmd_ltk_def h_def [symmetric] Let_def del: append.simps)
    next
      case theirs: (Some theirs)
      define b1 where "b1 = upd_link h (\<lambda>c. c\<lparr>enc_pending := None\<rparr>) (complete op ([OK] @ le16 h) b)"
      have a: "answered op b b1"
        using yes by (rule answered_same) (simp add: b1_def)
      have "emits async_packet b1 (send_on c (EncRsp False) now b1)"
        by (auto simp: send_on_def)
      moreover have "emits async_packet b1 (send_on c (EncRsp True) now (link_encrypted c OK b1))"
        by (rule emits_trans [OF link_encrypted_emits [of OK b1 c] emits_refl])
          (simp_all add: send_on_def)
      moreover have "emits async_packet b1 (drop_link (handle c)
          (event EVT_DISCONN_COMPLETE ([OK] @ le16 (handle c) @ [MIC_FAILURE])
            (send_on c (Terminate MIC_FAILURE) now b1)))"
        by (rule emits_trans [OF emits_event emits_refl]) (auto simp: send_on_def)
      ultimately show ?thesis using a Some theirs
        by (auto simp: cmd_ltk_def h_def [symmetric] Let_def b1_def [symmetric]
            intro: answered_emits simp del: append.simps)
    qed
  qed
qed

lemma cmd_on_link_ok: "bt_ok b \<Longrightarrow> is_bytes p \<Longrightarrow> bt_ok (cmd_on_link op p b)"
  by (auto simp: cmd_on_link_def Let_def link_ok_def split: option.splits intro!: bt_ok_intros)

lemma cmd_on_link_answered: "answered op b (cmd_on_link op p b)"
  unfolding cmd_on_link_def Let_def
  by (auto split: option.splits intro!: answered_status answered_same [OF answered_status])

lemma cmd_adv_data_ok:
  "bt_ok b \<Longrightarrow> is_bytes p \<Longrightarrow>
     bt_ok (b\<lparr>adv := (adv b)\<lparr>adv_data := js_slice p 1 (1 + min n 31)\<rparr>\<rparr>)"
  "bt_ok b \<Longrightarrow> is_bytes p \<Longrightarrow>
     bt_ok (b\<lparr>adv := (adv b)\<lparr>adv_scan_rsp := js_slice p 1 (1 + min n 31)\<rparr>\<rparr>)"
  by (auto simp: bt_ok_def adv_data_ok_def)

text \<open>The commands with a body of their own, then the dispatcher.\<close>

lemmas cmd_bodies = cmd_adv_params_def cmd_adv_enable_def cmd_scan_params_def
  cmd_scan_enable_def cmd_create_conn_def cmd_create_conn_cancel_def cmd_rand_def rand8_def

lemma cmd_bodies_ok:
  assumes "bt_ok b" and "is_bytes p"
  shows "bt_ok (cmd_adv_params p b)" "bt_ok (cmd_adv_enable p now b)" "bt_ok (cmd_scan_params p b)"
    "bt_ok (cmd_scan_enable p b)" "bt_ok (cmd_create_conn p b)" "bt_ok (cmd_create_conn_cancel b)"
    "bt_ok (cmd_rand b)"
  using assms by (auto simp: cmd_bodies bt_ok_def Let_def split_beta complete_def status_def
      le_meta_def is_bytes_def)

lemma command_ok: "bt_ok b \<Longrightarrow> is_bytes p \<Longrightarrow> bt_ok (command op p now b)"
  unfolding command_def
  by (simp add: cmd_reset_ok cmd_ltk_ok cmd_on_link_ok cmd_bodies_ok cmd_adv_data_ok [simplified])
     (auto simp: bt_ok_def addr_ok_def)

lemma cmd_bodies_answered:
  "answered OP_LE_SET_ADV_PARAMS b (cmd_adv_params p b)"
  "answered OP_LE_SET_ADV_ENABLE b (cmd_adv_enable p now b)"
  "answered OP_LE_SET_SCAN_PARAMS b (cmd_scan_params p b)"
  "answered OP_LE_SET_SCAN_ENABLE b (cmd_scan_enable p b)"
  "answered OP_LE_CREATE_CONN b (cmd_create_conn p b)"
  "answered OP_LE_RAND b (cmd_rand b)"
  by (auto simp: cmd_bodies Let_def split_beta split: option.splits
      intro!: answered_complete answered_status)

lemma cmd_cancel_answered: "answered OP_LE_CREATE_CONN_CANCEL b (cmd_create_conn_cancel b)"
proof (cases "initiating b")
  case None
  then show ?thesis by (auto simp: cmd_create_conn_cancel_def intro!: answered_complete)
next
  case (Some ini)
  have "answered OP_LE_CREATE_CONN_CANCEL b
      (complete OP_LE_CREATE_CONN_CANCEL [OK] (b\<lparr>initiating := None\<rparr>))"
    by (rule answered_complete) simp_all
  then have "answered OP_LE_CREATE_CONN_CANCEL b
      (le_meta LE_CONN_COMPLETE (UNKNOWN_CONN # replicate 17 0)
        (complete OP_LE_CREATE_CONN_CANCEL [OK] (b\<lparr>initiating := None\<rparr>)))"
    by (rule answered_emits) (rule emits_le_meta; simp)
  with Some show ?thesis by (simp add: cmd_create_conn_cancel_def)
qed

lemma cmd_reset_answered: "answered OP_RESET b (cmd_reset b)"
  unfolding cmd_reset_def by (rule answered_complete) simp_all

lemma local_features_ok: "is_bytes ((replicate 8 0)[4 := 0x40 OR 0x20])"
  by code_simp

lemma command_answered: "bt_ok b \<Longrightarrow> answered op b (command op p now b)"
  unfolding command_def
  by (auto simp: local_commands_ok local_features_ok [simplified] ACL_LEN_def ACL_NUM_def bt_ok_def addr_ok_def
      intro!: answered_complete cmd_bodies_answered cmd_cancel_answered cmd_reset_answered
      cmd_ltk_answered cmd_on_link_answered)

section \<open>The other operations\<close>

text \<open>What every operation but a command guarantees: the state stays well-formed, and the host gets
  well-formed packets that answer no command.\<close>

definition asynchronous :: "bt \<Rightarrow> bt \<Rightarrow> bool" where
  "asynchronous b b' \<longleftrightarrow> bt_ok b' \<and> emits async_packet b b'"

lemma asynchronousI: "bt_ok b' \<Longrightarrow> emits async_packet b b' \<Longrightarrow> asynchronous b b'"
  by (simp add: asynchronous_def)

lemma asynchronous_trans: "asynchronous a b \<Longrightarrow> asynchronous b c \<Longrightarrow> asynchronous a c"
  by (auto simp: asynchronous_def intro: emits_trans)

lemma asynchronous_silent: "bt_ok b' \<Longrightarrow> rx b' = rx b \<Longrightarrow> asynchronous b b'"
  by (simp add: asynchronous_def emits_refl)

lemma asynchronous_fold:
  assumes "\<And>x b. x \<in> set xs \<Longrightarrow> bt_ok b \<Longrightarrow> asynchronous b (f x b)" and "bt_ok b"
  shows "asynchronous b (fold f xs b)"
  using emits_fold [of xs bt_ok f async_packet b] assms by (auto simp: asynchronous_def)

lemma asynchronous_event:
  assumes "bt_ok b" "code < 256" "length ps < 256" "is_bytes ps"
    "code \<noteq> EVT_CMD_COMPLETE" "code \<noteq> EVT_CMD_STATUS"
  shows "asynchronous b (event code ps b)"
  using assms by (intro asynchronousI emits_event) auto

lemma asynchronous_le_meta:
  assumes "bt_ok b" "sub < 256" "length ps < 255" "is_bytes ps"
  shows "asynchronous b (le_meta sub ps b)"
  using assms by (intro asynchronousI emits_le_meta) auto

lemma asynchronous_send: "bt_ok b \<Longrightarrow> pdu_ok (p (link_key c)) \<Longrightarrow> asynchronous b (send_on c p at b)"
  by (auto simp: send_on_def intro!: asynchronous_silent bt_ok_intros)

lemma asynchronous_drop: "bt_ok b \<Longrightarrow> asynchronous b (drop_link h b)"
  by (auto intro!: asynchronous_silent bt_ok_intros)

lemma asynchronous_upd:
  "bt_ok b \<Longrightarrow> (\<And>c. link_ok c \<Longrightarrow> link_ok (f c)) \<Longrightarrow> asynchronous b (upd_link h f b)"
  by (auto intro!: asynchronous_silent bt_ok_intros)

lemmas asynchronous_prims =
  asynchronous_event asynchronous_le_meta asynchronous_send asynchronous_drop asynchronous_upd

lemma asynchronous_link_encrypted:
  "bt_ok b \<Longrightarrow> st < 256 \<Longrightarrow> asynchronous b (link_encrypted c st b)"
  by (intro asynchronousI link_encrypted_ok link_encrypted_emits)

lemma asynchronous_apply_update: "bt_ok b \<Longrightarrow> asynchronous b (apply_update c i l t at b)"
  unfolding apply_update_def
  by (rule asynchronous_trans [OF asynchronous_upd asynchronous_le_meta])
     (auto intro!: bt_ok_intros)

lemma is_bytes_rd_fields [simp]: "is_bytes p \<Longrightarrow> byte_at p i < 256"
  by (rule byte_at_less)

lemma asynchronous_conn_procedure:
  assumes "bt_ok b" and "is_bytes (snd opp)"
  shows "asynchronous b (conn_procedure c at opp b)"
proof -
  obtain op p where opp: "opp = (op, p)" by fastforce
  have p: "is_bytes p" using assms(2) opp by simp
  have "asynchronous b (send_on c (Terminate (byte_at p 2)) at b)" (is "asynchronous b ?s")
    using assms(1) p by (intro asynchronous_send) auto
  moreover from this have "bt_ok ?s" by (simp add: asynchronous_def)
  then have "asynchronous ?s (event EVT_DISCONN_COMPLETE
      ([OK] @ le16 (handle c) @ [LOCAL_HOST_TERMINATED]) ?s)" (is "asynchronous _ ?e")
    by (rule asynchronous_event) auto
  moreover from this have "asynchronous ?e (drop_link (handle c) ?e)"
    by (intro asynchronous_drop) (simp add: asynchronous_def)
  ultimately have "asynchronous b (drop_link (handle c) ?e)"
    by (blast intro: asynchronous_trans)
  moreover have "asynchronous b (apply_update c i l t at (send_on c (Update i l t) at b))" for i l t
    by (rule asynchronous_trans [OF asynchronous_send asynchronous_apply_update])
       (use assms(1) asynchronous_send [of b "Update i l t" c at] in \<open>auto simp: asynchronous_def\<close>)
  moreover have "asynchronous b
      (send_on c (EncReq (js_slice p 2 10) (js_slice p 10 12) (js_slice p 12 28)) at b)"
    using assms(1) p by (intro asynchronous_send) auto
  moreover have "asynchronous b b" using assms(1) by (rule asynchronous_silent) simp
  ultimately show ?thesis
    using assms(1) unfolding opp conn_procedure_def
    by (auto simp: le16_def intro!: asynchronous_event asynchronous_le_meta)
qed

lemma asynchronous_conn_event:
  assumes "bt_ok b" and "link_ok c"
  shows "asynchronous b (conn_event c at b)"
proof -
  define b1 where "b1 = fold (\<lambda>pk. send_on c (Acl (acl_pb pk) (acl_data pk)) at) (tx c) b"
  define b2 where "b2 = upd_link (handle c) (\<lambda>c. c\<lparr>tx := []\<rparr>) b1"
  define b3 where "b3 = (if length (tx c) > 0
    then event EVT_NUM_COMPLETED ([1] @ le16 (handle c) @ le16 (length (tx c))) b2 else b2)"
  define b4 where "b4 = upd_link (handle c) (\<lambda>c. c\<lparr>pending := []\<rparr>) b3"
  define b5 where "b5 = fold (conn_procedure c at) (pending c) b4"
  have 1: "asynchronous b b1"
    unfolding b1_def using assms
    by (intro asynchronous_fold asynchronous_send) (auto simp: link_ok_def)
  then have 2: "asynchronous b1 b2"
    unfolding b2_def by (intro asynchronous_upd) (auto simp: asynchronous_def)
  then have ok2: "bt_ok b2" by (simp add: asynchronous_def)
  then have 3: "asynchronous b2 b3"
    unfolding b3_def
    by (cases "tx c = []") (auto intro!: asynchronous_event, auto intro: asynchronous_silent)
  then have 4: "asynchronous b3 b4"
    unfolding b4_def by (intro asynchronous_upd) (auto simp: asynchronous_def)
  then have 5: "asynchronous b4 b5"
    unfolding b5_def using assms(2)
    by (intro asynchronous_fold asynchronous_conn_procedure)
       (auto simp: asynchronous_def link_ok_def)
  then have "asynchronous b5 (upd_link (handle c) (\<lambda>c. c\<lparr>since := at + 1\<rparr>) b5)"
    by (intro asynchronous_upd) (auto simp: asynchronous_def)
  moreover have "conn_event c at b = upd_link (handle c) (\<lambda>c. c\<lparr>since := at + 1\<rparr>) b5"
    by (simp add: conn_event_def Let_def b1_def b2_def b3_def b4_def b5_def)
  ultimately show ?thesis using 1 2 3 4 5 by (metis asynchronous_trans)
qed

lemma asynchronous_adv_event: "bt_ok b \<Longrightarrow> asynchronous b (adv_event at b)"
proof (rule asynchronous_silent)
  assume ok: "bt_ok b"
  let ?b = "b\<lparr>adv := (adv b)\<lparr>adv_next := Some (at + adv_interval (adv b))\<rparr>\<rparr>"
  have "bt_ok ?b" using ok by (simp add: bt_ok_def)
  then show "bt_ok (adv_event at b)"
    unfolding adv_event_def Let_def
    by (intro bt_ok_send)
       (use ok bt_ok_own_address [of ?b] in \<open>auto simp: bt_ok_def\<close>)
qed (simp add: adv_event_def Let_def)

lemma asynchronous_report:
  assumes "bt_ok b" "type_ok type" "atype < 256" "addr_ok addr" "adv_data_ok dat"
  shows "asynchronous b (report type atype addr dat b)"
proof -
  let ?ps = "[1, case type of Some t \<Rightarrow> t | None \<Rightarrow> 0, atype] @ addr @ [length dat] @ dat @ [rssi_byte]"
  have ps: "length ?ps < 255" "is_bytes ?ps"
    using assms by (auto simp: addr_ok_def adv_data_ok_def rssi_byte_def type_ok_def split: option.splits)
  have "asynchronous b (le_meta LE_ADV_REPORT ?ps (b\<lparr>scan := s'\<rparr>))" for s'
  proof -
    have "bt_ok (b\<lparr>scan := s'\<rparr>)" using assms(1) by (simp add: bt_ok_def)
    then have "asynchronous (b\<lparr>scan := s'\<rparr>) (le_meta LE_ADV_REPORT ?ps (b\<lparr>scan := s'\<rparr>))"
      using ps by (intro asynchronous_le_meta) auto
    moreover have "asynchronous b (b\<lparr>scan := s'\<rparr>)"
      using \<open>bt_ok (b\<lparr>scan := s'\<rparr>)\<close> by (rule asynchronous_silent) simp
    ultimately show ?thesis by (rule asynchronous_trans [rotated])
  qed
  moreover have "asynchronous b (le_meta LE_ADV_REPORT ?ps b)"
    using assms(1) ps by (intro asynchronous_le_meta) auto
  moreover have "asynchronous b b" using assms(1) by (rule asynchronous_silent) simp
  ultimately show ?thesis unfolding report_def Let_def by simp
qed

lemma asynchronous_connect:
  assumes "bt_ok b" "role c < 256" "peer_type c < 256" "addr_ok (peer_addr c)" "link_ok c"
  shows "asynchronous b (connect c b)"
proof -
  have ok: "bt_ok (b\<lparr>conns := conns b @ [c]\<rparr>)" using assms(1,5) by (auto simp: bt_ok_def)
  have "asynchronous b (b\<lparr>conns := conns b @ [c]\<rparr>)" using ok by (rule asynchronous_silent) simp
  moreover have "asynchronous (b\<lparr>conns := conns b @ [c]\<rparr>) (connect c b)"
    unfolding connect_def using ok assms(2-4)
    by (intro asynchronous_le_meta) (auto simp: addr_ok_def)
  ultimately show ?thesis by (rule asynchronous_trans)
qed

lemma new_link_sel [simp]:
  "role (new_link rl k pt pa i l t at b) = rl" "peer_type (new_link rl k pt pa i l t at b) = pt"
  "peer_addr (new_link rl k pt pa i l t at b) = pa" "tx (new_link rl k pt pa i l t at b) = []"
  "pending (new_link rl k pt pa i l t at b) = []" "interval (new_link rl k pt pa i l t at b) = i"
  "latency (new_link rl k pt pa i l t at b) = l" "timeout (new_link rl k pt pa i l t at b) = t"
  "encrypted (new_link rl k pt pa i l t at b) = False"
  "enc_pending (new_link rl k pt pa i l t at b) = None"
  "handle (new_link rl k pt pa i l t at b) = free_handle 0 b"
  "link_key (new_link rl k pt pa i l t at b) = (case k of Some x \<Rightarrow> x | None \<Rightarrow> free_handle 0 b)"
  "interval_ns (new_link rl k pt pa i l t at b) = int i * UNIT_CONN_NS"
  "anchor_ns (new_link rl k pt pa i l t at b) = at" "since (new_link rl k pt pa i l t at b) = at"
  by (simp_all add: new_link_def Let_def)

lemma link_ok_new [simp]: "link_ok (new_link rl k pt pa i l t at b)"
  by (simp add: link_ok_def)

lemma asynchronous_receive_adv:
  assumes "bt_ok b" and "pdu_ok (Adv type atype addr dat rsp)"
  shows "asynchronous b (receive_adv type atype addr dat rsp at b)"
proof (cases "wants b type atype addr")
  case True
  define ini where "ini = the (initiating b)"
  define b0 where "b0 = b\<lparr>initiating := None\<rparr>"
  define c where "c = new_link 0x00 None atype addr (ini_interval ini) (ini_latency ini)
    (ini_timeout ini) at b0"
  have ok0: "bt_ok b0" using assms(1) by (simp add: b0_def bt_ok_def)
  then have 1: "asynchronous b b0" by (rule asynchronous_silent) (simp add: b0_def)
  have 2: "asynchronous b0 (connect c b0)"
    using ok0 assms(2) by (intro asynchronous_connect) (auto simp: c_def)
  then have "bt_ok (connect c b0)" by (simp add: asynchronous_def)
  then have 3: "asynchronous (connect c b0)
      (send_on c (Connect (fst (own_address (ini_own_type ini) b0))
        (snd (own_address (ini_own_type ini) b0)) atype addr (ini_interval ini)
        (ini_latency ini) (ini_timeout ini)) at (connect c b0))"
    using bt_ok_own_address [OF ok0] by (intro asynchronous_send) auto
  have "receive_adv type atype addr dat rsp at b =
      send_on c (Connect (fst (own_address (ini_own_type ini) b0))
        (snd (own_address (ini_own_type ini) b0)) atype addr (ini_interval ini)
        (ini_latency ini) (ini_timeout ini)) at (connect c b0)"
    using True by (simp add: receive_adv_def Let_def ini_def b0_def c_def)
  with 1 2 3 show ?thesis by (metis asynchronous_trans)
next
  case False
  have "asynchronous b b" using assms(1) by (rule asynchronous_silent) simp
  moreover
  define t where "t = (if type = Some ADV_DIRECT_IND_LOW then Some ADV_DIRECT_IND else type)"
  define b1 where "b1 = report t atype addr (if directed type then [] else dat) b"
  have 1: "asynchronous b b1"
    unfolding b1_def using assms by (intro asynchronous_report) (auto simp: t_def)
  then have "bt_ok b1" by (simp add: asynchronous_def)
  then have "asynchronous b1 (report (Some SCAN_RSP) atype addr rsp b1)"
    using assms(2) by (intro asynchronous_report) auto
  with 1 have "asynchronous b (report (Some SCAN_RSP) atype addr rsp b1)"
    by (rule asynchronous_trans)
  ultimately show ?thesis
    using False 1 by (simp add: receive_adv_def Let_def t_def [symmetric] b1_def [symmetric])
qed

lemma asynchronous_receive_connect:
  assumes "bt_ok b" and "pdu_ok (Connect atype addr tt tg i l t k)"
  shows "asynchronous b (receive_connect atype addr tt tg i l t k at b)"
proof -
  let ?b = "b\<lparr>adv := (adv b)\<lparr>adv_enabled := False, adv_next := None\<rparr>\<rparr>"
  have ok: "bt_ok ?b" using assms(1) by (simp add: bt_ok_def)
  then have "asynchronous b ?b" by (rule asynchronous_silent) simp
  moreover have "asynchronous ?b (connect (new_link 0x01 (Some k) atype addr i l t at ?b) ?b)"
    using ok assms(2) by (intro asynchronous_connect) auto
  ultimately have "asynchronous b (connect (new_link 0x01 (Some k) atype addr i l t at ?b) ?b)"
    by (rule asynchronous_trans)
  moreover have "asynchronous b b" using assms(1) by (rule asynchronous_silent) simp
  ultimately show ?thesis unfolding receive_connect_def Let_def by simp
qed

lemma asynchronous_receive_keyed:
  assumes "bt_ok b" and "pdu_ok p"
  shows "asynchronous b (receive_keyed p k at b)"
proof (cases "by_key k b")
  case None
  then show ?thesis using assms(1) by (auto simp: receive_keyed_def intro: asynchronous_silent)
next
  case (Some c)
  have "asynchronous b (receive_on_link p c at b)"
  proof (cases p)
    case (Acl pb d key)
    then have "emits async_packet b (receive_on_link p c at b)"
      using assms(2) by (intro emits_one [of _ _ "h4_acl (handle c OR push_bit 12 pb) d"])
        (auto simp: receive_on_link_def h4_acl_def [symmetric] intro: async_aclI,
         simp add: h4_acl_def)
    moreover have "bt_ok (receive_on_link p c at b)"
      using Acl assms(1) by (simp add: receive_on_link_def bt_ok_def)
    ultimately show ?thesis by (intro asynchronousI)
  next
    case (EncReq rand ediv ltk key)
    have "asynchronous b (upd_link (handle c) (\<lambda>c. c\<lparr>enc_pending := Some ltk\<rparr>) b)"
      using assms(1) by (intro asynchronous_upd) auto
    then show ?thesis
      unfolding receive_on_link_def EncReq pdu.case
      by (rule asynchronous_trans) (rule asynchronous_le_meta;
        use EncReq assms in \<open>auto intro: bt_ok_intros\<close>)
  next
    case (Terminate reason key)
    show ?thesis
      unfolding receive_on_link_def Terminate pdu.case
      by (rule asynchronous_trans [OF asynchronous_event asynchronous_drop])
         (use assms Terminate in auto)
  qed (use assms in \<open>auto simp: receive_on_link_def intro: asynchronous_silent
        asynchronous_apply_update asynchronous_link_encrypted\<close>)
  with Some show ?thesis by (simp add: receive_keyed_def)
qed

lemma asynchronous_receive:
  assumes "bt_ok b" and "pdu_ok p"
  shows "asynchronous b (receive p at b)"
proof -
  let ?b = "b\<lparr>air_received := air_received b + 1\<rparr>"
  have ok: "bt_ok ?b" using assms(1) by (simp add: bt_ok_def)
  then have "asynchronous b ?b" by (rule asynchronous_silent) simp
  moreover have "asynchronous ?b (receive p at b)"
    using assms(2) ok unfolding receive_def Let_def
    by (cases p) (simp_all only: pdu.case, auto intro!: asynchronous_receive_adv
        asynchronous_receive_connect asynchronous_receive_keyed simp del: pdu_ok.simps)
  ultimately show ?thesis by (rule asynchronous_trans)
qed

section \<open>The host's bytes and the clock\<close>

lemma acl_from_host_ok: "bt_ok b \<Longrightarrow> is_bytes pk \<Longrightarrow> length pk < 65540 \<Longrightarrow> bt_ok (acl_from_host pk b)"
  by (auto simp: acl_from_host_def Let_def link_ok_def split: option.splits intro!: bt_ok_intros)

lemma acl_from_host_rx [simp]: "rx (acl_from_host pk b) = rx b"
  by (auto simp: acl_from_host_def Let_def split: option.splits)

lemma answered_h4: "answered op b b' \<Longrightarrow> emits h4_packet b b'"
  unfolding answered_def emits_def async_packet_def
  by (elim exE conjE, rename_tac r ps, rule_tac x = "r # ps" in exI) auto

lemma asynchronous_h4: "asynchronous b b' \<Longrightarrow> bt_ok b' \<and> emits h4_packet b b'"
  by (auto simp: asynchronous_def async_packet_def elim: emits_mono)

text \<open>A byte from the guest: the state stays well-formed, and the answer, if the byte ends a command,
  is whole packets.\<close>

lemma from_host_ok:
  assumes "bt_ok b" and "x < 256"
  shows "bt_ok (from_host x now b) \<and> emits h4_packet b (from_host x now b)"
proof -
  define p where "p = pkt b @ [x]"
  have p: "is_bytes p" using assms by (simp add: p_def bt_ok_def)
  have ok: "bt_ok (b\<lparr>pkt := q\<rparr>)" if "is_bytes q" for q using assms(1) that by (simp add: bt_ok_def)
  have "is_bytes (drop 4 p)" using p by auto
  then have cmd: "bt_ok (command op (drop 4 p) now (b\<lparr>pkt := []\<rparr>)) \<and>
      emits h4_packet b (command op (drop 4 p) now (b\<lparr>pkt := []\<rparr>))" for op
    using command_ok [OF ok, of "[]"] answered_h4 [OF command_answered [OF ok, of "[]"]]
    by (auto simp: emits_def)
  have acl: "bt_ok (acl_from_host (drop 1 p) (b\<lparr>pkt := []\<rparr>))"
    if "length p = 5 + rd16 p 3"
    using that ok [of "[]"] rd16_less [OF p, of 3] p
    by (intro acl_from_host_ok) auto
  show ?thesis
    unfolding from_host_def Let_def p_def [symmetric]
    using cmd acl ok [OF p] ok [of "[]"] by (auto simp: emits_refl)
qed

text \<open>The link \<open>nextLink\<close> names is one of the links with something to send, at its next event.\<close>

lemma next_link_in_Some:
  "next_link_in cs best = Inr (Some (c, t)) \<Longrightarrow>
    best = Some (c, t) \<or>
    c \<in> set cs \<and> has_work c \<and> conn_event_at c (since c) = Inr t"
proof (induction cs best rule: next_link_in.induct)
  case (2 d cs best)
  show ?case
  proof (cases "has_work d")
    case False
    with 2 show ?thesis by auto
  next
    case True
    show ?thesis
    proof (cases "conn_event_at d (since d)")
      case (Inl e)
      with True "2.prems" show ?thesis by simp
    next
      case (Inr u)
      with True "2.prems" "2.IH"(2) [OF _ Inr] Inr show ?thesis
        by (fastforce split: option.splits if_splits)
    qed
  qed
qed auto

lemma due_event_ok:
  assumes "bt_ok b" and "due_event now b = Inr (Some b')"
  shows "asynchronous b b'"
proof -
  obtain lk where lk: "next_link b = Inr lk" using assms(2)
    by (cases "next_link b") (auto simp: due_event_def)
  have link: "c \<in> set (conns b)" if "lk = Some (c, t)" for c t
    using next_link_in_Some [of "conns b" None c t] lk that by (auto simp: next_link_def)
  have ok: "bt_ok (b\<lparr>air := tl (air b)\<rparr>)"
    using assms(1) by (cases "air b") (auto simp: bt_ok_def)
  have "asynchronous b (receive (snd (hd (air b))) t (b\<lparr>air := tl (air b)\<rparr>))"
    if "air_at b = Some t" for t
  proof (rule asynchronous_trans)
    show "asynchronous b (b\<lparr>air := tl (air b)\<rparr>)" using ok by (rule asynchronous_silent) simp
    have "hd (air b) \<in> set (air b)" using that by (auto simp: air_at_def split: list.splits)
    then have "pdu_ok (snd (hd (air b)))" using assms(1) unfolding bt_ok_def by blast
    with ok show "asynchronous (b\<lparr>air := tl (air b)\<rparr>)
      (receive (snd (hd (air b))) t (b\<lparr>air := tl (air b)\<rparr>))" by (rule asynchronous_receive)
  qed
  moreover have "asynchronous b (conn_event (fst (the lk)) t b)" if "map_option snd lk = Some t" for t
    using that assms(1) link [of "fst (the lk)" t]
    by (auto intro!: asynchronous_conn_event dest: bt_ok_link)
  ultimately show ?thesis
    using assms lk by (auto simp: due_event_def asynchronous_adv_event
      split: option.splits if_splits)
qed

text \<open>What holds of one round of the loop, and is transitive, holds of \<open>advance\<close>.\<close>

lemma advance_rel:
  assumes ret: "advance now b = Some (Inr b')" and "I b"
    and step: "\<And>x y. I x \<Longrightarrow> due_event now x = Inr (Some y) \<Longrightarrow> I y \<and> R x y"
    and refl: "\<And>x. I x \<Longrightarrow> R x x" and trans: "\<And>x y z. R x y \<Longrightarrow> R y z \<Longrightarrow> R x z"
  shows "I b' \<and> R b b'"
proof -
  have "\<forall>b'. r = Inr b' \<longrightarrow> n = now \<longrightarrow> I b \<longrightarrow> I b' \<and> R b b'"
    if "advance n b = Some r" for n b r
  proof (rule advance.raw_induct [where P = "\<lambda>n b r. \<forall>b'. r = Inr b' \<longrightarrow> n = now \<longrightarrow> I b \<longrightarrow> I b' \<and> R b b'",
        OF _ that])
    fix f n b r
    assume IH: "\<And>n b r. f n b = Some r \<Longrightarrow>
        \<forall>b'. r = Inr b' \<longrightarrow> n = now \<longrightarrow> I b \<longrightarrow> I b' \<and> R b b'"
      and eq: "(case due_event n b of Inl e \<Rightarrow> Some (Inl e) | Inr None \<Rightarrow> Some (Inr b)
          | Inr (Some b') \<Rightarrow> f n b') = Some r"
    show "\<forall>b'. r = Inr b' \<longrightarrow> n = now \<longrightarrow> I b \<longrightarrow> I b' \<and> R b b'"
    proof (intro allI impI)
      fix b' assume r: "r = Inr b'" and n: "n = now" and I: "I b"
      show "I b' \<and> R b b'"
      proof (cases "due_event n b")
        case (Inl e)
        with eq r show ?thesis by simp
      next
        case (Inr o')
        show ?thesis
        proof (cases o')
          case None
          with Inr eq r I refl show ?thesis by auto
        next
          case (Some y)
          with Inr n I have "I y \<and> R b y" by (intro step) auto
          moreover from Some Inr eq have "f n y = Some r" by simp
          ultimately show ?thesis using IH [of n y r] r n trans by blast
        qed
      qed
    qed
  qed
  then show ?thesis using ret \<open>I b\<close> by blast
qed

lemma advance_ok:
  assumes "advance now b = Some (Inr b')" and "bt_ok b"
  shows "asynchronous b b'"
proof -
  have "bt_ok b' \<and> asynchronous b b'"
  proof (rule advance_rel [where I = bt_ok and R = asynchronous])
    fix x y assume "bt_ok x" and "due_event now x = Inr (Some y)"
    then have "asynchronous x y" by (rule due_event_ok)
    then show "bt_ok y \<and> asynchronous x y" by (simp add: asynchronous_def)
  qed (use assms in \<open>auto intro: asynchronous_trans asynchronous_silent\<close>)
  then show ?thesis by simp
qed

section \<open>Runs\<close>

text \<open>
  Everything that can happen to a controller, with the bytes the guest reads from it: the guest
  writes a byte, reads one, a PDU is put on the air towards it, the host lets it catch up with the
  clock, and the host takes away what it has sent.
\<close>

inductive bt_step :: "bt \<Rightarrow> nat list \<Rightarrow> bt \<Rightarrow> bool" where
  host_write: "x < 256 \<Longrightarrow> bt_step b [] (from_host x now b)"
| host_read: "rx_ready now b \<Longrightarrow> bt_step b [hd (rx b)] (snd (rx_take now b))"
| air_arrives: "pdu_ok p \<Longrightarrow> bt_step b [] (from_air at p b)"
| clock: "advance now b = Some (Inr b') \<Longrightarrow> bt_step b [] b'"
| sent: "bt_step b [] (b\<lparr>outbox := []\<rparr>)"

inductive bt_run :: "bt \<Rightarrow> nat list \<Rightarrow> bt \<Rightarrow> bool" where
  here: "bt_run b [] b"
| more: "bt_run b got b' \<Longrightarrow> bt_step b' r b'' \<Longrightarrow> bt_run b (got @ r) b''"

inductive_cases bt_stepE: "bt_step b r b'"
inductive_cases bt_runE: "bt_run b got b'"

lemma run_host_write: "bt_run a got b \<Longrightarrow> x < 256 \<Longrightarrow> bt_run a got (from_host x now b)"
  using bt_run.more [of a got b "[]"] bt_step.host_write by simp

lemma run_air: "bt_run a got b \<Longrightarrow> pdu_ok p \<Longrightarrow> bt_run a got (from_air at p b)"
  using bt_run.more [of a got b "[]"] bt_step.air_arrives by simp

lemma run_clock: "bt_run a got b \<Longrightarrow> advance now b = Some (Inr b') \<Longrightarrow> bt_run a got b'"
  using bt_run.more [of a got b "[]"] bt_step.clock by simp

lemma run_host_read:
  "bt_run a got b \<Longrightarrow> rx_ready now b \<Longrightarrow> bt_run a (got @ [hd (rx b)]) (snd (rx_take now b))"
  by (rule bt_run.more [OF _ bt_step.host_read])

lemma run_host_write_all:
  "bt_run a got b \<Longrightarrow> is_bytes xs \<Longrightarrow> bt_run a got (from_host_all xs now b)"
  unfolding from_host_all_def by (induction xs arbitrary: b) (auto intro: run_host_write)

lemmas bt_run_intros = bt_run.here run_host_write_all run_air run_clock

text \<open>An invariant of every step is one of every run.\<close>

lemma bt_run_invariant:
  assumes "bt_run a got b" and "I [] a"
    and "\<And>got x r y. I got x \<Longrightarrow> bt_step x r y \<Longrightarrow> I (got @ r) y"
  shows "I got b"
  using assms by (induction rule: bt_run.induct) blast+

lemma bt_step_ok: "bt_step b r b' \<Longrightarrow> bt_ok b \<Longrightarrow> bt_ok b'"
proof (induction rule: bt_step.induct)
  case (host_write x b now)
  then show ?case using from_host_ok by blast
next
  case (host_read now b)
  then show ?case by (auto simp: rx_take_def bt_ok_def)
next
  case (air_arrives p b at)
  then show ?case by (auto simp: from_air_def bt_ok_def)
next
  case (clock now b b')
  then have "asynchronous b b'" by (rule advance_ok)
  then show ?case by (simp add: asynchronous_def)
next
  case (sent b)
  then show ?case by (simp add: bt_ok_def)
qed

text \<open>What the guest read, and what waits for it, is whole packets.\<close>

definition packet_stream :: "nat list \<Rightarrow> bool" where
  "packet_stream xs \<longleftrightarrow> (\<exists>ps. xs = concat ps \<and> list_all h4_packet ps)"

lemma packet_stream_emits:
  "packet_stream (got @ rx b) \<Longrightarrow> emits h4_packet b b' \<Longrightarrow> packet_stream (got @ rx b')"
  unfolding packet_stream_def emits_def
  by (elim exE conjE, rename_tac ps qs, rule_tac x = "ps @ qs" in exI)
     (simp add: list_all_iff ball_Un flip: append_assoc)

lemma bt_step_stream:
  assumes "bt_step b r b'" and "bt_ok b" and "packet_stream (got @ rx b)"
  shows "packet_stream ((got @ r) @ rx b')"
  using assms
proof (induction rule: bt_step.induct)
  case (host_write x b now)
  then show ?case using from_host_ok [of b x now] by (auto intro: packet_stream_emits)
next
  case (host_read now b)
  then show ?case by (cases "rx b") (auto simp: rx_take_def rx_ready_def)
next
  case (clock now b b')
  then have "emits h4_packet b b'" using advance_ok asynchronous_h4 by blast
  with clock.prems(2) show ?case by (auto intro: packet_stream_emits)
qed (auto simp: from_air_def)

text \<open>
  C12. The guest's H4 driver never loses its place: whatever a fresh controller is told, by the host
  over the UART, by the other board over the air or by the clock, the bytes the guest has read from
  it followed by those still waiting are a sequence of whole, well-formed H4 packets.
\<close>

theorem hci_stream_is_packets:
  assumes "bt_run (new_bt a seed given) got b" and "addr_ok a"
  shows "packet_stream (got @ rx b)"
proof -
  have "bt_ok b \<and> packet_stream (got @ rx b)"
  proof (rule bt_run_invariant [OF assms(1)])
    show "bt_ok (new_bt a seed given) \<and> packet_stream ([] @ rx (new_bt a seed given))"
      using assms(2) by (auto simp: bt_ok_new packet_stream_def intro: exI [of _ "[]"])
  qed (use bt_step_ok bt_step_stream in blast)
  then show ?thesis ..
qed

text \<open>
  C14. Every HCI command is answered at once and once: handling it appends a Command Complete or a
  Command Status that names its opcode, and after it only packets that answer nothing.
\<close>

theorem command_answered_once:
  assumes "bt_ok b"
  shows "\<exists>r ps. rx (command op p now b) = rx b @ r @ concat ps \<and> answers op r \<and> h4_packet r \<and>
    list_all async_packet ps"
  using command_answered [OF assms, of op p now]
  by (auto simp: answered_def list_all_iff intro!: exI)

theorem command_answered_once_witness:
  "\<exists>r ps. rx (command OP_LE_CREATE_CONN_CANCEL [] 5 (new_bt [1, 2, 3, 4, 5, 6] 1 True))
      = [] @ r @ concat ps \<and> answers OP_LE_CREATE_CONN_CANCEL r \<and> h4_packet r \<and>
    list_all async_packet ps"
  using command_answered_once [of "new_bt [1, 2, 3, 4, 5, 6] 1 True" OP_LE_CREATE_CONN_CANCEL "[]" 5]
  by (simp add: bt_ok_new addr_ok_def)

end
