(* ===== verification/Bt_Framing.thy ===== *)
theory Bt_Framing
  imports Bt_Events
begin

text \<open>
  The other direction of the controller's UART (host/bt.mjs, \<open>fromHost\<close>): the bytes the guest writes
  are cut into H4 packets, and each command or ACL packet is carried out when its last byte comes.
\<close>

section \<open>What the host's driver writes\<close>

datatype host_packet = HciCommand nat "nat list" | HciAcl nat "nat list"

fun encode_packet :: "host_packet \<Rightarrow> nat list" where
  "encode_packet (HciCommand op ps) = [H4_CMD] @ le16 op @ [length ps] @ ps"
| "encode_packet (HciAcl hdr d) = [H4_ACL] @ le16 hdr @ le16 (length d) @ d"

fun packet_fits :: "host_packet \<Rightarrow> bool" where
  "packet_fits (HciCommand op ps) \<longleftrightarrow> op < 65536 \<and> length ps < 256"
| "packet_fits (HciAcl hdr d) \<longleftrightarrow> length d < 65536"

text \<open>What the packet makes the controller do.\<close>

fun carry_out :: "ns \<Rightarrow> host_packet \<Rightarrow> bt \<Rightarrow> bt" where
  "carry_out now (HciCommand op ps) b = command op ps now b"
| "carry_out now (HciAcl hdr d) b = acl_from_host (le16 hdr @ le16 (length d) @ d) b"

section \<open>The buffer between packets\<close>

lemma link_encrypted_pkt [simp]: "pkt (link_encrypted c st b) = pkt b"
  by (auto simp: link_encrypted_def)

lemma command_pkt: "pkt b = [] \<Longrightarrow> pkt (command op ps now b) = []"
  by (auto simp: command_def cmd_reset_def cmd_bodies cmd_ltk_def cmd_on_link_def complete_def
      status_def le_meta_def send_on_def Let_def split_beta split: option.splits)

lemma acl_from_host_pkt [simp]: "pkt (acl_from_host pk b) = pkt b"
  by (auto simp: acl_from_host_def Let_def split: option.splits)

lemma carry_out_pkt: "pkt b = [] \<Longrightarrow> pkt (carry_out now p b) = []"
  by (cases p) (auto simp: command_pkt)

section \<open>One packet\<close>

text \<open>Is \<open>q\<close>, which is not empty, the start of a packet that needs more bytes?\<close>

definition incomplete :: "nat list \<Rightarrow> bool" where
  "incomplete q \<longleftrightarrow>
    (hd q = H4_CMD \<and> (4 \<le> length q \<longrightarrow> length q \<noteq> 4 + byte_at q 3)) \<or>
    (hd q = H4_ACL \<and> (5 \<le> length q \<longrightarrow> length q \<noteq> 5 + rd16 q 3))"

lemma from_host_incomplete:
  "pkt b = q \<Longrightarrow> incomplete (q @ [x]) \<Longrightarrow> from_host x now b = b\<lparr>pkt := q @ [x]\<rparr>"
  by (auto simp: from_host_def Let_def incomplete_def)

lemma from_host_prefix:
  assumes "\<And>k. 0 < k \<Longrightarrow> k \<le> length r \<Longrightarrow> incomplete (q @ take k r)" and "pkt b = q"
  shows "fold (\<lambda>x. from_host x now) r b = b\<lparr>pkt := q @ r\<rparr>"
  using assms
proof (induction r arbitrary: q b)
  case Nil
  then show ?case by simp
next
  case (Cons x r)
  have "incomplete (q @ [x])" using Cons.prems(1) [of 1] by simp
  with Cons.prems(2) have "from_host x now b = b\<lparr>pkt := q @ [x]\<rparr>" by (intro from_host_incomplete)
  moreover have "fold (\<lambda>x. from_host x now) r (b\<lparr>pkt := q @ [x]\<rparr>)
      = b\<lparr>pkt := q @ [x]\<rparr>\<lparr>pkt := (q @ [x]) @ r\<rparr>"
  proof (rule Cons.IH)
    show "incomplete ((q @ [x]) @ take k r)" if "0 < k" "k \<le> length r" for k
      using Cons.prems(1) [of "Suc k"] that by simp
  qed simp
  ultimately show ?case by simp
qed

lemma byte_at_take: "i < n \<Longrightarrow> byte_at (take n xs) i = byte_at xs i"
  by (auto simp: byte_at_def)

text \<open>Every proper prefix of a packet is incomplete: its length field is not reached, or says more.\<close>

lemma incomplete_prefix:
  assumes "packet_fits p" and "0 < k" and "k < length (encode_packet p)"
  shows "incomplete (take k (encode_packet p))"
proof (cases p)
  case (HciCommand op ps)
  let ?e = "encode_packet p"
  have e: "byte_at ?e 3 = length ps" "length ?e = 4 + length ps" "?e ! 0 = H4_CMD"
    using HciCommand by (simp_all add: le16_def)
  have "hd (take k ?e) = H4_CMD" using assms(2) HciCommand by (simp add: take_Cons')
  moreover have "4 \<le> k \<Longrightarrow> k \<noteq> 4 + byte_at (take k ?e) 3"
    using assms(3) e by (simp add: byte_at_take)
  ultimately show ?thesis using assms(3) by (auto simp: incomplete_def)
next
  case (HciAcl hdr d)
  let ?e = "encode_packet p"
  have e: "rd16 ?e 3 = length d" "length ?e = 5 + length d" "?e ! 0 = H4_ACL"
    using HciAcl assms(1) by (simp_all add: le16_def rd16_def)
  have "hd (take k ?e) = H4_ACL" using assms(2) HciAcl by (simp add: take_Cons')
  moreover have "5 \<le> k \<Longrightarrow> k \<noteq> 5 + rd16 (take k ?e) 3"
    using assms(3) e by (simp add: rd16_def byte_at_take)
  ultimately show ?thesis using assms(3) by (auto simp: incomplete_def)
qed

lemma from_host_last:
  assumes "packet_fits p" and "pkt b = butlast (encode_packet p)"
  shows "from_host (last (encode_packet p)) now b = carry_out now p (b\<lparr>pkt := []\<rparr>)"
proof -
  have all: "pkt b @ [last (encode_packet p)] = encode_packet p"
  proof -
    have "encode_packet p \<noteq> []" by (cases p) auto
    then show ?thesis using assms(2) by simp
  qed
  show ?thesis
  proof (cases p)
    case (HciCommand op ps)
    have "rd16 (encode_packet p) 1 = rd16 (le16 op) 0"
      using HciCommand by (simp add: rd16_def le16_def)
    then have "rd16 (encode_packet p) 1 = op"
      using HciCommand assms(1) rd16_le16 [of op "[]"] by simp
    then show ?thesis
      unfolding from_host_def Let_def all using HciCommand by (simp add: le16_def)
  next
    case (HciAcl hdr d)
    have "rd16 (encode_packet p) 3 = rd16 (le16 (length d)) 0"
      using HciAcl by (simp add: rd16_def le16_def)
    then have "rd16 (encode_packet p) 3 = length d"
      using HciAcl assms(1) rd16_le16 [of "length d" "[]"] by simp
    then show ?thesis
      unfolding from_host_def Let_def all using HciAcl by (simp add: le16_def)
  qed
qed

lemma from_host_packet:
  assumes "packet_fits p" and "pkt b = []"
  shows "from_host_all (encode_packet p) now b = carry_out now p b"
proof -
  let ?e = "encode_packet p"
  have ne: "?e \<noteq> []" by (cases p) auto
  then have split: "?e = butlast ?e @ [last ?e]" by simp
  have "fold (\<lambda>x. from_host x now) (butlast ?e) b = b\<lparr>pkt := [] @ butlast ?e\<rparr>"
  proof (rule from_host_prefix)
    show "incomplete ([] @ take k (butlast ?e))" if "0 < k" "k \<le> length (butlast ?e)" for k
    proof -
      have "0 < length ?e" using ne by simp
      with that have "k < length ?e" by simp
      moreover have "take k (butlast ?e) = take k ?e"
        using that by (simp add: butlast_conv_take min_absorb1)
      ultimately show ?thesis using incomplete_prefix [OF assms(1) that(1)] by simp
    qed
  qed (rule assms(2))
  then have "from_host_all ?e now b = from_host (last ?e) now (b\<lparr>pkt := butlast ?e\<rparr>)"
    unfolding from_host_all_def by (subst split) (simp del: append_butlast_last_id)
  also have "\<dots> = carry_out now p (b\<lparr>pkt := butlast ?e\<rparr>\<lparr>pkt := []\<rparr>)"
    by (rule from_host_last [OF assms(1)]) simp
  also have "b\<lparr>pkt := butlast ?e\<rparr>\<lparr>pkt := []\<rparr> = b" using assms(2) by simp
  finally show ?thesis .
qed

section \<open>A stream\<close>

text \<open>
  C13. The controller carries out exactly the packets the host's driver sent, in order, however many
  are written one after another: framing neither loses, splits nor merges one.
\<close>

theorem host_packets_carried_out:
  assumes "list_all packet_fits ps" and "pkt b = []"
  shows "from_host_all (concat (map encode_packet ps)) now b = fold (carry_out now) ps b"
  using assms
proof (induction ps arbitrary: b)
  case Nil
  then show ?case by (simp add: from_host_all_def)
next
  case (Cons p ps)
  have "from_host_all (concat (map encode_packet (p # ps))) now b
      = from_host_all (concat (map encode_packet ps)) now (from_host_all (encode_packet p) now b)"
    by (simp add: from_host_all_def)
  also have "\<dots> = from_host_all (concat (map encode_packet ps)) now (carry_out now p b)"
    using Cons.prems by (simp add: from_host_packet)
  also have "\<dots> = fold (carry_out now) ps (carry_out now p b)"
    using Cons.prems by (intro Cons.IH) (auto intro: carry_out_pkt)
  finally show ?case by simp
qed

text \<open>LE Set Advertising Data, then LE Set Advertising Enable.\<close>

theorem host_packets_carried_out_witness:
  "from_host_all ([1, 8, 0x20, 3, 2, 9, 9] @ [1, 0x0a, 0x20, 1, 1]) 7 (new_bt [1, 2, 3, 4, 5, 6] 1 True)
    = command OP_LE_SET_ADV_ENABLE [1] 7
        (command OP_LE_SET_ADV_DATA [2, 9, 9] 7 (new_bt [1, 2, 3, 4, 5, 6] 1 True))"
  using host_packets_carried_out [of "[HciCommand OP_LE_SET_ADV_DATA [2, 9, 9],
      HciCommand OP_LE_SET_ADV_ENABLE [1]]" "new_bt [1, 2, 3, 4, 5, 6] 1 True" 7]
  by (simp add: le16_def numeral_3_eq_3)

section \<open>A run\<close>

text \<open>A fresh controller is sent a Reset, and the guest reads the first byte of the answer: the
  hypotheses of \<open>hci_stream_is_packets\<close> hold there.\<close>

theorem hci_stream_is_packets_witness:
  "\<exists>b. bt_run (new_bt [1, 2, 3, 4, 5, 6] 1 True) [4] b \<and> packet_stream ([4] @ rx b)"
proof -
  let ?start = "new_bt [1, 2, 3, 4, 5, 6] 1 True"
  let ?b = "from_host_all (encode_packet (HciCommand OP_RESET [])) 0 ?start"
  have b: "?b = cmd_reset ?start"
    by (subst from_host_packet) (simp_all add: command_def)
  have rx: "rx ?b = [4, 14, 4, 1, 3, 12, 0]" "rx_ready_ns ?b = 0"
    unfolding b by (simp_all add: cmd_reset_def complete_def event_rx h4_event_def le16_def)
  have "bt_run ?start [] ?b" by (intro bt_run_intros) (simp add: le16_def)
  then have run: "bt_run ?start [4] (snd (rx_take 0 ?b))"
    using run_host_read [of ?start "[]" ?b 0] rx by (simp add: rx_ready_def)
  moreover have "packet_stream ([4] @ rx (snd (rx_take 0 ?b)))"
    using run by (rule hci_stream_is_packets) (simp add: addr_ok_def)
  ultimately show ?thesis by blast
qed

end
