(* ===== verification/Bt_Links.thy ===== *)
theory Bt_Links
  imports Bt_Framing
begin

text \<open>
  The links a controller of host/bt.mjs keeps: their handles are distinct, so naming a link by its
  handle is naming the object, and small enough for the 12 bits HCI gives them; and how many there
  can be. \<open>MAX_LINKS\<close> is checked when a connection is asked for and when one is accepted, but not
  when the connection that was asked for is made, so one link more is possible
  (\<open>link_limit_exceeded\<close> in \<open>Bt_Air\<close>).
\<close>

section \<open>The lowest free handle\<close>

lemma by_handle_None_iff: "by_handle h b = None \<longleftrightarrow> h \<notin> handle ` set (conns b)"
  by (auto simp: by_handle_def find_None_iff)

lemma free_handle_free: "by_handle (free_handle h b) b = None"
  by (induction h b rule: free_handle.induct) (subst free_handle.simps, simp)

lemma free_handle_least: "h \<le> n \<Longrightarrow> n < free_handle h b \<Longrightarrow> n \<in> handle ` set (conns b)"
proof (induction h b rule: free_handle.induct)
  case (1 h b)
  show ?case
  proof (cases "by_handle h b")
    case None
    with "1.prems" show ?thesis by (simp add: free_handle.simps [of h b])
  next
    case (Some c)
    with "1.IH" "1.prems" have "n \<noteq> h \<Longrightarrow> ?thesis" by (simp add: free_handle.simps [of h b])
    with Some show ?thesis by (auto dest: by_handle_SomeD)
  qed
qed

lemma free_handle_le: "free_handle 0 b \<le> length (conns b)"
proof -
  have "{0..<free_handle 0 b} \<subseteq> handle ` set (conns b)"
    using free_handle_least [of 0 _ b] by auto
  then have "card {0..<free_handle 0 b} \<le> card (handle ` set (conns b))" by (intro card_mono) auto
  also have "\<dots> \<le> length (conns b)" by (meson card_image_le card_length finite_set order_trans)
  finally show ?thesis by simp
qed

section \<open>The invariant\<close>

definition links_inv :: "bt \<Rightarrow> bool" where
  "links_inv b \<longleftrightarrow> distinct (map handle (conns b)) \<and> (\<forall>c \<in> set (conns b). handle c \<le> MAX_LINKS) \<and>
    length (conns b) \<le> MAX_LINKS + 1 \<and> (initiating b \<noteq> None \<longrightarrow> length (conns b) \<le> MAX_LINKS)"

lemma links_inv_same:
  "conns b' = conns b \<Longrightarrow> initiating b' = initiating b \<Longrightarrow> links_inv b' = links_inv b"
  by (simp add: links_inv_def)

text \<open>What one operation does to the links: it writes to them or drops some, keeping their handles,
  and starts no initiation. Everything but a new link, a reset and the two commands about an
  initiation is of this kind.\<close>

definition keeps_links :: "bt \<Rightarrow> bt \<Rightarrow> bool" where
  "keeps_links b b' \<longleftrightarrow>
    (\<exists>P. map handle (conns b') = filter P (map handle (conns b))) \<and>
    (initiating b' = None \<or> initiating b' = initiating b)"

lemma keeps_links_inv: "keeps_links b b' \<Longrightarrow> links_inv b \<Longrightarrow> links_inv b'"
proof -
  assume k: "keeps_links b b'" and inv: "links_inv b"
  obtain P where P: "map handle (conns b') = filter P (map handle (conns b))"
    using k by (auto simp: keeps_links_def)
  have len: "length (conns b') \<le> length (conns b)"
    using arg_cong [OF P, of length] length_filter_le [of P "map handle (conns b)"] by simp
  have "handle ` set (conns b') \<subseteq> handle ` set (conns b)"
    using arg_cong [OF P, of set] by auto
  moreover have "distinct (map handle (conns b'))"
    using inv unfolding P by (simp add: links_inv_def distinct_filter)
  ultimately show "links_inv b'"
    using inv k len unfolding links_inv_def keeps_links_def by fastforce
qed

lemma keeps_links_refl: "conns b' = conns b \<Longrightarrow> initiating b' = initiating b \<Longrightarrow> keeps_links b b'"
  unfolding keeps_links_def by (auto intro: exI [of _ "\<lambda>_. True"])

lemma keeps_links_self [simp]: "keeps_links b b"
  by (rule keeps_links_refl) simp_all

lemma keeps_links_trans: "keeps_links a b \<Longrightarrow> keeps_links b c \<Longrightarrow> keeps_links a c"
  unfolding keeps_links_def
  by (elim conjE exE, rename_tac P Q, intro conjI, rule_tac x = "\<lambda>x. P x \<and> Q x" in exI)
     (auto simp: conj_commute)

lemma keeps_links_fold: "(\<And>x b. keeps_links b (f x b)) \<Longrightarrow> keeps_links b (fold f xs b)"
  by (induction xs arbitrary: b) (auto intro: keeps_links_trans keeps_links_refl)

lemma keeps_links_upd: "(\<And>c. handle (f c) = handle c) \<Longrightarrow> keeps_links b (upd_link h f b)"
  unfolding keeps_links_def
  by (intro conjI exI [of _ "\<lambda>_. True"]) (auto simp: upd_link_def intro!: map_cong)

lemma keeps_links_drop: "keeps_links b (drop_link h b)"
  unfolding keeps_links_def
  by (intro conjI exI [of _ "\<lambda>x. x \<noteq> h"]) (simp_all add: drop_link_def filter_map o_def)

lemma keeps_links_event: "keeps_links b (event code ps b)"
  by (rule keeps_links_refl) simp_all

lemma keeps_links_answer: "keeps_links b (complete op ps b)" "keeps_links b (status op st b)"
  "keeps_links b (le_meta sub ps b)" "keeps_links b (send_on c p at b)"
  by (rule keeps_links_refl; simp add: complete_def status_def le_meta_def send_on_def)+

lemmas keeps_links_prims = keeps_links_upd keeps_links_drop keeps_links_event keeps_links_answer

text \<open>An operation on top of one that keeps the links.\<close>

lemma keeps_links_prims_on:
  "keeps_links a b \<Longrightarrow> (\<And>c. handle (f c) = handle c) \<Longrightarrow> keeps_links a (upd_link h f b)"
  "keeps_links a b \<Longrightarrow> keeps_links a (drop_link h b)"
  "keeps_links a b \<Longrightarrow> keeps_links a (event code ps b)"
  "keeps_links a b \<Longrightarrow> keeps_links a (complete op ps b)"
  "keeps_links a b \<Longrightarrow> keeps_links a (status op st b)"
  "keeps_links a b \<Longrightarrow> keeps_links a (le_meta sub ps b)"
  "keeps_links a b \<Longrightarrow> keeps_links a (send_on c p at b)"
  by (blast intro: keeps_links_trans keeps_links_prims)+

lemma keeps_links_encrypted: "keeps_links a b \<Longrightarrow> keeps_links a (link_encrypted c st b)"
  by (auto simp: link_encrypted_def intro!: keeps_links_prims_on)

lemma keeps_links_update: "keeps_links a b \<Longrightarrow> keeps_links a (apply_update c i l t at b)"
  by (auto simp: apply_update_def intro!: keeps_links_prims_on)

lemma keeps_links_cmd_ltk: "keeps_links b (cmd_ltk op p now b)"
  by (auto simp: cmd_ltk_def Let_def split: option.splits
      intro!: keeps_links_prims_on keeps_links_encrypted)

lemma keeps_links_cmd_on_link: "keeps_links b (cmd_on_link op p b)"
  by (auto simp: cmd_on_link_def Let_def split: option.splits
      intro!: keeps_links_prims_on)

lemma keeps_links_acl: "keeps_links b (acl_from_host pk b)"
  by (auto simp: acl_from_host_def Let_def split: option.splits
      intro!: keeps_links_prims_on)

lemma keeps_links_conn_procedure: "keeps_links b (conn_procedure c at opp b)"
  by (auto simp: conn_procedure_def split_beta Let_def
      intro!: keeps_links_prims_on keeps_links_update)

lemma keeps_links_conn_event: "keeps_links b (conn_event c at b)"
proof -
  have "keeps_links b (fold (\<lambda>pk. send_on c (Acl (acl_pb pk) (acl_data pk)) at) (tx c) b)"
    by (intro keeps_links_fold keeps_links_prims)
  then show ?thesis
    by (auto simp: conn_event_def Let_def
        intro!: keeps_links_prims_on keeps_links_trans [OF _ keeps_links_fold]
          keeps_links_conn_procedure)
qed

lemma keeps_links_adv_event: "keeps_links b (adv_event at b)"
  by (rule keeps_links_refl) (simp_all add: adv_event_def Let_def)

lemma keeps_links_report: "keeps_links a b \<Longrightarrow> keeps_links a (report ty atype addr dat b)"
  by (auto simp: report_def Let_def
      intro!: keeps_links_prims_on elim!: keeps_links_trans intro: keeps_links_refl)

lemma keeps_links_receive_keyed: "keeps_links b (receive_keyed p k at b)"
  by (cases p) (auto simp: receive_keyed_def receive_on_link_def split: option.splits
      intro!: keeps_links_prims_on keeps_links_encrypted keeps_links_update
      intro: keeps_links_refl)

text \<open>A new link takes the lowest free handle, which is distinct from the others' and no greater
  than how many there are.\<close>

lemma links_inv_connect:
  assumes "links_inv b" and "length (conns b) \<le> MAX_LINKS" and "handle c = free_handle 0 b"
    and "initiating b \<noteq> None \<longrightarrow> length (conns b) < MAX_LINKS"
  shows "links_inv (connect c b)"
proof -
  have "handle c \<notin> handle ` set (conns b)"
    using free_handle_free [of 0 b] assms(3) by (simp add: by_handle_None_iff)
  moreover have "handle c \<le> MAX_LINKS" using free_handle_le [of b] assms(2,3) by simp
  ultimately show ?thesis
    using assms unfolding links_inv_def connect_def le_meta_def by auto
qed

lemma links_inv_receive:
  assumes inv: "links_inv b"
  shows "links_inv (receive p at b)"
proof -
  let ?r = "b\<lparr>air_received := air_received b + 1\<rparr>"
  have inv': "links_inv ?r" using inv by (simp add: links_inv_def)
  show ?thesis
  proof (cases p)
    case (Adv ty atype addr dat rsp)
    show ?thesis
    proof (cases "wants ?r ty atype addr")
      case True
      define d where "d = ?r\<lparr>initiating := None\<rparr>"
      define ini where "ini = the (initiating ?r)"
      define c where "c = new_link 0x00 None atype addr (ini_interval ini) (ini_latency ini)
        (ini_timeout ini) at d"
      have "initiating b \<noteq> None" using True by (auto simp: wants_def split: option.splits)
      then have "length (conns b) \<le> MAX_LINKS" using inv by (simp add: links_inv_def)
      then have "links_inv (connect c d)"
        using inv by (intro links_inv_connect) (auto simp: d_def c_def links_inv_def)
      moreover have "receive p at b = send_on c (Connect (fst (own_address (ini_own_type ini) d))
          (snd (own_address (ini_own_type ini) d)) atype addr (ini_interval ini)
          (ini_latency ini) (ini_timeout ini)) at (connect c d)"
        unfolding Adv receive_def Let_def pdu.case receive_adv_def if_P [OF True]
        by (simp only: d_def c_def ini_def)
      ultimately show ?thesis by (simp only: keeps_links_inv [OF keeps_links_answer(4)])
    next
      case False
      then have "keeps_links ?r (receive_adv ty atype addr dat rsp at ?r)"
        by (auto simp: receive_adv_def Let_def intro!: keeps_links_report keeps_links_refl)
      with inv' Adv show ?thesis by (auto simp: receive_def intro: keeps_links_inv)
    qed
  next
    case (Connect atype addr tt tg i l t k)
    have "links_inv (receive_connect atype addr tt tg i l t k at ?r)"
      using inv' unfolding receive_connect_def Let_def
      by (auto intro!: links_inv_connect) (auto simp: links_inv_def)
    with Connect show ?thesis by (simp add: receive_def)
  qed (use inv' in \<open>auto simp: receive_def intro: keeps_links_inv [OF keeps_links_receive_keyed]\<close>)
qed

lemma links_inv_cmd_reset: "links_inv (cmd_reset b)"
  by (simp add: cmd_reset_def complete_def links_inv_def)

lemma links_inv_bodies:
  assumes "links_inv b"
  shows "links_inv (cmd_adv_params p b)" "links_inv (cmd_adv_enable p now b)"
    "links_inv (cmd_scan_params p b)" "links_inv (cmd_scan_enable p b)"
    "links_inv (cmd_create_conn p b)" "links_inv (cmd_create_conn_cancel b)"
    "links_inv (cmd_rand b)"
  using assms by (auto simp: cmd_bodies links_inv_def Let_def split_beta complete_def status_def
      le_meta_def)

lemma links_inv_complete: "links_inv (complete op ps b) = links_inv b"
  by (simp add: complete_def links_inv_def)

lemma links_inv_command: "links_inv b \<Longrightarrow> links_inv (command op p now b)"
  unfolding command_def
  by (auto simp: links_inv_cmd_reset links_inv_bodies links_inv_complete
      intro: keeps_links_inv [OF keeps_links_cmd_ltk] keeps_links_inv [OF keeps_links_cmd_on_link])
     (auto simp: links_inv_def)

lemma links_inv_from_host: "links_inv b \<Longrightarrow> links_inv (from_host x now b)"
  by (auto simp: from_host_def Let_def intro!: links_inv_command
      keeps_links_inv [OF keeps_links_acl]) (auto simp: links_inv_def)

lemma links_inv_due_event:
  "links_inv b \<Longrightarrow> due_event now b = Inr (Some b') \<Longrightarrow> links_inv b'"
  by (auto simp: due_event_def split: sum.splits option.splits if_splits
      intro!: links_inv_receive keeps_links_inv [OF keeps_links_conn_event]
        keeps_links_inv [OF keeps_links_adv_event]) (auto simp: links_inv_def)

lemma links_inv_step: "bt_step b r b' \<Longrightarrow> links_inv b \<Longrightarrow> links_inv b'"
proof (induction rule: bt_step.induct)
  case (clock now b b')
  have "links_inv b' \<and> True"
    by (rule advance_rel [where R = "\<lambda>_ _. True", OF clock(1)])
       (use clock(2) links_inv_due_event in auto)
  then show ?case by simp
qed (auto simp: links_inv_from_host, auto simp: links_inv_def rx_take_def from_air_def)

text \<open>
  C17. However the controller is used, no two of its links have the same handle, every handle fits
  in the 12 bits an HCI packet has for it, and there are at most \<open>MAX_LINKS + 1\<close> links.
\<close>

theorem link_handles_distinct:
  assumes "bt_run (new_bt a seed given) got b"
  shows "distinct (map handle (conns b)) \<and> list_all (\<lambda>c. handle c \<le> MAX_LINKS) (conns b) \<and>
    length (conns b) \<le> MAX_LINKS + 1"
proof -
  have "links_inv b"
    by (rule bt_run_invariant [OF assms]) (use links_inv_step in \<open>auto simp: links_inv_def\<close>)
  then show ?thesis by (auto simp: links_inv_def list_all_iff)
qed

end
