(* ===== verification/Bt_Time.thy ===== *)
theory Bt_Time
  imports Bt_Links
begin

text \<open>
  The controller's clock (host/bt.mjs, \<open>advance\<close>, \<open>nextNs\<close>, \<open>connEventAt\<close>): when connection events
  fall, that catching up with the clock ends and leaves nothing due, and what becomes of intervals
  of zero, which the code does not refuse.
\<close>

section \<open>Connection events\<close>

lemma conn_event_at_grid:
  assumes "0 < interval_ns c"
  shows "\<exists>n \<ge> 0. conn_event_at c t = Inr (anchor_ns c + n * interval_ns c) \<and>
    t \<le> anchor_ns c + n * interval_ns c \<and>
    (n = 0 \<or> anchor_ns c + (n - 1) * interval_ns c < t)"
proof (cases "t \<le> anchor_ns c")
  case True
  then show ?thesis by (intro exI [of _ 0]) (simp add: conn_event_at_def)
next
  case False
  define d where "d = t - anchor_ns c"
  define n where "n = (d + interval_ns c - 1) div interval_ns c"
  have "n * interval_ns c = d + interval_ns c - 1 - (d + interval_ns c - 1) mod interval_ns c"
    unfolding n_def by (simp add: minus_mod_eq_div_mult [symmetric])
  moreover have "0 \<le> (d + interval_ns c - 1) mod interval_ns c"
    and "(d + interval_ns c - 1) mod interval_ns c < interval_ns c"
    using assms by simp_all
  ultimately have n: "d \<le> n * interval_ns c" "n * interval_ns c - interval_ns c < d" by linarith+
  have "0 \<le> n" unfolding n_def using False assms by (intro pos_imp_zdiv_nonneg_iff [THEN iffD2]) (simp_all add: d_def)
  moreover have "conn_event_at c t = Inr (anchor_ns c + n * interval_ns c)"
    using False assms by (simp add: conn_event_at_def Let_def n_def d_def)
  ultimately show ?thesis
    using n by (intro exI [of _ n]) (auto simp: d_def left_diff_distrib)
qed

text \<open>
  A connection event at or after \<open>t\<close> is the first of the link's events, which are a whole number
  of intervals after its anchor: none is skipped, and none is before \<open>t\<close>.
\<close>

theorem conn_event_at_first:
  assumes "0 < interval_ns c"
  shows "\<exists>n \<ge> 0. conn_event_at c t = Inr (anchor_ns c + n * interval_ns c) \<and>
    t \<le> anchor_ns c + n * interval_ns c \<and>
    (n = 0 \<or> anchor_ns c + (n - 1) * interval_ns c < t)"
  using assms by (rule conn_event_at_grid)

theorem conn_event_at_first_witness:
  "\<exists>n \<ge> 0. conn_event_at (new_link 0 None 0 [] 8 0 42 100 (new_bt [] 1 True)) 10000101
      = Inr (100 + n * 10000000) \<and> (10000101 :: int) \<le> 100 + n * 10000000 \<and>
    (n = 0 \<or> 100 + (n - 1) * 10000000 < (10000101 :: int))"
  using conn_event_at_first [of "new_link 0 None 0 [] 8 0 42 100 (new_bt [] 1 True)" 10000101]
  by (simp add: UNIT_CONN_NS_def)

section \<open>What is due\<close>

text \<open>The state has no interval of zero, on a link, in what was asked of one, or on its way.\<close>

definition conn_timing_ok :: "link \<Rightarrow> bool" where
  "conn_timing_ok c \<longleftrightarrow> 0 < interval_ns c \<and>
    (\<forall>(op, p) \<in> set (pending c). op = OP_LE_CONN_UPDATE \<longrightarrow> 0 < rd16 p 4)"

fun pdu_timing_ok :: "pdu \<Rightarrow> bool" where
  "pdu_timing_ok (Connect _ _ _ _ ivl _ _ _) \<longleftrightarrow> 0 < ivl"
| "pdu_timing_ok (Update ivl _ _ _) \<longleftrightarrow> 0 < ivl"
| "pdu_timing_ok _ \<longleftrightarrow> True"

definition adv_timing_ok :: "adv \<Rightarrow> bool" where
  "adv_timing_ok a \<longleftrightarrow> (adv_enabled a \<longrightarrow> 0 < adv_interval a \<and> adv_next a \<noteq> None)"

definition timing_ok :: "bt \<Rightarrow> bool" where
  "timing_ok b \<longleftrightarrow> adv_timing_ok (adv b) \<and> (\<forall>c \<in> set (conns b). conn_timing_ok c) \<and>
    (\<forall>ini. initiating b = Some ini \<longrightarrow> 0 < ini_interval ini) \<and>
    (\<forall>e \<in> set (air b). pdu_timing_ok (snd e))"

lemma next_link_in_total:
  "\<forall>c \<in> set cs. conn_timing_ok c \<Longrightarrow> \<exists>r. next_link_in cs best = Inr r"
proof (induction cs best rule: next_link_in.induct)
  case (2 c cs best)
  then obtain u where u: "conn_event_at c (since c) = Inr u"
    using conn_event_at_grid [of c "since c"] by (auto simp: conn_timing_ok_def)
  show ?case
  proof (cases "has_work c")
    case True
    with u "2.IH"(2) [OF _ u] "2.prems" show ?thesis by simp
  qed (use 2 in simp)
qed simp

lemma next_link_in_least:
  assumes "next_link_in cs best = Inr r"
  shows "(\<forall>d u. best = Some (d, u) \<longrightarrow> (\<exists>c t. r = Some (c, t) \<and> t \<le> u)) \<and>
    (\<forall>d \<in> set cs. has_work d \<longrightarrow>
      (\<exists>c t u. r = Some (c, t) \<and> conn_event_at d (since d) = Inr u \<and> t \<le> u))"
  using assms
proof (induction cs best rule: next_link_in.induct)
  case (2 c cs best)
  show ?case
  proof (cases "has_work c")
    case False
    with 2 show ?thesis by auto
  next
    case True
    show ?thesis
    proof (cases "conn_event_at c (since c)")
      case (Inl e)
      with True "2.prems" show ?thesis by simp
    next
      case (Inr u)
      define best' where "best' = (case best of None \<Rightarrow> Some (c, u)
        | Some (_, best_at) \<Rightarrow> if u < best_at then Some (c, u) else best)"
      have r: "next_link_in cs best' = Inr r" using True Inr "2.prems" by (simp add: best'_def)
      have IH: "(\<forall>d v. best' = Some (d, v) \<longrightarrow> (\<exists>c t. r = Some (c, t) \<and> t \<le> v)) \<and>
          (\<forall>d \<in> set cs. has_work d \<longrightarrow>
            (\<exists>c t v. r = Some (c, t) \<and> conn_event_at d (since d) = Inr v \<and> t \<le> v))"
        using "2.IH"(2) [OF _ Inr] True r by (simp add: best'_def)
      obtain d v where b': "best' = Some (d, v)" "v \<le> u"
        and old: "\<And>x w. best = Some (x, w) \<Longrightarrow> v \<le> w"
      proof (cases best)
        case None
        then show thesis by (intro that [of c u]) (simp_all add: best'_def)
      next
        case (Some e)
        obtain x w where e: "e = (x, w)" by fastforce
        show thesis
        proof (cases "u < w")
          case True
          with Some e show thesis by (intro that [of c u]) (auto simp: best'_def)
        next
          case False
          with Some e show thesis by (intro that [of x w]) (auto simp: best'_def)
        qed
      qed
      from IH b'(1) obtain x t where "r = Some (x, t)" "t \<le> v" by blast
      with IH Inr b'(2) old show ?thesis by (auto intro: order_trans)
    qed
  qed
qed auto

lemma next_link_least:
  assumes "next_link b = Inr lk" and "c \<in> set (conns b)" and "has_work c"
  obtains d t u where "lk = Some (d, t)" "conn_event_at c (since c) = Inr u" "t \<le> u"
  using next_link_in_least [OF assms(1) [unfolded next_link_def]] assms(2,3) by blast

text \<open>The three kinds of event \<open>advance\<close> carries out.\<close>

lemma due_event_cases:
  assumes "due_event now b = Inr (Some b')"
  obtains (air) t p q where "air b = (t, p) # q" "t \<le> now" "b' = receive p t (b\<lparr>air := q\<rparr>)"
  | (conn) c t where "c \<in> set (conns b)" "has_work c" "conn_event_at c (since c) = Inr t" "t \<le> now"
      "b' = conn_event c t b"
  | (adv) t where "adv_enabled (adv b)" "adv_next (adv b) = Some t" "t \<le> now" "b' = adv_event t b"
proof -
  obtain lk where lk: "next_link b = Inr lk"
    using assms by (cases "next_link b") (auto simp: due_event_def)
  define at where "at = min_big (min_big (adv_at b) (map_option snd lk)) (air_at b)"
  obtain t where t: "at = Some t" and le: "t \<le> now"
    using assms lk by (cases at) (auto simp: due_event_def at_def [symmetric] split: if_splits)
  have b': "(air_at b = Some t \<and> b' = receive (snd (hd (air b))) t (b\<lparr>air := tl (air b)\<rparr>)) \<or>
      (map_option snd lk = Some t \<and> b' = conn_event (fst (the lk)) t b) \<or>
      (air_at b \<noteq> Some t \<and> map_option snd lk \<noteq> Some t \<and> b' = adv_event t b)"
    using assms lk t le by (auto simp: due_event_def at_def [symmetric] split: if_splits)
  from b' show ?thesis
  proof (elim disjE conjE)
    assume "air_at b = Some t" "b' = receive (snd (hd (air b))) t (b\<lparr>air := tl (air b)\<rparr>)"
    with le show ?thesis by (cases "air b") (auto simp: air_at_def intro!: air)
  next
    assume m: "map_option snd lk = Some t" and e: "b' = conn_event (fst (the lk)) t b"
    then obtain c where c: "lk = Some (c, t)" by auto
    with next_link_in_Some [of "conns b" None c t] lk
    have "c \<in> set (conns b)" "has_work c" "conn_event_at c (since c) = Inr t"
      by (auto simp: next_link_def)
    with e c le show ?thesis by (intro conn) auto
  next
    assume "air_at b \<noteq> Some t" "map_option snd lk \<noteq> Some t" "b' = adv_event t b"
    with t le show ?thesis
      by (auto simp: at_def min_big_Some_iff adv_at_def split: if_splits intro!: adv)
  qed
qed

text \<open>When nothing is due, everything that will happen by itself is in the future.\<close>

lemma due_event_None:
  assumes "due_event now b = Inr None"
  shows "\<exists>lk. next_link b = Inr lk \<and> after_opt now (adv_at b) \<and> after_opt now (map_option snd lk) \<and>
    after_opt now (air_at b)"
proof -
  obtain lk where lk: "next_link b = Inr lk"
    using assms by (cases "next_link b") (auto simp: due_event_def)
  then have "after_opt now (min_big (min_big (adv_at b) (map_option snd lk)) (air_at b))"
    using assms by (auto simp: due_event_def after_opt_def split: option.splits if_splits)
  with lk show ?thesis by simp
qed

section \<open>The loop ends\<close>

definition work :: "bt \<Rightarrow> nat" where
  "work b = length (filter has_work (conns b))"

lemma length_filter_map_less:
  assumes "\<And>x. Q (g x) \<Longrightarrow> Q x" and "y \<in> set xs" and "Q y" and "\<not> Q (g y)"
  shows "length (filter Q (map g xs)) < length (filter Q xs)"
proof -
  have le: "length (filter Q (map g zs)) \<le> length (filter Q zs)" for zs
    using assms(1) by (induction zs) (auto intro: le_SucI)
  obtain us vs where "xs = us @ y # vs" using assms(2) by (meson split_list)
  then show ?thesis using assms(3,4) le [of us] le [of vs] by simp
qed

lemma has_work_updates [simp]:
  "has_work (c\<lparr>encrypted := e\<rparr>) = has_work c" "has_work (c\<lparr>enc_pending := l\<rparr>) = has_work c"
  "has_work (c\<lparr>since := t\<rparr>) = has_work c"
  "has_work (c\<lparr>interval_ns := n, anchor_ns := a, interval := i, latency := l', timeout := t'\<rparr>)
    = has_work c"
  by (simp_all add: has_work_def)

lemma work_upd: "(\<And>c. has_work (f c) = has_work c) \<Longrightarrow> work (upd_link h f b) = work b"
  unfolding work_def upd_link_def
  by (simp add: filter_map o_def if_distrib cong: if_cong)

lemma work_drop: "work (drop_link h b) \<le> work b"
proof -
  have "length (filter has_work (filter P cs)) \<le> length (filter has_work cs)" for P cs
    by (induction cs) (auto intro: le_SucI)
  then show ?thesis by (simp add: work_def drop_link_def)
qed

text \<open>What no operation of the radio but an advertising event and a reset does: put off an advertising
  event. And none adds to what waits on the air or to a link's work.\<close>

definition no_later :: "bt \<Rightarrow> bt \<Rightarrow> bool" where
  "no_later b b' \<longleftrightarrow> air b' = air b \<and> work b' \<le> work b \<and>
    (adv b' = adv b \<or> \<not> adv_enabled (adv b')) \<and> (timing_ok b \<longrightarrow> timing_ok b')"

lemma no_later_trans: "no_later a b \<Longrightarrow> no_later b c \<Longrightarrow> no_later a c"
  by (auto simp: no_later_def)

lemma no_later_refl [simp]: "no_later b b"
  by (simp add: no_later_def)

lemma no_later_same:
  "air b' = air b \<Longrightarrow> conns b' = conns b \<Longrightarrow> adv b' = adv b \<Longrightarrow>
   initiating b' = None \<or> initiating b' = initiating b \<Longrightarrow> no_later b b'"
  by (auto simp: no_later_def work_def timing_ok_def)

lemma no_later_upd:
  assumes "no_later a b" and "\<And>c. has_work (f c) = has_work c"
    and "\<And>c. conn_timing_ok c \<Longrightarrow> conn_timing_ok (f c)"
  shows "no_later a (upd_link h f b)"
proof -
  have "no_later b (upd_link h f b)"
    using assms(2,3) by (auto simp: no_later_def work_upd timing_ok_def)
      (auto simp: upd_link_def)
  with assms(1) show ?thesis by (rule no_later_trans)
qed

lemma no_later_on:
  "no_later a b \<Longrightarrow> no_later a (event code ps b)"
  "no_later a b \<Longrightarrow> no_later a (le_meta sub ps b)"
  "no_later a b \<Longrightarrow> no_later a (send_on c p at b)"
  "no_later a b \<Longrightarrow> no_later a (drop_link h b)"
proof -
  have d: "no_later b (drop_link h b)"
    by (auto simp: no_later_def work_drop timing_ok_def) (auto simp: drop_link_def)
  show "no_later a b \<Longrightarrow> no_later a (event code ps b)"
    "no_later a b \<Longrightarrow> no_later a (le_meta sub ps b)"
    "no_later a b \<Longrightarrow> no_later a (send_on c p at b)"
    by (erule no_later_trans, rule no_later_same; simp add: le_meta_def send_on_def)+
  show "no_later a b \<Longrightarrow> no_later a (drop_link h b)" using d by (rule no_later_trans [rotated])
qed

lemma no_later_encrypted: "no_later a b \<Longrightarrow> no_later a (link_encrypted c st b)"
  by (auto simp: link_encrypted_def intro!: no_later_on no_later_upd) (simp add: conn_timing_ok_def)

lemma no_later_update:
  "no_later a b \<Longrightarrow> 0 < i \<or> \<not> timing_ok a \<Longrightarrow> no_later a (apply_update c i l t at b)"
proof -
  assume ab: "no_later a b" and i: "0 < i \<or> \<not> timing_ok a"
  have "no_later a (upd_link (handle c) (\<lambda>c. c\<lparr>interval_ns := int i * UNIT_CONN_NS,
      anchor_ns := at, interval := i, latency := l, timeout := t\<rparr>) b)"
  proof (cases "0 < i")
    case True
    then show ?thesis
      by (intro no_later_upd [OF ab]) (auto simp: conn_timing_ok_def UNIT_CONN_NS_def)
  next
    case False
    with i ab show ?thesis by (simp add: no_later_def work_upd)
  qed
  then show ?thesis unfolding apply_update_def by (intro no_later_on)
qed

lemma no_later_conn_procedure:
  assumes "no_later a b" and "timing_ok a \<longrightarrow> fst opp = OP_LE_CONN_UPDATE \<longrightarrow> 0 < rd16 (snd opp) 4"
  shows "no_later a (conn_procedure c at opp b)"
  using assms by (auto simp: conn_procedure_def split_beta Let_def
      intro!: no_later_on no_later_update)

lemma no_later_procedures:
  assumes "no_later a b" and "timing_ok a \<longrightarrow> conn_timing_ok c"
  shows "no_later a (fold (conn_procedure c at) (pending c) b)"
proof -
  have "set ps \<subseteq> set (pending c) \<Longrightarrow> no_later a b \<Longrightarrow> no_later a (fold (conn_procedure c at) ps b)" for ps b
  proof (induction ps arbitrary: b)
    case (Cons opp ps)
    have "timing_ok a \<longrightarrow> fst opp = OP_LE_CONN_UPDATE \<longrightarrow> 0 < rd16 (snd opp) 4"
      using assms(2) Cons.prems(1) by (auto simp: conn_timing_ok_def)
    with Cons show ?case by (simp add: no_later_conn_procedure)
  qed simp
  with assms(1) show ?thesis by simp
qed

lemma no_later_sends:
  "no_later a b \<Longrightarrow> no_later a (fold (\<lambda>pk. send_on c (Acl (acl_pb pk) (acl_data pk)) at) pks b)"
  by (induction pks arbitrary: b) (auto intro: no_later_on)

lemma sends_frame:
  "conns (fold (\<lambda>pk. send_on c (p pk) at) pks b) = conns b"
  "air (fold (\<lambda>pk. send_on c (p pk) at) pks b) = air b"
  "adv (fold (\<lambda>pk. send_on c (p pk) at) pks b) = adv b"
  "initiating (fold (\<lambda>pk. send_on c (p pk) at) pks b) = initiating b"
  by (induction pks arbitrary: b) (simp_all add: send_on_def)

text \<open>A connection event leaves its link without work.\<close>

lemma conn_event_no_later:
  assumes "c \<in> set (conns b)" and "has_work c" and "timing_ok b"
  shows "no_later b (conn_event c at b) \<and> work (conn_event c at b) < work b"
proof -
  define b1 where "b1 = fold (\<lambda>pk. send_on c (Acl (acl_pb pk) (acl_data pk)) at) (tx c) b"
  define b2 where "b2 = upd_link (handle c) (\<lambda>c. c\<lparr>tx := []\<rparr>) b1"
  define b3 where "b3 = (if length (tx c) > 0
    then event EVT_NUM_COMPLETED ([1] @ le16 (handle c) @ le16 (length (tx c))) b2 else b2)"
  define b4 where "b4 = upd_link (handle c) (\<lambda>c. c\<lparr>pending := []\<rparr>) b3"
  define b5 where "b5 = fold (conn_procedure c at) (pending c) b4"
  let ?g = "\<lambda>x. if handle x = handle c then x\<lparr>tx := [], pending := []\<rparr> else x"
  have fields: "conns b1 = conns b" "air b1 = air b" "adv b1 = adv b" "initiating b1 = initiating b"
    unfolding b1_def by (simp_all add: sends_frame)
  have c4: "conns b4 = map ?g (conns b)"
    by (simp add: b4_def b3_def b2_def upd_link_def fields o_def if_distrib cong: if_cong)
  have o4: "air b4 = air b" "adv b4 = adv b" "initiating b4 = initiating b"
    by (simp_all add: b4_def b3_def b2_def fields)
  have lt: "work b4 < work b"
    unfolding work_def c4 using assms
    by (intro length_filter_map_less [of has_work ?g c]) (auto simp: has_work_def split: if_splits)
  moreover have "timing_ok b \<longrightarrow> timing_ok b4"
    unfolding timing_ok_def o4 c4 by (auto simp: conn_timing_ok_def)
  ultimately have "no_later b b4" using o4 by (simp add: no_later_def)
  then have 5: "no_later b b5"
    unfolding b5_def by (rule no_later_procedures) (use assms(1) in \<open>auto simp: timing_ok_def\<close>)
  have "no_later b4 b5"
    unfolding b5_def
  proof (rule no_later_procedures)
    show "timing_ok b4 \<longrightarrow> conn_timing_ok c"
      using assms(1,3) by (simp add: timing_ok_def)
  qed simp
  have e: "conn_event c at b = upd_link (handle c) (\<lambda>c. c\<lparr>since := at + 1\<rparr>) b5"
    by (simp add: conn_event_def Let_def b1_def b2_def b3_def b4_def b5_def)
  have w: "work (conn_event c at b) = work b5" unfolding e by (rule work_upd) simp
  from \<open>no_later b4 b5\<close> have "work b5 \<le> work b4" by (simp add: no_later_def)
  moreover have "no_later b (conn_event c at b)"
    unfolding e by (rule no_later_upd [OF 5]) (simp_all add: conn_timing_ok_def)
  ultimately show ?thesis using lt w by simp
qed


lemma new_link_empty [simp]:
  "tx (new_link rl k pt pa i l t at b) = []" "pending (new_link rl k pt pa i l t at b) = []"
  "interval_ns (new_link rl k pt pa i l t at b) = int i * UNIT_CONN_NS"
  by (simp_all add: new_link_def Let_def)

lemma connect_frame:
  "conns (connect c b) = conns b @ [c]" "air (connect c b) = air b" "adv (connect c b) = adv b"
  "initiating (connect c b) = initiating b"
  by (simp_all add: connect_def le_meta_def)

lemma no_later_connect:
  assumes "no_later a b" and "\<not> has_work c" and "timing_ok a \<longrightarrow> conn_timing_ok c"
  shows "no_later a (connect c b)"
proof -
  have "work (connect c b) = work b" using assms(2) by (simp add: work_def connect_frame)
  moreover have "timing_ok (connect c b)" if "timing_ok a"
  proof -
    have "timing_ok b" and "conn_timing_ok c" using assms(1,3) that by (auto simp only: no_later_def)
    then show ?thesis unfolding timing_ok_def connect_frame by auto
  qed
  ultimately show ?thesis using assms(1) unfolding no_later_def connect_frame by simp
qed

lemma no_later_report: "no_later a b \<Longrightarrow> no_later a (report ty atype addr dat b)"
proof -
  assume ab: "no_later a b"
  then have "no_later a (b\<lparr>scan := s\<rparr>)" for s
    by (rule no_later_trans) (rule no_later_same; simp)
  with ab show ?thesis by (auto simp: report_def Let_def intro!: no_later_on)
qed

lemma no_later_keyed:
  assumes "no_later a b" and "pdu_timing_ok p"
  shows "no_later a (receive_keyed p k at b)"
proof -
  have "no_later a (b\<lparr>rx := r\<rparr>)" for r
    using assms(1) by (rule no_later_trans) (rule no_later_same; simp)
  with assms show ?thesis
    by (cases p) (auto simp: receive_keyed_def receive_on_link_def conn_timing_ok_def
        split: option.splits intro!: no_later_on no_later_upd no_later_encrypted no_later_update)
qed

text \<open>Nothing that arrives puts off an advertising event or gives a link work.\<close>

lemma receive_no_later:
  assumes "pdu_timing_ok p"
  shows "no_later b (receive p at b)"
proof -
  let ?r = "b\<lparr>air_received := air_received b + 1\<rparr>"
  have r: "no_later b ?r" by (rule no_later_same) simp_all
  show ?thesis
  proof (cases p)
    case (Adv ty atype addr dat rsp)
    have "no_later ?r (receive_adv ty atype addr dat rsp at ?r)"
    proof (cases "wants ?r ty atype addr")
      case True
      have d: "no_later ?r (?r\<lparr>initiating := None\<rparr>)" by (rule no_later_same) simp_all
      obtain ini where ini: "initiating b = Some ini"
        using True by (auto simp: wants_def split: option.splits)
      show ?thesis
        unfolding receive_adv_def if_P [OF True] Let_def
        by (intro no_later_on no_later_connect d)
           (auto simp: ini has_work_def conn_timing_ok_def timing_ok_def UNIT_CONN_NS_def)
    qed (auto simp: receive_adv_def Let_def intro!: no_later_report)
    with r Adv show ?thesis by (auto simp: receive_def intro: no_later_trans)
  next
    case (Connect atype addr tt tg i l t k)
    define d where "d = ?r\<lparr>adv := (adv ?r)\<lparr>adv_enabled := False, adv_next := None\<rparr>\<rparr>"
    have "no_later ?r d"
      by (auto simp: d_def no_later_def work_def timing_ok_def adv_timing_ok_def)
    then have "no_later ?r (connect (new_link 1 (Some k) atype addr i l t at d) d)"
      using assms Connect
      by (intro no_later_connect) (auto simp: has_work_def conn_timing_ok_def UNIT_CONN_NS_def)
    then have "no_later ?r (receive_connect atype addr tt tg i l t k at ?r)"
      by (simp add: receive_connect_def Let_def d_def)
    with r Connect show ?thesis by (auto simp: receive_def intro: no_later_trans)
  qed (use r assms in \<open>auto simp: receive_def Let_def intro!: no_later_keyed\<close>)
qed

section \<open>How much is left to do\<close>

definition adv_left :: "ns \<Rightarrow> bt \<Rightarrow> nat" where
  "adv_left now b = (case adv_at b of None \<Rightarrow> 0
    | Some t \<Rightarrow> if now < t then 0 else nat ((now - t) div adv_interval (adv b)) + 1)"

definition left_by :: "ns \<Rightarrow> bt \<Rightarrow> nat" where
  "left_by now b = length (air b) + work b + adv_left now b"

lemma adv_left_no_later: "no_later b b' \<Longrightarrow> adv_left now b' \<le> adv_left now b"
  by (auto simp: no_later_def adv_left_def adv_at_def split: option.splits)

lemma adv_event_frame:
  "air (adv_event t b) = air b" "conns (adv_event t b) = conns b"
  "initiating (adv_event t b) = initiating b"
  "adv (adv_event t b) = (adv b)\<lparr>adv_next := Some (t + adv_interval (adv b))\<rparr>"
  by (simp_all add: adv_event_def Let_def)

lemma adv_event_left:
  assumes i: "0 < adv_interval (adv b)"
    and "adv_enabled (adv b)" and "adv_next (adv b) = Some t" and "t \<le> now"
  shows "adv_left now b = Suc (adv_left now (adv_event t b))"
proof -
  let ?i = "adv_interval (adv b)"
  have "(now - t) div ?i = (now - (t + ?i)) div ?i + 1"
    using div_add_self2 [of ?i "now - (t + ?i)"] i by (simp add: algebra_simps)
  moreover have "now < t + ?i \<Longrightarrow> (now - t) div ?i = 0"
    using assms(4) i by (intro div_pos_pos_trivial) simp_all
  moreover have "t + ?i \<le> now \<Longrightarrow> 0 \<le> (now - (t + ?i)) div ?i"
    using i by (intro pos_imp_zdiv_nonneg_iff [THEN iffD2]) simp_all
  ultimately show ?thesis
    using assms by (auto simp: adv_left_def adv_at_def adv_event_frame)
qed

lemma adv_event_timing: "timing_ok b \<Longrightarrow> timing_ok (adv_event t b)"
  by (auto simp: timing_ok_def adv_timing_ok_def adv_event_frame)

lemma due_event_left:
  assumes "due_event now b = Inr (Some b')" and "timing_ok b"
  shows "timing_ok b' \<and> left_by now b' < left_by now b"
  using assms(1)
proof (cases rule: due_event_cases)
  case (air t p q)
  have "no_later (b\<lparr>air := q\<rparr>) b'"
    unfolding air(3) by (rule receive_no_later) (use assms(2) air(1) in \<open>simp add: timing_ok_def\<close>)
  moreover have "timing_ok (b\<lparr>air := q\<rparr>)" using assms(2) air(1) by (simp add: timing_ok_def)
  moreover have left_q: "work (b\<lparr>air := q\<rparr>) = work b" "adv_left now (b\<lparr>air := q\<rparr>) = adv_left now b"
    by (simp_all add: work_def adv_left_def adv_at_def split: option.split)
  ultimately show ?thesis
    using air(1) adv_left_no_later [of "b\<lparr>air := q\<rparr>" b' now]
    by (auto simp: no_later_def left_by_def work_def adv_left_def adv_at_def)
next
  case (conn c t)
  then have "no_later b b'" and "work b' < work b" using conn_event_no_later assms(2) by auto
  with assms(2) show ?thesis
    using adv_left_no_later [of b b' now] by (auto simp: no_later_def left_by_def)
next
  case (adv t)
  have "0 < adv_interval (Bt.adv b)" using assms(2) adv(1) by (simp add: timing_ok_def adv_timing_ok_def)
  from adv_event_left [OF this adv(1,2,3)] adv_event_timing [OF assms(2)] adv(4) show ?thesis
    by (simp add: left_by_def work_def adv_event_frame)
qed


lemma advance_catches_up_ex:
  assumes "timing_ok b"
  shows "\<exists>b' at. advance now b = Some (Inr b') \<and> timing_ok b' \<and> due_event now b' = Inr None \<and>
    next_ns now b' = Inr at \<and> after_opt now at"
  using assms
proof (induction "left_by now b" arbitrary: b rule: less_induct)
  case less
  obtain lk where lk: "next_link b = Inr lk"
    using next_link_in_total [of "conns b" None] less.prems
    by (auto simp: next_link_def timing_ok_def)
  then obtain o' where o': "due_event now b = Inr o'"
    by (cases "due_event now b") (auto simp: due_event_def split: option.splits if_splits)
  show ?case
  proof (cases o')
    case None
    with o' have due: "due_event now b = Inr None" by simp
    then have "after_opt now (adv_at b)" "after_opt now (map_option snd lk)"
      "after_opt now (air_at b)"
      using due_event_None [OF due] lk by auto
    then have "\<exists>at. next_ns now b = Inr at \<and> after_opt now at"
      using lk by (auto simp: next_ns_def Let_def)
    with due less.prems show ?thesis by (subst advance.simps) auto
  next
    case (Some b')
    with o' have due: "due_event now b = Inr (Some b')" by simp
    with less.hyps [of b'] due_event_left [OF due less.prems] show ?thesis
      by (subst advance.simps) auto
  qed
qed

text \<open>
  C18. Catching up with the clock ends, whatever is under way, and leaves nothing due: the controller
  next wants the clock strictly later, so a host that jumps from deadline to deadline always moves
  on. This needs every interval to be more than zero (\<open>timing_ok\<close>), and keeps it so.
\<close>

theorem advance_catches_up:
  assumes "timing_ok b"
  shows "\<exists>b' at. advance now b = Some (Inr b') \<and> timing_ok b' \<and> due_event now b' = Inr None \<and>
    next_ns now b' = Inr at \<and> after_opt now at"
  using assms by (rule advance_catches_up_ex)

lemma due_event_later:
  "due_event now b = Inr (Some b') \<Longrightarrow> now \<le> later \<Longrightarrow> due_event later b = Inr (Some b')"
  by (auto simp: due_event_def split: sum.splits option.splits if_splits)

lemma advance_due: "due_event now b = Inr (Some b') \<Longrightarrow> advance now b = advance now b'"
  by (subst advance.simps) simp

lemma advance_twice_rec:
  "advance now b = Some r \<Longrightarrow> now \<le> later \<Longrightarrow> \<forall>b'. r = Inr b' \<longrightarrow> advance later b' = advance later b"
proof (induction now b r rule: advance.raw_induct [rotated, consumes 1])
  case (1 adv' now b r)
  show ?case
  proof (intro allI impI)
    fix b' assume r: "r = Inr b'"
    show "advance later b' = advance later b"
    proof (cases "due_event now b")
      case (Inl e)
      with 1 r show ?thesis by simp
    next
      case (Inr o')
      show ?thesis
      proof (cases o')
        case None
        with 1 r Inr show ?thesis by simp
      next
        case (Some x)
        with 1 Inr have "adv' now x = Some r" by simp
        with 1 r have "advance later b' = advance later x" by blast
        also have "\<dots> = advance later b"
          using advance_due [OF due_event_later [of now b x later]] Inr Some 1 by simp
        finally show ?thesis .
      qed
    qed
  qed
qed

text \<open>
  How often the host catches up does not matter: catching up with an earlier time first and then
  with a later one is catching up with the later one.
\<close>

theorem advance_twice:
  assumes "advance now b = Some (Inr b')" and "now \<le> later"
  shows "advance later b' = advance later b"
  using advance_twice_rec [OF assms] by simp


text \<open>A board with nothing to do; an advertiser whose first advertisement is due at 100.\<close>

definition sample_advertiser :: bt where
  "sample_advertiser = command OP_LE_SET_ADV_ENABLE [1] 100 (new_bt [1, 2, 3, 4, 5, 6] 1 True)"

lemma sample_advertiser_sel [simp]:
  "conns sample_advertiser = []" "air sample_advertiser = []" "has_air sample_advertiser"
  "initiating sample_advertiser = None"
  "adv sample_advertiser = initial_adv\<lparr>adv_enabled := True, adv_next := Some 100\<rparr>"
  by (simp_all add: sample_advertiser_def command_def cmd_adv_enable_def Let_def complete_def)

lemma sample_advertiser_timing: "timing_ok sample_advertiser"
  by (simp add: timing_ok_def adv_timing_ok_def initial_adv_def)

theorem advance_catches_up_witness:
  "\<exists>b' at. advance 1000000000 sample_advertiser = Some (Inr b') \<and> timing_ok b' \<and>
    due_event 1000000000 b' = Inr None \<and> next_ns 1000000000 b' = Inr at \<and>
    after_opt 1000000000 at"
  by (rule advance_catches_up [OF sample_advertiser_timing])

theorem advance_twice_witness:
  "\<exists>b'. advance 500 sample_advertiser = Some (Inr b') \<and>
    advance 1000000000 b' = advance 1000000000 sample_advertiser"
  using advance_catches_up_ex [OF sample_advertiser_timing, of 500]
    advance_twice [of 500 sample_advertiser _ 1000000000] by auto

section \<open>The advertising schedule\<close>

text \<open>What a controller advertises.\<close>

definition adv_pdu :: "bt \<Rightarrow> pdu" where
  "adv_pdu b = Adv (adv_type (adv b)) (fst (own_address (adv_own_type (adv b)) b))
    (snd (own_address (adv_own_type (adv b)) b)) (adv_data (adv b)) (adv_scan_rsp (adv b))"

lemma own_address_adv [simp]: "own_address t (b\<lparr>adv := a\<rparr>) = own_address t b"
  by (simp add: own_address_def split: option.split)

lemma own_address_send [simp]: "own_address t (send p at b) = own_address t b"
  by (simp add: own_address_def split: option.split)

lemma adv_event_eq:
  "adv_event at b = send (adv_pdu b) at
    (b\<lparr>adv := (adv b)\<lparr>adv_next := Some (at + adv_interval (adv b))\<rparr>\<rparr>)"
  by (simp add: adv_event_def adv_pdu_def Let_def)

lemma advance_idle: "due_event now b = Inr None \<Longrightarrow> advance now b = Some (Inr b)"
  by (subst advance.simps) simp

definition adv_only :: "bt \<Rightarrow> bool" where
  "adv_only b \<longleftrightarrow> adv_enabled (adv b) \<and> conns b = [] \<and> air b = [] \<and> has_air b"

lemma due_event_adv_only:
  "adv_only b \<Longrightarrow> adv_next (adv b) = Some t \<Longrightarrow>
   due_event now b = Inr (if now < t then None else Some (adv_event t b))"
  by (auto simp: adv_only_def due_event_def next_link_def adv_at_def air_at_def)

text \<open>
  A controller that only advertises sends its advertisement at every instant of its schedule, one
  interval apart from the time it was due, up to the clock, and no other PDU.
\<close>

theorem advertises_on_schedule:
  assumes "adv_enabled (adv b)" and "conns b = []" and "air b = []" and "has_air b"
    and "0 < adv_interval (adv b)" and "adv_next (adv b) = Some t" and "t \<le> now"
  shows "\<exists>b'. advance now b = Some (Inr b') \<and>
    outbox b' = outbox b @ map (\<lambda>k. (t + int k * adv_interval (adv b), adv_pdu b))
      [0..<nat ((now - t) div adv_interval (adv b)) + 1]"
proof -
  have rounds: "adv_only b \<Longrightarrow> adv_next (adv b) = Some t \<Longrightarrow> 0 < adv_interval (adv b) \<Longrightarrow>
      (if now < t then 0 else nat ((now - t) div adv_interval (adv b)) + 1) = n \<Longrightarrow>
      \<exists>b'. advance now b = Some (Inr b') \<and>
        outbox b' = outbox b @ map (\<lambda>k. (t + int k * adv_interval (adv b), adv_pdu b)) [0..<n]"
    for n b t
  proof (induction n arbitrary: b t)
    case 0
    then show ?case by (auto simp: advance_idle due_event_adv_only split: if_splits)
  next
    case (Suc n)
    let ?i = "adv_interval (adv b)" and ?b' = "adv_event t b"
    have le: "t \<le> now" using Suc.prems by (auto split: if_splits)
    have b': "adv_only ?b'" "adv_next (adv ?b') = Some (t + ?i)" "adv_interval (adv ?b') = ?i"
      "adv_pdu ?b' = adv_pdu b" "outbox ?b' = outbox b @ [(t, adv_pdu b)]"
      using Suc.prems(1)
      by (auto simp: adv_event_eq adv_only_def send_outbox adv_pdu_def)
    have left: "adv_left now b = Suc n"
      using Suc.prems le by (simp add: adv_left_def adv_at_def adv_only_def)
    then have "adv_left now ?b' = n"
      using adv_event_left [of b t now] Suc.prems le left by (simp add: adv_only_def)
    then have n: "(if now < t + ?i then 0
        else nat ((now - (t + ?i)) div adv_interval (adv ?b')) + 1) = n"
      using b' by (simp add: adv_left_def adv_at_def adv_only_def split: if_splits)
    have "0 < adv_interval (adv ?b')" using b'(3) Suc.prems(3) by simp
    from Suc.IH [OF b'(1,2) this n] obtain b2 where
      "advance now ?b' = Some (Inr b2)"
      "outbox b2 = outbox ?b' @ map (\<lambda>k. (t + ?i + int k * ?i, adv_pdu b)) [0..<n]"
      using b'(3,4) by auto
    moreover have "advance now b = advance now ?b'"
      using due_event_adv_only [OF Suc.prems(1,2), of now] le by (intro advance_due) simp
    moreover have "map (\<lambda>k. (t + int k * ?i, adv_pdu b)) [0..<Suc n] =
        (t, adv_pdu b) # map (\<lambda>k. (t + ?i + int k * ?i, adv_pdu b)) [0..<n]"
      by (simp add: upt_conv_Cons map_Suc_upt [symmetric] o_def algebra_simps del: upt_Suc)
    ultimately show ?case using b'(5) by auto
  qed
  show ?thesis
    using rounds [of b t] assms by (simp add: adv_only_def del: upt_Suc)
qed

section \<open>Intervals of zero\<close>

lemma advance_stuck:
  "advance now b = Some r \<Longrightarrow> adv_only b \<Longrightarrow> adv_interval (adv b) = 0 \<Longrightarrow>
   adv_next (adv b) = Some t \<Longrightarrow> now < t"
proof (induction now b r rule: advance.raw_induct [rotated, consumes 1])
  case (1 adv' now b r)
  show ?case
  proof (rule ccontr)
    assume "\<not> now < t"
    then have due: "due_event now b = Inr (Some (adv_event t b))"
      using due_event_adv_only 1 by simp
    have "adv_only (adv_event t b)" "adv_interval (adv (adv_event t b)) = 0"
      "adv_next (adv (adv_event t b)) = Some t"
      using 1 by (auto simp: adv_event_eq adv_only_def)
    moreover have "adv' now (adv_event t b) = Some r" using 1 due by simp
    ultimately have "now < t" using 1 by blast
    with \<open>\<not> now < t\<close> show False by simp
  qed
qed

text \<open>
  LE Set Advertising Parameters takes an advertising interval of zero. Once advertising is
  enabled with it, catching up with the clock never returns.
\<close>

theorem advance_zero_interval:
  assumes "conns b = []" and "air b = []" and "has_air b" and "\<not> adv_enabled (adv b)"
    and "rd16 p 0 = 0" and "byte_at q 0 \<noteq> 0" and "t \<le> now"
  shows "advance now (command OP_LE_SET_ADV_ENABLE q t (command OP_LE_SET_ADV_PARAMS p t b)) = None"
proof -
  let ?b = "cmd_adv_enable q t (cmd_adv_params p b)"
  have "adv_only ?b" "adv_interval (adv ?b) = 0" "adv_next (adv ?b) = Some t"
    using assms by (simp_all add: adv_only_def cmd_adv_enable_def cmd_adv_params_def Let_def
        complete_def)
  then have "advance now ?b = None"
    using advance_stuck [of now ?b _ t] assms(7) by (cases "advance now ?b") auto
  then show ?thesis by (simp add: command_def)
qed


theorem advertises_on_schedule_witness:
  "\<exists>b'. advance 200000100 sample_advertiser = Some (Inr b') \<and>
    outbox b' = outbox sample_advertiser @
      map (\<lambda>k. (100 + int k * 100000000, adv_pdu sample_advertiser)) [0..<3]"
  using advertises_on_schedule [of sample_advertiser 100 200000100]
  by (simp add: initial_adv_def numeral_3_eq_3)

text \<open>With the host's own bytes: advertising parameters that are all zero.\<close>

theorem advance_zero_interval_witness:
  "advance 5 (command OP_LE_SET_ADV_ENABLE [1] 3
    (command OP_LE_SET_ADV_PARAMS (replicate 15 0) 3 (new_bt [1, 2, 3, 4, 5, 6] 1 True))) = None"
  by (rule advance_zero_interval)
     (simp_all add: initial_adv_def rd16_def byte_at_def)

lemma next_link_in_zero:
  assumes "c \<in> set cs" and "has_work c" and "interval_ns c = 0" and "anchor_ns c < since c"
  shows "next_link_in cs best = Inl RangeError"
  using assms
proof (induction cs best rule: next_link_in.induct)
  case (2 d cs best)
  have "conn_event_at c (since c) = Inl RangeError"
    using "2.prems" by (simp add: conn_event_at_def)
  moreover have "e = RangeError" if "conn_event_at d (since d) = Inl e" for e
    using that by (auto simp: conn_event_at_def Let_def split: if_splits)
  ultimately show ?case
    using 2 by (cases "d = c") (auto split: sum.split)
qed simp

text \<open>
  A connection interval of zero, which LE Create Connection and LE Connection Update both take,
  stops the host: once the link has had a connection event, its first packet makes \<open>nextNs\<close> and
  \<open>advance\<close> throw, a BigInt divided by zero.
\<close>

theorem advance_zero_connection_interval:
  assumes "by_handle (rd16 pk 0 mod 4096) b = Some c" and "interval_ns c = 0"
    and "anchor_ns c < since c"
  shows "next_ns now (acl_from_host pk b) = Inl RangeError \<and>
    advance now (acl_from_host pk b) = Some (Inl RangeError)"
proof -
  let ?b = "acl_from_host pk b"
  obtain a where b': "?b = upd_link (handle c) (\<lambda>c. c\<lparr>tx := tx c @ [a]\<rparr>) b"
    using assms(1) by (auto simp: acl_from_host_def Let_def)
  have c: "c \<in> set (conns b)" using assms(1) by (simp add: by_handle_SomeD)
  have "next_link_in (conns ?b) None = Inl RangeError"
  proof (rule next_link_in_zero)
    show "c\<lparr>tx := tx c @ [a]\<rparr> \<in> set (conns ?b)"
      using c by (auto simp: b' upd_link_def)
  qed (use assms in \<open>simp_all add: has_work_def\<close>)
  then have "next_link ?b = Inl RangeError" by (simp add: next_link_def)
  then show ?thesis by (subst advance.simps) (simp add: next_ns_def due_event_def)
qed


text \<open>A central that asked for an interval of zero, heard the peer it wanted at 100, and has had the
  link's first connection event.\<close>

definition zero_interval_central :: bt where
  "zero_interval_central =
    (let b = command OP_LE_CREATE_CONN ([0, 0, 0, 0, 0, 0] @ [7, 7, 7, 7, 7, 7] @ replicate 13 0) 50
           (new_bt [1, 2, 3, 4, 5, 6] 1 True);
         b = receive (Adv (Some ADV_IND) 0 [7, 7, 7, 7, 7, 7] [] []) 100 b
     in conn_event (hd (conns b)) 100 b)"

lemma zero_interval_link:
  "conns zero_interval_central = [(new_link 0 None 0 [7, 7, 7, 7, 7, 7] 0 0 0 100
    (new_bt [1, 2, 3, 4, 5, 6] 1 True))\<lparr>since := 101\<rparr>]"
  by (simp add: zero_interval_central_def command_def cmd_create_conn_def status_def MAX_LINKS_def
      receive_def receive_adv_def wants_def connectable_def every_eq_def js_slice_def byte_at_def
      rd16_def Let_def new_link_def free_handle.simps by_handle_def connect_def le_meta_def
      send_on_def conn_event_def upd_link_def)

theorem advance_zero_connection_interval_witness:
  "next_ns 200 (acl_from_host [0, 0, 1, 0, 42] zero_interval_central) = Inl RangeError \<and>
    advance 200 (acl_from_host [0, 0, 1, 0, 42] zero_interval_central) = Some (Inl RangeError)"
  by (rule advance_zero_connection_interval
        [of _ _ "(new_link 0 None 0 [7, 7, 7, 7, 7, 7] 0 0 0 100
          (new_bt [1, 2, 3, 4, 5, 6] 1 True))\<lparr>since := 101\<rparr>"])
     (simp_all add: by_handle_def zero_interval_link rd16_def new_link_def free_handle.simps Let_def)

end
