(* ===== verification/Bt_Air.thy ===== *)
theory Bt_Air
  imports Bt_Time
begin

text \<open>
  The controller of host/bt.mjs and the other end: the guest on its UART, and the controller of the
  other board of a pair on the air. What one controller sends is what the other receives here; that
  it arrives later, and how PDUs of both are interleaved, is host/pair.mjs.
\<close>

section \<open>The guest's end of the UART\<close>

text \<open>
  A guest that reads the UART at times \<open>ts\<close> gets the controller's bytes in order, none lost and
  none twice, and any two of them at least a byte's time on the wire apart.
\<close>

theorem guest_reads_paced:
  "map snd (fst (bt_uart.polls ts b)) @ rx (snd (bt_uart.polls ts b)) = rx b \<and>
   sorted_wrt (\<lambda>x y. fst x + HCI_BYTE_NS \<le> fst y) (fst (bt_uart.polls ts b)) \<and>
   list_all (\<lambda>x. rx_ready_ns b \<le> fst x) (fst (bt_uart.polls ts b))"
  using bt_uart.polls_in_order [of ts b] bt_uart.polls_paced [of ts b] by (simp add: list_all_iff)

section \<open>What is on the air\<close>

text \<open>
  PDUs put on the air in any order are received by arrival time, and those that arrive at the
  same time in the order they were sent.
\<close>

theorem air_arrives_in_order:
  assumes "tq_sorted (air b)"
  shows "air (fold (\<lambda>(t, p). from_air t p) es b) = sort_key fst (air b @ es)"
  by (rule bt_air.push_all_sort [OF _ assms]) simp

theorem air_arrives_in_order_witness:
  "air (fold (\<lambda>(t, p). from_air t p) [(5, EncRsp True 0), (3, EncRsp True 1), (5, EncRsp False 2)]
      (new_bt [] 1 True))
    = sort_key fst [(5, EncRsp True 0), (3, EncRsp True 1), (5, EncRsp False 2)]"
  using air_arrives_in_order [of "new_bt [] 1 True"
      "[(5, EncRsp True 0), (3, EncRsp True 1), (5, EncRsp False 2)]"] by simp

section \<open>Connecting\<close>

lemma free_handle_cong: "conns b = conns b' \<Longrightarrow> free_handle h b = free_handle h b'"
proof (induction h b rule: free_handle.induct)
  case (1 h b)
  then show ?case
    by (subst free_handle.simps, subst (2) free_handle.simps) (simp add: by_handle_def)
qed

lemma new_link_cong:
  "conns b = conns b' \<Longrightarrow> new_link rl k pt pa i l t at b = new_link rl k pt pa i l t at b'"
  using free_handle_cong [of b b' 0] by (simp add: new_link_def)

lemma receive_adv_wanted:
  assumes "wants b ty atype addr" and "initiating b = Some ini"
  shows "receive (Adv ty atype addr dat rsp) at b =
    (let c = new_link 0x00 None atype addr (ini_interval ini) (ini_latency ini) (ini_timeout ini) at b
     in send_on c (Connect (fst (own_address (ini_own_type ini) b))
         (snd (own_address (ini_own_type ini) b)) atype addr (ini_interval ini)
         (ini_latency ini) (ini_timeout ini)) at
         (connect c (b\<lparr>air_received := air_received b + 1, initiating := None\<rparr>)))"
proof -
  let ?d = "b\<lparr>air_received := air_received b + 1, initiating := None\<rparr>"
  have "wants (b\<lparr>air_received := air_received b + 1\<rparr>) ty atype addr"
    using assms(1) by (simp add: wants_def)
  moreover have "own_address o' ?d = own_address o' b" for o'
    by (simp add: own_address_def split: option.split)
  moreover have "new_link rl k pt pa i l t at ?d = new_link rl k pt pa i l t at b" for rl k pt pa i l t
    by (rule new_link_cong) simp
  ultimately show ?thesis using assms(2) by (simp add: receive_def receive_adv_def Let_def)
qed

lemma receive_connect_taken:
  assumes "adv_enabled (adv b)" and "length (conns b) < MAX_LINKS" and "connectable (adv_type (adv b))"
    and "own_address (adv_own_type (adv b)) b = (tt, tg)"
  shows "receive (Connect atype addr tt tg i l t k) at b =
    connect (new_link 0x01 (Some k) atype addr i l t at b)
      (b\<lparr>air_received := air_received b + 1, adv := (adv b)\<lparr>adv_enabled := False, adv_next := None\<rparr>\<rparr>)"
proof -
  let ?d = "b\<lparr>air_received := air_received b + 1, adv := (adv b)\<lparr>adv_enabled := False, adv_next := None\<rparr>\<rparr>"
  have "own_address o' (b\<lparr>air_received := n\<rparr>) = own_address o' b" for o' n
    by (simp add: own_address_def split: option.split)
  moreover have "new_link rl k pt pa i l t at ?d = new_link rl k pt pa i l t at b" for rl k pt pa i l t
    by (rule new_link_cong) simp
  ultimately show ?thesis
    using assms by (simp add: receive_def receive_connect_def Let_def every_eq_def)
qed

text \<open>What the two ends of a link agree on.\<close>

definition two_ends :: "link \<Rightarrow> link \<Rightarrow> bool" where
  "two_ends c p \<longleftrightarrow> link_key c = link_key p \<and> role c = 0x00 \<and> role p = 0x01 \<and>
    interval c = interval p \<and> interval_ns c = interval_ns p \<and> latency c = latency p \<and>
    timeout c = timeout p"

text \<open>
  When an initiator hears the connectable advertiser it wants, and the advertiser the connect
  request that the initiator then sends, each has one new link; the two ends agree on the key and
  the timing and each names the other's address; the one is no longer initiating, and the other no
  longer advertising.
\<close>

theorem connection_established:
  assumes "adv_enabled (adv p)" and "length (conns p) < MAX_LINKS" and "connectable (adv_type (adv p))"
    and "own_address (adv_own_type (adv p)) p = (tt, tg)"
    and "wants c (adv_type (adv p)) tt tg" and "initiating c = Some ini" and "has_air c"
  shows "\<exists>req lc lp. let c' = receive (adv_pdu p) t c; p' = receive req t' p in
    outbox c' = outbox c @ [(t, req)] \<and> conns c' = conns c @ [lc] \<and> conns p' = conns p @ [lp] \<and>
    two_ends lc lp \<and> (peer_type lc, peer_addr lc) = (tt, tg) \<and>
    (peer_type lp, peer_addr lp) = own_address (ini_own_type ini) c \<and>
    initiating c' = None \<and> \<not> adv_enabled (adv p')"
proof -
  have pdu: "adv_pdu p = Adv (adv_type (adv p)) tt tg (adv_data (adv p)) (adv_scan_rsp (adv p))"
    using assms(4) by (simp add: adv_pdu_def)
  define lc where "lc = new_link 0x00 None tt tg (ini_interval ini) (ini_latency ini)
    (ini_timeout ini) t c"
  define lp where "lp = new_link 0x01 (Some (link_key lc)) (fst (own_address (ini_own_type ini) c))
    (snd (own_address (ini_own_type ini) c)) (ini_interval ini) (ini_latency ini)
    (ini_timeout ini) t' p"
  have links: "two_ends lc lp" "peer_type lc = tt" "peer_addr lc = tg"
    "(peer_type lp, peer_addr lp) = own_address (ini_own_type ini) c"
    by (simp_all add: lc_def lp_def two_ends_def new_link_def Let_def)
  show ?thesis
    unfolding pdu receive_adv_wanted [OF assms(5,6)] Let_def send_on_def lc_def [symmetric]
    by (rule exI [of _ "Connect (fst (own_address (ini_own_type ini) c))
          (snd (own_address (ini_own_type ini) c)) tt tg (ini_interval ini) (ini_latency ini)
          (ini_timeout ini) (link_key lc)"], rule exI [of _ lc], rule exI [of _ lp])
       (simp add: receive_connect_taken [OF assms(1-4)] lp_def [symmetric, unfolded One_nat_def] send_outbox connect_frame
         connect_def le_meta_def assms(7) links)
qed


section \<open>ACL data\<close>

lemma conn_event_quiet:
  assumes "pending c = []"
  shows "rx (conn_event c t b) = rx b @ (if tx c = [] then []
      else h4_event EVT_NUM_COMPLETED ([1] @ le16 (handle c) @ le16 (length (tx c))))"
    and "has_air b \<Longrightarrow> outbox (conn_event c t b) = outbox b @
      map (\<lambda>x. (t, Acl (acl_pb x) (acl_data x) (link_key c))) (tx c)"
proof -
  have rx: "rx (fold (\<lambda>pk. send_on c (Acl (acl_pb pk) (acl_data pk)) t) pks b) = rx b" for pks b
    by (induction pks arbitrary: b) (simp_all add: send_on_def)
  have out: "has_air b \<Longrightarrow> outbox (fold (\<lambda>pk. send_on c (Acl (acl_pb pk) (acl_data pk)) t) pks b) =
      outbox b @ map (\<lambda>x. (t, Acl (acl_pb x) (acl_data x) (link_key c))) pks" for pks b
    by (induction pks arbitrary: b) (simp_all add: send_on_def send_outbox)
  show "rx (conn_event c t b) = rx b @ (if tx c = [] then []
      else h4_event EVT_NUM_COMPLETED ([1] @ le16 (handle c) @ le16 (length (tx c))))"
    by (simp add: conn_event_def Let_def assms rx event_rx)
  show "has_air b \<Longrightarrow> outbox (conn_event c t b) = outbox b @
      map (\<lambda>x. (t, Acl (acl_pb x) (acl_data x) (link_key c))) (tx c)"
    by (simp add: conn_event_def Let_def assms out)
qed

lemma receive_acl:
  "by_key k b = Some d \<Longrightarrow> by_key k (receive (Acl pb dat k) t b) = Some d \<and>
   rx (receive (Acl pb dat k) t b) = rx b @ h4_acl (handle d OR push_bit 12 pb) dat"
  by (simp add: receive_def receive_keyed_def receive_on_link_def by_key_def h4_acl_def)

lemma receive_acls:
  "by_key k b = Some d \<Longrightarrow>
   rx (fold (\<lambda>(t, p). receive p t) (map (\<lambda>x. (t, Acl (acl_pb x) (acl_data x) k)) xs) b) =
     rx b @ concat (map (\<lambda>x. h4_acl (handle d OR push_bit 12 (acl_pb x)) (acl_data x)) xs)"
  using receive_acl [of k _ d] by (induction xs arbitrary: b) auto

text \<open>The boundary flag of an ACL packet of the sender's host, as the receiver's host sees it.\<close>

definition pb_heard :: "nat list \<Rightarrow> nat" where
  "pb_heard pk = (if (rd16 pk 0 div 4096) mod 4 = 1 then 1 else 2)"

lemma acls_from_host:
  assumes "by_handle h b = Some c" and "\<forall>pk \<in> set pks. rd16 pk 0 mod 4096 = h"
  shows "rx (fold acl_from_host pks b) = rx b \<and> outbox (fold acl_from_host pks b) = outbox b \<and>
    has_air (fold acl_from_host pks b) = has_air b \<and>
    by_handle h (fold acl_from_host pks b) =
      Some (c\<lparr>tx := tx c @ map (\<lambda>pk. \<lparr>acl_pb = pb_heard pk, acl_data = drop 4 pk\<rparr>) pks\<rparr>)"
  using assms
proof (induction pks arbitrary: b c)
  case (Cons pk pks)
  let ?a = "\<lparr>acl_pb = pb_heard pk, acl_data = drop 4 pk\<rparr>"
  have hc: "handle c = h" using Cons.prems(1) by (simp add: by_handle_SomeD)
  have b': "acl_from_host pk b = upd_link h (\<lambda>c. c\<lparr>tx := tx c @ [?a]\<rparr>) b"
    using Cons.prems hc by (simp add: acl_from_host_def pb_heard_def Let_def)
  have "find (\<lambda>c. handle c = h) (map (\<lambda>c. if handle c = h then c\<lparr>tx := tx c @ [?a]\<rparr> else c) cs)
      = map_option (\<lambda>c. c\<lparr>tx := tx c @ [?a]\<rparr>) (find (\<lambda>c. handle c = h) cs)" for cs :: "link list"
    by (induction cs) auto
  then have "by_handle h (acl_from_host pk b) = Some (c\<lparr>tx := tx c @ [?a]\<rparr>)"
    using Cons.prems(1) by (simp add: b' by_handle_def upd_link_def)
  from Cons.IH [OF this] Cons.prems(2) show ?case by (simp add: b')
qed simp

text \<open>
  C16. ACL packets that one host gives its controller for a link are, at the link's next connection
  event, put on the air in order; the host is told that just so many are completed; and the host at
  the other end of the link gets the same data, in order, under its own handle.
\<close>

theorem acl_end_to_end:
  assumes "by_handle h a = Some c" and "tx c = []" and "pending c = []" and "has_air a"
    and "list_all (\<lambda>pk. rd16 pk 0 mod 4096 = h) pks" and "pks \<noteq> []"
    and "by_key (link_key c) p = Some d"
  shows "\<exists>pdus. let a' = fold acl_from_host pks a; a'' = conn_event (the (by_handle h a')) t a' in
    outbox a'' = outbox a @ pdus \<and>
    rx a'' = rx a @ h4_event EVT_NUM_COMPLETED ([1] @ le16 h @ le16 (length pks)) \<and>
    rx (fold (\<lambda>(at, q). receive q at) pdus p) =
      rx p @ concat (map (\<lambda>pk. h4_acl (handle d OR push_bit 12 (pb_heard pk)) (drop 4 pk)) pks)"
proof -
  let ?xs = "map (\<lambda>pk. \<lparr>acl_pb = pb_heard pk, acl_data = drop 4 pk\<rparr>) pks"
  have f: "rx (fold acl_from_host pks a) = rx a" "outbox (fold acl_from_host pks a) = outbox a"
    "has_air (fold acl_from_host pks a)"
    "by_handle h (fold acl_from_host pks a) = Some (c\<lparr>tx := ?xs\<rparr>)"
    using acls_from_host [OF assms(1), of pks] assms(2,4,5) by (auto simp: list_all_iff)
  have h: "handle c = h" using assms(1) by (simp add: by_handle_SomeD)
  show ?thesis
    using conn_event_quiet [of "c\<lparr>tx := ?xs\<rparr>"] receive_acls [OF assms(7), of t ?xs] assms(3,6) f h
    unfolding Let_def
    by (intro exI [of _ "map (\<lambda>x. (t, Acl (acl_pb x) (acl_data x) (link_key c))) ?xs"] conjI)
       (simp_all add: o_def)
qed

text \<open>A peripheral that advertises, a central that wants it, and the two with a link between them.\<close>

definition sample_peripheral :: bt where
  "sample_peripheral = command OP_LE_SET_ADV_ENABLE [1] 0 (new_bt [7, 7, 7, 7, 7, 7] 2 True)"

definition sample_central :: bt where
  "sample_central = command OP_LE_CREATE_CONN
     ([0, 0, 0, 0, 0, 0] @ [7, 7, 7, 7, 7, 7] @ [0, 8, 0, 8, 0, 0, 0, 42, 0]) 0
     (new_bt [1, 2, 3, 4, 5, 6] 1 True)"

definition sample_initiator :: initiator where
  "sample_initiator = \<lparr>ini_peer_type = 0, ini_peer_addr = [7, 7, 7, 7, 7, 7], ini_own_type = 0,
     ini_interval = 8, ini_latency = 0, ini_timeout = 42\<rparr>"

lemma sample_peripheral_sel [simp]:
  "conns sample_peripheral = []" "air sample_peripheral = []" "has_air sample_peripheral"
  "adv sample_peripheral = initial_adv\<lparr>adv_enabled := True, adv_next := Some 0\<rparr>"
  "own_address 0 sample_peripheral = (0, [7, 7, 7, 7, 7, 7])"
  by (simp_all add: sample_peripheral_def command_def cmd_adv_enable_def Let_def complete_def
      own_address_def)

lemma sample_central_sel [simp]:
  "conns sample_central = []" "air sample_central = []" "has_air sample_central"
  "initiating sample_central = Some sample_initiator" "adv sample_central = initial_adv"
  "own_address 0 sample_central = (0, [1, 2, 3, 4, 5, 6])"
  by (simp_all add: sample_central_def sample_initiator_def command_def cmd_create_conn_def Let_def
      status_def own_address_def js_slice_def rd16_def MAX_LINKS_def)

theorem connection_established_witness:
  "\<exists>req lc lp. let c' = receive (adv_pdu sample_peripheral) 100 sample_central;
      p' = receive req 200 sample_peripheral in
    outbox c' = outbox sample_central @ [(100, req)] \<and> conns c' = [lc] \<and> conns p' = [lp] \<and>
    two_ends lc lp \<and> (peer_type lc, peer_addr lc) = (0, [7, 7, 7, 7, 7, 7]) \<and>
    (peer_type lp, peer_addr lp) = (0, [1, 2, 3, 4, 5, 6]) \<and>
    initiating c' = None \<and> \<not> adv_enabled (adv p')"
  using connection_established [of sample_peripheral 0 "[7, 7, 7, 7, 7, 7]" sample_central
      sample_initiator 100 200]
  by (simp add: initial_adv_def connectable_def wants_def every_eq_def sample_initiator_def
      MAX_LINKS_def)

definition linked :: "nat \<Rightarrow> bt" where
  "linked k = connect (new_link 0x00 (Some k) 0 [7, 7, 7, 7, 7, 7] 8 0 42 100
     (new_bt [1, 2, 3, 4, 5, 6] 1 True)) (new_bt [1, 2, 3, 4, 5, 6] 1 True)"

lemma linked_conns [simp]:
  "conns (linked k) = [new_link 0x00 (Some k) 0 [7, 7, 7, 7, 7, 7] 8 0 42 100
     (new_bt [1, 2, 3, 4, 5, 6] 1 True)]" "has_air (linked k)" "initiating (linked k) = None"
  by (simp_all add: linked_def connect_def le_meta_def)

lemma free_handle_0 [simp]: "conns b = [] \<Longrightarrow> free_handle 0 b = 0"
  by (simp add: free_handle.simps by_handle_def)

lemma new_link_key [simp]: "link_key (new_link rl (Some n) pt pa i l t at b) = n"
  by (simp add: new_link_def Let_def)

text \<open>Two packets: the second continues the first.\<close>

theorem acl_end_to_end_witness:
  "\<exists>pdus. let a' = fold acl_from_host [[0, 0, 2, 0, 5, 6], [0, 16, 1, 0, 7]] (linked 0);
      a'' = conn_event (the (by_handle 0 a')) 300 a' in
    outbox a'' = outbox (linked 0) @ pdus \<and>
    rx a'' = rx (linked 0) @ h4_event EVT_NUM_COMPLETED ([1] @ le16 0 @ le16 (Suc (Suc 0))) \<and>
    rx (fold (\<lambda>(at, q). receive q at) pdus (linked 0)) =
      rx (linked 0) @ h4_acl (0 OR push_bit 12 2) [5, 6] @ h4_acl (0 OR push_bit 12 1) [7]"
  using acl_end_to_end [of 0 "linked 0" "hd (conns (linked 0))"
      "[[0, 0, 2, 0, 5, 6], [0, 16, 1, 0, 7]]" "linked 0" "hd (conns (linked 0))" 300]
  by (simp add: by_handle_def by_key_def rd16_def pb_heard_def)

section \<open>Encryption\<close>

lemma by_handle_upd:
  "(\<And>c. handle (f c) = handle c) \<Longrightarrow> by_handle h (upd_link h f b) = map_option f (by_handle h b)"
proof -
  assume f: "\<And>c. handle (f c) = handle c"
  have "find (\<lambda>c. handle c = h) (map (\<lambda>c. if handle c = h then f c else c) cs)
      = map_option f (find (\<lambda>c. handle c = h) cs)" for cs
    by (induction cs) (auto simp: f)
  then show ?thesis by (simp add: by_handle_def upd_link_def)
qed

lemma by_handle_frame [simp]:
  "by_handle h (event code ps b) = by_handle h b" "by_handle h (send p at b) = by_handle h b"
  "by_handle h (complete op ps b) = by_handle h b" "by_handle h (le_meta sub ps b) = by_handle h b"
  by (simp_all add: by_handle_def complete_def le_meta_def)

lemma by_handle_drop [simp]: "by_handle h (drop_link h b) = None"
  by (auto simp: by_handle_None_iff drop_link_def)

definition ltk_answer :: "nat \<Rightarrow> nat list \<Rightarrow> nat list" where
  "ltk_answer h ltk = le16 h @ ltk"

lemma ltk_answer_fields:
  "h < 4096 \<Longrightarrow> rd16 (ltk_answer h ltk) 0 mod 4096 = h"
  "js_slice (ltk_answer h ltk) 2 18 = take 16 ltk"
  by (simp_all add: ltk_answer_def rd16_le16) (simp add: js_slice_def le16_def)


lemma receive_enc_req:
  assumes "by_key k p = Some d"
  shows "receive (EncReq rand ediv ltk k) t p = le_meta LE_LTK_REQUEST (le16 (handle d) @ rand @ ediv)
    (upd_link (handle d) (\<lambda>c. c\<lparr>enc_pending := Some ltk\<rparr>) (p\<lparr>air_received := air_received p + 1\<rparr>))"
  using assms by (simp add: receive_def receive_keyed_def receive_on_link_def by_key_def Let_def)

lemma by_key_received [simp]:
  "by_key k (b\<lparr>air_received := n\<rparr>) = by_key k b" "by_handle h (b\<lparr>air_received := n\<rparr>) = by_handle h b"
  by (simp_all add: by_key_def by_handle_def)

lemma by_handle_encrypted:
  "by_handle (handle c) b = Some c' \<Longrightarrow> encrypted c' = encrypted c \<Longrightarrow>
   \<exists>c''. by_handle (handle c) (link_encrypted c OK b) = Some c'' \<and> encrypted c''"
  by (simp add: link_encrypted_def by_handle_upd)

text \<open>
  C15. The peripheral's host answers the central's encryption request with its own long-term key. If
  the two keys are the same, the link is encrypted at both ends; if they are not, both ends drop it.
\<close>

theorem encryption_agrees:
  assumes "by_key k p = Some d" and "by_handle (handle d) p = Some d" and "handle d < 4096"
    and "has_air p" and "by_key k a = Some e" and "by_handle (handle e) a = Some e"
    and "length ltk = 16" and "length ltk' = 16"
  shows "\<exists>pdu. let p' = command OP_LE_LTK_REPLY (ltk_answer (handle d) ltk') now
        (receive (EncReq rand ediv ltk k) t p); a' = receive pdu t' a in
    outbox p' = outbox p @ [(now, pdu)] \<and>
    (if ltk' = ltk
     then (\<exists>c c'. by_handle (handle d) p' = Some c \<and> encrypted c \<and>
       by_handle (handle e) a' = Some c' \<and> encrypted c')
     else by_handle (handle d) p' = None \<and> by_handle (handle e) a' = None)"
proof -
  let ?p = "receive (EncReq rand ediv ltk k) t p" and ?h = "handle d"
  let ?d = "d\<lparr>enc_pending := Some ltk\<rparr>"
  define q where "q = upd_link ?h (\<lambda>c. c\<lparr>enc_pending := None\<rparr>)
    (complete OP_LE_LTK_REPLY ([OK] @ le16 ?h) ?p)"
  have d: "by_handle ?h ?p = Some ?d" "outbox ?p = outbox p" "has_air ?p"
    using assms(2,4) by (simp_all add: receive_enc_req [OF assms(1)] by_handle_upd le_meta_def)
  then have q: "by_handle ?h q = Some (d\<lparr>enc_pending := None\<rparr>)" "outbox q = outbox p" "has_air q"
    by (simp_all add: q_def by_handle_upd complete_def)
  have key: "link_key d = k" using assms(1) by (simp add: by_key_SomeD)
  have p': "command OP_LE_LTK_REPLY (ltk_answer ?h ltk') now ?p =
      (if ltk' = ltk then send (EncRsp True k) now (link_encrypted ?d OK q)
       else drop_link ?h (event EVT_DISCONN_COMPLETE ([OK] @ le16 ?h @ [MIC_FAILURE])
         (send (Terminate MIC_FAILURE k) now q)))"
    using assms(3,7,8) d key
    by (simp add: command_def cmd_ltk_def Let_def ltk_answer_fields every_eq_def q_def send_on_def)
  show ?thesis
  proof (cases "ltk' = ltk")
    case True
    have "outbox (link_encrypted ?d OK q) = outbox q \<and> has_air (link_encrypted ?d OK q)"
      using q(3) by (simp add: link_encrypted_def)
    moreover obtain c where "by_handle ?h (link_encrypted ?d OK q) = Some c" "encrypted c"
      using by_handle_encrypted [of ?d q "d\<lparr>enc_pending := None\<rparr>"] q(1) by auto
    moreover obtain c' where "by_handle (handle e) (receive (EncRsp True k) t' a) = Some c'"
      "encrypted c'"
      using by_handle_encrypted [of e "a\<lparr>air_received := air_received a + 1\<rparr>" e] assms(5,6)
      by (auto simp: receive_def receive_keyed_def receive_on_link_def Let_def)
    ultimately show ?thesis
      unfolding p' Let_def using True q(2) by (intro exI [of _ "EncRsp True k"]) (simp add: send_outbox)
  next
    case False
    have "by_handle (handle e) (receive (Terminate MIC_FAILURE k) t' a) = None"
      using assms(5) by (simp add: receive_def receive_keyed_def receive_on_link_def Let_def)
    then show ?thesis
      unfolding p' Let_def using False q
      by (intro exI [of _ "Terminate MIC_FAILURE k"]) (simp add: send_outbox)
  qed
qed


theorem encryption_agrees_witness:
  "\<exists>pdu. let p' = command OP_LE_LTK_REPLY (ltk_answer 0 (replicate 16 9)) 500
        (receive (EncReq [] [] (replicate 16 8) 3) 400 (linked 3)); a' = receive pdu 600 (linked 3) in
    outbox p' = outbox (linked 3) @ [(500, pdu)] \<and>
    by_handle 0 p' = None \<and> by_handle 0 a' = None"
  using encryption_agrees [of 3 "linked 3" "hd (conns (linked 3))" "linked 3"
      "hd (conns (linked 3))" "replicate 16 8" "replicate 16 9" 500 "[]" "[]" 400 600]
  by (simp add: by_key_def by_handle_def)

section \<open>Keys that collide\<close>

text \<open>
  A link's key is the central's handle for it, so a link that a controller made as central and
  one it accepts as peripheral can have the same key. Then data for the second is handed to the
  host as data of the first.
\<close>

theorem link_keys_collide:
  assumes "conns b = [c]" and "adv_enabled (adv b)" and "connectable (adv_type (adv b))"
    and "own_address (adv_own_type (adv b)) b = (tt, tg)"
  shows "let b' = receive (Connect atype addr tt tg i l tmo (link_key c)) t b in
    (\<exists>d. conns b' = [c, d] \<and> link_key d = link_key c \<and> handle d \<noteq> handle c) \<and>
    rx (receive (Acl pb dat (link_key c)) t' b') =
      rx b' @ h4_acl (handle c OR push_bit 12 pb) dat"
proof -
  let ?d = "new_link 0x01 (Some (link_key c)) atype addr i l tmo t b"
  let ?b' = "receive (Connect atype addr tt tg i l tmo (link_key c)) t b"
  have b': "conns ?b' = [c, ?d]"
    using assms(1) by (subst receive_connect_taken [OF assms(2) _ assms(3,4)])
      (simp_all add: connect_frame MAX_LINKS_def)
  have "handle ?d \<noteq> handle c"
    using free_handle_free [of 0 b] assms(1) by (auto simp: by_handle_None_iff)
  moreover have "by_key (link_key c) ?b' = Some c" by (simp add: by_key_def b')
  ultimately show ?thesis
    using b' receive_acl [of "link_key c" ?b' c] by (simp add: Let_def)
qed


theorem link_keys_collide_witness:
  "let b = command OP_LE_SET_ADV_ENABLE [1] 200 (linked 0);
      b' = receive (Connect 0 [7, 7, 7, 7, 7, 7] 0 [1, 2, 3, 4, 5, 6] 8 0 42 0) 300 b in
    (\<exists>d. conns b' = conns (linked 0) @ [d] \<and> link_key d = 0 \<and> handle d \<noteq> 0) \<and>
    rx (receive (Acl 2 [5] 0) 400 b') = rx b' @ h4_acl (0 OR push_bit 12 2) [5]"
proof -
  define c where "c = new_link 0x00 (Some 0) 0 [7, 7, 7, 7, 7, 7] 8 0 42 100
    (new_bt [1, 2, 3, 4, 5, 6] 1 True)"
  define b where "b = command OP_LE_SET_ADV_ENABLE [1] 200 (linked 0)"
  have b: "conns b = [c]" "adv_enabled (adv b)" "connectable (adv_type (adv b))"
    "own_address (adv_own_type (adv b)) b = (0, [1, 2, 3, 4, 5, 6])"
    by (simp_all add: b_def c_def command_def cmd_adv_enable_def Let_def complete_def linked_def
        connect_def le_meta_def own_address_def initial_adv_def connectable_def)
  have c: "conns (linked 0) = [c]" "handle c = 0" "link_key c = 0"
    by (simp_all add: c_def)
  show ?thesis
    using link_keys_collide [OF b, of 0 "[7, 7, 7, 7, 7, 7]" 8 0 42 300 2 "[5]" 400]
    unfolding b_def [symmetric] c Let_def by simp
qed

section \<open>How many links\<close>

text \<open>A controller that is initiating, and has accepted \<open>n\<close> connections.\<close>

definition crowded :: "nat \<Rightarrow> bt \<Rightarrow> bool" where
  "crowded n b \<longleftrightarrow> (\<exists>got. bt_run (new_bt [1, 2, 3, 4, 5, 6] 1 True) got b) \<and>
    length (conns b) = n \<and> pkt b = [] \<and> air b = [] \<and> list_all (\<lambda>c. \<not> has_work c) (conns b) \<and>
    initiating b = Some sample_initiator \<and> adv b = initial_adv \<and> random_addr b = None \<and>
    address b = [1, 2, 3, 4, 5, 6]"

lemma next_link_idle: "list_all (\<lambda>c. \<not> has_work c) (conns b) \<Longrightarrow> next_link b = Inr None"
proof -
  have "list_all (\<lambda>c. \<not> has_work c) cs \<Longrightarrow> next_link_in cs None = Inr None" for cs
    by (induction cs) auto
  then show "list_all (\<lambda>c. \<not> has_work c) (conns b) \<Longrightarrow> next_link b = Inr None"
    by (simp add: next_link_def)
qed

lemma advance_receive:
  assumes "list_all (\<lambda>c. \<not> has_work c) (conns b)" and "air b = []"
    and "adv_at b = None \<or> adv_at b = Some 0" and "b' = receive p 0 b"
    and "list_all (\<lambda>c. \<not> has_work c) (conns b')" and "air b' = []" and "adv_at b' = None"
  shows "advance 0 (from_air 0 p b) = Some (Inr b')"
proof -
  have same: "b\<lparr>air := []\<rparr> = b" using assms(2) by (cases b) simp
  have "next_link (from_air 0 p b) = Inr None"
    using assms(1) by (intro next_link_idle) (simp add: from_air_def)
  then have "due_event 0 (from_air 0 p b) = Inr (Some b')"
    using assms(2,3,4) by (auto simp: same due_event_def from_air_def adv_at_def air_at_def)
  moreover have "due_event 0 b' = Inr None"
    using assms(5-7) by (simp add: due_event_def next_link_idle air_at_def)
  ultimately show ?thesis by (simp add: advance_due advance_idle)
qed

lemma no_work_new [simp]: "\<not> has_work (new_link rl k pt pa i l t at b)"
  by (simp add: has_work_def)

lemma crowded_start: "\<exists>b. crowded 0 b"
proof -
  let ?p = "[0, 0, 0, 0, 0, 0] @ [7, 7, 7, 7, 7, 7] @ [0, 8, 0, 8, 0, 0, 0, 42, 0]"
  let ?new = "new_bt [1, 2, 3, 4, 5, 6] 1 True"
  have "from_host_all (encode_packet (HciCommand OP_LE_CREATE_CONN ?p)) 0 ?new = sample_central"
    by (subst from_host_packet) (simp_all add: sample_central_def)
  moreover have "bt_run ?new [] (from_host_all (encode_packet (HciCommand OP_LE_CREATE_CONN ?p)) 0 ?new)"
    by (intro bt_run_intros) (simp add: le16_def)
  ultimately have "bt_run ?new [] sample_central" by simp
  moreover have "pkt sample_central = []" "random_addr sample_central = None"
    "address sample_central = [1, 2, 3, 4, 5, 6]"
    by (simp_all add: sample_central_def command_def cmd_create_conn_def status_def)
  ultimately show ?thesis unfolding crowded_def by (intro exI [of _ sample_central]) auto
qed

lemma crowded_more:
  assumes "crowded n b" and "n < MAX_LINKS"
  shows "\<exists>b. crowded (Suc n) b"
proof -
  let ?req = "Connect 0 [7, 7, 7, 7, 7, 7] 0 [1, 2, 3, 4, 5, 6] 8 0 42 0"
  define c where "c = command OP_LE_SET_ADV_ENABLE [1] 0 b"
  define d where "d = receive ?req 0 c"
  obtain got where run: "bt_run (new_bt [1, 2, 3, 4, 5, 6] 1 True) got b"
    using assms(1) by (auto simp: crowded_def)
  have c: "conns c = conns b" "air c = []" "pkt c = []" "initiating c = initiating b"
    "random_addr c = None" "address c = address b"
    "adv c = initial_adv\<lparr>adv_enabled := True, adv_next := Some 0\<rparr>"
    "own_address 0 c = (0, [1, 2, 3, 4, 5, 6])"
    using assms(1) by (simp_all add: c_def crowded_def command_def cmd_adv_enable_def Let_def
        complete_def own_address_def)
  have "d = connect (new_link 0x01 (Some 0) 0 [7, 7, 7, 7, 7, 7] 8 0 42 0 c)
      (c\<lparr>air_received := air_received c + 1,
         adv := (adv c)\<lparr>adv_enabled := False, adv_next := None\<rparr>\<rparr>)"
    unfolding d_def using assms c
    by (intro receive_connect_taken) (simp_all add: crowded_def initial_adv_def connectable_def)
  then have d: "conns d = conns b @ [new_link 0x01 (Some 0) 0 [7, 7, 7, 7, 7, 7] 8 0 42 0 c]"
    "air d = []" "pkt d = []" "initiating d = initiating b" "random_addr d = None"
    "address d = address b" "adv d = initial_adv"
    using c by (simp_all add: connect_frame connect_def le_meta_def initial_adv_def)
  have "from_host_all (encode_packet (HciCommand OP_LE_SET_ADV_ENABLE [1])) 0 b = c"
    using assms(1) by (subst from_host_packet) (simp_all add: crowded_def c_def)
  moreover have "bt_run (new_bt [1, 2, 3, 4, 5, 6] 1 True) got
      (from_host_all (encode_packet (HciCommand OP_LE_SET_ADV_ENABLE [1])) 0 b)"
    using run by (rule run_host_write_all) (simp add: le16_def)
  ultimately have "bt_run (new_bt [1, 2, 3, 4, 5, 6] 1 True) got (from_air 0 ?req c)"
    by (simp add: run_air addr_ok_def)
  moreover have "advance 0 (from_air 0 ?req c) = Some (Inr d)"
    using assms(1) c(1,2,7) d(1,2,7)
    by (intro advance_receive d_def) (simp_all add: crowded_def adv_at_def initial_adv_def)
  ultimately have "bt_run (new_bt [1, 2, 3, 4, 5, 6] 1 True) got d" by (rule run_clock)
  then have "crowded (Suc n) d"
    using assms(1) d unfolding crowded_def by (intro conjI exI) simp_all
  then show ?thesis ..
qed

text \<open>
  The limit on links is exceeded by one. \<open>MAX_LINKS\<close> is checked when the host asks for a
  connection and when one is accepted, but not when the one it asked for is made: a controller that
  is initiating while it accepts \<open>MAX_LINKS\<close> connections has \<open>MAX_LINKS + 1\<close> links once it hears
  the advertiser it wants.
\<close>

theorem link_limit_exceeded:
  "\<exists>b got. bt_run (new_bt [1, 2, 3, 4, 5, 6] 1 True) got b \<and> length (conns b) = MAX_LINKS + 1"
proof -
  have "n \<le> MAX_LINKS \<Longrightarrow> \<exists>b. crowded n b" for n
    by (induction n) (use crowded_start crowded_more in \<open>auto simp: less_eq_Suc_le\<close>)
  then obtain b where b: "crowded MAX_LINKS b" by blast
  then obtain got where run: "bt_run (new_bt [1, 2, 3, 4, 5, 6] 1 True) got b"
    by (auto simp: crowded_def)
  let ?adv = "Adv (Some ADV_IND) 0 [7, 7, 7, 7, 7, 7] [] []"
  have "wants b (Some ADV_IND) 0 [7, 7, 7, 7, 7, 7]"
    using b by (simp add: crowded_def wants_def connectable_def every_eq_def sample_initiator_def)
  then have d: "conns (receive ?adv 0 b) = conns b @ [new_link 0x00 None 0 [7, 7, 7, 7, 7, 7] 8 0 42 0 b]"
    "air (receive ?adv 0 b) = air b" "adv (receive ?adv 0 b) = adv b"
    using b by (simp_all add: receive_adv_wanted crowded_def Let_def send_on_def connect_frame
        sample_initiator_def)
  have "bt_run (new_bt [1, 2, 3, 4, 5, 6] 1 True) got (from_air 0 ?adv b)"
    using run by (rule run_air) (simp add: addr_ok_def)
  moreover have "advance 0 (from_air 0 ?adv b) = Some (Inr (receive ?adv 0 b))"
    using b d by (intro advance_receive) (simp_all add: crowded_def adv_at_def initial_adv_def)
  ultimately have "bt_run (new_bt [1, 2, 3, 4, 5, 6] 1 True) got (receive ?adv 0 b)"
    by (rule run_clock)
  moreover have "length (conns (receive ?adv 0 b)) = MAX_LINKS + 1"
    using b d(1) by (simp add: crowded_def)
  ultimately show ?thesis by blast
qed

text \<open>The handles of a controller that has accepted a connection.\<close>

theorem link_handles_distinct_witness:
  "\<exists>got b. bt_run (new_bt [1, 2, 3, 4, 5, 6] 1 True) got b \<and> length (conns b) = 1 \<and> distinct (map handle (conns b)) \<and>
    list_all (\<lambda>c. handle c \<le> MAX_LINKS) (conns b) \<and> length (conns b) \<le> MAX_LINKS + 1"
proof -
  obtain b where b: "crowded (Suc 0) b"
    using crowded_start crowded_more [of 0] by (auto simp: MAX_LINKS_def)
  then obtain got where run: "bt_run (new_bt [1, 2, 3, 4, 5, 6] 1 True) got b"
    by (auto simp: crowded_def)
  from link_handles_distinct [OF run] run b show ?thesis
    by (intro exI [of _ got] exI [of _ b]) (simp add: crowded_def)
qed

end
