(* ===== verification/Hci_Serial.thy ===== *)
theory Hci_Serial
  imports Bt_Air
begin

text \<open>
  A real Bluetooth controller on a serial port (host/hci_serial.mjs, class \<open>SerialHci\<close>): a wire, which
  hands the guest's bytes to the device in batches and the device's to the guest at the line rate.
  \<open>device_writes\<close> is what its \<open>write\<close> was called with. The driver loop uses either this or the
  emulated controller, through the same operations (\<open>hci\<close> below).
\<close>

section \<open>State and operations\<close>

record serial =
  ser_out :: "nat list"
  flush_queued :: bool
  ser_rx :: "nat list"
  ser_rx_taken :: nat
  ser_rx_raised_at :: nat
  ser_rx_ready_ns :: ns
  ser_air_sent :: nat
  ser_air_received :: nat
  device_writes :: "nat list list"

definition new_serial :: serial where
  "new_serial = \<lparr>ser_out = [], flush_queued = False, ser_rx = [], ser_rx_taken = 0,
     ser_rx_raised_at = 0, ser_rx_ready_ns = 0, ser_air_sent = 0, ser_air_received = 0,
     device_writes = []\<rparr>"

definition serial_from_host :: "nat \<Rightarrow> serial \<Rightarrow> serial" where
  "serial_from_host byte s =
    s\<lparr>ser_out := ser_out s @ [byte], ser_air_sent := ser_air_sent s + 1, flush_queued := True\<rparr>"

definition serial_flush :: "serial \<Rightarrow> serial" where
  "serial_flush s =
    (let s = s\<lparr>flush_queued := False\<rparr>
     in if ser_out s = [] then s
        else s\<lparr>ser_out := [], device_writes := device_writes s @ [ser_out s]\<rparr>)"

definition serial_deliver :: "nat list \<Rightarrow> serial \<Rightarrow> serial" where
  "serial_deliver bytes s =
    s\<lparr>ser_rx := ser_rx s @ bytes, ser_air_received := ser_air_received s + length bytes\<rparr>"

definition serial_rx_ready :: "ns \<Rightarrow> serial \<Rightarrow> bool" where
  "serial_rx_ready now s \<longleftrightarrow> ser_rx s \<noteq> [] \<and> now \<ge> ser_rx_ready_ns s"

definition serial_rx_take :: "ns \<Rightarrow> serial \<Rightarrow> int \<times> serial" where
  "serial_rx_take now s =
    (if \<not> serial_rx_ready now s then (- 1, s)
     else (int (hd (ser_rx s)),
       s\<lparr>ser_rx_taken := ser_rx_taken s + 1, ser_rx_ready_ns := now + HCI_BYTE_NS,
         ser_rx := tl (ser_rx s)\<rparr>))"

definition serial_next_ns :: "ns \<Rightarrow> serial \<Rightarrow> ns option" where
  "serial_next_ns now s =
    (if ser_rx s \<noteq> [] \<and> ser_rx_ready_ns s > now then Some (ser_rx_ready_ns s) else None)"

interpretation ser_uart: uart_wire ser_rx ser_rx_ready_ns ser_rx_taken serial_rx_take HCI_BYTE_NS
  by unfold_locales (auto simp: serial_rx_take_def serial_rx_ready_def HCI_BYTE_NS_def)

section \<open>A wire\<close>

datatype wire_op = FromHost nat | Flush | Deliver "nat list" | Take ns

fun wire_do :: "wire_op \<Rightarrow> serial \<Rightarrow> nat list \<times> serial" where
  "wire_do (FromHost b) s = ([], serial_from_host b s)"
| "wire_do Flush s = ([], serial_flush s)"
| "wire_do (Deliver bs) s = ([], serial_deliver bs s)"
| "wire_do (Take now) s = (let (r, s) = serial_rx_take now s in (if r = - 1 then [] else [nat r], s))"

fun wire_run :: "wire_op list \<Rightarrow> serial \<Rightarrow> nat list \<times> serial" where
  "wire_run [] s = ([], s)"
| "wire_run (x # xs) s =
    (let r = wire_do x s; rest = wire_run xs (snd r) in (fst r @ fst rest, snd rest))"

fun to_device :: "wire_op \<Rightarrow> nat list" where
  "to_device (FromHost b) = [b]" | "to_device _ = []"

fun to_guest :: "wire_op \<Rightarrow> nat list" where
  "to_guest (Deliver bs) = bs" | "to_guest _ = []"

lemma wire_do_transparent:
  "concat (device_writes (snd (wire_do x s))) @ ser_out (snd (wire_do x s)) =
     concat (device_writes s) @ ser_out s @ to_device x"
  "fst (wire_do x s) @ ser_rx (snd (wire_do x s)) = ser_rx s @ to_guest x"
  "(ser_out s \<noteq> [] \<longrightarrow> flush_queued s) \<Longrightarrow>
     ser_out (snd (wire_do x s)) \<noteq> [] \<longrightarrow> flush_queued (snd (wire_do x s))"
  by (cases x; cases "ser_rx s"; auto simp: serial_from_host_def serial_flush_def Let_def
      serial_deliver_def serial_rx_take_def serial_rx_ready_def)+

text \<open>
  The wire to a real controller is transparent: the device is given the guest's bytes and the
  guest the device's, in order, none lost or added; and what is not handed on yet has a flush queued.
\<close>

theorem serial_transparent:
  "concat (device_writes (snd (wire_run xs new_serial))) @ ser_out (snd (wire_run xs new_serial)) =
     concat (map to_device xs) \<and>
   fst (wire_run xs new_serial) @ ser_rx (snd (wire_run xs new_serial)) = concat (map to_guest xs) \<and>
   (ser_out (snd (wire_run xs new_serial)) = [] \<or> flush_queued (snd (wire_run xs new_serial)))"
proof -
  have "concat (device_writes (snd (wire_run xs s))) @ ser_out (snd (wire_run xs s)) =
      concat (device_writes s) @ ser_out s @ concat (map to_device xs) \<and>
    fst (wire_run xs s) @ ser_rx (snd (wire_run xs s)) = ser_rx s @ concat (map to_guest xs) \<and>
    ((ser_out s \<noteq> [] \<longrightarrow> flush_queued s) \<longrightarrow>
      ser_out (snd (wire_run xs s)) \<noteq> [] \<longrightarrow> flush_queued (snd (wire_run xs s)))" for s
  proof (induction xs arbitrary: s)
    case (Cons x xs)
    from Cons.IH [of "snd (wire_do x s)"] wire_do_transparent [where x = x and s = s] show ?case
      by (simp add: Let_def flip: append_assoc) (metis append_assoc)
  qed simp
  from this [of new_serial] show ?thesis by (auto simp: new_serial_def)
qed

section \<open>Either kind of controller\<close>

datatype hci = Emulated bt | Real serial

definition hci_rx_ready :: "ns \<Rightarrow> hci \<Rightarrow> bool" where
  "hci_rx_ready now c = (case c of Emulated b \<Rightarrow> rx_ready now b | Real s \<Rightarrow> serial_rx_ready now s)"

definition hci_rx_take :: "ns \<Rightarrow> hci \<Rightarrow> int \<times> hci" where
  "hci_rx_take now c = (case c of
      Emulated b \<Rightarrow> (fst (rx_take now b), Emulated (snd (rx_take now b)))
    | Real s \<Rightarrow> (fst (serial_rx_take now s), Real (snd (serial_rx_take now s))))"

definition hci_from_host :: "nat \<Rightarrow> ns \<Rightarrow> hci \<Rightarrow> hci" where
  "hci_from_host byte now c = (case c of
      Emulated b \<Rightarrow> Emulated (from_host byte now b)
    | Real s \<Rightarrow> Real (serial_from_host byte s))"

definition hci_next_ns :: "ns \<Rightarrow> hci \<Rightarrow> js_error + ns option" where
  "hci_next_ns now c = (case c of
      Emulated b \<Rightarrow> next_ns now b
    | Real s \<Rightarrow> Inr (serial_next_ns now s))"

definition hci_advance :: "ns \<Rightarrow> hci \<Rightarrow> (js_error + hci) option" where
  "hci_advance now c = (case c of
      Emulated b \<Rightarrow> (case advance now b of
          None \<Rightarrow> None | Some (Inl e) \<Rightarrow> Some (Inl e) | Some (Inr b) \<Rightarrow> Some (Inr (Emulated b)))
    | Real s \<Rightarrow> Some (Inr (Real s)))"

text \<open>\<open>s.rxTaken\<close> and \<open>s.rxRaisedAt\<close>, which the run loop reads and writes.\<close>

definition hci_taken :: "hci \<Rightarrow> nat" where
  "hci_taken c = (case c of Emulated b \<Rightarrow> rx_taken b | Real s \<Rightarrow> ser_rx_taken s)"

definition hci_raised_at :: "hci \<Rightarrow> nat" where
  "hci_raised_at c = (case c of Emulated b \<Rightarrow> rx_raised_at b | Real s \<Rightarrow> ser_rx_raised_at s)"

definition hci_set_raised_at :: "nat \<Rightarrow> hci \<Rightarrow> hci" where
  "hci_set_raised_at n c = (case c of
      Emulated b \<Rightarrow> Emulated (b\<lparr>rx_raised_at := n\<rparr>)
    | Real s \<Rightarrow> Real (s\<lparr>ser_rx_raised_at := n\<rparr>))"

end
