(* ===== verification/Core_Devices.thy ===== *)
theory Core_Devices
  imports Timed_Queue
begin

text \<open>
  The devices the host plays (host/core.mjs, class \<open>Host\<close>; host/irq_lines.mjs): interrupt lines raised
  from outside the driver loop, GPIO pins, input events, sensor readings and the Ethernet link. A
  32-bit mask is a \<open>32 word\<close>. What an import writes into guest memory is part of its result.
\<close>

section \<open>Interrupt lines\<close>

abbreviation (input) IRQ_TIMER :: nat where "IRQ_TIMER \<equiv> 0"
abbreviation (input) IRQ_GPIO :: nat where "IRQ_GPIO \<equiv> 1"
abbreviation (input) IRQ_INPUT :: nat where "IRQ_INPUT \<equiv> 2"
abbreviation (input) IRQ_SENSOR :: nat where "IRQ_SENSOR \<equiv> 3"
abbreviation (input) IRQ_ETH :: nat where "IRQ_ETH \<equiv> 4"
abbreviation (input) IRQ_UART :: nat where "IRQ_UART \<equiv> 5"
abbreviation (input) IRQ_UART1 :: nat where "IRQ_UART1 \<equiv> 6"

text \<open>\<open>1 << line\<close>: a shift takes its count modulo 32.\<close>

definition line_bit :: "nat \<Rightarrow> 32 word" where
  "line_bit line = push_bit (line mod 32) 1"

lemma bit_line_bit [simp]: "bit (line_bit l) n \<longleftrightarrow> n = l mod 32"
  by (auto simp: line_bit_def bit_exp_iff)

section \<open>State\<close>

record gpio_port =
  gpio_out_level :: "32 word"
  gpio_in_level :: "32 word"

record input_event =
  ev_type :: int
  ev_code :: int
  ev_value :: int
  ev_sync :: int

record reading =
  sensor :: int
  channel :: int
  millionths :: int

record devices =
  external_irqs :: "32 word"
  gpio :: "gpio_port list"
  input_queue :: "input_event list"
  sensor_queue :: "reading list"
  eth_queue :: "(ns \<times> nat list) list"
  eth_sent :: nat
  eth_received :: nat

definition initial_devices :: "32 word \<Rightarrow> devices" where
  "initial_devices gpio_inputs = \<lparr>external_irqs = 0,
    gpio = [\<lparr>gpio_out_level = 0, gpio_in_level = gpio_inputs\<rparr>], input_queue = [],
    sensor_queue = [], eth_queue = [], eth_sent = 0, eth_received = 0\<rparr>"

section \<open>Operations\<close>

definition inject_irq :: "nat \<Rightarrow> devices \<Rightarrow> devices" where
  "inject_irq line d = d\<lparr>external_irqs := external_irqs d OR line_bit line\<rparr>"

text \<open>\<open>next\<close> is the signed result of a bitwise operator, \<open>state.in\<close> is kept unsigned (\<open>next >>> 0\<close>), and
  \<open>===\<close> compares them as numbers.\<close>

definition set_gpio_input :: "nat \<Rightarrow> nat \<Rightarrow> bool \<Rightarrow> devices \<Rightarrow> devices" where
  "set_gpio_input port pin level d =
    (if port \<ge> length (gpio d) then d
     else (let st = gpio d ! port;
               nxt = (if level then gpio_in_level st OR line_bit pin
                      else gpio_in_level st AND NOT (line_bit pin))
           in if sint nxt = uint (gpio_in_level st) then d
              else inject_irq IRQ_GPIO (d\<lparr>gpio := (gpio d)[port := st\<lparr>gpio_in_level := nxt\<rparr>]\<rparr>)))"

definition gpio_out :: "nat \<Rightarrow> 32 word \<Rightarrow> devices \<Rightarrow> devices" where
  "gpio_out port values d =
    (if port \<ge> length (gpio d) then d
     else d\<lparr>gpio := (gpio d)[port := (gpio d ! port)\<lparr>gpio_out_level := values\<rparr>]\<rparr>)"

definition gpio_in :: "nat \<Rightarrow> devices \<Rightarrow> 32 word" where
  "gpio_in port d = (if port < length (gpio d) then gpio_in_level (gpio d ! port) else - 1)"

definition push_input :: "input_event list \<Rightarrow> devices \<Rightarrow> devices" where
  "push_input events d =
    (if events = [] then d
     else inject_irq IRQ_INPUT (d\<lparr>input_queue := input_queue d @ events\<rparr>))"

text \<open>The event for the guest, if there is one. It raises the line again after a sample's sync event
  when there is more.\<close>

definition input_poll :: "devices \<Rightarrow> input_event option \<times> devices" where
  "input_poll d =
    (case input_queue d of
      [] \<Rightarrow> (None, d)
    | ev # rest \<Rightarrow>
      (let d = d\<lparr>input_queue := rest\<rparr>
       in (Some ev, if ev_sync ev \<noteq> 0 \<and> rest \<noteq> [] then inject_irq IRQ_INPUT d else d)))"

text \<open>One reading into the queue: in place of one for the same sensor and channel, or at the end.\<close>

fun put_reading :: "reading \<Rightarrow> reading list \<Rightarrow> reading list" where
  "put_reading r [] = [r]"
| "put_reading r (q # qs) =
    (if sensor q = sensor r \<and> channel q = channel r then r # qs else q # put_reading r qs)"

definition push_sensor :: "reading list \<Rightarrow> devices \<Rightarrow> devices" where
  "push_sensor readings d =
    (if readings = [] then d
     else inject_irq IRQ_SENSOR (d\<lparr>sensor_queue := fold put_reading readings (sensor_queue d)\<rparr>))"

definition sensor_poll :: "devices \<Rightarrow> reading option \<times> devices" where
  "sensor_poll d =
    (case sensor_queue d of
      [] \<Rightarrow> (None, d)
    | r # rest \<Rightarrow> (Some r, d\<lparr>sensor_queue := rest\<rparr>))"

definition ETH_QUEUE_MAX :: nat where "ETH_QUEUE_MAX = 256"

definition push_ethernet :: "ns \<Rightarrow> nat list \<Rightarrow> devices \<Rightarrow> devices" where
  "push_ethernet at frame d =
    (if length (eth_queue d) \<ge> ETH_QUEUE_MAX then d
     else d\<lparr>eth_queue := tq_insert at frame (eth_queue d)\<rparr>)"

interpretation eth: timed_queue eth_queue push_ethernet "\<lambda>d. length (eth_queue d) < ETH_QUEUE_MAX"
  by unfold_locales (simp_all add: push_ethernet_def)

definition next_frame_ns :: "ns \<Rightarrow> devices \<Rightarrow> ns option" where
  "next_frame_ns epoch d =
    (case eth_queue d of [] \<Rightarrow> None | e # _ \<Rightarrow> Some (fst e - epoch))"

text \<open>The result the guest gets, and the bytes written to its buffer.\<close>

definition eth_recv :: "ns \<Rightarrow> int \<Rightarrow> devices \<Rightarrow> (int \<times> nat list) \<times> devices" where
  "eth_recv global_now room d =
    (case eth_queue d of
      [] \<Rightarrow> ((0, []), d)
    | (at, frame) # rest \<Rightarrow>
      if at > global_now then ((0, []), d)
      else (let d = d\<lparr>eth_queue := rest\<rparr>
            in if int (length frame) > room then ((- 1, []), d)
               else ((int (length frame), frame), d\<lparr>eth_received := eth_received d + 1\<rparr>)))"

section \<open>GPIO\<close>

lemma inject_irq_frame [simp]:
  "gpio (inject_irq l d) = gpio d" "input_queue (inject_irq l d) = input_queue d"
  "sensor_queue (inject_irq l d) = sensor_queue d" "eth_queue (inject_irq l d) = eth_queue d"
  "eth_received (inject_irq l d) = eth_received d"
  by (simp_all add: inject_irq_def)

lemma irq_injected [simp]: "bit (external_irqs (inject_irq l d)) n \<longleftrightarrow> bit (external_irqs d) n \<or> n = l mod 32"
  by (auto simp: inject_irq_def bit_or_iff)

lemma gpio_word_eq_iff:
  assumes "sint (x :: 32 word) = uint y"
  shows "x = y"
proof -
  have "x = word_of_int (sint x)" by simp
  also have "\<dots> = y" unfolding assms by simp
  finally show ?thesis .
qed

lemma gpio_word_negative: "bit (x :: 32 word) 31 \<Longrightarrow> sint x < 0"
  by (simp add: sint_uint bit_uint_iff)

definition moved_pin :: "nat \<Rightarrow> bool \<Rightarrow> 32 word \<Rightarrow> 32 word" where
  "moved_pin pin level x = (if level then x OR line_bit pin else x AND NOT (line_bit pin))"

lemma set_gpio_input_cases:
  assumes "port < length (gpio d)"
  obtains (same) "moved_pin pin level (gpio_in port d) = gpio_in port d"
      "set_gpio_input port pin level d = d"
  | (moved) "gpio_in port (set_gpio_input port pin level d) = moved_pin pin level (gpio_in port d)"
      "bit (external_irqs (set_gpio_input port pin level d)) IRQ_GPIO"
      "sint (moved_pin pin level (gpio_in port d)) \<noteq> uint (gpio_in port d)"
proof -
  let ?st = "gpio d ! port"
  let ?new = "moved_pin pin level (gpio_in_level ?st)"
  have set: "set_gpio_input port pin level d = (if sint ?new = uint (gpio_in_level ?st) then d
      else inject_irq IRQ_GPIO (d\<lparr>gpio := (gpio d)[port := ?st\<lparr>gpio_in_level := ?new\<rparr>]\<rparr>))"
    using assms by (simp add: set_gpio_input_def moved_pin_def Let_def)
  have st: "gpio_in port d = gpio_in_level ?st" using assms by (simp add: gpio_in_def)
  show ?thesis
  proof (cases "sint ?new = uint (gpio_in_level ?st)")
    case True
    then show ?thesis using same gpio_word_eq_iff [OF True] set st by simp
  next
    case False
    have d: "set_gpio_input port pin level d = inject_irq IRQ_GPIO
        (d\<lparr>gpio := (gpio d)[port := ?st\<lparr>gpio_in_level := ?new\<rparr>]\<rparr>)"
      unfolding set using False by (rule if_not_P)
    show ?thesis
      using moved assms False unfolding d st by (simp add: gpio_in_def)
  qed
qed

text \<open>
  Moving an input pin leaves the guest reading just that level on that pin and what it read
  before on every other; and if any pin reads differently, the GPIO line is raised.
\<close>

theorem set_gpio_input_level:
  assumes "port < length (gpio d)" and "pin < 32"
  shows "(bit (gpio_in port (set_gpio_input port pin level d)) n \<longleftrightarrow>
      (if n = pin then level else bit (gpio_in port d) n)) \<and>
    (gpio_in port (set_gpio_input port pin level d) = gpio_in port d \<or>
      bit (external_irqs (set_gpio_input port pin level d)) IRQ_GPIO)"
proof -
  have pin: "pin mod 32 = pin" using assms(2) by simp
  have bits: "bit (moved_pin pin level x) n \<longleftrightarrow> (if n = pin then level else bit x n)" for x
    using assms(2) by (cases level; cases "n = pin")
      (simp_all add: moved_pin_def bit_or_iff bit_and_iff bit_not_iff pin,
       auto dest: bit_imp_le_length)
  show ?thesis
    by (rule set_gpio_input_cases [OF assms(1), of pin level])
       (use bits [of "gpio_in port d"] in simp_all)
qed

theorem set_gpio_input_level_witness:
  "bit (gpio_in 0 (set_gpio_input 0 3 True (initial_devices 0))) 3 \<and>
    bit (external_irqs (set_gpio_input 0 3 True (initial_devices 0))) IRQ_GPIO"
proof -
  have d: "0 < length (gpio (initial_devices 0))" "gpio_in 0 (initial_devices 0) = 0"
    by (simp_all add: initial_devices_def gpio_in_def)
  show ?thesis
    using set_gpio_input_level [OF d(1), of 3 True 3] d(2) by auto
qed

text \<open>
  Setting a pin to the level it already has is meant to do nothing, but while pin 31 of the port
  reads high, as every pin does by default, it raises the GPIO line: the new level is compared as a
  signed number with the old one, which is kept unsigned.
\<close>

theorem set_gpio_input_redundant:
  assumes "port < length (gpio d)" and "pin < 31" and "bit (gpio_in port d) 31"
    and "bit (gpio_in port d) pin \<longleftrightarrow> level"
  shows "gpio_in port (set_gpio_input port pin level d) = gpio_in port d \<and>
    bit (external_irqs (set_gpio_input port pin level d)) IRQ_GPIO"
proof -
  have same: "moved_pin pin level (gpio_in port d) = gpio_in port d"
    using assms(2,4) by (intro bit_word_eqI)
      (auto simp: moved_pin_def bit_or_iff bit_and_iff bit_not_iff)
  have "sint (gpio_in port d) < 0" using assms(3) by (rule gpio_word_negative)
  moreover have "0 \<le> uint (gpio_in port d)" by simp
  ultimately have signed: "sint (gpio_in port d) \<noteq> uint (gpio_in port d)" by linarith
  from set_gpio_input_def [of port pin level d] assms(1) signed same
  have "bit (external_irqs (set_gpio_input port pin level d)) IRQ_GPIO"
    by (simp add: moved_pin_def gpio_in_def Let_def)
  with set_gpio_input_cases [OF assms(1), of pin level] same show ?thesis by metis
qed

text \<open>A button that is released, and is released again.\<close>

theorem set_gpio_input_redundant_witness:
  "gpio_in 0 (set_gpio_input 0 3 True (initial_devices (- 1))) = - 1 \<and>
    bit (external_irqs (set_gpio_input 0 3 True (initial_devices (- 1)))) IRQ_GPIO"
  using set_gpio_input_redundant [of 0 "initial_devices (- 1)" 3 True]
  by (simp add: initial_devices_def gpio_in_def)

section \<open>Sensors\<close>

text \<open>The specification of the queue: which value each channel of each sensor will read next.\<close>

definition latest :: "reading list \<Rightarrow> (int \<times> int \<rightharpoonup> int)" where
  "latest q = map_of (map (\<lambda>r. ((sensor r, channel r), millionths r)) q)"

abbreviation reading_keys :: "reading list \<Rightarrow> (int \<times> int) list" where
  "reading_keys q \<equiv> map (\<lambda>r. (sensor r, channel r)) q"

lemma put_reading_latest:
  "latest (put_reading r q) = (latest q)((sensor r, channel r) \<mapsto> millionths r)"
  by (induction r q rule: put_reading.induct) (auto simp: latest_def fun_upd_twist)

lemma put_reading_keys:
  "reading_keys (put_reading r q) = (if (sensor r, channel r) \<in> set (reading_keys q)
    then reading_keys q else reading_keys q @ [(sensor r, channel r)])"
  by (induction r q rule: put_reading.induct) auto

lemma put_readings:
  "distinct (reading_keys q) \<Longrightarrow> distinct (reading_keys (fold put_reading rs q)) \<and>
   latest (fold put_reading rs q) = fold (\<lambda>r f. f((sensor r, channel r) \<mapsto> millionths r)) rs (latest q) \<and>
   length (fold put_reading rs q) \<le> length (fold put_reading rs q)"
proof (induction rs arbitrary: q)
  case (Cons r rs)
  have "distinct (reading_keys (put_reading r q))"
    using Cons.prems unfolding put_reading_keys by auto
  from Cons.IH [OF this] show ?case by (simp add: put_reading_latest)
qed simp

text \<open>
  Readings pushed any number of times leave one waiting for each channel of each sensor, the
  latest; so the queue never holds more than there are channels.
\<close>

theorem sensor_queue_latest:
  assumes "distinct (reading_keys (sensor_queue d))"
  shows "distinct (reading_keys (sensor_queue (push_sensor rs d))) \<and>
    latest (sensor_queue (push_sensor rs d)) =
      fold (\<lambda>r f. f((sensor r, channel r) \<mapsto> millionths r)) rs (latest (sensor_queue d))"
  using put_readings [OF assms, of rs] assms by (auto simp: push_sensor_def)

definition sample_readings :: "reading list" where
  "sample_readings = [\<lparr>sensor = 0, channel = 1, millionths = 5\<rparr>, \<lparr>sensor = 0, channel = 2, millionths = 6\<rparr>,
    \<lparr>sensor = 0, channel = 1, millionths = 7\<rparr>]"

theorem sensor_queue_latest_witness:
  "latest (sensor_queue (push_sensor sample_readings (initial_devices 0)))
    = [(0, 1) \<mapsto> 5, (0, 2) \<mapsto> 6, (0, 1) \<mapsto> 7]"
  using sensor_queue_latest [of "initial_devices 0" sample_readings]
  by (simp add: initial_devices_def sample_readings_def latest_def)

section \<open>Input events\<close>

text \<open>Several polls in a row.\<close>

fun input_polls :: "nat \<Rightarrow> devices \<Rightarrow> input_event list \<times> devices" where
  "input_polls 0 d = ([], d)"
| "input_polls (Suc n) d =
    (let (ev, d) = input_poll d; (evs, d) = input_polls n d
     in ((case ev of None \<Rightarrow> evs | Some e \<Rightarrow> e # evs), d))"

lemma input_polls_sample:
  assumes "input_queue d = evs @ rest"
  shows "fst (input_polls (length evs) d) = evs \<and> input_queue (snd (input_polls (length evs) d)) = rest \<and>
    (bit (external_irqs d) IRQ_INPUT \<longrightarrow>
      bit (external_irqs (snd (input_polls (length evs) d))) IRQ_INPUT) \<and>
    (evs \<noteq> [] \<and> ev_sync (last evs) \<noteq> 0 \<and> rest \<noteq> [] \<longrightarrow>
      bit (external_irqs (snd (input_polls (length evs) d))) IRQ_INPUT)"
  using assms
proof (induction evs arbitrary: d)
  case (Cons ev evs)
  define d' where "d' = snd (input_poll d)"
  have poll: "input_poll d = (Some ev, d')" and q: "input_queue d' = evs @ rest"
    and irq: "bit (external_irqs d) IRQ_INPUT \<or> ev_sync ev \<noteq> 0 \<and> evs @ rest \<noteq> [] \<Longrightarrow>
      bit (external_irqs d') IRQ_INPUT"
    using Cons.prems by (auto simp: input_poll_def Let_def d'_def)
  from Cons.IH [OF q] poll irq show ?case by (auto simp: Let_def split_beta)
qed simp

text \<open>
  The input driver takes one sample per interrupt, up to its sync event: it gets the events in
  the order they were pushed, and when more are left the line has been raised for them.
\<close>

theorem input_sample_polled:
  assumes "input_queue d = evs @ rest" and "evs \<noteq> []" and "ev_sync (last evs) \<noteq> 0"
  shows "fst (input_polls (length evs) d) = evs \<and> input_queue (snd (input_polls (length evs) d)) = rest \<and>
    (rest = [] \<or> bit (external_irqs (snd (input_polls (length evs) d))) IRQ_INPUT)"
  using input_polls_sample [OF assms(1)] assms(2,3) by blast

theorem input_sample_polled_witness:
  "\<exists>d. input_queue d = [] \<and>
    (let evs = [\<lparr>ev_type = 1, ev_code = 30, ev_value = 1, ev_sync = 1\<rparr>,
        \<lparr>ev_type = 1, ev_code = 30, ev_value = 0, ev_sync = 1\<rparr>]
     in fst (input_polls 1 (push_input evs d)) = take 1 evs \<and>
       bit (external_irqs (snd (input_polls 1 (push_input evs d)))) IRQ_INPUT)"
  using input_sample_polled [of "push_input [\<lparr>ev_type = 1, ev_code = 30, ev_value = 1, ev_sync = 1\<rparr>,
        \<lparr>ev_type = 1, ev_code = 30, ev_value = 0, ev_sync = 1\<rparr>] (initial_devices 0)"
      "[\<lparr>ev_type = 1, ev_code = 30, ev_value = 1, ev_sync = 1\<rparr>]"
      "[\<lparr>ev_type = 1, ev_code = 30, ev_value = 0, ev_sync = 1\<rparr>]"]
  by (intro exI [of _ "initial_devices 0"]) (simp add: push_input_def initial_devices_def)

section \<open>The Ethernet link\<close>

text \<open>Frames arrive for the board, and it reads, at its times on the pair's timeline; the frames it
  reads are the result, each with when it read it and when it was due.\<close>

datatype eth_op = Arrive ns "nat list" | Read ns int

fun eth_run :: "eth_op list \<Rightarrow> devices \<Rightarrow> (ns \<times> ns \<times> nat list) list \<times> devices" where
  "eth_run [] d = ([], d)"
| "eth_run (Arrive at frame # ops) d = eth_run ops (push_ethernet at frame d)"
| "eth_run (Read now room # ops) d =
    (let r = eth_recv now room d; rest = eth_run ops (snd r)
     in (if eth_received (snd r) = eth_received d then fst rest
         else (now, fst (hd (eth_queue d)), snd (fst r)) # fst rest, snd rest))"

lemma eth_run_ok:
  "tq_sorted (eth_queue d) \<Longrightarrow> length (eth_queue d) \<le> ETH_QUEUE_MAX \<Longrightarrow>
   tq_sorted (eth_queue (snd (eth_run ops d))) \<and> length (eth_queue (snd (eth_run ops d))) \<le> ETH_QUEUE_MAX \<and>
   (\<forall>(now, at, frame) \<in> set (fst (eth_run ops d)). at \<le> now \<and>
      (at, frame) \<in> set (eth_queue d) \<union> {(at, frame). Arrive at frame \<in> set ops})"
proof (induction ops d rule: eth_run.induct)
  case (2 at frame ops d)
  have "length (eth_queue (push_ethernet at frame d)) \<le> ETH_QUEUE_MAX"
    using "2.prems" by (simp add: push_ethernet_def)
  from "2.IH" [OF eth.push_sorted [OF "2.prems"(1)] this] eth.push_subset [of at frame d]
  show ?case by fastforce
next
  case (3 now room ops d)
  define d' where "d' = snd (eth_recv now room d)"
  have "eth_queue d' = eth_queue d \<or> eth_queue d' = tl (eth_queue d)"
    by (auto simp: d'_def eth_recv_def Let_def split: list.split)
  then have q: "tq_sorted (eth_queue d')" "length (eth_queue d') \<le> ETH_QUEUE_MAX"
    "set (eth_queue d') \<subseteq> set (eth_queue d)"
    using 3(2,3) by (cases "eth_queue d"; auto simp: tq_sorted_tl)+
  have got: "eth_received d' \<noteq> eth_received d \<Longrightarrow>
      fst (hd (eth_queue d)) \<le> now \<and> eth_queue d \<noteq> [] \<and> snd (fst (eth_recv now room d)) = snd (hd (eth_queue d))"
    by (auto simp: d'_def eth_recv_def Let_def split: list.splits if_splits)
  have IH: "tq_sorted (eth_queue (snd (eth_run ops d'))) \<and>
      length (eth_queue (snd (eth_run ops d'))) \<le> ETH_QUEUE_MAX \<and>
      (\<forall>(now, at, frame) \<in> set (fst (eth_run ops d')). at \<le> now \<and>
        (at, frame) \<in> set (eth_queue d') \<union> {(at, frame). Arrive at frame \<in> set ops})"
    using "3.IH" [OF refl] q by (simp add: d'_def)
  show ?case
    using IH got q(3) by (cases "eth_queue d") (auto simp: Let_def split_beta d'_def)
qed simp

text \<open>
  However frames arrive and the board reads, it is never handed a frame that did not arrive or is
  not due yet, and no more than \<open>ETH_QUEUE_MAX\<close> wait for it.
\<close>

theorem eth_frames_due:
  "list_all (\<lambda>(now, at, frame). at \<le> now \<and> Arrive at frame \<in> set ops)
      (fst (eth_run ops (initial_devices g))) \<and>
    length (eth_queue (snd (eth_run ops (initial_devices g)))) \<le> ETH_QUEUE_MAX"
  using eth_run_ok [of "initial_devices g" ops] by (auto simp: list_all_iff initial_devices_def)

end
