(* ===== verification/Core_Display.thy ===== *)
theory Core_Display
  imports Prelude
begin

text \<open>
  The display of the host (host/core.mjs): where the guest's framebuffer is, which part of it has
  changed since it was last drawn, and the frame as RGBA for a canvas. The framebuffer is guest
  memory, a list of bytes here.
\<close>

section \<open>State and operations\<close>

record rect =
  x0 :: int
  y0 :: int
  x1 :: int
  y1 :: int

record display =
  disp_ptr :: nat
  disp_width :: nat
  disp_height :: nat
  disp_format :: nat
  blank :: bool
  dirty :: "rect option"
  frames :: nat

definition display_attach :: "nat \<Rightarrow> nat \<Rightarrow> nat \<Rightarrow> nat \<Rightarrow> display" where
  "display_attach ptr width height fmt = \<lparr>disp_ptr = ptr, disp_width = width, disp_height = height,
     disp_format = fmt, blank = True, dirty = None, frames = 0\<rparr>"

definition display_flush :: "int \<Rightarrow> int \<Rightarrow> int \<Rightarrow> int \<Rightarrow> display option \<Rightarrow> display option" where
  "display_flush x y w h dd =
    (case dd of
      None \<Rightarrow> None
    | Some d \<Rightarrow> Some (d\<lparr>dirty := Some (case dirty d of
          Some r \<Rightarrow> \<lparr>x0 = min (x0 r) x, y0 = min (y0 r) y, x1 = max (x1 r) (x + w),
            y1 = max (y1 r) (y + h)\<rparr>
        | None \<Rightarrow> \<lparr>x0 = x, y0 = y, x1 = x + w, y1 = y + h\<rparr>), frames := frames d + 1\<rparr>))"

definition display_blank :: "int \<Rightarrow> display option \<Rightarrow> display option" where
  "display_blank on dd = map_option (\<lambda>d. d\<lparr>blank := on \<noteq> 0\<rparr>) dd"

definition display_dirty :: "display option \<Rightarrow> bool" where
  "display_dirty dd \<longleftrightarrow> (case dd of None \<Rightarrow> False | Some d \<Rightarrow> dirty d \<noteq> None)"

text \<open>One pixel, RGB565, as four bytes. The shifts to the left stay within the byte the clamped array
  takes.\<close>

definition rgba_of_pixel :: "nat \<Rightarrow> nat list" where
  "rgba_of_pixel v =
    (let r = drop_bit 11 v AND 0x1f; g = drop_bit 5 v AND 0x3f; b = v AND 0x1f
     in [push_bit 3 r OR drop_bit 2 r, push_bit 2 g OR drop_bit 4 g, push_bit 3 b OR drop_bit 2 b, 255])"

record frame =
  frame_width :: nat
  frame_height :: nat
  frame_blank :: bool
  frame_count :: nat
  rgba :: "nat list"

text \<open>A view of 16-bit elements must be aligned and within the memory, or its construction throws.\<close>

definition display_frame :: "nat list \<Rightarrow> display option \<Rightarrow> js_error + frame option \<times> display option" where
  "display_frame mem dd =
    (case dd of
      None \<Rightarrow> Inr (None, None)
    | Some d \<Rightarrow>
      (let n = disp_width d * disp_height d
       in if odd (disp_ptr d) \<or> disp_ptr d + 2 * n > length mem then Inl RangeError
          else Inr (Some \<lparr>frame_width = disp_width d, frame_height = disp_height d,
              frame_blank = blank d, frame_count = frames d,
              rgba = concat (map (\<lambda>i. rgba_of_pixel (rd16 mem (disp_ptr d + 2 * i))) [0..<n])\<rparr>,
            Some (d\<lparr>dirty := None\<rparr>))))"

section \<open>Colours\<close>

lemma push_or_low:
  assumes "(b :: nat) < 2 ^ k"
  shows "push_bit k a OR b = a * 2 ^ k + b"
proof -
  have "b = take_bit k b" using assms by (simp add: take_bit_nat_eq_self)
  then have "push_bit k a AND b = 0"
    by (metis (no_types, opaque_lifting) bit_and_iff bit_eq_iff bit_push_bit_iff_nat bit_take_bit_iff
        leD bit_0_eq bot_apply bot_bool_def)
  then show ?thesis by (simp add: disjunctive_add_eq_or [symmetric] push_bit_eq_mult)
qed

lemma pixel_fields:
  "(v :: nat) AND 0x1f = v mod 32" "v AND 0x3f = v mod 64"
  using take_bit_eq_mask [of 5 v] take_bit_eq_mask [of 6 v]
  by (simp_all add: mask_eq_exp_minus_1 take_bit_eq_mod)

text \<open>The 16-bit pixel a canvas's RGBA came from, by truncating each channel.\<close>

definition pixel_of_rgba :: "nat list \<Rightarrow> nat" where
  "pixel_of_rgba p = (p ! 0 div 8) * 2048 + (p ! 1 div 4) * 32 + p ! 2 div 8"

lemma rgba_of_pixel_eq:
  "rgba_of_pixel v = (let r = v div 2048 mod 32; g = v div 32 mod 64; b = v mod 32
     in [8 * r + r div 4, 4 * g + g div 16, 8 * b + b div 4, 255])"
proof -
  have "push_bit 3 r OR drop_bit 2 r = 8 * r + r div 4" if "r < 32" for r :: nat
    using push_or_low [of "drop_bit 2 r" 3 r] that by (simp add: drop_bit_eq_div)
  moreover have "push_bit 2 g OR drop_bit 4 g = 4 * g + g div 16" if "g < 64" for g :: nat
    using push_or_low [of "drop_bit 4 g" 2 g] that by (simp add: drop_bit_eq_div)
  ultimately show ?thesis
    by (simp add: rgba_of_pixel_def pixel_fields drop_bit_eq_div Let_def)
qed

text \<open>
  Widening a pixel to RGBA loses nothing: truncating the channels gives the pixel back. Full
  intensity is 255 and none is 0.
\<close>

theorem pixel_roundtrip:
  assumes "v < 65536"
  shows "pixel_of_rgba (rgba_of_pixel v) = v \<and> rgba_of_pixel 0 = [0, 0, 0, 255] \<and>
    rgba_of_pixel 0xffff = [255, 255, 255, 255] \<and> is_bytes (rgba_of_pixel v)"
proof -
  define r g b where "r = v div 2048 mod 32" and "g = v div 32 mod 64" and "b = v mod 32"
  have less: "r < 32" "g < 64" "b < 32" by (simp_all add: r_def g_def b_def)
  have p: "rgba_of_pixel v = [8 * r + r div 4, 4 * g + g div 16, 8 * b + b div 4, 255]"
    by (simp add: rgba_of_pixel_eq r_def g_def b_def Let_def)
  have "(8 * r + r div 4) div 8 = r" "(4 * g + g div 16) div 4 = g" "(8 * b + b div 4) div 8 = b"
    using less by (simp_all add: div_mult2_eq [symmetric])
  then have "pixel_of_rgba (rgba_of_pixel v) = r * 2048 + g * 32 + b"
    by (simp add: p pixel_of_rgba_def)
  also have "\<dots> = v"
  proof -
    have "v div 32 div 64 = v div 2048" by (simp add: div_mult2_eq [symmetric])
    then have "v div 32 = r * 64 + g"
      using div_mult_mod_eq [of "v div 32" 64] assms by (simp add: r_def g_def)
    then show ?thesis using div_mult_mod_eq [of v 32] by (simp add: b_def)
  qed
  finally have "pixel_of_rgba (rgba_of_pixel v) = v" .
  moreover have "is_bytes (rgba_of_pixel v)" using less by (auto simp: p)
  ultimately show ?thesis by (simp add: rgba_of_pixel_eq Let_def)
qed

theorem pixel_roundtrip_witness:
  "rgba_of_pixel 0xf800 = [255, 0, 0, 255] \<and> pixel_of_rgba (rgba_of_pixel 0xf800) = 0xf800"
  using pixel_roundtrip [of "0xf800"] by (simp add: rgba_of_pixel_eq Let_def)

section \<open>The dirty region\<close>

definition in_rect :: "int \<times> int \<Rightarrow> rect \<Rightarrow> bool" where
  "in_rect p r \<longleftrightarrow> x0 r \<le> fst p \<and> fst p < x1 r \<and> y0 r \<le> snd p \<and> snd p < y1 r"

definition flushed :: "int \<times> int \<times> int \<times> int \<Rightarrow> rect" where
  "flushed = (\<lambda>(x, y, w, h). \<lparr>x0 = x, y0 = y, x1 = x + w, y1 = y + h\<rparr>)"

definition within :: "rect \<Rightarrow> rect \<Rightarrow> bool" where
  "within r s \<longleftrightarrow> x0 s \<le> x0 r \<and> y0 s \<le> y0 r \<and> x1 r \<le> x1 s \<and> y1 r \<le> y1 s"

definition flush_all :: "(int \<times> int \<times> int \<times> int) list \<Rightarrow> display option \<Rightarrow> display option" where
  "flush_all fs dd = fold (\<lambda>(x, y, w, h). display_flush x y w h) fs dd"

lemma flush_all_dirty:
  "fs \<noteq> [] \<Longrightarrow> dirty d = None \<Longrightarrow>
   \<exists>d' r. flush_all fs (Some d) = Some d' \<and> dirty d' = Some r \<and> frames d' = frames d + length fs \<and>
     (\<forall>s. within r s \<longleftrightarrow> (\<forall>f \<in> set fs. within (flushed f) s))"
proof (induction fs rule: rev_induct)
  case (snoc f fs)
  obtain x y w h where f: "f = (x, y, w, h)" by (metis prod_cases4)
  show ?case
  proof (cases "fs = []")
    case True
    with snoc.prems f show ?thesis
      by (simp add: flush_all_def display_flush_def flushed_def)
  next
    case False
    with snoc obtain d' r where d': "flush_all fs (Some d) = Some d'" "dirty d' = Some r"
      "frames d' = frames d + length fs" "\<forall>s. within r s \<longleftrightarrow> (\<forall>f \<in> set fs. within (flushed f) s)"
      by blast
    let ?r = "\<lparr>x0 = min (x0 r) x, y0 = min (y0 r) y, x1 = max (x1 r) (x + w), y1 = max (y1 r) (y + h)\<rparr>"
    have "within ?r s \<longleftrightarrow> within r s \<and> within (flushed f) s" for s
      by (auto simp: within_def flushed_def f)
    with d' f show ?thesis by (auto simp: flush_all_def display_flush_def)
  qed
qed simp

text \<open>
  After any flushes the dirty region is the smallest rectangle that holds all that was flushed
  since the display was last drawn: it is within a rectangle exactly when every flushed area is; a
  frame then clears it.
\<close>

theorem dirty_is_bounding_box:
  assumes "fs \<noteq> []" and "dirty d = None"
  shows "\<exists>d' r. flush_all fs (Some d) = Some d' \<and> dirty d' = Some r \<and>
    frames d' = frames d + length fs \<and>
    (within r s \<longleftrightarrow> list_all (\<lambda>f. within (flushed f) s) fs) \<and>
    (display_frame mem (Some d') = Inl RangeError \<or>
      (\<exists>f. display_frame mem (Some d') = Inr (Some f, Some (d'\<lparr>dirty := None\<rparr>))))"
proof -
  from flush_all_dirty [OF assms] obtain d' r where "flush_all fs (Some d) = Some d'"
    "dirty d' = Some r" "frames d' = frames d + length fs"
    "within r s \<longleftrightarrow> list_all (\<lambda>f. within (flushed f) s) fs"
    by (auto simp: list_all_iff)
  then show ?thesis by (intro exI [of _ d'] exI [of _ r]) (simp add: display_frame_def Let_def)
qed

theorem dirty_is_bounding_box_witness:
  "\<exists>d' r. flush_all [(0, 0, 4, 4), (10, 2, 2, 8)] (Some (display_attach 64 320 240 0)) = Some d' \<and>
    dirty d' = Some r \<and> within r \<lparr>x0 = 0, y0 = 0, x1 = 12, y1 = 10\<rparr>"
  using dirty_is_bounding_box [of "[(0, 0, 4, 4), (10, 2, 2, 8)]" "display_attach 64 320 240 0"
      "\<lparr>x0 = 0, y0 = 0, x1 = 12, y1 = 10\<rparr>" "[]"]
  by (auto simp: display_attach_def within_def flushed_def)

end
