(* ===== verification/Core_Console.thy ===== *)
theory Core_Console
  imports Uart_Wire "HOL-Library.Sublist"
begin

text \<open>
  The console UART of the host (host/core.mjs, class \<open>Host\<close>): the bytes waiting for the guest and
  the time the next has come down the wire, the lines to type and when the next may be, and the
  guest's output, in which the shell's prompt is looked for. The fields keep their names; \<open>written\<close>
  is what \<open>platform.writeOut\<close> was given.
\<close>

section \<open>State and operations\<close>

definition UART_BYTE_NS :: ns where "UART_BYTE_NS = 86806"

text \<open>\<^verbatim>\<open>uart:~$ \<close>\<close>

definition SHELL_PROMPT :: "nat list" where
  "SHELL_PROMPT = [0x75, 0x61, 0x72, 0x74, 0x3a, 0x7e, 0x24, 0x20]"

record console =
  input :: "nat list"
  uart_taken :: nat
  uart_raised_at :: nat
  uart_ready_ns :: ns
  typing :: "nat list list"
  type_held :: bool
  out_tail :: "nat list"
  shell_seen :: bool
  prompt_since :: bool
  out_bytes :: nat
  written :: "nat list"

definition initial_console :: "bool \<Rightarrow> console" where
  "initial_console held = \<lparr>input = [], uart_taken = 0, uart_raised_at = 0, uart_ready_ns = 0,
    typing = [], type_held = held, out_tail = [], shell_seen = False, prompt_since = False,
    out_bytes = 0, written = []\<rparr>"

definition uart_ready :: "ns \<Rightarrow> console \<Rightarrow> bool" where
  "uart_ready now c \<longleftrightarrow> input c \<noteq> [] \<and> now \<ge> uart_ready_ns c"

definition next_uart_ns :: "ns \<Rightarrow> console \<Rightarrow> ns option" where
  "next_uart_ns now c =
    (if input c \<noteq> [] \<and> uart_ready_ns c > now then Some (uart_ready_ns c) else None)"

text \<open>Port 0 of \<open>uart_poll_in\<close> and \<open>uart_poll_out\<close>; the other port is the Bluetooth controller's.\<close>

definition uart_poll_in :: "ns \<Rightarrow> console \<Rightarrow> int \<times> console" where
  "uart_poll_in now c =
    (if \<not> uart_ready now c then (- 1, c)
     else (int (hd (input c)),
       c\<lparr>uart_taken := uart_taken c + 1, uart_ready_ns := now + UART_BYTE_NS,
         input := tl (input c)\<rparr>))"

interpretation con_uart: uart_wire input uart_ready_ns uart_taken uart_poll_in UART_BYTE_NS
  by unfold_locales (auto simp: uart_poll_in_def uart_ready_def UART_BYTE_NS_def)

definition note_prompt :: "nat \<Rightarrow> console \<Rightarrow> console" where
  "note_prompt ch c =
    (let tail = out_tail c @ [ch];
         tail = (if length tail > length SHELL_PROMPT then tl tail else tail);
         c = c\<lparr>out_tail := tail\<rparr>
     in if length tail = length SHELL_PROMPT \<and> every_eq tail SHELL_PROMPT
        then c\<lparr>shell_seen := True, prompt_since := True\<rparr> else c)"

definition uart_poll_out :: "nat \<Rightarrow> console \<Rightarrow> console" where
  "uart_poll_out ch c =
    (let c = note_prompt (ch mod 256) (c\<lparr>out_bytes := out_bytes c + 1\<rparr>)
     in c\<lparr>written := written c @ [ch mod 256]\<rparr>)"

text \<open>Output that is not looked at for a prompt: \<open>console_write\<close>, and semihosting's.\<close>

definition console_write :: "nat list \<Rightarrow> console \<Rightarrow> console" where
  "console_write bytes c = c\<lparr>out_bytes := out_bytes c + length bytes, written := written c @ bytes\<rparr>"

text \<open>The loop of \<open>type\<close>, with the line so far.\<close>

fun type_lines :: "nat list \<Rightarrow> nat list \<Rightarrow> nat list list" where
  "type_lines line [] = (if line = [] then [] else [line])"
| "type_lines line (b # bs) =
    (if b = 0x0a then (line @ [b]) # type_lines [] bs else type_lines (line @ [b]) bs)"

definition type_bytes :: "nat list \<Rightarrow> console \<Rightarrow> console" where
  "type_bytes bytes c = c\<lparr>typing := typing c @ type_lines [] bytes\<rparr>"

definition type_next_line :: "console \<Rightarrow> bool \<times> console" where
  "type_next_line c =
    (if typing c = [] \<or> input c \<noteq> [] then (False, c)
     else if type_held c then (False, c)
     else if shell_seen c \<and> \<not> prompt_since c then (False, c)
     else (True, c\<lparr>input := input c @ hd (typing c), typing := tl (typing c),
       prompt_since := False\<rparr>))"

section \<open>Lines\<close>

lemma concat_type_lines: "concat (type_lines line bs) = line @ bs"
  by (induction line bs rule: type_lines.induct) auto

lemma type_lines_snoc:
  "0x0a \<notin> set line \<Longrightarrow> l \<in> set (type_lines line bs) \<Longrightarrow>
   l \<noteq> [] \<and> 0x0a \<notin> set (butlast l)"
  by (induction line bs rule: type_lines.induct) (auto split: if_splits dest: in_set_butlastD)

lemma type_lines_ended:
  "ls @ [l] = type_lines line bs \<Longrightarrow> l' \<in> set ls \<Longrightarrow> last l' = 0x0a"
proof (induction line bs arbitrary: ls rule: type_lines.induct)
  case (2 line b bs)
  show ?case
  proof (cases "b = 0x0a")
    case True
    with "2.prems" show ?thesis
      using "2.IH"(1) [of "tl ls"] by (cases ls) auto
  next
    case False
    with 2 show ?thesis by simp
  qed
qed (auto split: if_splits)

text \<open>
  Typing splits what was typed into lines without losing, adding or reordering a byte: each line
  is not empty and has a newline at most at its end, and every line but the last does end in one.
\<close>

theorem typed_lines:
  "concat (type_lines [] bytes) = bytes \<and>
   list_all (\<lambda>l. l \<noteq> [] \<and> 0x0a \<notin> set (butlast l)) (type_lines [] bytes) \<and>
   list_all (\<lambda>l. last l = 0x0a) (butlast (type_lines [] bytes))"
proof -
  have "last l' = 0x0a" if "l' \<in> set (butlast (type_lines [] bytes))" for l'
    using that type_lines_ended [of "butlast (type_lines [] bytes)" "last (type_lines [] bytes)" "[]" bytes]
    by (cases "type_lines [] bytes = []") auto
  then show ?thesis
    using type_lines_snoc [of "[]" _ bytes] by (auto simp: list_all_iff concat_type_lines)
qed

section \<open>What reaches the guest\<close>

text \<open>What happens to a console: bytes are typed, the guest reads or writes, the guest is idle and the
  run loop types the next line. The result is what the guest read.\<close>

datatype con_op = Type "nat list" | PollIn ns | PollOut nat | Idle

fun con_do :: "con_op \<Rightarrow> console \<Rightarrow> nat list \<times> console" where
  "con_do (Type bs) c = ([], type_bytes bs c)"
| "con_do (PollIn now) c = (let (r, c) = uart_poll_in now c in (if r = - 1 then [] else [nat r], c))"
| "con_do (PollOut ch) c = ([], uart_poll_out ch c)"
| "con_do Idle c = ([], snd (type_next_line c))"

fun con_run :: "con_op list \<Rightarrow> console \<Rightarrow> nat list \<times> console" where
  "con_run [] c = ([], c)"
| "con_run (x # xs) c =
    (let (got, c) = con_do x c; (more, c) = con_run xs c in (got @ more, c))"

fun typed_by :: "con_op \<Rightarrow> nat list" where
  "typed_by (Type bs) = bs"
| "typed_by _ = []"

definition to_come :: "console \<Rightarrow> nat list" where
  "to_come c = input c @ concat (typing c)"

lemma note_prompt_frame [simp]:
  "input (note_prompt ch c) = input c" "typing (note_prompt ch c) = typing c"
  "uart_ready_ns (note_prompt ch c) = uart_ready_ns c" "uart_taken (note_prompt ch c) = uart_taken c"
  "type_held (note_prompt ch c) = type_held c"
  by (simp_all add: note_prompt_def Let_def)

lemma to_come_do: "fst (con_do x c) @ to_come (snd (con_do x c)) = to_come c @ typed_by x"
proof (cases x)
  case (PollIn now)
  then show ?thesis
    by (cases "input c") (auto simp: uart_poll_in_def uart_ready_def to_come_def)
next
  case Idle
  then show ?thesis
    by (cases "typing c") (auto simp: type_next_line_def to_come_def)
qed (simp_all add: to_come_def type_bytes_def uart_poll_out_def Let_def concat_type_lines)

text \<open>
  Whatever the guest reads and writes, and whenever it is idle, it reads exactly what was typed,
  in order: what it has read, what waits in the UART and what is still to be typed make up what
  was typed.
\<close>

theorem typed_bytes_in_order:
  "fst (con_run ops c) @ to_come (snd (con_run ops c)) = to_come c @ concat (map typed_by ops)"
proof (induction ops arbitrary: c)
  case (Cons x xs)
  have "fst (con_run (x # xs) c) @ to_come (snd (con_run (x # xs) c))
      = fst (con_do x c) @ to_come (snd (con_do x c)) @ concat (map typed_by xs)"
    using Cons.IH [of "snd (con_do x c)"] by (simp add: split_beta Let_def)
  also have "\<dots> = to_come c @ typed_by x @ concat (map typed_by xs)"
    using to_come_do [of x c] by (metis append_assoc)
  finally show ?case by simp
qed simp

text \<open>
  A guest that polls its UART once a byte time, from when the wire is next ready, gets all that
  waits, in order.
\<close>

theorem console_polls_drain:
  assumes "uart_ready_ns c \<le> t" and "length (input c) \<le> n"
  shows "map snd (fst (con_uart.polls (map (\<lambda>i. t + int i * UART_BYTE_NS) [0..<n]) c)) = input c"
  using assms by (rule con_uart.polls_drain)

theorem console_polls_drain_witness:
  "map snd (fst (con_uart.polls (map (\<lambda>i. 7 + int i * UART_BYTE_NS) [0..<3])
    ((initial_console False)\<lparr>input := [104, 105, 10]\<rparr>))) = [104, 105, 10]"
  using console_polls_drain [of "(initial_console False)\<lparr>input := [104, 105, 10]\<rparr>" 7 3]
  by (simp add: initial_console_def)

section \<open>The prompt\<close>

definition last_n :: "nat \<Rightarrow> 'a list \<Rightarrow> 'a list" where
  "last_n n xs = drop (length xs - n) xs"

lemma last_n_snoc: "0 < n \<Longrightarrow> last_n n (xs @ [x]) =
    (if length (last_n n xs @ [x]) > n then tl (last_n n xs @ [x]) else last_n n xs @ [x])"
  by (auto simp: last_n_def Suc_diff_le drop_Suc tl_drop)

lemma last_n_eq_suffix: "length p = n \<Longrightarrow> last_n n xs = p \<longleftrightarrow> suffix p xs"
  using suffix_drop [of "length xs - length p" xs] by (auto simp: last_n_def suffix_def)

lemma length_SHELL_PROMPT: "length SHELL_PROMPT = 8"
  by (simp add: SHELL_PROMPT_def)

lemma note_prompt_suffix:
  assumes "out_tail c = last_n 8 out"
  shows "out_tail (note_prompt ch c) = last_n 8 (out @ [ch])"
    and "shell_seen (note_prompt ch c) \<longleftrightarrow> shell_seen c \<or> suffix SHELL_PROMPT (out @ [ch])"
    and "prompt_since (note_prompt ch c) \<longleftrightarrow> prompt_since c \<or> suffix SHELL_PROMPT (out @ [ch])"
proof -
  define tail where "tail = last_n 8 (out @ [ch])"
  have tail: "(let t = out_tail c @ [ch] in if length t > length SHELL_PROMPT then tl t else t) = tail"
    using assms last_n_snoc [of 8 out ch] by (simp add: tail_def length_SHELL_PROMPT Let_def)
  have "length tail = 8 \<and> every_eq tail SHELL_PROMPT \<longleftrightarrow> tail = SHELL_PROMPT"
    by (auto simp: every_eq_def length_SHELL_PROMPT)
  moreover define S where "S \<longleftrightarrow> suffix SHELL_PROMPT (out @ [ch])"
  ultimately have "length tail = 8 \<and> every_eq tail SHELL_PROMPT \<longleftrightarrow> S"
    using last_n_eq_suffix [OF length_SHELL_PROMPT] by (simp add: tail_def)
  then have "note_prompt ch c = (if S then c\<lparr>out_tail := tail, shell_seen := True, prompt_since := True\<rparr>
      else c\<lparr>out_tail := tail\<rparr>)"
    using tail by (simp add: note_prompt_def Let_def length_SHELL_PROMPT)
  then show "out_tail (note_prompt ch c) = last_n 8 (out @ [ch])"
    "shell_seen (note_prompt ch c) \<longleftrightarrow> shell_seen c \<or> suffix SHELL_PROMPT (out @ [ch])"
    "prompt_since (note_prompt ch c) \<longleftrightarrow> prompt_since c \<or> suffix SHELL_PROMPT (out @ [ch])"
    unfolding S_def [symmetric] tail_def [symmetric] by simp_all
qed

text \<open>Does a prompt end somewhere in \<open>ws\<close>, written after \<open>out\<close>?\<close>

fun prompt_in :: "nat list \<Rightarrow> nat list \<Rightarrow> bool" where
  "prompt_in out [] \<longleftrightarrow> False"
| "prompt_in out (w # ws) \<longleftrightarrow> suffix SHELL_PROMPT (out @ [w]) \<or> prompt_in (out @ [w]) ws"

lemma prompt_in_append: "prompt_in out (ws @ vs) \<longleftrightarrow> prompt_in out ws \<or> prompt_in (out @ ws) vs"
  by (induction ws arbitrary: out) auto

lemma prompt_in_iff_sublist: "prompt_in [] ws \<longleftrightarrow> sublist SHELL_PROMPT ws"
proof (induction ws rule: rev_induct)
  case Nil
  then show ?case by (simp add: SHELL_PROMPT_def)
next
  case (snoc w ws)
  have "sublist SHELL_PROMPT (ws @ [w]) \<longleftrightarrow> suffix SHELL_PROMPT (ws @ [w]) \<or> sublist SHELL_PROMPT ws"
    by (rule sublist_snoc)
  with snoc show ?case by (simp add: prompt_in_append del: suffix_snoc) blast
qed

fun out_by :: "con_op \<Rightarrow> nat list" where
  "out_by (PollOut ch) = [ch mod 256]"
| "out_by _ = []"

fun guest_op :: "con_op \<Rightarrow> bool" where
  "guest_op (PollIn _) \<longleftrightarrow> True"
| "guest_op (PollOut _) \<longleftrightarrow> True"
| "guest_op _ \<longleftrightarrow> False"

lemma con_do_tail:
  assumes "out_tail c = last_n 8 out"
  shows "out_tail (snd (con_do x c)) = last_n 8 (out @ out_by x)"
    and "shell_seen (snd (con_do x c)) \<longleftrightarrow> shell_seen c \<or> prompt_in out (out_by x)"
    and "guest_op x \<Longrightarrow> prompt_since (snd (con_do x c)) \<longleftrightarrow> prompt_since c \<or> prompt_in out (out_by x)"
    and "guest_op x \<Longrightarrow> typing (snd (con_do x c)) = typing c"
    and "guest_op x \<Longrightarrow> type_held (snd (con_do x c)) = type_held c"
proof -
  have o: "out_tail (c\<lparr>out_bytes := n\<rparr>) = last_n 8 out" for n using assms by simp
  show "out_tail (snd (con_do x c)) = last_n 8 (out @ out_by x)"
    "shell_seen (snd (con_do x c)) \<longleftrightarrow> shell_seen c \<or> prompt_in out (out_by x)"
    "guest_op x \<Longrightarrow> prompt_since (snd (con_do x c)) \<longleftrightarrow> prompt_since c \<or> prompt_in out (out_by x)"
    "guest_op x \<Longrightarrow> typing (snd (con_do x c)) = typing c"
    "guest_op x \<Longrightarrow> type_held (snd (con_do x c)) = type_held c"
    using assms note_prompt_suffix [OF o]
    by (cases x; simp add: type_bytes_def uart_poll_in_def split_beta type_next_line_def
        uart_poll_out_def Let_def del: suffix_snoc)+
qed

lemma con_run_tail:
  assumes "out_tail c = last_n 8 out"
  shows "out_tail (snd (con_run ops c)) = last_n 8 (out @ concat (map out_by ops)) \<and>
    (shell_seen (snd (con_run ops c)) \<longleftrightarrow> shell_seen c \<or> prompt_in out (concat (map out_by ops)))"
  using assms
proof (induction ops arbitrary: c out)
  case (Cons x xs)
  from Cons.IH [OF con_do_tail(1) [OF Cons.prems, of x]] con_do_tail(2) [OF Cons.prems, of x]
  show ?case by (simp add: split_beta Let_def prompt_in_append)
qed simp

lemma con_run_guest:
  assumes "out_tail c = last_n 8 out" and "list_all guest_op ops"
  shows "typing (snd (con_run ops c)) = typing c \<and> type_held (snd (con_run ops c)) = type_held c \<and>
    (prompt_since (snd (con_run ops c)) \<longleftrightarrow> prompt_since c \<or> prompt_in out (concat (map out_by ops)))"
  using assms
proof (induction ops arbitrary: c out)
  case (Cons x xs)
  from Cons.IH [OF con_do_tail(1) [OF Cons.prems(1), of x]] con_do_tail(3-5) [OF Cons.prems(1), of x]
    Cons.prems(2)
  show ?case by (simp add: split_beta Let_def prompt_in_append)
qed simp

text \<open>
  Whatever happens to the console, the shell is taken to be up exactly when what the guest has
  written holds its prompt, wherever in the output that is.
\<close>

theorem shell_seen_iff_prompt:
  "shell_seen (snd (con_run ops (initial_console held))) \<longleftrightarrow>
    sublist SHELL_PROMPT (concat (map out_by ops))"
  using con_run_tail [of "initial_console held" "[]" ops]
  by (simp add: initial_console_def last_n_def prompt_in_iff_sublist)

text \<open>
  Once a shell has been seen, a line that has been typed is followed by another only after the
  guest has read all of the first and has since then written the end of a prompt.
\<close>

theorem next_line_waits_for_prompt:
  assumes "type_next_line c = (True, c1)" and "shell_seen c" and "out_tail c = last_n 8 out"
    and "list_all guest_op ops"
  shows "fst (type_next_line (snd (con_run ops c1))) \<longleftrightarrow> typing c1 \<noteq> [] \<and>
    input (snd (con_run ops c1)) = [] \<and> prompt_in out (concat (map out_by ops))"
proof -
  have c1: "\<not> prompt_since c1" "out_tail c1 = last_n 8 out" "\<not> type_held c1" "shell_seen c1"
    using assms(1-3) by (auto simp: type_next_line_def split: if_splits)
  from con_run_guest [OF c1(2) assms(4)] con_run_tail [OF c1(2), of ops] c1
  show ?thesis by (auto simp: type_next_line_def)
qed

lemma prompt_in_prompt: "prompt_in out SHELL_PROMPT"
proof -
  have "SHELL_PROMPT = butlast SHELL_PROMPT @ [0x20]" by (simp add: SHELL_PROMPT_def)
  then have "prompt_in out SHELL_PROMPT \<longleftrightarrow> prompt_in out (butlast SHELL_PROMPT) \<or>
      suffix SHELL_PROMPT (out @ SHELL_PROMPT)"
    using prompt_in_append [of out "butlast SHELL_PROMPT" "[0x20]"] by simp
  then show ?thesis by (simp add: suffix_def)
qed

text \<open>A shell with two lines to type, that reads the first and prints its prompt again.\<close>

definition shell_console :: console where
  "shell_console = (initial_console False)\<lparr>typing := [[104, 10], [105, 10]], shell_seen := True,
     prompt_since := True, out_tail := SHELL_PROMPT\<rparr>"

theorem next_line_waits_for_prompt_witness:
  "fst (type_next_line (snd (con_run ([PollIn 0, PollIn 86806] @ map PollOut SHELL_PROMPT)
     (snd (type_next_line shell_console)))))"
proof -
  let ?c1 = "snd (type_next_line shell_console)"
  let ?ops = "[PollIn 0, PollIn 86806] @ map PollOut SHELL_PROMPT"
  have c1: "?c1 = shell_console\<lparr>input := [104, 10], typing := [[105, 10]], prompt_since := False\<rparr>"
    by (simp add: type_next_line_def shell_console_def initial_console_def)
  have outs: "input (snd (con_run (map PollOut ws) c)) = input c" for ws c
    by (induction ws arbitrary: c) (simp_all add: split_beta Let_def uart_poll_out_def)
  have "concat (map out_by (map PollOut ws)) = map (\<lambda>w. w mod 256) ws" for ws
    by (induction ws) simp_all
  then have ws: "concat (map out_by ?ops) = SHELL_PROMPT" by (simp add: SHELL_PROMPT_def)
  have "input (snd (con_run ?ops ?c1)) = []"
    unfolding c1
    by (simp add: split_beta Let_def outs uart_poll_in_def uart_ready_def shell_console_def
        initial_console_def UART_BYTE_NS_def)
  moreover have "type_next_line shell_console = (True, ?c1)" "shell_seen shell_console"
    "out_tail shell_console = last_n 8 SHELL_PROMPT" "typing ?c1 = [[105, 10]]"
    "list_all guest_op ?ops"
    by (simp_all add: type_next_line_def shell_console_def initial_console_def last_n_def
        length_SHELL_PROMPT list_all_iff)
  ultimately show ?thesis
    using next_line_waits_for_prompt [of shell_console ?c1 SHELL_PROMPT ?ops] ws prompt_in_prompt
    by simp
qed

end
