(* ===== verification/Core_Semihost.thy ===== *)
theory Core_Semihost
  imports Core_Console
begin

text \<open>
  Semihosting (host/core.mjs, \<open>Host.semihost\<close>): the files the guest opens on the host, kept in
  memory. Guest memory is a list of bytes. A path is compared as the bytes the guest gave, which is
  what \<open>TextDecoder\<close> makes of ASCII. What does not return is \<open>None\<close>, what throws is \<open>Inl\<close>.
\<close>

section \<open>Typed arrays\<close>

text \<open>An index of \<open>slice\<close> or \<open>subarray\<close>: from the end when negative, and clamped.\<close>

definition js_index :: "int \<Rightarrow> nat \<Rightarrow> nat" where
  "js_index i n = (if i < 0 then nat (max 0 (int n + i)) else min (nat i) n)"

definition js_sub :: "'a list \<Rightarrow> int \<Rightarrow> int \<Rightarrow> 'a list" where
  "js_sub xs a b = js_slice xs (js_index a (length xs)) (js_index b (length xs))"

text \<open>\<open>xs.set(ys, at)\<close>\<close>

definition js_set :: "'a list \<Rightarrow> 'a list \<Rightarrow> int \<Rightarrow> js_error + 'a list" where
  "js_set xs ys at =
    (if at < 0 \<or> at + int (length ys) > int (length xs) then Inl RangeError
     else Inr (take (nat at) xs @ ys @ drop (nat at + length ys) xs))"

text \<open>\<open>new DataView(buffer).getInt32(at, true)\<close>\<close>

definition get_int32 :: "nat list \<Rightarrow> nat \<Rightarrow> js_error + int" where
  "get_int32 m at =
    (if at + 4 > length m then Inl RangeError
     else Inr (sint (word_of_nat (rd16 m at + 65536 * rd16 m (at + 2)) :: 32 word)))"

section \<open>State\<close>

record sh_file =
  file_data :: "nat list"
  file_size :: int

record sh_fd =
  fd_path :: "nat list"
  fd_pos :: int
  fd_append :: bool
  fd_tty :: bool

record semihosting =
  sh_files :: "nat list \<rightharpoonup> sh_file"
  sh_fds :: "int \<rightharpoonup> sh_fd"
  sh_next_fd :: int

definition initial_semihosting :: semihosting where
  "initial_semihosting = \<lparr>sh_files = Map.empty, sh_fds = Map.empty, sh_next_fd = 3\<rparr>"

section \<open>Files\<close>

text \<open>\<^verbatim>\<open>:tt\<close>\<close>

definition TTY_PATH :: "nat list" where "TTY_PATH = [0x3a, 0x74, 0x74]"

definition empty_file :: sh_file where
  "empty_file = \<lparr>file_data = replicate 256 0, file_size = 0\<rparr>"

definition sh_open :: "nat list \<Rightarrow> int \<Rightarrow> semihosting \<Rightarrow> int \<times> semihosting" where
  "sh_open path mode s =
    (let fd = sh_next_fd s; s' = s\<lparr>sh_next_fd := fd + 1\<rparr>
     in if path = TTY_PATH
        then (fd, s'\<lparr>sh_fds := (sh_fds s)(fd \<mapsto>
          \<lparr>fd_path = path, fd_pos = 0, fd_append = False, fd_tty = True\<rparr>)\<rparr>)
        else (let kind = mode div 4; known = sh_files s path
              in if kind = 0 \<and> known = None then (- 1, s)
                 else (fd, s'\<lparr>sh_files := (if kind = 1 \<or> known = None
                     then (sh_files s)(path \<mapsto> empty_file) else sh_files s),
                   sh_fds := (sh_fds s)(fd \<mapsto>
                     \<lparr>fd_path = path, fd_pos = 0, fd_append = (kind = 2), fd_tty = False\<rparr>)\<rparr>)))"

definition sh_close :: "int \<Rightarrow> semihosting \<Rightarrow> int \<times> semihosting" where
  "sh_close fd s =
    (if sh_fds s fd = None then (- 1, s) else (0, s\<lparr>sh_fds := (sh_fds s)(fd := None)\<rparr>))"

definition sh_istty :: "int \<Rightarrow> semihosting \<Rightarrow> int" where
  "sh_istty fd s = (case sh_fds s fd of None \<Rightarrow> - 1 | Some d \<Rightarrow> if fd_tty d then 1 else 0)"

text \<open>The part of \<open>WRITE\<close> on the file: its data grows to hold \<open>len\<close> bytes from \<open>at\<close>.\<close>

definition file_grow :: "int \<Rightarrow> sh_file \<Rightarrow> sh_file" where
  "file_grow end f =
    (if end > int (length (file_data f))
     then (let n = nat (max end (int (length (file_data f)) * 2));
               old = js_sub (file_data f) 0 (file_size f)
           in f\<lparr>file_data := old @ replicate (n - length old) 0\<rparr>)
     else f)"

definition file_write :: "int \<Rightarrow> int \<Rightarrow> nat list \<Rightarrow> sh_file \<Rightarrow> js_error + sh_file" where
  "file_write at len bytes f =
    (let f = file_grow (at + len) f
     in case js_set (file_data f) bytes at of
       Inl e \<Rightarrow> Inl e
     | Inr data \<Rightarrow> Inr (f\<lparr>file_data := data, file_size := max (file_size f) (at + len)\<rparr>))"

text \<open>\<open>this.shFiles.get(d.path)\<close>: a file once made is never removed.\<close>

definition file_of :: "sh_fd \<Rightarrow> semihosting \<Rightarrow> sh_file" where
  "file_of d s = the (sh_files s (fd_path d))"

definition sh_write ::
  "int \<Rightarrow> int \<Rightarrow> nat list \<Rightarrow> semihosting \<Rightarrow> console \<Rightarrow> js_error + int \<times> semihosting \<times> console" where
  "sh_write fd len bytes s c =
    (case sh_fds s fd of
      None \<Rightarrow> Inr (len, s, c)
    | Some d \<Rightarrow>
      if fd_tty d then Inr (0, s, console_write bytes c)
      else (let at = (if fd_append d then file_size (file_of d s) else fd_pos d)
            in case file_write at len bytes (file_of d s) of
              Inl e \<Rightarrow> Inl e
            | Inr f \<Rightarrow> Inr (0, s\<lparr>sh_files := (sh_files s)(fd_path d \<mapsto> f),
                sh_fds := (sh_fds s)(fd \<mapsto> d\<lparr>fd_pos := at + len\<rparr>)\<rparr>, c)))"

text \<open>The bytes for guest memory are part of the result.\<close>

definition sh_read :: "int \<Rightarrow> int \<Rightarrow> semihosting \<Rightarrow> (int \<times> nat list) \<times> semihosting" where
  "sh_read fd len s =
    (case sh_fds s fd of
      None \<Rightarrow> ((len, []), s)
    | Some d \<Rightarrow>
      if fd_tty d then ((len, []), s)
      else (let f = file_of d s;
                n = max 0 (min len (file_size f - fd_pos d))
            in ((len - n, js_sub (file_data f) (fd_pos d) (fd_pos d + n)),
                s\<lparr>sh_fds := (sh_fds s)(fd \<mapsto> d\<lparr>fd_pos := fd_pos d + n\<rparr>)\<rparr>)))"

definition sh_seek :: "int \<Rightarrow> int \<Rightarrow> semihosting \<Rightarrow> int \<times> semihosting" where
  "sh_seek fd pos s =
    (case sh_fds s fd of
      None \<Rightarrow> (- 1, s)
    | Some d \<Rightarrow> (0, s\<lparr>sh_fds := (sh_fds s)(fd \<mapsto> d\<lparr>fd_pos := pos\<rparr>)\<rparr>))"

definition sh_flen :: "int \<Rightarrow> semihosting \<Rightarrow> int" where
  "sh_flen fd s =
    (case sh_fds s fd of
      None \<Rightarrow> - 1
    | Some d \<Rightarrow> if fd_tty d then - 1 else file_size (file_of d s))"

definition semihost_files :: "semihosting \<Rightarrow> (nat list \<rightharpoonup> nat list)" where
  "semihost_files s = (\<lambda>p. map_option (\<lambda>f. js_sub (file_data f) 0 (file_size f)) (sh_files s p))"

section \<open>The call\<close>

text \<open>The string \<open>WRITE0\<close> prints: up to the first zero. Without one the loop reads past the memory,
  where every element is \<open>undefined\<close>, for ever.\<close>

definition c_string :: "nat list \<Rightarrow> nat \<Rightarrow> nat list option" where
  "c_string m args =
    (if 0 \<in> set (drop args m) then Some (takeWhile (\<lambda>x. x \<noteq> 0) (drop args m)) else None)"

record sh_machine =
  sh_mem :: "nat list"
  sh_state :: semihosting
  sh_con :: console

text \<open>An operation on an integer result and the files.\<close>

definition sh_return :: "sh_machine \<Rightarrow> int \<times> semihosting \<Rightarrow> (js_error + int \<times> sh_machine) option" where
  "sh_return m r = Some (Inr (fst r, m\<lparr>sh_state := snd r\<rparr>))"

definition semihost :: "int \<Rightarrow> nat \<Rightarrow> sh_machine \<Rightarrow> (js_error + int \<times> sh_machine) option" where
  "semihost op args m =
    (let mem = sh_mem m; s = sh_state m; c = sh_con m;
         with = (\<lambda>i k. case get_int32 mem (args + 4 * i) of Inl e \<Rightarrow> Some (Inl e) | Inr v \<Rightarrow> k v)
     in if op = 0x03
        then Some (Inr (0, m\<lparr>sh_con := console_write (js_slice mem args (args + 1)) c\<rparr>))
        else if op = 0x04
        then (case c_string mem args of
            None \<Rightarrow> None
          | Some str \<Rightarrow> Some (Inr (0, m\<lparr>sh_con := console_write str c\<rparr>)))
        else if op = 0x07
        then (if input c = [] then Some (Inr (- 1, m))
              else Some (Inr (int (hd (input c)),
                m\<lparr>sh_con := c\<lparr>uart_taken := uart_taken c + 1, input := tl (input c)\<rparr>\<rparr>)))
        else if op = 0x01
        then with 0 (\<lambda>p. with 2 (\<lambda>n. with 1 (\<lambda>mode.
          sh_return m (sh_open (js_sub mem p (p + n)) mode s))))
        else if op = 0x02 then with 0 (\<lambda>fd. sh_return m (sh_close fd s))
        else if op = 0x09 then with 0 (\<lambda>fd. sh_return m (sh_istty fd s, s))
        else if op = 0x05
        then with 0 (\<lambda>fd. with 1 (\<lambda>p. with 2 (\<lambda>len.
          (let ptr = p mod 2 ^ 32
           in case sh_write fd len (js_sub mem ptr (ptr + len)) s c of
             Inl e \<Rightarrow> Some (Inl e)
           | Inr (r, s, c) \<Rightarrow> Some (Inr (r, m\<lparr>sh_state := s, sh_con := c\<rparr>))))))
        else if op = 0x06
        then with 0 (\<lambda>fd. with 1 (\<lambda>p. with 2 (\<lambda>len.
          (let ((r, bytes), s') = sh_read fd len s
           in if sh_fds s fd = None \<or> fd_tty (the (sh_fds s fd)) then Some (Inr (r, m))
              else case js_set mem bytes (p mod 2 ^ 32) of
                Inl e \<Rightarrow> Some (Inl e)
              | Inr mem \<Rightarrow> Some (Inr (r, m\<lparr>sh_mem := mem, sh_state := s'\<rparr>))))))
        else if op = 0x0a
        then with 0 (\<lambda>fd. if sh_fds s fd = None then Some (Inr (- 1, m))
          else with 1 (\<lambda>pos. sh_return m (sh_seek fd pos s)))
        else if op = 0x0c then with 0 (\<lambda>fd. sh_return m (sh_flen fd s, s))
        else if op = 0x13 then Some (Inr (0, m))
        else Some (Inr (- 1, m)))"


section \<open>A file's contents\<close>

definition contents :: "sh_file \<Rightarrow> nat list" where
  "contents f = take (nat (file_size f)) (file_data f)"

text \<open>What is past the size is zero, so a gap left by a seek reads as zeros.\<close>

definition file_ok :: "sh_file \<Rightarrow> bool" where
  "file_ok f \<longleftrightarrow> 0 \<le> file_size f \<and> file_size f \<le> int (length (file_data f)) \<and>
    (\<forall>i. nat (file_size f) \<le> i \<longrightarrow> i < length (file_data f) \<longrightarrow> file_data f ! i = 0)"

text \<open>The specification of a write: a gap is filled with zeros.\<close>

definition write_at :: "nat \<Rightarrow> nat list \<Rightarrow> nat list \<Rightarrow> nat list" where
  "write_at at bytes xs =
    take at (xs @ replicate (at - length xs) 0) @ bytes @ drop (at + length bytes) xs"

lemma js_sub_0: "0 \<le> n \<Longrightarrow> js_sub xs 0 n = take (nat n) xs"
  by (auto simp: js_sub_def js_slice_def js_index_def min_def)

lemma js_sub_nat: "0 \<le> a \<Longrightarrow> a \<le> b \<Longrightarrow> b \<le> int (length xs) \<Longrightarrow>
  js_sub xs a b = take (nat (b - a)) (drop (nat a) xs)"
  by (simp add: js_sub_def js_slice_def js_index_def nat_diff_distrib)

lemma file_ok_empty: "file_ok empty_file" "contents empty_file = []"
  by (simp_all add: file_ok_def empty_file_def contents_def)

lemma file_grow_ok:
  assumes "file_ok f"
  shows "file_ok (file_grow end f) \<and> contents (file_grow end f) = contents f \<and>
    file_size (file_grow end f) = file_size f \<and> end \<le> int (length (file_data (file_grow end f)))"
proof (cases "end > int (length (file_data f))")
  case True
  let ?old = "take (nat (file_size f)) (file_data f)"
  define n where "n = nat (max end (int (length (file_data f)) * 2))"
  have size: "0 \<le> file_size f" "nat (file_size f) \<le> length (file_data f)"
    using assms by (auto simp: file_ok_def)
  have g: "file_grow end f = f\<lparr>file_data := ?old @ replicate (n - nat (file_size f)) 0\<rparr>"
    using True size by (simp add: file_grow_def js_sub_0 n_def Let_def min_absorb2)
  have n: "int n \<ge> end" "int n \<ge> file_size f"
    using True size by (auto simp: n_def)
  show ?thesis
    unfolding g using size n by (auto simp: file_ok_def contents_def nth_append)
next
  case False
  with assms show ?thesis by (simp add: file_grow_def)
qed

lemma padded_write:
  assumes "d = xs @ replicate m 0" and "a + length bytes \<le> length d"
  shows "take (max (length xs) (a + length bytes)) (take a d @ bytes @ drop (a + length bytes) d)
    = write_at a bytes xs"
proof -
  have "take a d = take a (xs @ replicate (a - length xs) 0)"
  proof -
    have "a - length xs \<le> m" using assms by simp
    then show ?thesis using assms(1) by (simp add: min_absorb1 min_absorb2)
  qed
  moreover have "take (length xs - (a + length bytes)) (drop (a + length bytes) d)
      = drop (a + length bytes) xs"
    using assms(1) by simp
  moreover have "take (max (length xs) (a + length bytes)) ((take a d @ bytes) @ drop (a + length bytes) d)
      = (take a d @ bytes) @ take (length xs - (a + length bytes)) (drop (a + length bytes) d)"
  proof -
    have "length (take a d @ bytes) = a + length bytes" using assms(2) by simp
    then have "take (max (length xs) (a + length bytes)) (take a d @ bytes) = take a d @ bytes"
      and "max (length xs) (a + length bytes) - length (take a d @ bytes) = length xs - (a + length bytes)"
      by (simp_all only: take_all max.cobounded2)
    then show ?thesis by (subst take_append) (simp only:)
  qed
  ultimately show ?thesis by (simp add: write_at_def)
qed

lemma file_write_contents:
  assumes "file_ok f" and "0 \<le> at" and "len = int (length bytes)"
  shows "\<exists>f'. file_write at len bytes f = Inr f' \<and> file_ok f' \<and>
    contents f' = write_at (nat at) bytes (contents f) \<and> file_size f' = max (file_size f) (at + len)"
proof -
  define g where "g = file_grow (at + len) f"
  have g: "file_ok g" "contents g = contents f" "file_size g = file_size f"
    "at + len \<le> int (length (file_data g))"
    using file_grow_ok [OF assms(1), of "at + len"] by (auto simp: g_def)
  obtain a where a: "at = int a" using assms(2) nonneg_int_cases by blast
  obtain n where n: "file_size g = int n" using g(1) nonneg_int_cases by (auto simp: file_ok_def)
  let ?d = "take a (file_data g) @ bytes @ drop (a + length bytes) (file_data g)"
  let ?f = "g\<lparr>file_data := ?d, file_size := max (file_size g) (at + len)\<rparr>"
  have len: "a + length bytes \<le> length (file_data g)" using g(4) a assms(3) by simp
  have zero: "file_data g ! i = 0" if "n \<le> i" "i < length (file_data g)" for i
    using g(1) that n by (simp add: file_ok_def)
  have "n \<le> length (file_data g)" using g(1) n by (simp add: file_ok_def)
  then have f: "file_ok ?f"
    using len n a assms(3) zero by (auto simp: file_ok_def nth_append)
  have data: "file_data g = contents g @ replicate (length (file_data g) - n) 0"
  proof (rule nth_equalityI)
    fix i assume "i < length (file_data g)"
    then show "file_data g ! i = (contents g @ replicate (length (file_data g) - n) 0) ! i"
      using zero [of i] \<open>n \<le> length (file_data g)\<close> n by (cases "i < n") (simp_all add: contents_def nth_append)
  qed (use n \<open>n \<le> length (file_data g)\<close> in \<open>simp add: contents_def\<close>)
  have "length (contents g) = n" using n \<open>n \<le> length (file_data g)\<close> by (simp add: contents_def)
  then have "take (max n (a + length bytes)) ?d = write_at a bytes (contents g)"
    using padded_write [OF data] len \<open>n \<le> length (file_data g)\<close> by simp
  then have "contents ?f = write_at a bytes (contents g)"
    using n a assms(3) by (simp add: contents_def nat_add_distrib flip: of_nat_max of_nat_add)
  moreover have "js_set (file_data g) bytes at = Inr ?d" using len a by (simp add: js_set_def)
  then have "file_write at len bytes f = Inr ?f"
    unfolding file_write_def Let_def g_def [symmetric] by simp
  ultimately show ?thesis using f g(2,3) a by (intro exI [of _ ?f]) simp
qed


section \<open>The operations on them\<close>

text \<open>Every file is well formed, every descriptor is below the next one and, unless it is the
  console, names a file.\<close>

definition sh_ok :: "semihosting \<Rightarrow> bool" where
  "sh_ok s \<longleftrightarrow> (\<forall>f \<in> ran (sh_files s). file_ok f) \<and>
    (\<forall>fd d. sh_fds s fd = Some d \<longrightarrow> fd < sh_next_fd s \<and>
      (fd_tty d \<or> sh_files s (fd_path d) \<noteq> None))"

lemma initial_next_fd [simp]: "sh_next_fd initial_semihosting = 3"
  by (simp add: initial_semihosting_def)

lemma sh_ok_initial: "sh_ok initial_semihosting"
  by (simp add: sh_ok_def initial_semihosting_def)

lemma sh_ok_file: "sh_ok s \<Longrightarrow> sh_fds s fd = Some d \<Longrightarrow> \<not> fd_tty d \<Longrightarrow>
  sh_files s (fd_path d) = Some (file_of d s) \<and> file_ok (file_of d s)"
  unfolding sh_ok_def file_of_def by (force simp: ran_def)

text \<open>What is in each file, for the guest.\<close>

definition file_system :: "semihosting \<Rightarrow> (nat list \<rightharpoonup> nat list)" where
  "file_system s = (\<lambda>p. map_option contents (sh_files s p))"

lemma file_system_files: "sh_ok s \<Longrightarrow> semihost_files s = file_system s"
  unfolding semihost_files_def file_system_def sh_ok_def file_ok_def contents_def
  by (rule ext) (auto simp: ran_def js_sub_0 intro!: option.map_cong0 split: option.split)

lemma sh_open_ok:
  assumes "sh_ok s"
  shows "sh_ok (snd (sh_open path mode s))"
  using assms by (auto simp: sh_ok_def sh_open_def Let_def ran_def file_ok_empty
      split: if_splits) force+

lemma sh_open_new:
  assumes "path \<noteq> TTY_PATH" and "mode div 4 = 1"
  shows "sh_open path mode s = (sh_next_fd s, s\<lparr>sh_next_fd := sh_next_fd s + 1,
    sh_files := (sh_files s)(path \<mapsto> empty_file), sh_fds := (sh_fds s)(sh_next_fd s \<mapsto>
      \<lparr>fd_path = path, fd_pos = 0, fd_append = False, fd_tty = False\<rparr>)\<rparr>)"
  using assms by (simp add: sh_open_def Let_def)

lemma sh_open_old:
  assumes "path \<noteq> TTY_PATH" and "mode div 4 = 0" and "sh_files s path \<noteq> None"
  shows "sh_open path mode s = (sh_next_fd s, s\<lparr>sh_next_fd := sh_next_fd s + 1,
    sh_fds := (sh_fds s)(sh_next_fd s \<mapsto>
      \<lparr>fd_path = path, fd_pos = 0, fd_append = False, fd_tty = False\<rparr>)\<rparr>)"
  using assms by (auto simp: sh_open_def Let_def)

lemma sh_write_file:
  assumes "sh_ok s" and "sh_fds s fd = Some d" and "\<not> fd_tty d"
    and "len = int (length bytes)"
    and "at = (if fd_append d then file_size (file_of d s) else fd_pos d)" and "0 \<le> at"
  shows "\<exists>s'. sh_write fd len bytes s c = Inr (0, s', c) \<and> sh_ok s' \<and>
    file_system s' = (file_system s)(fd_path d \<mapsto>
      write_at (nat at) bytes (contents (file_of d s))) \<and>
    sh_fds s' = (sh_fds s)(fd \<mapsto> d\<lparr>fd_pos := at + len\<rparr>) \<and> sh_next_fd s' = sh_next_fd s"
proof -
  note f = sh_ok_file [OF assms(1-3)]
  from file_write_contents [OF f [THEN conjunct2] assms(6,4)] obtain f' where
    f': "file_write at len bytes (file_of d s) = Inr f'" "file_ok f'"
      "contents f' = write_at (nat at) bytes (contents (file_of d s))" by blast
  let ?s = "s\<lparr>sh_files := (sh_files s)(fd_path d \<mapsto> f'), sh_fds := (sh_fds s)(fd \<mapsto> d\<lparr>fd_pos := at + len\<rparr>)\<rparr>"
  have "sh_write fd len bytes s c = Inr (0, ?s, c)"
    using assms(2,3) f'(1) assms(5) by (auto simp: sh_write_def Let_def)
  moreover have "sh_ok ?s"
    using assms(1,2,3) f'(2) by (auto simp: sh_ok_def ran_def)
  moreover have "file_system ?s = (file_system s)(fd_path d \<mapsto> contents f')"
    by (auto simp: file_system_def)
  ultimately show ?thesis using f'(3) by (intro exI [of _ ?s]) simp
qed

lemma sh_read_file:
  assumes "sh_ok s" and "sh_fds s fd = Some d" and "\<not> fd_tty d" and "0 \<le> fd_pos d"
    and "fd_pos d \<le> file_size (file_of d s)" and "0 \<le> len"
  shows "sh_read fd len s =
    (let got = take (nat len) (drop (nat (fd_pos d)) (contents (file_of d s)))
     in ((len - int (length got), got),
       s\<lparr>sh_fds := (sh_fds s)(fd \<mapsto> d\<lparr>fd_pos := fd_pos d + int (length got)\<rparr>)\<rparr>))"
proof -
  let ?f = "file_of d s"
  define n where "n = min len (file_size ?f - fd_pos d)"
  have ok: "file_size ?f \<le> int (length (file_data ?f))" "0 \<le> file_size ?f"
    using sh_ok_file [OF assms(1-3)] by (auto simp: file_ok_def)
  have n: "0 \<le> n" "fd_pos d + n \<le> int (length (file_data ?f))" "max 0 n = n"
    using assms(4-6) ok by (auto simp: n_def)
  have "js_sub (file_data ?f) (fd_pos d) (fd_pos d + n) = take (nat n) (drop (nat (fd_pos d)) (file_data ?f))"
    using js_sub_nat [of "fd_pos d" "fd_pos d + n" "file_data ?f"] assms(4) n by simp
  also have "\<dots> = take (nat len) (drop (nat (fd_pos d)) (contents ?f))"
    using assms(4-6) by (auto simp: contents_def drop_take n_def min_def nat_diff_distrib)
  finally have got: "js_sub (file_data ?f) (fd_pos d) (fd_pos d + n)
      = take (nat len) (drop (nat (fd_pos d)) (contents ?f))" .
  have "int (length (take (nat len) (drop (nat (fd_pos d)) (contents ?f)))) = n"
    unfolding got [symmetric] using js_sub_nat [of "fd_pos d" "fd_pos d + n" "file_data ?f"] assms(4) n
    by simp
  then show ?thesis
    using assms(2,3) n(3) got by (simp add: sh_read_def Let_def n_def [symmetric])
qed


text \<open>
  C36. A write through a descriptor of a file puts the bytes at its position, or at the end of a file
  opened to append, fills a gap with zeros, leaves every other file alone and moves on past them.
\<close>

theorem semihost_write:
  assumes "sh_ok s" and "sh_fds s fd = Some d" and "\<not> fd_tty d"
    and "at = (if fd_append d then file_size (file_of d s) else fd_pos d)" and "0 \<le> at"
  shows "\<exists>s'. sh_write fd (int (length bytes)) bytes s c = Inr (0, s', c) \<and> sh_ok s' \<and>
    semihost_files s' = (semihost_files s)(fd_path d \<mapsto>
      write_at (nat at) bytes (the (semihost_files s (fd_path d)))) \<and>
    sh_fds s' = (sh_fds s)(fd \<mapsto> d\<lparr>fd_pos := at + int (length bytes)\<rparr>)"
proof -
  from sh_write_file [OF assms(1-3) refl assms(4,5)] obtain s' where
    "sh_write fd (int (length bytes)) bytes s c = Inr (0, s', c)" "sh_ok s'"
    "file_system s' = (file_system s)(fd_path d \<mapsto> write_at (nat at) bytes (contents (file_of d s)))"
    "sh_fds s' = (sh_fds s)(fd \<mapsto> d\<lparr>fd_pos := at + int (length bytes)\<rparr>)" by blast
  moreover have "file_system s (fd_path d) = Some (contents (file_of d s))"
    using sh_ok_file [OF assms(1-3)] by (simp add: file_system_def)
  ultimately show ?thesis
    using file_system_files [of s'] file_system_files [OF assms(1)] by (intro exI [of _ s']) simp
qed

text \<open>A file that is opened, to write 3 bytes past its start.\<close>

definition sample_files :: semihosting where
  "sample_files = snd (sh_seek 3 3 (snd (sh_open [0x61] 4 initial_semihosting)))"

lemma sample_files_ok: "sh_ok sample_files"
  "sh_fds sample_files 3 = Some \<lparr>fd_path = [0x61], fd_pos = 3, fd_append = False, fd_tty = False\<rparr>"
  "semihost_files sample_files [0x61] = Some []"
  by (auto simp: sample_files_def sh_seek_def sh_open_new TTY_PATH_def initial_semihosting_def
      sh_ok_def file_ok_empty semihost_files_def empty_file_def js_sub_0 file_ok_def)

theorem semihost_write_witness:
  "\<exists>s'. sh_write 3 2 [7, 8] sample_files (initial_console False) = Inr (0, s', initial_console False) \<and>
    semihost_files s' [0x61] = Some [0, 0, 0, 7, 8]"
  using semihost_write [OF sample_files_ok(1,2), of 3 "[7, 8]" "initial_console False"] sample_files_ok(3)
  by (auto simp: write_at_def numeral_3_eq_3)

section \<open>Writing and reading back\<close>

text \<open>The guest's C library writes a file a buffer at a time.\<close>

fun sh_writes :: "int \<Rightarrow> nat list list \<Rightarrow> semihosting \<Rightarrow> console \<Rightarrow> js_error + semihosting" where
  "sh_writes fd [] s c = Inr s"
| "sh_writes fd (b # bs) s c =
    (case sh_write fd (int (length b)) b s c of
      Inl e \<Rightarrow> Inl e
    | Inr (_, s, _) \<Rightarrow> sh_writes fd bs s c)"

lemma length_contents: "file_ok f \<Longrightarrow> int (length (contents f)) = file_size f"
  by (auto simp: contents_def file_ok_def min_def)

lemma write_at_end: "write_at (length xs) bytes xs = xs @ bytes"
  by (simp add: write_at_def)

lemma sh_writes_append:
  assumes "sh_ok s" and "sh_fds s fd = Some d" and "\<not> fd_tty d" and "\<not> fd_append d"
    and "fd_pos d = file_size (file_of d s)"
  shows "\<exists>s'. sh_writes fd bs s c = Inr s' \<and> sh_ok s' \<and> sh_next_fd s' = sh_next_fd s \<and>
    file_system s' (fd_path d) = Some (contents (file_of d s) @ concat bs)"
  using assms
proof (induction bs arbitrary: s d)
  case Nil
  then show ?case using sh_ok_file by (auto simp: file_system_def)
next
  case (Cons b bs)
  have f: "file_ok (file_of d s)" using sh_ok_file Cons.prems by blast
  then have size: "fd_pos d = int (length (contents (file_of d s)))" "0 \<le> fd_pos d"
    using Cons.prems(5) length_contents [OF f] by simp_all
  from sh_write_file [OF Cons.prems(1-3) refl _ size(2), of b c] Cons.prems(4) obtain s' where
    s': "sh_write fd (int (length b)) b s c = Inr (0, s', c)" "sh_ok s'"
      "file_system s' = (file_system s)(fd_path d \<mapsto> contents (file_of d s) @ b)"
      "sh_fds s' fd = Some (d\<lparr>fd_pos := fd_pos d + int (length b)\<rparr>)" "sh_next_fd s' = sh_next_fd s"
    using size(1) write_at_end by auto
  let ?d = "d\<lparr>fd_pos := fd_pos d + int (length b)\<rparr>"
  have wrote: "contents (file_of ?d s') = contents (file_of d s) @ b"
    using s'(3) sh_ok_file [OF s'(2,4)] Cons.prems(3) by (auto simp: file_system_def dest: fun_cong [of _ _ "fd_path d"])
  then have "fd_pos ?d = file_size (file_of ?d s')"
    using length_contents [of "file_of ?d s'"] sh_ok_file [OF s'(2,4)] Cons.prems(3) size(1) by simp
  from Cons.IH [OF s'(2,4) _ _ this] Cons.prems(3,4) s'(1,5) wrote show ?case by auto
qed

text \<open>
  C37. What a guest writes to a new file, in any number of pieces, is what it reads when it opens the
  file again; and a read reports how many bytes it did not transfer.
\<close>

theorem semihost_roundtrip:
  assumes "sh_ok s" and "path \<noteq> TTY_PATH" and "wr div 4 = 1" and "rd div 4 = 0"
  shows "\<exists>s1 s2 s3. sh_open path wr s = (sh_next_fd s, s1) \<and>
    sh_writes (sh_next_fd s) bs s1 c = Inr s2 \<and>
    sh_open path rd s2 = (sh_next_fd s + 1, s3) \<and>
    fst (sh_read (sh_next_fd s + 1) (int n) s3) =
      (int n - int (min n (length (concat bs))), take n (concat bs))"
proof -
  define s1 where "s1 = snd (sh_open path wr s)"
  let ?d = "\<lparr>fd_path = path, fd_pos = 0, fd_append = False, fd_tty = False\<rparr>"
  have s1: "sh_open path wr s = (sh_next_fd s, s1)" "sh_ok s1" "sh_fds s1 (sh_next_fd s) = Some ?d"
    "sh_files s1 path = Some empty_file" "sh_next_fd s1 = sh_next_fd s + 1"
    using sh_open_ok [OF assms(1), of path wr] by (simp_all add: s1_def sh_open_new [OF assms(2,3)])
  from sh_writes_append [OF s1(2,3), of bs c] s1(4,5) obtain s2 where
    s2: "sh_writes (sh_next_fd s) bs s1 c = Inr s2" "sh_ok s2" "sh_next_fd s2 = sh_next_fd s + 1"
      "file_system s2 path = Some (concat bs)"
    by (auto simp: file_of_def file_ok_empty) (auto simp: empty_file_def)
  define s3 where "s3 = snd (sh_open path rd s2)"
  have "sh_files s2 path \<noteq> None" using s2(4) by (auto simp: file_system_def)
  note open_rd = sh_open_old [OF assms(2,4) this]
  have s3: "sh_open path rd s2 = (sh_next_fd s + 1, s3)" "sh_ok s3"
    "sh_fds s3 (sh_next_fd s + 1) = Some ?d" "sh_files s3 = sh_files s2"
    using sh_open_ok [OF s2(2), of path rd] s2(3) by (simp_all add: s3_def open_rd)
  have "contents (file_of ?d s3) = concat bs"
    using s2(4) s3(4) by (auto simp: file_system_def file_of_def)
  moreover have "0 \<le> file_size (file_of ?d s3)"
    using sh_ok_file [OF s3(2,3)] by (simp add: file_ok_def)
  ultimately have "fst (sh_read (sh_next_fd s + 1) (int n) s3) =
      (int n - int (min n (length (concat bs))), take n (concat bs))"
    using sh_read_file [OF s3(2,3), of "int n"] by (simp add: Let_def min.commute)
  with s1(1) s2(1) s3(1) show ?thesis by blast
qed

theorem semihost_roundtrip_witness:
  "\<exists>s1 s2 s3. sh_open [0x61] 4 initial_semihosting = (3, s1) \<and>
    sh_writes 3 [[1, 2], [], [3]] s1 (initial_console False) = Inr s2 \<and>
    sh_open [0x61] 0 s2 = (4, s3) \<and> fst (sh_read 4 10 s3) = (7, [1, 2, 3])"
  using semihost_roundtrip [OF sh_ok_initial, of "[0x61]" 4 0 "[[1, 2], [], [3]]" "initial_console False" 10]
  by (simp add: TTY_PATH_def)

text \<open>
  A seek to before the start of a file is accepted, and a read there of no more bytes than that
  reports that all of them were transferred, whatever the file holds, having transferred none.
\<close>

theorem semihost_read_before_start:
  assumes "sh_ok s" and "sh_fds s fd = Some d" and "\<not> fd_tty d" and "0 < k" and "k \<le> 256"
    and "256 \<le> length (file_data (file_of d s))"
  shows "fst (sh_seek fd (- k) s) = 0 \<and> fst (sh_read fd k (snd (sh_seek fd (- k) s))) = (0, [])"
proof -
  let ?f = "file_of d s"
  have ok: "0 \<le> file_size ?f" using sh_ok_file [OF assms(1-3)] by (simp add: file_ok_def)
  have "js_sub (file_data ?f) (- k) 0 = []" by (simp add: js_sub_def js_slice_def js_index_def)
  moreover have "max 0 (min k (file_size ?f + k)) = k" using ok assms(4) by simp
  ultimately show ?thesis
    using assms(2,3) by (simp add: sh_seek_def sh_read_def file_of_def Let_def)
qed

theorem semihost_read_before_start_witness:
  "fst (sh_seek 3 (- 5) sample_files) = 0 \<and>
    fst (sh_read 3 5 (snd (sh_seek 3 (- 5) sample_files))) = (0, [])"
  using semihost_read_before_start [OF sample_files_ok(1,2), of 5]
  by (simp add: file_of_def sample_files_def sh_seek_def sh_open_new TTY_PATH_def
      initial_semihosting_def empty_file_def)

end
