(* ===== verification/Core_Host.thy ===== *)
theory Core_Host
  imports "HOL-Library.AList" Hci_Serial Core_Devices Core_Display Core_Semihost
begin

text \<open>
  The host itself (host/core.mjs, class \<open>Host\<close>): the clock, the alarm, the devices and the guest's
  memory, and the imports that the guest calls. The guest (a WebAssembly module that is not in the
  repository) is not part of it: \<open>inst\<close> is whatever state its instance keeps besides its memory, and
  what its exports do is a parameter of \<open>Core_Step\<close>. A LAN (host/lan.mjs) is a parameter in the
  same way: its state is \<open>lan\<close>, and its operations are a record of functions.
\<close>

section \<open>State\<close>

text \<open>Options that the run reads, and the scripts that it consumes. \<open>interactive\<close> stands for any of
  \<open>interactive\<close>, \<open>uplink\<close> and \<open>hciLink\<close>, which the run loop treats alike.\<close>

record pin_event =
  pin_at :: ns
  pin_port :: nat
  pin_number :: nat
  pin_level :: bool

datatype script_action = TypeStart | Sensors "reading list" | Events "input_event list"

record opts =
  realtime :: bool
  max_time_ms :: nat
  stop_at_max_time :: bool
  in_pair :: bool
  pair_paced :: bool
  interactive :: bool
  seed_opt :: "32 word option"
  gpio_script :: "pin_event list"
  input_script :: "(ns \<times> script_action) list"
  max_reboots :: nat

text \<open>
  When guest and wall clocks lined up, and the speed \<open>timeScale\<close>. A speed is a double, so a fraction,
  \<open>(n, d)\<close>; what \<open>Math.round\<close> makes of a time multiplied by it and divided by it is computed exactly
  (in doubles it is exact below 2^53 ns, or 104 days).
\<close>

type_synonym speed = "nat \<times> nat"

record anchor =
  pace_guest :: ns
  pace_wall :: ns
  pace_scale :: speed

definition times_speed :: "ns \<Rightarrow> speed \<Rightarrow> ns" where
  "times_speed t s = (2 * t * int (fst s) + int (snd s)) div (2 * int (snd s))"

definition over_speed :: "ns \<Rightarrow> speed \<Rightarrow> ns" where
  "over_speed t s = (2 * t * int (snd s) + int (fst s)) div (2 * int (fst s))"

text \<open>A context: the export it entered through and its argument, its Asyncify buffer, the stack pointer
  it left with. Contexts are objects that \<open>contexts\<close> and \<open>current\<close> share, so they are kept in a
  store and named by their index.\<close>

record ctx =
  entry :: string
  arg :: nat
  buf :: nat
  sp :: "nat option"
  fresh :: bool

record ('g, 'l) host =
  opts :: opts
  inst :: 'g
  mem :: "nat list"
  switch_block_addr :: nat
  irq_pending_addr :: nat
  scratch_buf :: nat
  masked_addr :: "nat option"
  enabled_addr :: "nat option"
  con :: console
  dev :: devices
  disp :: "display option"
  sh :: semihosting
  now_ns :: ns
  epoch_ns :: ns
  alarm_ns :: "ns option"
  alarm_is_clamp :: bool
  quiescent_rounds :: nat
  deadline_ns :: ns
  wall_ns :: ns
  started_at :: ns
  step_started_at :: "ns option"
  pace :: "anchor option"
  yield_to_host :: bool
  idle_wait_ns :: ns
  rand_state :: "32 word"
  storage :: "(nat \<times> nat) option"
  storage_image :: "nat list option"
  hci :: "hci option"
  lan :: "'l option"
  idle_until :: "ns option option"
  step_limit_ns :: "ns option"
  store :: "ctx list"
  contexts :: "(nat \<times> nat) list"
  current :: nat
  resume_same :: bool
  pending_fatal :: bool
  current_sp :: nat
  unwound_into :: "nat option"
  switches :: nat
  traps :: nat
  reboots :: nat
  exit_code :: nat
  host_done :: bool
  air_out :: "(ns \<times> pdu) list"
  eth_out :: "(ns \<times> nat list) list"
  peer_on :: bool

text \<open>The operations of a LAN the board is plugged into: when it next has something to do, what it
  does by a time, what it answers to a frame, and its clock; times on the pair's timeline.\<close>

record 'l lan_ops =
  lan_next_ns :: "'l \<Rightarrow> ns"
  lan_advance :: "ns \<Rightarrow> 'l \<Rightarrow> nat list list \<times> 'l"
  lan_input :: "nat list \<Rightarrow> ns \<Rightarrow> 'l \<Rightarrow> nat list list \<times> 'l"
  lan_clock :: "'l \<Rightarrow> ns"

definition LINK_LATENCY_NS :: ns where "LINK_LATENCY_NS = 100000"
definition CLAMP_NS :: ns where "CLAMP_NS = 100000000000"
definition QUIESCENT_ROUNDS :: nat where "QUIESCENT_ROUNDS = 2"
definition SAFEPOINT_TICK_NS :: ns where "SAFEPOINT_TICK_NS = 100000"
definition DEFAULT_SEED :: "32 word" where "DEFAULT_SEED = 0x5eed0001"
definition PACE_IDLE_NS :: ns where "PACE_IDLE_NS = 10000000"
definition MAX_TRAPS :: nat where "MAX_TRAPS = 100"

section \<open>Guest memory\<close>

text \<open>Words at the addresses the guest's exports gave, which are aligned and in memory.\<close>

definition mem_word :: "nat list \<Rightarrow> nat \<Rightarrow> 32 word" where
  "mem_word m a = word_of_nat (rd16 m a + 65536 * rd16 m (a + 2))"

definition word_bytes :: "32 word \<Rightarrow> nat list" where
  "word_bytes w = le16 (unat w) @ le16 (unat w div 65536)"

definition mem_put :: "nat \<Rightarrow> nat list \<Rightarrow> nat list \<Rightarrow> nat list" where
  "mem_put a bytes m = take a m @ bytes @ drop (a + length bytes) m"

section \<open>Time\<close>

definition global_ns :: "('g, 'l) host \<Rightarrow> ns" where
  "global_ns h = epoch_ns h + now_ns h"

text \<open>\<open>wall_ns\<close> is what \<open>platform.nowNs()\<close> returns.\<close>

definition time_ns :: "('g, 'l) host \<Rightarrow> ns" where
  "time_ns h = (if realtime (opts h) then wall_ns h - started_at h else now_ns h)"

definition set_alarm :: "ns \<Rightarrow> ('g, 'l) host \<Rightarrow> ('g, 'l) host" where
  "set_alarm deadline h =
    h\<lparr>alarm_is_clamp := deadline - time_ns h \<ge> CLAMP_NS,
      alarm_ns := (if deadline \<ge> 0x7fffffffffffffff then None else Some deadline)\<rparr>"

section \<open>Interrupts\<close>

definition raise_irq :: "nat \<Rightarrow> ('g, 'l) host \<Rightarrow> ('g, 'l) host" where
  "raise_irq line h = h\<lparr>mem := mem_put (irq_pending_addr h)
    (word_bytes (mem_word (mem h) (irq_pending_addr h) OR line_bit line)) (mem h)\<rparr>"

definition enabled_lines :: "('g, 'l) host \<Rightarrow> 32 word" where
  "enabled_lines h =
    (case enabled_addr h of
      None \<Rightarrow> - 1
    | Some a \<Rightarrow> if a = 0 then - 1 else mem_word (mem h) a)"

definition deliverable_irqs :: "('g, 'l) host \<Rightarrow> 32 word" where
  "deliverable_irqs h =
    (case masked_addr h of
      None \<Rightarrow> mem_word (mem h) (irq_pending_addr h) AND enabled_lines h
    | Some a \<Rightarrow>
      if a \<noteq> 0 \<and> mem_word (mem h) a \<noteq> 0 then 0
      else mem_word (mem h) (irq_pending_addr h) AND enabled_lines h)"

definition host_inject :: "nat \<Rightarrow> ('g, 'l) host \<Rightarrow> ('g, 'l) host" where
  "host_inject line h = h\<lparr>dev := inject_irq line (dev h)\<rparr>"

section \<open>Random numbers\<close>

text \<open>\<open>(opts.seed ?? DEFAULT_SEED) >>> 0 || DEFAULT_SEED\<close>\<close>

definition initial_rand :: "32 word option \<Rightarrow> 32 word" where
  "initial_rand seed = (let s = (case seed of None \<Rightarrow> DEFAULT_SEED | Some s \<Rightarrow> s)
     in if s = 0 then DEFAULT_SEED else s)"

definition entropy_get :: "nat \<Rightarrow> nat \<Rightarrow> ('g, 'l) host \<Rightarrow> ('g, 'l) host" where
  "entropy_get ptr len h =
    (let (bytes, x) = random_bytes len (rand_state h)
     in h\<lparr>mem := mem_put ptr bytes (mem h), rand_state := x\<rparr>)"

section \<open>The HCI UART\<close>

definition host_address :: "32 word \<Rightarrow> nat list" where
  "host_address s = [unat (s AND 0xff), unat (drop_bit 8 s AND 0xff), 0x00, 0x00, 0xde, 0xc0]"

text \<open>\<open>btController()\<close>; a real controller is there from the start when the run was given one.\<close>

definition bt_controller :: "('g, 'l) host \<Rightarrow> hci" where
  "bt_controller h =
    (case hci h of
      Some c \<Rightarrow> c
    | None \<Rightarrow> (let s = (case seed_opt (opts h) of None \<Rightarrow> DEFAULT_SEED | Some s \<Rightarrow> s)
               in Emulated (new_bt (host_address s) s True)))"

text \<open>
  Something on its way to the other board of a pair, if that is on (\<open>peer_on\<close>; host/pair.mjs,
  \<open>arriving\<close>): it can be answered as soon as it arrives, so this board may go no further than that.
\<close>

definition lower_limit :: "ns \<Rightarrow> ('g, 'l) host \<Rightarrow> ('g, 'l) host" where
  "lower_limit at h =
    (let limit = at + LINK_LATENCY_NS - epoch_ns h
     in if peer_on h \<and> (step_limit_ns h = None \<or> limit < the (step_limit_ns h))
        then h\<lparr>step_limit_ns := Some limit\<rparr> else h)"

lemma lower_limit_only: "\<exists>l. lower_limit at h = h\<lparr>step_limit_ns := l\<rparr>"
  by (rule exI [of _ "step_limit_ns (lower_limit at h)"]) (simp add: lower_limit_def Let_def)

lemma lower_limits_only: "\<exists>l. fold lower_limit ats h = h\<lparr>step_limit_ns := l\<rparr>"
proof (induction ats arbitrary: h)
  case Nil
  then show ?case by (intro exI [of _ "step_limit_ns h"]) simp
next
  case (Cons at ats)
  obtain l where l: "lower_limit at h = h\<lparr>step_limit_ns := l\<rparr>" using lower_limit_only by blast
  obtain k where "fold lower_limit ats (h\<lparr>step_limit_ns := l\<rparr>) = h\<lparr>step_limit_ns := l, step_limit_ns := k\<rparr>"
    using Cons by blast
  then have "fold lower_limit (at # ats) h = h\<lparr>step_limit_ns := k\<rparr>" by (simp add: l)
  then show ?case ..
qed

lemma lower_limits_frame [simp]:
  "now_ns (fold lower_limit ats h) = now_ns h" "epoch_ns (fold lower_limit ats h) = epoch_ns h"
  "dev (fold lower_limit ats h) = dev h" "con (fold lower_limit ats h) = con h"
  "hci (fold lower_limit ats h) = hci h" "lan (fold lower_limit ats h) = lan h"
  "opts (fold lower_limit ats h) = opts h" "mem (fold lower_limit ats h) = mem h"
  "store (fold lower_limit ats h) = store h" "contexts (fold lower_limit ats h) = contexts h"
  "current (fold lower_limit ats h) = current h" "eth_out (fold lower_limit ats h) = eth_out h"
  "air_out (fold lower_limit ats h) = air_out h" "peer_on (fold lower_limit ats h) = peer_on h"
  "reboots (fold lower_limit ats h) = reboots h"
  using lower_limits_only [of ats h] by auto

lemma lower_limit_frame [simp]:
  "now_ns (lower_limit at h) = now_ns h" "epoch_ns (lower_limit at h) = epoch_ns h"
  "dev (lower_limit at h) = dev h" "con (lower_limit at h) = con h"
  "hci (lower_limit at h) = hci h" "lan (lower_limit at h) = lan h"
  "opts (lower_limit at h) = opts h" "mem (lower_limit at h) = mem h"
  "store (lower_limit at h) = store h" "contexts (lower_limit at h) = contexts h"
  "current (lower_limit at h) = current h" "eth_out (lower_limit at h) = eth_out h"
  "air_out (lower_limit at h) = air_out h" "peer_on (lower_limit at h) = peer_on h"
  "reboots (lower_limit at h) = reboots h"
  using lower_limits_frame [of "[at]" h] by simp_all

text \<open>What the controller has put in its outbox goes on the air, stamped with its arrival on the
  pair's timeline.\<close>

definition take_air :: "('g, 'l) host \<Rightarrow> ('g, 'l) host" where
  "take_air h =
    (case hci h of
      Some (Emulated b) \<Rightarrow>
        (let sent = map (\<lambda>(at, p). (epoch_ns h + at + LINK_LATENCY_NS, p)) (outbox b)
         in fold lower_limit (map fst sent)
           (h\<lparr>air_out := air_out h @ sent, hci := Some (Emulated (b\<lparr>outbox := []\<rparr>))\<rparr>))
    | _ \<Rightarrow> h)"

definition push_air :: "pdu \<Rightarrow> ns \<Rightarrow> ('g, 'l) host \<Rightarrow> ('g, 'l) host" where
  "push_air p at h =
    (case hci h of
      Some (Emulated b) \<Rightarrow> h\<lparr>hci := Some (Emulated (from_air (at - epoch_ns h) p b))\<rparr>
    | _ \<Rightarrow> h)"

definition host_poll_out :: "nat \<Rightarrow> nat \<Rightarrow> ('g, 'l) host \<Rightarrow> ('g, 'l) host" where
  "host_poll_out port c h =
    (if port \<noteq> 0
     then take_air (h\<lparr>hci := Some (hci_from_host (c mod 256) (now_ns h) (bt_controller h))\<rparr>)
     else h\<lparr>con := uart_poll_out c (con h)\<rparr>)"

definition host_poll_in :: "nat \<Rightarrow> ('g, 'l) host \<Rightarrow> int \<times> ('g, 'l) host" where
  "host_poll_in port h =
    (if port \<noteq> 0
     then (let (r, c) = hci_rx_take (now_ns h) (bt_controller h) in (r, h\<lparr>hci := Some c\<rparr>))
     else (let (r, c) = uart_poll_in (now_ns h) (con h) in (r, h\<lparr>con := c\<rparr>)))"

section \<open>The link\<close>

definition host_push_ethernet :: "nat list \<Rightarrow> ns \<Rightarrow> ('g, 'l) host \<Rightarrow> ('g, 'l) host" where
  "host_push_ethernet frame at h = h\<lparr>dev := push_ethernet at frame (dev h)\<rparr>"

definition from_lan :: "'l lan_ops \<Rightarrow> nat list list \<Rightarrow> 'l \<Rightarrow> ('g, 'l) host \<Rightarrow> ('g, 'l) host" where
  "from_lan ops fs l h =
    fold (\<lambda>f. host_push_ethernet f (lan_clock ops l + LINK_LATENCY_NS)) fs (h\<lparr>lan := Some l\<rparr>)"

definition eth_send :: "'l lan_ops \<Rightarrow> nat list \<Rightarrow> ('g, 'l) host \<Rightarrow> ('g, 'l) host" where
  "eth_send ops frame h =
    (let h = h\<lparr>dev := (dev h)\<lparr>eth_sent := eth_sent (dev h) + 1\<rparr>\<rparr>; at = global_ns h + LINK_LATENCY_NS
     in case lan h of
       Some l \<Rightarrow> (let (fs, l) = lan_input ops frame at l in from_lan ops fs l h)
     | None \<Rightarrow> lower_limit at (h\<lparr>eth_out := eth_out h @ [(at, frame)]\<rparr>))"

definition host_eth_recv :: "nat \<Rightarrow> int \<Rightarrow> ('g, 'l) host \<Rightarrow> int \<times> ('g, 'l) host" where
  "host_eth_recv ptr room h =
    (let ((r, bytes), d) = eth_recv (global_ns h) room (dev h)
     in (r, h\<lparr>dev := d, mem := mem_put ptr bytes (mem h)\<rparr>))"

definition host_input_poll :: "nat \<Rightarrow> ('g, 'l) host \<Rightarrow> int \<times> ('g, 'l) host" where
  "host_input_poll ptr h =
    (case input_poll (dev h) of
      (None, d) \<Rightarrow> (0, h\<lparr>dev := d\<rparr>)
    | (Some ev, d) \<Rightarrow>
        (1, h\<lparr>dev := d, mem := mem_put ptr (concat (map (\<lambda>v. word_bytes (word_of_int v))
          [ev_type ev, ev_code ev, ev_value ev, ev_sync ev])) (mem h)\<rparr>))"

definition host_sensor_poll :: "nat \<Rightarrow> ('g, 'l) host \<Rightarrow> int \<times> ('g, 'l) host" where
  "host_sensor_poll ptr h =
    (case sensor_poll (dev h) of
      (None, d) \<Rightarrow> (0, h\<lparr>dev := d\<rparr>)
    | (Some r, d) \<Rightarrow>
        (1, h\<lparr>dev := d, mem := mem_put ptr (concat (map (\<lambda>v. word_bytes (word_of_int v))
          [sensor r, channel r, millionths r])) (mem h)\<rparr>))"

section \<open>Storage\<close>

definition storage_attach :: "nat \<Rightarrow> nat \<Rightarrow> ('g, 'l) host \<Rightarrow> ('g, 'l) host" where
  "storage_attach ptr len h =
    (let h = h\<lparr>storage := Some (ptr, len)\<rparr>
     in case storage_image h of
       None \<Rightarrow> h
     | Some img \<Rightarrow> if length img \<noteq> len then h else h\<lparr>mem := mem_put ptr img (mem h)\<rparr>)"

definition flash_image :: "('g, 'l) host \<Rightarrow> js_error + nat list option" where
  "flash_image h =
    (case storage h of
      None \<Rightarrow> Inr (storage_image h)
    | Some (ptr, len) \<Rightarrow>
      if ptr + len > length (mem h) then Inl RangeError else Inr (Some (take len (drop ptr (mem h)))))"

section \<open>Giving up\<close>

text \<open>What stops a guest that does not stop by itself: the guest-time limit, the wall-clock limit, a
  reboot, or an error of the host's own.\<close>

datatype stop = AtMaxTime | Hang | Rebooting | Failed js_error

text \<open>\<open>Number(...) / 1e6 > limitMs\<close> is a comparison of nanoseconds here.\<close>

definition check_deadline :: "('g, 'l) host \<Rightarrow> stop option" where
  "check_deadline h =
    (let since = (case step_started_at h of None \<Rightarrow> started_at h | Some t \<Rightarrow> t)
     in if time_ns h > deadline_ns h then Some AtMaxTime
        else if wall_ns h - since > max (int (max_time_ms (opts h)) * 3) 60000 * 1000000 then Some Hang
        else None)"

text \<open>What is thrown leaves the host as it is then.\<close>

definition safepoint_tick :: "('g, 'l) host \<Rightarrow> (stop \<times> ('g, 'l) host) + ('g, 'l) host" where
  "safepoint_tick h =
    (let h = (if realtime (opts h) then h else h\<lparr>now_ns := now_ns h + SAFEPOINT_TICK_NS\<rparr>)
     in case check_deadline h of
       Some s \<Rightarrow> Inl (s, h)
     | None \<Rightarrow>
       (case alarm_ns h of
         None \<Rightarrow> Inr h
       | Some a \<Rightarrow> if time_ns h \<ge> a
           then Inr (raise_irq IRQ_TIMER (h\<lparr>alarm_ns := None, quiescent_rounds := 0\<rparr>))
           else Inr h))"

section \<open>A new host\<close>

text \<open>The constructor; what \<open>boot\<close> sets up is arbitrary before it (\<open>g\<close>, and empty memory).\<close>

definition new_host ::
  "opts \<Rightarrow> bool \<Rightarrow> ns \<Rightarrow> 32 word \<Rightarrow> nat list option \<Rightarrow> ns \<Rightarrow> 'g \<Rightarrow> ('g, 'l) host" where
  "new_host os held epoch gpio_inputs img wall g =
    \<lparr>opts = os, inst = g, mem = [], switch_block_addr = 0, irq_pending_addr = 0, scratch_buf = 0,
     masked_addr = None, enabled_addr = None, con = initial_console held,
     dev = initial_devices gpio_inputs, disp = None, sh = initial_semihosting, now_ns = 0,
     epoch_ns = epoch, alarm_ns = None, alarm_is_clamp = False, quiescent_rounds = 0, deadline_ns = 0,
     wall_ns = wall, started_at = wall, step_started_at = None, pace = None,
     yield_to_host = False, idle_wait_ns = 0,
     rand_state = initial_rand (seed_opt os), storage = None, storage_image = img, hci = None,
     lan = None, idle_until = None, step_limit_ns = None, store = [], contexts = [],
     current = 0, resume_same = False, pending_fatal = False, current_sp = 0, unwound_into = None,
     switches = 0, traps = 0, reboots = 0, exit_code = 0, host_done = False, air_out = [],
     eth_out = [], peer_on = False\<rparr>"

text \<open>Options and a host to apply theorems to.\<close>

definition sample_opts :: opts where
  "sample_opts = \<lparr>realtime = False, max_time_ms = 5000, stop_at_max_time = False, in_pair = False,
     pair_paced = False, interactive = False, seed_opt = None, gpio_script = [], input_script = [],
     max_reboots = 64\<rparr>"

definition sample_host :: "(unit, unit) host" where
  "sample_host = new_host sample_opts False 0 (- 1) None 0 ()"

end
