(* ===== verification/Core_Deadline.thy ===== *)
theory Core_Deadline
  imports Core_Host
begin

text \<open>
  Virtual time (host/core.mjs, \<open>nextDeadlineNs\<close> and \<open>advanceToNextDeadline\<close>): time stands still while
  the kernel runs, and when it idles the clock jumps to the next thing that is due.
\<close>

section \<open>What is due\<close>

datatype script_item = Pin pin_event | Act script_action

text \<open>The next scripted event, of either kind; a pin before other input at the same time.\<close>

definition next_script :: "('g, 'l) host \<Rightarrow> (ns \<times> script_item) option" where
  "next_script h =
    (case (gpio_script (opts h), input_script (opts h)) of
      (p # _, []) \<Rightarrow> Some (pin_at p, Pin p)
    | (p # _, (t, a) # _) \<Rightarrow> if pin_at p \<le> t then Some (pin_at p, Pin p) else Some (t, Act a)
    | ([], (t, a) # _) \<Rightarrow> Some (t, Act a)
    | ([], []) \<Rightarrow> None)"

definition host_next_frame :: "('g, 'l) host \<Rightarrow> ns option" where
  "host_next_frame h = next_frame_ns (epoch_ns h) (dev h)"

definition host_next_uart :: "('g, 'l) host \<Rightarrow> ns option" where
  "host_next_uart h = next_uart_ns (now_ns h) (con h)"

definition host_next_bt :: "('g, 'l) host \<Rightarrow> js_error + ns option" where
  "host_next_bt h = (case hci h of None \<Rightarrow> Inr None | Some c \<Rightarrow> hci_next_ns (now_ns h) c)"

definition host_next_lan :: "'l lan_ops \<Rightarrow> ('g, 'l) host \<Rightarrow> ns option" where
  "host_next_lan ops h = map_option (\<lambda>l. lan_next_ns ops l - epoch_ns h) (lan h)"

definition next_deadline_ns :: "'l lan_ops \<Rightarrow> ('g, 'l) host \<Rightarrow> js_error + ns option" where
  "next_deadline_ns ops h =
    (case host_next_bt h of
      Inl e \<Rightarrow> Inl e
    | Inr bt \<Rightarrow> Inr (fold (\<lambda>c at. min_big at c)
        [map_option pin_at (case gpio_script (opts h) of [] \<Rightarrow> None | p # _ \<Rightarrow> Some p),
         map_option fst (case input_script (opts h) of [] \<Rightarrow> None | e # _ \<Rightarrow> Some e),
         host_next_frame h, host_next_uart h, host_next_lan ops h, bt,
         if alarm_is_clamp h then None else alarm_ns h] None))"

section \<open>The jump\<close>

definition set_now :: "ns \<Rightarrow> ('g, 'l) host \<Rightarrow> ('g, 'l) host" where
  "set_now t h = h\<lparr>now_ns := (if t > now_ns h then t else now_ns h)\<rparr>"

definition script_step :: "script_item \<Rightarrow> ('g, 'l) host \<Rightarrow> ('g, 'l) host" where
  "script_step i h =
    (case i of
      Pin p \<Rightarrow>
        (let h = h\<lparr>opts := (opts h)\<lparr>gpio_script := tl (gpio_script (opts h))\<rparr>\<rparr>
         in h\<lparr>dev := set_gpio_input (pin_port p) (pin_number p) (pin_level p) (dev h)\<rparr>)
    | Act a \<Rightarrow>
        (let h = h\<lparr>opts := (opts h)\<lparr>input_script := tl (input_script (opts h))\<rparr>\<rparr>
         in case a of
           TypeStart \<Rightarrow> h\<lparr>con := (con h)\<lparr>type_held := False\<rparr>\<rparr>
         | Sensors rs \<Rightarrow> h\<lparr>dev := push_sensor rs (dev h)\<rparr>
         | Events evs \<Rightarrow> h\<lparr>dev := push_input evs (dev h)\<rparr>))"

definition lan_step :: "'l lan_ops \<Rightarrow> ns \<Rightarrow> ('g, 'l) host \<Rightarrow> ('g, 'l) host" where
  "lan_step ops at h =
    (let h = set_now at h; (fs, l) = lan_advance ops (global_ns h) (the (lan h))
     in from_lan ops fs l h)"

definition bt_step_to :: "ns \<Rightarrow> ('g, 'l) host \<Rightarrow> (js_error + bool \<times> ('g, 'l) host) option" where
  "bt_step_to at h =
    (let h = set_now at h
     in case hci_advance (now_ns h) (the (hci h)) of
       None \<Rightarrow> None
     | Some (Inl e) \<Rightarrow> Some (Inl e)
     | Some (Inr c) \<Rightarrow> Some (Inr (True, take_air (h\<lparr>hci := Some c, quiescent_rounds := 0\<rparr>))))"

text \<open>The end of the function: the kernel's alarm, or nothing.\<close>

definition alarm_step :: "ns option \<Rightarrow> ('g, 'l) host \<Rightarrow> bool \<times> ('g, 'l) host" where
  "alarm_step alarm h =
    (case alarm of
      None \<Rightarrow> (False, h)
    | Some a \<Rightarrow>
      (let h = h\<lparr>quiescent_rounds := (if alarm_is_clamp h then quiescent_rounds h + 1 else 0)\<rparr>
       in if quiescent_rounds h > QUIESCENT_ROUNDS then (False, h)
          else (True, raise_irq IRQ_TIMER ((set_now a h)\<lparr>alarm_ns := None\<rparr>))))"

definition advance_to_next_deadline ::
  "'l lan_ops \<Rightarrow> ns option \<Rightarrow> bool \<Rightarrow> ('g, 'l) host \<Rightarrow> (js_error + bool \<times> ('g, 'l) host) option" where
  "advance_to_next_deadline ops limit clamp_is_nothing h =
    (case host_next_bt h of
      Inl e \<Rightarrow> Some (Inl e)
    | Inr bt_at \<Rightarrow>
      (let alarm = (if clamp_is_nothing \<and> alarm_is_clamp h then None else alarm_ns h);
           nxt = next_script h;
           frame_at = host_next_frame h;
           uart_at = host_next_uart h;
           at = min_big (min_big (min_big (map_option fst nxt) frame_at) uart_at) bt_at;
           lan_at = host_next_lan ops h
       in if lan_at \<noteq> None \<and> (at = None \<or> the lan_at < the at) \<and> (alarm = None \<or> the lan_at < the alarm)
          then Some (Inr (True, lan_step ops (the lan_at) h))
          else (let at = min_big at alarm; other = (nxt = None \<or> map_option fst nxt \<noteq> at)
             in if limit \<noteq> None \<and> at \<noteq> None \<and> the at > the limit
                then Some (Inr (True, (set_now (the limit) h)\<lparr>idle_until := Some at\<rparr>))
                else if at \<noteq> None \<and> at = frame_at \<and> other
                then Some (Inr (True,
                  host_inject IRQ_ETH ((set_now (the at) h)\<lparr>quiescent_rounds := 0\<rparr>)))
                else if at \<noteq> None \<and> at = uart_at \<and> other
                then Some (Inr (True, h\<lparr>now_ns := the at, quiescent_rounds := 0\<rparr>))
                else if at \<noteq> None \<and> at = bt_at \<and> other then bt_step_to (the at) h
                else if nxt \<noteq> None \<and> (alarm = None \<or> fst (the nxt) \<le> the alarm)
                then Some (Inr (True,
                  script_step (snd (the nxt)) ((set_now (fst (the nxt)) h)\<lparr>quiescent_rounds := 0\<rparr>)))
                else Some (Inr (alarm_step alarm h)))))"

section \<open>What it leaves alone\<close>

lemma set_now_sel [simp]: "now_ns (set_now t h) = max (now_ns h) t"
  by (simp add: set_now_def)

lemma set_now_frame [simp]:
  "epoch_ns (set_now t h) = epoch_ns h" "dev (set_now t h) = dev h" "con (set_now t h) = con h"
  "hci (set_now t h) = hci h" "lan (set_now t h) = lan h" "opts (set_now t h) = opts h"
  "alarm_ns (set_now t h) = alarm_ns h" "alarm_is_clamp (set_now t h) = alarm_is_clamp h"
  "mem (set_now t h) = mem h" "quiescent_rounds (set_now t h) = quiescent_rounds h"
  by (simp_all add: set_now_def)

lemma now_inject [simp]: "now_ns (host_inject l h) = now_ns h"
  by (simp add: host_inject_def)

lemma now_raise [simp]: "now_ns (raise_irq l h) = now_ns h"
  by (simp add: raise_irq_def)

lemma now_take_air [simp]: "now_ns (take_air h) = now_ns h"
  by (simp add: take_air_def Let_def split: option.split hci.split)

lemma now_script_step [simp]: "now_ns (script_step i h) = now_ns h"
  by (simp add: script_step_def Let_def split: script_item.split script_action.split)

lemma now_from_lan [simp]: "now_ns (from_lan ops fs l h) = now_ns h"
proof -
  have "now_ns (fold (\<lambda>f. host_push_ethernet f t) fs h) = now_ns h" for h :: "('a, 'b) host" and t
    by (induction fs arbitrary: h) (simp_all add: host_push_ethernet_def)
  then show ?thesis by (simp add: from_lan_def)
qed

lemma now_lan_step [simp]: "now_ns (lan_step ops at h) = max (now_ns h) at"
  by (simp add: lan_step_def Let_def split_beta)

lemma bt_step_to_now:
  "bt_step_to at h = Some (Inr (r, h')) \<Longrightarrow> r \<and> now_ns h' = max (now_ns h) at"
  by (auto simp: bt_step_to_def Let_def split: option.splits sum.splits)

text \<open>A UART deadline is always ahead.\<close>

lemma host_next_uart_later: "host_next_uart h = Some t \<Longrightarrow> now_ns h < t"
  by (auto simp: host_next_uart_def next_uart_ns_def split: if_splits)

section \<open>The next deadline\<close>

lemma min_big_assoc: "min_big (min_big a b) c = min_big a (min_big b c)"
  by (cases a; cases b; cases c) auto

lemma min_big_commute: "min_big a b = min_big b a"
  by (cases a; cases b) auto

lemma min_big_in: "min_big a b = Some t \<Longrightarrow> a = Some t \<or> b = Some t"
  by (cases a; cases b) (auto split: if_splits)

text \<open>Not before \<open>t\<close>, if at all.\<close>

definition from_opt :: "ns \<Rightarrow> ns option \<Rightarrow> bool" where
  "from_opt t a \<longleftrightarrow> (\<forall>x. a = Some x \<longrightarrow> t \<le> x)"

lemma from_opt_simps [simp]: "from_opt t None" "from_opt t (Some x) \<longleftrightarrow> t \<le> x"
  by (simp_all add: from_opt_def)

lemma from_opt_min_big [simp]: "from_opt t (min_big a b) \<longleftrightarrow> from_opt t a \<and> from_opt t b"
  by (cases a; cases b) auto

lemma next_script_at:
  "map_option fst (next_script h) =
    min_big (map_option pin_at (case gpio_script (opts h) of [] \<Rightarrow> None | p # _ \<Rightarrow> Some p))
      (map_option fst (case input_script (opts h) of [] \<Rightarrow> None | e # _ \<Rightarrow> Some e))"
  by (auto simp: next_script_def split: list.split)

lemma next_deadline_eq:
  assumes "host_next_bt h = Inr bt_at" and "\<not> alarm_is_clamp h"
  shows "next_deadline_ns ops h = Inr (min_big (min_big (min_big (min_big (min_big
    (map_option fst (next_script h)) (host_next_frame h)) (host_next_uart h)) bt_at)
    (host_next_lan ops h)) (alarm_ns h))"
  using assms unfolding next_deadline_ns_def next_script_at
  by (simp add: min_big_assoc min_big_commute [of "host_next_lan ops h"])

text \<open>The kernel's alarm where it counts, and the first of everything else that wakes the board.\<close>

definition alarm_due :: "bool \<Rightarrow> ('g, 'l) host \<Rightarrow> ns option" where
  "alarm_due cin h = (if cin \<and> alarm_is_clamp h then None else alarm_ns h)"

definition first_due :: "ns option \<Rightarrow> ('g, 'l) host \<Rightarrow> ns option" where
  "first_due bt_at h = min_big (min_big (min_big (map_option fst (next_script h))
    (host_next_frame h)) (host_next_uart h)) bt_at"

text \<open>What one call does, by what it does: \<open>at\<close> is when.\<close>

lemma advance_cases:
  assumes "advance_to_next_deadline ops limit cin h = Some (Inr (r, h'))"
    and "host_next_bt h = Inr bt_at"
  obtains (lan) at where "host_next_lan ops h = Some at" "after_opt at (first_due bt_at h)" "after_opt at (alarm_due cin h)"
      "r" "h' = lan_step ops at h"
  | (limited) at l where "limit = Some l" "min_big (first_due bt_at h) (alarm_due cin h) = Some at" "l < at"
      "from_opt at (host_next_lan ops h)"
      "r" "h' = (set_now l h)\<lparr>idle_until := Some (Some at)\<rparr>"
  | (frame) at where "min_big (first_due bt_at h) (alarm_due cin h) = Some at" "host_next_frame h = Some at"
      "map_option fst (next_script h) \<noteq> Some at" "from_opt at (host_next_lan ops h)" "from_opt at limit"
      "r" "h' = host_inject IRQ_ETH ((set_now at h)\<lparr>quiescent_rounds := 0\<rparr>)"
  | (uart) at where "min_big (first_due bt_at h) (alarm_due cin h) = Some at" "host_next_uart h = Some at"
      "from_opt at (host_next_lan ops h)" "from_opt at limit" "r" "h' = h\<lparr>now_ns := at, quiescent_rounds := 0\<rparr>"
  | (bt) at where "min_big (first_due bt_at h) (alarm_due cin h) = Some at" "bt_at = Some at"
      "from_opt at (host_next_lan ops h)" "from_opt at limit" "bt_step_to at h = Some (Inr (r, h'))"
  | (script) at i where "min_big (first_due bt_at h) (alarm_due cin h) = Some at" "next_script h = Some (at, i)"
      "from_opt at (host_next_lan ops h)" "from_opt at limit" "r" "h' = script_step i ((set_now at h)\<lparr>quiescent_rounds := 0\<rparr>)"
  | (alarm) at where "min_big (first_due bt_at h) (alarm_due cin h) = Some at" "(alarm_due cin h) = Some at"
      "from_opt at (host_next_lan ops h)" "from_opt at limit" "(r, h') = alarm_step (alarm_due cin h) h"
  | (idle) "min_big (first_due bt_at h) (alarm_due cin h) = None" "host_next_lan ops h = None" "\<not> r" "h' = h"
proof -
  let ?al = "alarm_due cin h" let ?at0 = "first_due bt_at h"
  define nxt where "nxt = next_script h"
  define lan_at where "lan_at = host_next_lan ops h"
  have eq: "Some (Inr (r, h')) =
     (if lan_at \<noteq> None \<and> (?at0 = None \<or> the lan_at < the ?at0) \<and> (?al = None \<or> the lan_at < the ?al)
      then Some (Inr (True, lan_step ops (the lan_at) h))
      else (let at = min_big ?at0 ?al; other = (nxt = None \<or> map_option fst nxt \<noteq> at)
            in if limit \<noteq> None \<and> at \<noteq> None \<and> the at > the limit
               then Some (Inr (True, (set_now (the limit) h)\<lparr>idle_until := Some at\<rparr>))
               else if at \<noteq> None \<and> at = host_next_frame h \<and> other
               then Some (Inr (True,
                 host_inject IRQ_ETH ((set_now (the at) h)\<lparr>quiescent_rounds := 0\<rparr>)))
               else if at \<noteq> None \<and> at = host_next_uart h \<and> other
               then Some (Inr (True, h\<lparr>now_ns := the at, quiescent_rounds := 0\<rparr>))
               else if at \<noteq> None \<and> at = bt_at \<and> other then bt_step_to (the at) h
               else if nxt \<noteq> None \<and> (?al = None \<or> fst (the nxt) \<le> the ?al)
               then Some (Inr (True,
                 script_step (snd (the nxt)) ((set_now (fst (the nxt)) h)\<lparr>quiescent_rounds := 0\<rparr>)))
               else Some (Inr (alarm_step ?al h))))"
    by (simp only: assms(1) [symmetric] advance_to_next_deadline_def assms(2) sum.case
        alarm_due_def first_due_def nxt_def lan_at_def Let_def)
  show thesis
  proof (cases "lan_at \<noteq> None \<and> (?at0 = None \<or> the lan_at < the ?at0) \<and> (?al = None \<or> the lan_at < the ?al)")
    case True
    then show ?thesis
      using eq by (intro lan [of "the lan_at"])
        (auto simp: after_opt_def lan_at_def split: option.splits)
  next
    case False
    note eq' = eq [unfolded if_not_P [OF False] Let_def]
    show ?thesis
    proof (cases "min_big ?at0 ?al")
      case None
      then have "nxt = None" "?al = None" by (auto simp: first_due_def nxt_def)
      with None eq' have "\<not> r" "h' = h" by (auto simp: alarm_step_def)
      moreover have "host_next_lan ops h = None" using False None by (auto simp: lan_at_def)
      ultimately show ?thesis using None idle by blast
    next
      case (Some at)
      have one: "map_option fst nxt = Some at \<or> host_next_frame h = Some at \<or>
          host_next_uart h = Some at \<or> bt_at = Some at \<or> ?al = Some at"
        using Some by (auto simp: first_due_def nxt_def dest!: min_big_in)
      have "from_opt at (min_big ?at0 ?al)" by (simp add: Some)
      then have least: "from_opt at (map_option fst nxt)" "from_opt at ?al" "from_opt at ?at0"
        by (simp_all add: first_due_def nxt_def)
      have lan_later: "from_opt at (host_next_lan ops h)"
        using False least(2,3) by (cases ?at0; cases ?al) (auto simp: from_opt_def lan_at_def)
      show ?thesis
      proof (cases "map_option fst nxt = Some at")
        case True
        then obtain i where i: "nxt = Some (at, i)" by auto
        then have "?al = None \<or> at \<le> the ?al" using least(2) by (cases ?al) auto
        note here = i Some eq' True lan_later this
        show ?thesis
        proof (cases "limit \<noteq> None \<and> at > the limit")
          case True
          with here show ?thesis by (intro limited [of "the limit" at]) auto
        next
          case False
          then have "from_opt at limit" by (auto simp: from_opt_def)
          with False here show ?thesis by (intro script [of at i]) (auto simp: nxt_def)
        qed
      next
        case other: False
        show ?thesis
        proof (cases "limit \<noteq> None \<and> at > the limit")
          case True
          with eq' Some show ?thesis using lan_later by (intro limited [of "the limit" at]) auto
        next
          case False
          then have lim: "from_opt at limit" by (auto simp: from_opt_def)
          consider "host_next_frame h = Some at" | "host_next_frame h \<noteq> Some at" "host_next_uart h = Some at"
            | "host_next_frame h \<noteq> Some at" "host_next_uart h \<noteq> Some at" "bt_at = Some at"
            | "host_next_frame h \<noteq> Some at" "host_next_uart h \<noteq> Some at" "bt_at \<noteq> Some at" "?al = Some at"
            using one other by blast
          then show ?thesis
          proof cases
            case 1
            with eq' Some False other show ?thesis using lan_later lim by (intro frame [of at]) (auto simp: nxt_def)
          next
            case 2
            with eq' Some False other show ?thesis using lan_later lim by (intro uart [of at]) auto
          next
            case 3
            with eq' Some False other show ?thesis using lan_later lim by (intro bt [of at]) auto
          next
            case 4
            have "\<not> (nxt \<noteq> None \<and> (?al = None \<or> fst (the nxt) \<le> the ?al))"
              using 4 other least(1) by (cases nxt) auto
            with 4 eq' Some False other show ?thesis using lan_later lim by (intro alarm [of at]) auto
          qed
        qed
      qed
    qed
  qed
qed


lemma min_big_from: "from_opt t a \<Longrightarrow> min_big (Some t) a = Some t"
  by (cases a) auto

lemma min_big_from': "from_opt t a \<Longrightarrow> min_big a (Some t) = Some t"
  using min_big_from [of t a] by (simp add: min_big_commute)

lemma after_from: "after_opt t a \<Longrightarrow> from_opt t a"
  by (auto simp: after_opt_def from_opt_def)

text \<open>
  With no limit, and an alarm that is not the kernel's clamp, the clock goes exactly to the next
  deadline, whatever kind it is of, unless it is past it; and the call reports that there was
  nothing to do exactly when there is no deadline, and then does nothing.
\<close>

theorem advance_reaches_deadline:
  assumes "next_deadline_ns ops h = Inr d" and "\<not> alarm_is_clamp h"
    and "advance_to_next_deadline ops None cin h = Some (Inr (r, h'))"
  shows "case d of None \<Rightarrow> \<not> r \<and> h' = h | Some t \<Rightarrow> r \<and> now_ns h' = max (now_ns h) t"
proof -
  obtain bt_at where bt: "host_next_bt h = Inr bt_at"
    using assms(1) by (auto simp: next_deadline_ns_def split: sum.splits)
  have no_cin: "alarm_due cin h = alarm_ns h" using assms(2) by (simp add: alarm_due_def)
  have "d = min_big (min_big (first_due bt_at h) (host_next_lan ops h)) (alarm_ns h)"
    using assms(1) next_deadline_eq [OF bt assms(2), of ops] by (simp add: first_due_def)
  then have d: "d = min_big (host_next_lan ops h) (min_big (first_due bt_at h) (alarm_due cin h))"
    by (simp add: min_big_assoc min_big_commute [of "host_next_lan ops h"] no_cin)
  show ?thesis
    using assms(3) bt
  proof (cases rule: advance_cases)
    case (lan at)
    then have "d = Some at" by (simp add: d min_big_from after_from)
    with lan show ?thesis by simp
  next
    case (uart at)
    then show ?thesis using host_next_uart_later [of h at] by (simp add: d min_big_from')
  next
    case (bt at)
    then show ?thesis using bt_step_to_now [of at h r h'] by (simp add: d min_big_from')
  next
    case (alarm at)
    then show ?thesis
      using assms(2) by (auto simp: d min_big_from' alarm_step_def Let_def QUIESCENT_ROUNDS_def)
  qed (simp_all add: d min_big_from')
qed

text \<open>A host with an alarm in 5 ms and a frame due in 2 ms.\<close>

definition waiting_host :: "(unit, unit) host" where
  "waiting_host = host_push_ethernet [1, 2] 2000000 (set_alarm 5000000 sample_host)"

definition no_lan :: "unit lan_ops" where
  "no_lan = \<lparr>lan_next_ns = \<lambda>_. 0, lan_advance = \<lambda>_ l. ([], l), lan_input = \<lambda>_ _ l. ([], l),
    lan_clock = \<lambda>_. 0\<rparr>"

lemmas waiting_defs = waiting_host_def sample_host_def new_host_def sample_opts_def set_alarm_def
  time_ns_def CLAMP_NS_def host_push_ethernet_def push_ethernet_def initial_devices_def
  ETH_QUEUE_MAX_def initial_console_def

lemma waiting_advance:
  "advance_to_next_deadline no_lan limit False waiting_host =
    (if limit \<noteq> None \<and> 2000000 > the limit
     then Some (Inr (True, (set_now (the limit) waiting_host)\<lparr>idle_until := Some (Some 2000000)\<rparr>))
     else Some (Inr (True, host_inject IRQ_ETH (waiting_host\<lparr>now_ns := 2000000\<rparr>))))"
  by (simp add: advance_to_next_deadline_def host_next_bt_def host_next_lan_def host_next_frame_def
      next_frame_ns_def host_next_uart_def next_uart_ns_def next_script_def set_now_def waiting_defs)

lemma waiting_next: "next_deadline_ns no_lan waiting_host = Inr (Some 2000000)"
  by (simp add: next_deadline_ns_def host_next_bt_def host_next_lan_def host_next_frame_def
      next_frame_ns_def host_next_uart_def next_uart_ns_def waiting_defs)

theorem advance_reaches_deadline_witness:
  "\<exists>h'. advance_to_next_deadline no_lan None False waiting_host = Some (Inr (True, h')) \<and>
    now_ns h' = 2000000"
proof -
  have go: "advance_to_next_deadline no_lan None False waiting_host =
      Some (Inr (True, host_inject IRQ_ETH (waiting_host\<lparr>now_ns := 2000000\<rparr>)))"
    by (simp add: waiting_advance)
  have "\<not> alarm_is_clamp waiting_host" by (simp add: waiting_defs)
  from advance_reaches_deadline [OF waiting_next this go] go show ?thesis
    by (simp add: waiting_defs)
qed

text \<open>The clock has not gone past \<open>c\<close>, unless it was past it before.\<close>

definition not_past :: "('g, 'l) host \<Rightarrow> ('g, 'l) host \<Rightarrow> ns option \<Rightarrow> bool" where
  "not_past h h' c = (case c of None \<Rightarrow> True | Some t \<Rightarrow> now_ns h' \<le> max (now_ns h) t)"

lemma not_pastI: "now_ns h' = max (now_ns h) t \<Longrightarrow> from_opt t c \<Longrightarrow> not_past h h' c"
  by (cases c) (auto simp: not_past_def)

lemma not_past_same: "now_ns h' = now_ns h \<Longrightarrow> not_past h h' c"
  by (cases c) (simp_all add: not_past_def)

lemma alarm_step_now:
  assumes "alarm_due cin h = Some a" and "(r, h') = alarm_step (alarm_due cin h) h"
  shows "now_ns h' = now_ns h \<or> now_ns h' = max (now_ns h) a"
  using assms by (auto simp: alarm_step_def Let_def split: if_splits)



end
