(* ===== verification/Core_Guest.thy ===== *)
theory Core_Guest
  imports Core_Deadline
begin

text \<open>
  The imports as the guest calls them, and the guest running until it is unwound (host/core.mjs,
  \<open>imports\<close> and \<open>suspend\<close>). The guest is a WebAssembly module, which is not in the repository: what
  its instance does is the parameter \<open>'g guest\<close>. An instance runs to its next act: it calls an
  import, returns from the export it was entered by, or traps. Between two acts it may write its
  memory and the wall clock may go on.
\<close>

section \<open>The guest\<close>

datatype import_call =
    ConsoleWrite nat nat
  | TimeNow
  | UartPollOut nat nat
  | UartPollIn nat
  | SetAlarm ns
  | WaitForEvent
  | SwitchTo
  | EntropyGet nat nat
  | GpioOut nat "32 word"
  | GpioIn nat
  | SafepointTick
  | StorageAttach nat nat
  | DoReboot int
  | DisplayAttach nat nat nat nat
  | DisplayFlush int int int int
  | DisplayBlank int
  | InputPoll nat
  | EthSend nat nat
  | EthRecv nat int
  | SensorPoll nat
  | Semihost int nat
  | Fatal nat int

datatype act = Import import_call | Return | Trap

text \<open>What \<open>boot\<close> reads from a new instance's exports.\<close>

record 'g image =
  image_inst :: 'g
  image_mem :: "nat list"
  image_switch_block :: nat
  image_irq_pending :: nat
  image_scratch :: nat
  image_masked :: "nat option"
  image_enabled :: "nat option"

text \<open>
  An instance. \<open>enter\<close> calls an export, \<open>run_on\<close> runs to the next act and says how much wall-clock time
  that took, \<open>answer\<close> is the return from an import. The rest are Asyncify's functions and
  \<open>__stack_pointer\<close>. Asyncify's functions only set the instance's mode; the one condition on which
  they trap (the buffer's cursor past its end) is what \<open>check_buffer\<close> tests first.
\<close>

record 'g guest =
  enter :: "string \<Rightarrow> nat \<Rightarrow> 'g \<Rightarrow> 'g"
  run_on :: "nat list \<Rightarrow> 'g \<Rightarrow> (act \<times> ns) \<times> nat list \<times> 'g"
  answer :: "int \<Rightarrow> 'g \<Rightarrow> 'g"
  asyncify_state :: "'g \<Rightarrow> nat"
  start_unwind :: "nat \<Rightarrow> 'g \<Rightarrow> 'g"
  stop_unwind :: "'g \<Rightarrow> 'g"
  start_rewind :: "nat \<Rightarrow> 'g \<Rightarrow> 'g"
  stop_rewind :: "'g \<Rightarrow> 'g"
  stack_pointer :: "'g \<Rightarrow> nat"
  set_stack_pointer :: "nat \<Rightarrow> 'g \<Rightarrow> 'g"
  has_trap_handler :: bool
  fresh_image :: "'g image"

abbreviation (input) NORMAL :: nat where "NORMAL \<equiv> 0"
abbreviation (input) UNWINDING :: nat where "UNWINDING \<equiv> 1"
abbreviation (input) REWINDING :: nat where "REWINDING \<equiv> 2"

section \<open>Suspending\<close>

record switch_block =
  from_sp :: nat
  from_buf :: nat
  to_sp :: nat
  to_buf :: nat
  to_fresh :: nat
  to_arg :: nat

definition read_switch_block :: "('g, 'l) host \<Rightarrow> switch_block" where
  "read_switch_block h =
    (let w = (\<lambda>i. unat (mem_word (mem h) (switch_block_addr h + 4 * i)))
     in \<lparr>from_sp = w 0, from_buf = w 1, to_sp = w 2, to_buf = w 3, to_fresh = w 4, to_arg = w 5\<rparr>)"

definition current_ctx :: "('g, 'l) host \<Rightarrow> ctx" where
  "current_ctx h = store h ! current h"

definition suspend :: "'g guest \<Rightarrow> bool \<Rightarrow> bool \<Rightarrow> ('g, 'l) host \<Rightarrow> ('g, 'l) host" where
  "suspend G idle fatal h =
    (let blk = read_switch_block h;
         into = (if idle \<or> fatal then buf (current_ctx h)
                 else if from_buf blk \<noteq> 0 then from_buf blk else scratch_buf h)
     in h\<lparr>current_sp := stack_pointer G (inst h), resume_same := idle, pending_fatal := fatal,
          unwound_into := Some into, inst := start_unwind G into (inst h)\<rparr>)"

section \<open>The imports\<close>

text \<open>What ends an import, or a call of an export, otherwise than by returning.\<close>

datatype thrown = Stopped stop | Trapped

text \<open>A view of \<open>len\<close> bytes at \<open>ptr\<close> can only be made inside the memory; one of 32-bit integers only
  at a multiple of four.\<close>

definition in_memory ::
  "nat \<Rightarrow> nat \<Rightarrow> nat \<Rightarrow> ('g, 'l) host \<Rightarrow> (thrown \<times> ('g, 'l) host) + 'a \<Rightarrow> (thrown \<times> ('g, 'l) host) + 'a" where
  "in_memory align ptr len h k =
    (if ptr mod align \<noteq> 0 \<or> ptr + len > length (mem h) then Inl (Stopped (Failed RangeError), h) else k)"

definition wait_or_switch :: "'g guest \<Rightarrow> bool \<Rightarrow> ('g, 'l) host \<Rightarrow> ('g, 'l) host" where
  "wait_or_switch G idle h =
    (if asyncify_state G (inst h) = REWINDING then h\<lparr>inst := stop_rewind G (inst h)\<rparr>
     else suspend G idle False h)"

definition host_semihost :: "int \<Rightarrow> nat \<Rightarrow> ('g, 'l) host \<Rightarrow> (js_error + int \<times> ('g, 'l) host) option" where
  "host_semihost op args h =
    map_option (map_sum id (\<lambda>(r, m). (r, h\<lparr>mem := sh_mem m, sh := sh_state m, con := sh_con m\<rparr>)))
      (semihost op args \<lparr>sh_mem = mem h, sh_state = sh h, sh_con = con h\<rparr>)"

text \<open>One import: what it returns (0 where the guest gets nothing) and the host after it. Only
  semihosting can fail to return.\<close>

definition do_import ::
  "'g guest \<Rightarrow> 'l lan_ops \<Rightarrow> import_call \<Rightarrow> ('g, 'l) host \<Rightarrow>
    ((thrown \<times> ('g, 'l) host) + int \<times> ('g, 'l) host) option" where
  "do_import G ops call h =
    (case call of
      ConsoleWrite ptr len \<Rightarrow> Some (in_memory 1 ptr len h
        (Inr (0, h\<lparr>con := console_write (js_slice (mem h) ptr (ptr + len)) (con h)\<rparr>)))
    | TimeNow \<Rightarrow> Some (Inr (time_ns h, h))
    | UartPollOut port c \<Rightarrow> Some (Inr (0, host_poll_out port c h))
    | UartPollIn port \<Rightarrow> Some (Inr (host_poll_in port h))
    | SetAlarm deadline \<Rightarrow> Some (Inr (0, set_alarm deadline h))
    | WaitForEvent \<Rightarrow> Some (Inr (0, wait_or_switch G True h))
    | SwitchTo \<Rightarrow> Some (Inr (0, wait_or_switch G False h))
    | EntropyGet ptr len \<Rightarrow> Some (in_memory 1 ptr len h (Inr (0, entropy_get ptr len h)))
    | GpioOut port values \<Rightarrow> Some (Inr (0, h\<lparr>dev := gpio_out port values (dev h)\<rparr>))
    | GpioIn port \<Rightarrow> Some (Inr (uint (gpio_in port (dev h)), h))
    | SafepointTick \<Rightarrow> Some (map_sum (\<lambda>(s, h). (Stopped s, h)) (\<lambda>h. (0, h)) (safepoint_tick h))
    | StorageAttach ptr len \<Rightarrow> Some (if storage_image h = None then Inr (0, storage_attach ptr len h)
        else if length (the (storage_image h)) \<noteq> len then Inr (0, storage_attach ptr len h)
        else in_memory 1 ptr len (h\<lparr>storage := Some (ptr, len)\<rparr>) (Inr (0, storage_attach ptr len h)))
    | DoReboot _ \<Rightarrow> Some (Inl (Stopped Rebooting, h))
    | DisplayAttach ptr w ht fmt \<Rightarrow> Some (Inr (0, h\<lparr>disp := Some (display_attach ptr w ht fmt)\<rparr>))
    | DisplayFlush x y w ht \<Rightarrow> Some (Inr (0, h\<lparr>disp := display_flush x y w ht (disp h)\<rparr>))
    | DisplayBlank on \<Rightarrow> Some (Inr (0, h\<lparr>disp := display_blank on (disp h)\<rparr>))
    | InputPoll ptr \<Rightarrow> Some (if input_queue (dev h) = [] then Inr (host_input_poll ptr h)
        else in_memory 4 ptr 16 (h\<lparr>dev := (dev h)\<lparr>input_queue := tl (input_queue (dev h))\<rparr>\<rparr>)
          (Inr (host_input_poll ptr h)))
    | EthSend ptr len \<Rightarrow> Some (in_memory 1 ptr len h
        (Inr (0, eth_send ops (js_slice (mem h) ptr (ptr + len)) h)))
    | EthRecv ptr room \<Rightarrow> Some (let r = host_eth_recv ptr room h
        in if eth_received (dev (snd r)) = eth_received (dev h) then Inr r
           else in_memory 1 ptr (nat (fst r))
             (h\<lparr>dev := (dev h)\<lparr>eth_queue := tl (eth_queue (dev h))\<rparr>\<rparr>) (Inr r))
    | SensorPoll ptr \<Rightarrow> Some (if sensor_queue (dev h) = [] then Inr (host_sensor_poll ptr h)
        else in_memory 4 ptr 12 (h\<lparr>dev := (dev h)\<lparr>sensor_queue := tl (sensor_queue (dev h))\<rparr>\<rparr>)
          (Inr (host_sensor_poll ptr h)))
    | Semihost op args \<Rightarrow>
        map_option (map_sum (\<lambda>e. (Stopped (Failed e), h)) id) (host_semihost op args h)
    | Fatal _ _ \<Rightarrow>
        Some (Inr (0, suspend G False True (h\<lparr>host_done := True, exit_code := 1\<rparr>))))"

section \<open>Running\<close>

text \<open>The guest runs until it is back from the export it was entered by, or something is thrown
  through it. It may run for ever: then the result is \<open>None\<close>.\<close>

partial_function (option) run_guest ::
  "'g guest \<Rightarrow> 'l lan_ops \<Rightarrow> ('g, 'l) host \<Rightarrow> ((thrown \<times> ('g, 'l) host) + ('g, 'l) host) option" where
  "run_guest G ops h =
    (case run_on G (mem h) (inst h) of
      ((a, took), m, g) \<Rightarrow>
      (let h = h\<lparr>mem := m, inst := g, wall_ns := wall_ns h + took\<rparr>
       in case a of
         Return \<Rightarrow> Some (Inr h)
       | Trap \<Rightarrow> Some (Inl (Trapped, h))
       | Import call \<Rightarrow>
         Option.bind (do_import G ops call h)
           (\<lambda>r. case r of
             Inl e \<Rightarrow> Some (Inl e)
           | Inr (v, h) \<Rightarrow> run_guest G ops (h\<lparr>inst := answer G v (inst h)\<rparr>))))"

definition call_export ::
  "'g guest \<Rightarrow> 'l lan_ops \<Rightarrow> string \<Rightarrow> nat \<Rightarrow> ('g, 'l) host \<Rightarrow>
    ((thrown \<times> ('g, 'l) host) + ('g, 'l) host) option" where
  "call_export G ops name x h = run_guest G ops (h\<lparr>inst := enter G name x (inst h)\<rparr>)"

end
