(* ===== verification/Core_Step.thy ===== *)
theory Core_Step
  imports Core_Guest
begin

text \<open>
  The driver loop (host/core.mjs, \<open>boot\<close>, \<open>resetForReboot\<close>, \<open>step\<close>, \<open>runStep\<close> and \<open>runUntil\<close>): enter the
  current context, let it run until it unwinds, and go on with the same one or the one the guest
  names. Diagnostics, tracing and the report to whoever shows the run are left out.
\<close>

section \<open>Boot and reboot\<close>

abbreviation (input) Z_WASM_BOOT :: string where "Z_WASM_BOOT \<equiv> ''z_wasm_boot''"
abbreviation (input) Z_WASM_TRAP :: string where "Z_WASM_TRAP \<equiv> ''z_wasm_trap''"
abbreviation (input) Z_WASM_THREAD_ENTRY :: string where "Z_WASM_THREAD_ENTRY \<equiv> ''z_wasm_thread_entry''"

text \<open>A new context object.\<close>

definition enter_new :: "ctx \<Rightarrow> ('g, 'l) host \<Rightarrow> ('g, 'l) host" where
  "enter_new c h = h\<lparr>store := store h @ [c], current := length (store h)\<rparr>"

definition boot :: "'g guest \<Rightarrow> ('g, 'l) host \<Rightarrow> ('g, 'l) host" where
  "boot G h =
    (let im = fresh_image G
     in enter_new \<lparr>entry = Z_WASM_BOOT, arg = 0, buf = image_scratch im, sp = None, fresh = True\<rparr>
       (h\<lparr>inst := image_inst im, mem := image_mem im, storage := None, disp := None,
          switch_block_addr := image_switch_block im, irq_pending_addr := image_irq_pending im,
          scratch_buf := image_scratch im, masked_addr := image_masked im,
          enabled_addr := image_enabled im\<rparr>))"

definition reset_for_reboot :: "('g, 'l) host \<Rightarrow> ('g, 'l) host" where
  "reset_for_reboot h =
    h\<lparr>deadline_ns := deadline_ns h - time_ns h, epoch_ns := epoch_ns h + now_ns h, now_ns := 0,
      con := (con h)\<lparr>uart_ready_ns := 0\<rparr>, started_at := wall_ns h, alarm_ns := None,
      alarm_is_clamp := False, quiescent_rounds := 0, contexts := [], resume_same := False,
      pending_fatal := False, unwound_into := None,
      dev := (dev h)\<lparr>gpio := (gpio (dev h))[0 := (gpio (dev h) ! 0)\<lparr>gpio_out_level := 0\<rparr>]\<rparr>\<rparr>"

definition start_host :: "'g guest \<Rightarrow> ('g, 'l) host \<Rightarrow> ('g, 'l) host" where
  "start_host G h = (boot G h)\<lparr>deadline_ns := int (max_time_ms (opts h)) * 1000000\<rparr>"

section \<open>Traps\<close>

text \<open>The end of a halt the guest asked for?\<close>

definition halted :: "'g guest \<Rightarrow> thrown \<Rightarrow> ('g, 'l) host \<Rightarrow> bool \<times> ('g, 'l) host" where
  "halted G t h =
    (if \<not> pending_fatal h \<or> t \<noteq> Trapped then (False, h)
     else (True, if asyncify_state G (inst h) = UNWINDING then h\<lparr>inst := stop_unwind G (inst h)\<rparr> else h))"

definition update_ctx :: "nat \<Rightarrow> (ctx \<Rightarrow> ctx) \<Rightarrow> ('g, 'l) host \<Rightarrow> ('g, 'l) host" where
  "update_ctx i f h = h\<lparr>store := (store h)[i := f (store h ! i)]\<rparr>"

text \<open>A trap becomes a CPU exception in the guest, where that can be trusted; otherwise it goes on up.\<close>

definition raise_trap ::
  "'g guest \<Rightarrow> 'l lan_ops \<Rightarrow> nat \<Rightarrow> thrown \<Rightarrow> ('g, 'l) host \<Rightarrow>
    ((thrown \<times> ('g, 'l) host) + ('g, 'l) host) option" where
  "raise_trap G ops i t h =
    (let c = store h ! i
     in if t \<noteq> Trapped \<or> \<not> has_trap_handler G \<or> buf c = scratch_buf h \<or> entry c = Z_WASM_TRAP \<or>
          asyncify_state G (inst h) \<noteq> NORMAL
        then Some (Inl (t, h))
        else (let h = h\<lparr>traps := traps h + 1\<rparr>
          in if traps h > MAX_TRAPS then Some (Inl (t, h))
             else (let h = update_ctx i (\<lambda>c. c\<lparr>entry := Z_WASM_TRAP, arg := 0\<rparr>)
                 (h\<lparr>mem := mem_put (buf c) (word_bytes (word_of_nat (buf c + 8))) (mem h)\<rparr>)
               in case call_export G ops Z_WASM_TRAP 0 h of
                 None \<Rightarrow> None
               | Some (Inr h) \<Rightarrow> Some (Inr h)
               | Some (Inl (again, h)) \<Rightarrow>
                   (case halted G again h of
                     (True, h) \<Rightarrow> Some (Inr h)
                   | (False, h) \<Rightarrow> Some (Inl (again, h))))))"

section \<open>One step\<close>

definition buffer_ok :: "nat \<Rightarrow> ('g, 'l) host \<Rightarrow> bool" where
  "buffer_ok b h \<longleftrightarrow>
    (let cursor = unat (mem_word (mem h) b); last = unat (mem_word (mem h) (b + 4))
     in b + 8 \<le> cursor \<and> cursor \<le> last)"

text \<open>Enter the context: rewind into it unless it has never run.\<close>

definition enter_ctx :: "'g guest \<Rightarrow> nat \<Rightarrow> ('g, 'l) host \<Rightarrow> ('g, 'l) host" where
  "enter_ctx G i h =
    (let c = store h ! i;
         g = (case sp c of None \<Rightarrow> inst h | Some s \<Rightarrow> set_stack_pointer G s (inst h));
         g = (if fresh c then g else start_rewind G (buf c) g)
     in update_ctx i (\<lambda>c. c\<lparr>fresh := False\<rparr>) (h\<lparr>inst := g\<rparr>))"

text \<open>The guest is idle. \<open>deliverableIrqs() === 0\<close>, then whether anything latched could be taken.\<close>

definition latched_ready :: "('g, 'l) host \<Rightarrow> 32 word" where
  "latched_ready h = external_irqs (dev h) AND enabled_lines h"

definition failed :: "('g, 'l) host \<Rightarrow> (js_error + 'a) option \<Rightarrow> ((thrown \<times> ('g, 'l) host) + 'a) option" where
  "failed h r = map_option (map_sum (\<lambda>e. (Stopped (Failed e), h)) id) r"

definition due_frame :: "('g, 'l) host \<Rightarrow> ('g, 'l) host" where
  "due_frame h = (case host_next_frame h of
      None \<Rightarrow> h
    | Some at \<Rightarrow> if at \<le> now_ns h then host_inject IRQ_ETH h else h)"

text \<open>
  Waiting for the wall clock: time passes as it does for whoever is watching, and the host sleeps
  towards the next deadline \<open>at\<close>, for a time that is taken to the nanosecond.
\<close>

definition idle_wait :: "ns option \<Rightarrow> ns \<Rightarrow> speed \<Rightarrow> ns" where
  "idle_wait at now s = (case at of
      None \<Rightarrow> PACE_IDLE_NS
    | Some t \<Rightarrow> min PACE_IDLE_NS ((t - now) * int (snd s) div int (fst s)))"

definition paced_idle ::
  "'l lan_ops \<Rightarrow> anchor \<Rightarrow> ns option \<Rightarrow> ns \<Rightarrow> ('g, 'l) host \<Rightarrow> (js_error + bool \<times> ('g, 'l) host) option" where
  "paced_idle ops p at by_wall h =
    (let h = set_now by_wall h;
         h = (case lan h of
             None \<Rightarrow> h
           | Some l \<Rightarrow> (let (fs, l) = lan_advance ops (global_ns h) l in from_lan ops fs l h));
         sleep = (\<lambda>h. h\<lparr>idle_wait_ns := idle_wait at (now_ns h) (pace_scale p)\<rparr>)
     in case hci h of
       None \<Rightarrow> Some (Inr (True, sleep (due_frame h)))
     | Some c \<Rightarrow> map_option (map_sum id (\<lambda>c. (True, sleep (due_frame (take_air (h\<lparr>hci := Some c\<rparr>))))))
         (hci_advance (now_ns h) c))"

definition interactive_idle ::
  "'l lan_ops \<Rightarrow> ('g, 'l) host \<Rightarrow> (js_error + bool \<times> ('g, 'l) host) option" where
  "interactive_idle ops h =
    (case pace h of
      None \<Rightarrow> advance_to_next_deadline ops None False h
    | Some p \<Rightarrow>
      (let by_wall = pace_guest p + times_speed (wall_ns h - pace_wall p) (pace_scale p)
       in case next_deadline_ns ops h of
         Inl e \<Rightarrow> Some (Inl e)
       | Inr at \<Rightarrow>
         if at = None \<or> the at > by_wall then paced_idle ops p at by_wall h
         else advance_to_next_deadline ops None False h))"

text \<open>The result says whether the run goes on.\<close>

definition idle_step ::
  "'l lan_ops \<Rightarrow> ('g, 'l) host \<Rightarrow> ((thrown \<times> ('g, 'l) host) + bool \<times> ('g, 'l) host) option" where
  "idle_step ops h =
    (let pending = deliverable_irqs h; line = type_next_line (con h);
         quiet = (pending = 0 \<and> latched_ready h = 0)
     in if pending = 0 \<and> fst line then Some (Inr (True, h\<lparr>con := snd line\<rparr>))
        else if in_pair (opts h)
        then (if \<not> quiet then Some (Inr (True, h))
              else map_option (map_sum id (\<lambda>(r, h). (True, if r then h else h\<lparr>idle_until := Some None\<rparr>)))
                (failed h (advance_to_next_deadline ops (step_limit_ns h) (pair_paced (opts h)) h)))
        else if interactive (opts h)
        then (let h = h\<lparr>yield_to_host := True\<rparr>
          in if pending \<noteq> 0 then Some (Inr (True, h))
             else map_option (map_sum id (\<lambda>(r, h). (True, h))) (failed h (interactive_idle ops h)))
        else (if \<not> quiet then Some (Inr (True, h))
              else failed h (advance_to_next_deadline ops None False h)))"

text \<open>A switch, to the context the guest named.\<close>

definition switch_step :: "('g, 'l) host \<Rightarrow> (thrown \<times> ('g, 'l) host) + bool \<times> ('g, 'l) host" where
  "switch_step h =
    (let blk = read_switch_block h; h = h\<lparr>switches := switches h + 1\<rparr>
     in if to_fresh blk \<noteq> 0
        then Inr (True, enter_new \<lparr>entry = Z_WASM_THREAD_ENTRY, arg = to_arg blk, buf = to_buf blk,
          sp = Some (to_sp blk), fresh = True\<rparr> h)
        else case map_of (contexts h) (to_buf blk) of
          None \<Rightarrow> Inl (Stopped (Failed (UnknownContext (to_buf blk))), h)
        | Some i \<Rightarrow> Inr (True, h\<lparr>current := i\<rparr>))"

text \<open>The context has unwound: note where it stopped.\<close>

definition note_ctx :: "nat \<Rightarrow> ('g, 'l) host \<Rightarrow> ('g, 'l) host" where
  "note_ctx i h =
    (let h = update_ctx i (\<lambda>c. c\<lparr>sp := Some (current_sp h),
        buf := (case unwound_into h of None \<Rightarrow> buf c | Some b \<Rightarrow> b)\<rparr>) h
     in h\<lparr>contexts := AList.update (buf (store h ! i)) i (contexts h)\<rparr>)"

definition after_run ::
  "'g guest \<Rightarrow> 'l lan_ops \<Rightarrow> nat \<Rightarrow> ('g, 'l) host \<Rightarrow>
    ((thrown \<times> ('g, 'l) host) + bool \<times> ('g, 'l) host) option" where
  "after_run G ops i h =
    (if asyncify_state G (inst h) \<noteq> UNWINDING then Some (Inr (False, h))
     else if unwound_into h \<noteq> None \<and> \<not> buffer_ok (the (unwound_into h)) h
     then Some (Inr (False, h\<lparr>host_done := True, exit_code := 1\<rparr>))
     else (let h = h\<lparr>inst := stop_unwind G (inst h)\<rparr>
       in if pending_fatal h then Some (Inr (False, h))
          else (let h = note_ctx i h
            in if resume_same h then idle_step ops h else Some (switch_step h))))"

definition step ::
  "'g guest \<Rightarrow> 'l lan_ops \<Rightarrow> ('g, 'l) host \<Rightarrow> ((thrown \<times> ('g, 'l) host) + bool \<times> ('g, 'l) host) option" where
  "step G ops h =
    (let i = current h; c = store h ! i
     in case call_export G ops (entry c) (arg c) (enter_ctx G i h) of
       None \<Rightarrow> None
     | Some (Inr h) \<Rightarrow> after_run G ops i h
     | Some (Inl (t, h)) \<Rightarrow>
       (case halted G t h of
         (True, h) \<Rightarrow> Some (Inr (False, h))
       | (False, h) \<Rightarrow>
         (case raise_trap G ops i t h of
           None \<Rightarrow> None
         | Some (Inl e) \<Rightarrow> Some (Inl e)
         | Some (Inr h) \<Rightarrow> if pending_fatal h then Some (Inr (False, h)) else after_run G ops i h)))"

section \<open>The run loop\<close>

definition raise_due_frame :: "('g, 'l) host \<Rightarrow> ('g, 'l) host" where
  "raise_due_frame h =
    (case eth_queue (dev h) of
      [] \<Rightarrow> h
    | (at, _) # _ \<Rightarrow> if at \<le> global_ns h then host_inject IRQ_ETH h else h)"

text \<open>Once for each byte that has come down the wire.\<close>

definition raise_uart :: "('g, 'l) host \<Rightarrow> ('g, 'l) host" where
  "raise_uart h =
    (if uart_ready (now_ns h) (con h) \<and> uart_raised_at (con h) \<le> uart_taken (con h)
     then host_inject IRQ_UART (h\<lparr>con := (con h)\<lparr>uart_raised_at := uart_taken (con h) + 1\<rparr>\<rparr>)
     else h)"

definition raise_hci :: "('g, 'l) host \<Rightarrow> (js_error + ('g, 'l) host) option" where
  "raise_hci h =
    (case hci h of
      None \<Rightarrow> Some (Inr h)
    | Some c \<Rightarrow>
      (case hci_advance (now_ns h) c of
        None \<Rightarrow> None
      | Some (Inl e) \<Rightarrow> Some (Inl e)
      | Some (Inr c) \<Rightarrow>
        Some (Inr (take_air
          (if hci_rx_ready (now_ns h) c \<and> hci_raised_at c \<le> hci_taken c
           then host_inject IRQ_UART1 (h\<lparr>hci := Some (hci_set_raised_at (hci_taken c + 1) c)\<rparr>)
           else h\<lparr>hci := Some c\<rparr>)))))"

text \<open>Apply what was raised from outside, on the lines the guest has enabled; the rest stays latched.\<close>

fun raise_lines :: "32 word \<Rightarrow> nat list \<Rightarrow> ('g, 'l) host \<Rightarrow> ('g, 'l) host" where
  "raise_lines ready [] h = h"
| "raise_lines ready (l # ls) h = raise_lines ready ls (if ready AND line_bit l \<noteq> 0 then raise_irq l h else h)"

definition apply_external :: "('g, 'l) host \<Rightarrow> ('g, 'l) host" where
  "apply_external h =
    (if external_irqs (dev h) = 0 then h
     else (let ready = latched_ready h; h = raise_lines ready [0..<32] h
       in h\<lparr>dev := (dev h)\<lparr>external_irqs := external_irqs (dev h) AND NOT ready\<rparr>\<rparr>))"

definition step_prepared ::
  "'g guest \<Rightarrow> 'l lan_ops \<Rightarrow> ('g, 'l) host \<Rightarrow> ((thrown \<times> ('g, 'l) host) + bool \<times> ('g, 'l) host) option" where
  "step_prepared G ops h =
    (case check_deadline h of
      Some s \<Rightarrow> Some (Inl (Stopped s, h))
    | None \<Rightarrow>
      (let h = raise_uart (raise_due_frame (h\<lparr>step_started_at := Some (wall_ns h)\<rparr>))
       in case raise_hci h of
         None \<Rightarrow> None
       | Some (Inl e) \<Rightarrow> Some (Inl (Stopped (Failed e), h))
       | Some (Inr h) \<Rightarrow> step G ops (apply_external h)))"

definition do_reboot :: "'g guest \<Rightarrow> ('g, 'l) host \<Rightarrow> (thrown \<times> ('g, 'l) host) + bool \<times> ('g, 'l) host" where
  "do_reboot G h =
    (case flash_image h of
      Inl e \<Rightarrow> Inl (Stopped (Failed e), h)
    | Inr img \<Rightarrow>
      (let h = h\<lparr>storage_image := img, reboots := reboots h + 1\<rparr>
       in if reboots h > max_reboots (opts h) then Inr (False, h\<lparr>exit_code := 2\<rparr>)
          else Inr (True, boot G (reset_for_reboot h))))"

text \<open>What is thrown out of a step ends the run or reboots the board; an error that is neither the
  guest's nor the host's own giving up goes on up.\<close>

definition run_step ::
  "'g guest \<Rightarrow> 'l lan_ops \<Rightarrow> ('g, 'l) host \<Rightarrow> ((thrown \<times> ('g, 'l) host) + bool \<times> ('g, 'l) host) option" where
  "run_step G ops h =
    (case step_prepared G ops h of
      None \<Rightarrow> None
    | Some (Inr r) \<Rightarrow> Some (Inr r)
    | Some (Inl (t, h)) \<Rightarrow> Some (case t of
        Stopped Rebooting \<Rightarrow> do_reboot G h
      | Stopped AtMaxTime \<Rightarrow> Inr (False, h\<lparr>exit_code := (if stop_at_max_time (opts h) then 0 else 2)\<rparr>)
      | Stopped Hang \<Rightarrow> Inr (False, h\<lparr>exit_code := 2\<rparr>)
      | _ \<Rightarrow> Inl (t, h)))"

datatype reason = Done | Limit | Idle "ns option" | Budget

fun run_until_steps ::
  "nat \<Rightarrow> 'g guest \<Rightarrow> 'l lan_ops \<Rightarrow> ('g, 'l) host \<Rightarrow> ((thrown \<times> ('g, 'l) host) + reason \<times> ('g, 'l) host) option" where
  "run_until_steps 0 G ops h = Some (Inr (Budget, h))"
| "run_until_steps (Suc n) G ops h =
    (if host_done h then Some (Inr (Done, h))
     else if step_limit_ns h \<noteq> None \<and> now_ns h \<ge> the (step_limit_ns h) then Some (Inr (Limit, h))
     else case run_step G ops (h\<lparr>idle_until := None\<rparr>) of
       None \<Rightarrow> None
     | Some (Inl e) \<Rightarrow> Some (Inl e)
     | Some (Inr (False, h)) \<Rightarrow> Some (Inr (Done, h\<lparr>host_done := True\<rparr>))
     | Some (Inr (True, h)) \<Rightarrow>
       (case idle_until h of
         Some at \<Rightarrow> Some (Inr (Idle (map_option (\<lambda>t. t + epoch_ns h) at), h))
       | None \<Rightarrow> run_until_steps n G ops h))"

definition run_until ::
  "'g guest \<Rightarrow> 'l lan_ops \<Rightarrow> ns option \<Rightarrow> nat \<Rightarrow> ('g, 'l) host \<Rightarrow>
    ((thrown \<times> ('g, 'l) host) + reason \<times> ('g, 'l) host) option" where
  "run_until G ops limit max_steps h =
    run_until_steps max_steps G ops (h\<lparr>step_limit_ns := map_option (\<lambda>t. t - epoch_ns h) limit\<rparr>)"

end
