(* ===== verification/Core_Run.thy ===== *)
theory Core_Run
  imports Core_Step
begin

text \<open>
  What the driver loop guarantees: no interrupt raised from outside is lost, a byte on a UART raises
  its line once, contexts are resumed where they left, a reboot keeps the run's timeline, and a guest
  that spins is stopped.
\<close>

section \<open>Words in memory\<close>

lemma length_word_bytes [simp]: "length (word_bytes w) = 4"
  by (simp add: word_bytes_def)

lemma length_mem_put [simp]: "a + length bs \<le> length m \<Longrightarrow> length (mem_put a bs m) = length m"
  by (simp add: mem_put_def)

lemma byte_at_mem_put:
  assumes "a + length bs \<le> length m"
  shows "byte_at (mem_put a bs m) i = (if a \<le> i \<and> i < a + length bs then bs ! (i - a) else byte_at m i)"
  using assms by (auto simp: byte_at_def mem_put_def nth_append)

lemma word_bytes_eq:
  "word_bytes w = [unat w mod 256, unat w div 256 mod 256, unat w div 65536 mod 256,
    unat w div 65536 div 256 mod 256]"
  by (simp add: word_bytes_def le16_def)

lemma mem_word_put [simp]:
  assumes "a + 4 \<le> length m"
  shows "mem_word (mem_put a (word_bytes w) m) a = w"
proof -
  define n where "n = unat w"
  have unat_less: "unat w < 2 ^ LENGTH(32)" by (rule unsigned_less)
  have n: "n div 65536 div 256 < 256"
    using unat_less by (simp add: n_def less_mult_imp_div_less flip: div_mult2_eq)
  have sum: "a + 256 * b + 65536 * (c + 256 * d) = x"
    if "x = 65536 * q + r" "r = 256 * b + a" "q = 256 * d + c" for x q r a b c d :: nat
    using that by simp
  have bytes_of: "k mod 256 + 256 * (k div 256 mod 256) +
      65536 * (k div 65536 mod 256 + 256 * (k div 65536 div 256)) = k" for k :: nat
  proof (rule sum)
    show "k = 65536 * (k div 65536) + k mod 65536" by (rule mult_div_mod_eq [symmetric])
    show "k mod 65536 = 256 * (k div 256 mod 256) + k mod 256"
      using mod_mult2_eq [of k 256 256] by simp
    show "k div 65536 = 256 * (k div 65536 div 256) + k div 65536 mod 256"
      by (rule mult_div_mod_eq [symmetric])
  qed
  have top: "n div 65536 div 256 mod 256 = n div 65536 div 256" using n by simp
  have at: "byte_at (mem_put a (word_bytes w) m) (a + i) = word_bytes w ! i" if "i < 4" for i
    using assms that by (simp add: byte_at_mem_put)
  have "rd16 (mem_put a (word_bytes w) m) a = n mod 256 + 256 * (n div 256 mod 256)"
    using at [of 0] at [of 1] by (simp add: rd16_def word_bytes_eq n_def)
  moreover have "rd16 (mem_put a (word_bytes w) m) (a + 2) =
      n div 65536 mod 256 + 256 * (n div 65536 div 256 mod 256)"
    using at [of 2] at [of 3] by (simp add: rd16_def word_bytes_eq n_def numeral_3_eq_3)
  ultimately have "rd16 (mem_put a (word_bytes w) m) a + 65536 * rd16 (mem_put a (word_bytes w) m) (a + 2)
      = n"
    using bytes_of [of n] unfolding top by (simp only:)
  then show ?thesis by (simp add: mem_word_def n_def)
qed

section \<open>Interrupts from outside\<close>

definition pending_word :: "('g, 'l) host \<Rightarrow> 32 word" where
  "pending_word h = mem_word (mem h) (irq_pending_addr h)"

lemma raise_irq_frame [simp]:
  "irq_pending_addr (raise_irq l h) = irq_pending_addr h" "dev (raise_irq l h) = dev h"
  by (simp_all add: raise_irq_def)

lemma raise_lines_frame [simp]:
  "irq_pending_addr (raise_lines ready ls h) = irq_pending_addr h"
  "dev (raise_lines ready ls h) = dev h"
  by (induction ready ls h rule: raise_lines.induct) simp_all

lemma ready_line: "l < 32 \<Longrightarrow> (ready AND line_bit l \<noteq> 0) = bit (ready :: 32 word) l"
proof -
  assume l: "l < 32"
  have "bit (ready AND line_bit l) n = (n = l \<and> bit ready l)" for n
    using l by (auto simp: bit_and_iff)
  then have "bit (ready AND line_bit l) l = bit ready l" and
    "\<not> bit ready l \<Longrightarrow> ready AND line_bit l = 0" by (auto intro: bit_eqI)
  then show ?thesis by fastforce
qed

lemma raise_lines_pending:
  assumes "irq_pending_addr h + 4 \<le> length (mem h)" and "set ls \<subseteq> {..<32}"
  shows "bit (pending_word (raise_lines ready ls h)) n \<longleftrightarrow>
      bit (pending_word h) n \<or> n \<in> set ls \<and> bit ready n"
  using assms
proof (induction ready ls h rule: raise_lines.induct)
  case (2 ready l ls h)
  have len: "length (mem (raise_irq l h)) = length (mem h)"
    using "2.prems" by (simp add: raise_irq_def)
  have "bit (pending_word (raise_irq l h)) n \<longleftrightarrow> bit (pending_word h) n \<or> n = l"
    using "2.prems" by (simp add: pending_word_def raise_irq_def bit_or_iff)
  with "2.IH" "2.prems" len show ?case by (auto simp: ready_line)
qed simp

text \<open>
  C9. Nothing raised from outside is lost: on each line the guest has enabled it becomes pending in
  the guest, and on the others it stays latched until the guest enables them; what was pending stays.
\<close>

theorem no_interrupt_lost:
  assumes "irq_pending_addr h + 4 \<le> length (mem h)" and "l < 32"
  shows "(bit (pending_word (apply_external h)) l \<longleftrightarrow>
      bit (pending_word h) l \<or> bit (external_irqs (dev h)) l \<and> bit (enabled_lines h) l) \<and>
    (bit (external_irqs (dev (apply_external h))) l \<longleftrightarrow>
      bit (external_irqs (dev h)) l \<and> \<not> bit (enabled_lines h) l)"
proof (cases "external_irqs (dev h) = 0")
  case True
  then show ?thesis by (simp add: apply_external_def)
next
  case False
  have "bit (pending_word (raise_lines (latched_ready h) [0..<32] h)) l \<longleftrightarrow>
      bit (pending_word h) l \<or> bit (latched_ready h) l"
    using assms(2) by (subst raise_lines_pending [OF assms(1)]) auto
  with False assms(2) show ?thesis
    by (auto simp: apply_external_def Let_def pending_word_def latched_ready_def bit_simps)
qed

section \<open>One interrupt for each byte\<close>

text \<open>What happens to the console's UART: the run loop's turn with the clock at some time, the guest
  reading a byte then, bytes arriving, and the guest reading through semihosting, which does not wait
  for the wire.\<close>

datatype uart_op = Turn ns | PollByte ns | Arrive "nat list" | Readc

definition readc :: "('g, 'l) host \<Rightarrow> ('g, 'l) host" where
  "readc h = (case host_semihost 7 0 h of Some (Inr (_, h')) \<Rightarrow> h' | _ \<Rightarrow> h)"

fun uart_do :: "uart_op \<Rightarrow> ('g, 'l) host \<Rightarrow> ('g, 'l) host" where
  "uart_do (Turn t) h = raise_uart (h\<lparr>now_ns := t\<rparr>)"
| "uart_do (PollByte t) h = snd (host_poll_in 0 (h\<lparr>now_ns := t\<rparr>))"
| "uart_do (Arrive bs) h = h\<lparr>con := (con h)\<lparr>input := input (con h) @ bs\<rparr>\<rparr>"
| "uart_do Readc h = readc h"

text \<open>How often the line is raised on the way.\<close>

fun uart_raises :: "uart_op list \<Rightarrow> ('g, 'l) host \<Rightarrow> nat" where
  "uart_raises [] h = 0"
| "uart_raises (op # ops) h =
    (if uart_raised_at (con (uart_do op h)) \<noteq> uart_raised_at (con h) then 1 else 0) +
    uart_raises ops (uart_do op h)"

fun arrived :: "uart_op \<Rightarrow> nat list" where
  "arrived (Arrive bs) = bs"
| "arrived _ = []"

lemma readc_con:
  "con (readc h) = (if input (con h) = [] then con h
    else (con h)\<lparr>uart_taken := uart_taken (con h) + 1, input := tl (input (con h))\<rparr>)"
  by (simp add: readc_def host_semihost_def semihost_def Let_def)

lemma raise_uart_con:
  "con (raise_uart h) = (if uart_ready (now_ns h) (con h) \<and> uart_raised_at (con h) \<le> uart_taken (con h)
    then (con h)\<lparr>uart_raised_at := uart_taken (con h) + 1\<rparr> else con h)"
  by (simp add: raise_uart_def host_inject_def)

lemma poll_in_con: "con (snd (host_poll_in 0 h)) = snd (uart_poll_in (now_ns h) (con h))"
  by (simp add: host_poll_in_def split_beta)

lemma uart_poll_in_simps:
  "uart_taken (snd (uart_poll_in t c)) + length (input (snd (uart_poll_in t c))) =
    uart_taken c + length (input c)"
  "uart_raised_at (snd (uart_poll_in t c)) = uart_raised_at c"
  by (cases "input c"; simp add: uart_poll_in_def uart_ready_def)+

lemma uart_do_total:
  "uart_taken (con (uart_do op h)) + length (input (con (uart_do op h))) =
    uart_taken (con h) + length (input (con h)) + length (arrived op)"
  by (cases op; cases "input (con h)")
    (simp_all add: raise_uart_con poll_in_con uart_poll_in_simps readc_con)

lemma uart_do_raised:
  assumes "uart_raised_at (con (uart_do op h)) \<noteq> uart_raised_at (con h)"
  shows "uart_raised_at (con h) < uart_raised_at (con (uart_do op h)) \<and>
    uart_raised_at (con (uart_do op h)) \<le> uart_taken (con h) + length (input (con h))"
proof (cases op)
  case (Turn t)
  with assms show ?thesis
    by (cases "input (con h)") (simp_all add: raise_uart_con uart_ready_def split: if_splits)
qed (use assms in \<open>simp_all add: poll_in_con uart_poll_in_simps readc_con split: if_splits\<close>)

lemma uart_raises_bound:
  assumes "uart_raised_at (con h) \<le> uart_taken (con h) + length (input (con h))"
  shows "uart_raises ops h + uart_raised_at (con h) \<le>
    uart_taken (con h) + length (input (con h)) + length (concat (map arrived ops))"
  using assms
proof (induction ops arbitrary: h)
  case (Cons op ops)
  define h' where "h' = uart_do op h"
  have total: "uart_taken (con h') + length (input (con h')) =
      uart_taken (con h) + length (input (con h)) + length (arrived op)"
    using uart_do_total [of op h] by (simp add: h'_def)
  have raised: "uart_raised_at (con h') \<noteq> uart_raised_at (con h) \<Longrightarrow>
      uart_raised_at (con h) < uart_raised_at (con h') \<and>
      uart_raised_at (con h') \<le> uart_taken (con h) + length (input (con h))"
    using uart_do_raised [of op h] by (simp add: h'_def)
  have "uart_raised_at (con h') \<le> uart_taken (con h') + length (input (con h'))"
    using Cons.prems total raised by (cases "uart_raised_at (con h') = uart_raised_at (con h)") auto
  from Cons.IH [OF this] total raised show ?case by (auto simp: h'_def [symmetric])
qed simp

text \<open>
  However long bytes wait, the UART's line is raised at most once for each, counting those read
  through semihosting; and at the end of every turn at which the next byte has come down the wire, it
  has been raised for that byte.
\<close>

theorem one_interrupt_per_byte:
  "uart_raises ops (new_host os held epoch gpio_inputs img wall g)
      \<le> length (concat (map arrived ops)) \<and>
   (input (con (raise_uart h)) = [] \<or> now_ns (raise_uart h) < uart_ready_ns (con (raise_uart h)) \<or>
     uart_taken (con (raise_uart h)) < uart_raised_at (con (raise_uart h)))"
  (is "uart_raises ops ?h \<le> _ \<and> _")
proof
  have "uart_raised_at (con ?h) = 0" "uart_taken (con ?h) = 0" "input (con ?h) = []"
    by (simp_all add: new_host_def initial_console_def)
  then show "uart_raises ops ?h \<le> length (concat (map arrived ops))"
    using uart_raises_bound [of ?h ops] by simp
  have "now_ns (raise_uart h) = now_ns h" by (simp add: raise_uart_def)
  then show "input (con (raise_uart h)) = [] \<or> now_ns (raise_uart h) < uart_ready_ns (con (raise_uart h)) \<or>
     uart_taken (con (raise_uart h)) < uart_raised_at (con (raise_uart h))"
    by (auto simp: raise_uart_con uart_ready_def)
qed

section \<open>What the guest's imports leave alone\<close>

definition ctxs :: "('g, 'l) host \<Rightarrow> ctx list \<times> (nat \<times> nat) list \<times> nat" where
  "ctxs h = (store h, contexts h, current h)"

lemma ctxs_update [simp]:
  "ctxs (h\<lparr>con := c\<rparr>) = ctxs h" "ctxs (h\<lparr>dev := d\<rparr>) = ctxs h" "ctxs (h\<lparr>mem := m\<rparr>) = ctxs h"
  "ctxs (h\<lparr>inst := g\<rparr>) = ctxs h" "ctxs (h\<lparr>disp := p\<rparr>) = ctxs h" "ctxs (h\<lparr>lan := l\<rparr>) = ctxs h"
  "ctxs (h\<lparr>storage := s\<rparr>) = ctxs h" "ctxs (h\<lparr>hci := b\<rparr>) = ctxs h" "ctxs (h\<lparr>wall_ns := t\<rparr>) = ctxs h"
  "ctxs (h\<lparr>host_done := q\<rparr>) = ctxs h" "ctxs (h\<lparr>exit_code := e\<rparr>) = ctxs h"
  "ctxs (h\<lparr>now_ns := t\<rparr>) = ctxs h" "ctxs (h\<lparr>traps := n\<rparr>) = ctxs h"
  by (simp_all add: ctxs_def)

lemma ctxs_take_air [simp]: "ctxs (take_air h) = ctxs h"
  by (simp add: take_air_def ctxs_def Let_def split: option.split hci.split)

lemma ctxs_raise_irq [simp]: "ctxs (raise_irq l h) = ctxs h"
  by (simp add: raise_irq_def ctxs_def)

lemma ctxs_poll [simp]:
  "ctxs (host_poll_out port c h) = ctxs h" "ctxs (snd (host_poll_in port h)) = ctxs h"
  by (simp_all add: host_poll_out_def host_poll_in_def split_beta)

lemma ctxs_push_ethernet [simp]: "ctxs (host_push_ethernet f t h) = ctxs h"
  by (simp add: host_push_ethernet_def)

lemma ctxs_fold: "(\<And>x h. ctxs (f x h) = ctxs h) \<Longrightarrow> ctxs (fold f xs h) = ctxs h"
  by (induction xs arbitrary: h) simp_all

lemma ctxs_from_lan [simp]: "ctxs (from_lan ops fs l h) = ctxs h"
  by (simp add: from_lan_def ctxs_fold)

lemma ctxs_eth_send [simp]: "ctxs (eth_send ops f h) = ctxs h"
  by (simp add: eth_send_def Let_def split_beta split: option.split) (simp add: ctxs_def)

lemma ctxs_recv [simp]:
  "ctxs (snd (host_eth_recv p n h)) = ctxs h"
  "ctxs (snd (host_input_poll p h)) = ctxs h" "ctxs (snd (host_sensor_poll p h)) = ctxs h"
  by (simp_all add: host_eth_recv_def host_input_poll_def host_sensor_poll_def ctxs_def split_beta
      split: prod.split option.split)

lemma ctxs_storage [simp]: "ctxs (storage_attach p n h) = ctxs h"
  by (simp add: storage_attach_def ctxs_def Let_def split: option.split)

lemma ctxs_entropy [simp]: "ctxs (entropy_get p n h) = ctxs h"
  by (simp add: entropy_get_def ctxs_def split_beta)

lemma ctxs_suspend [simp]: "ctxs (suspend G idle fatal h) = ctxs h"
  by (simp add: suspend_def ctxs_def Let_def)

lemma ctxs_wait [simp]: "ctxs (wait_or_switch G idle h) = ctxs h"
  by (simp add: wait_or_switch_def)

lemma ctxs_set_alarm [simp]: "ctxs (set_alarm d h) = ctxs h"
  by (simp add: set_alarm_def ctxs_def)

text \<open>Where control comes back to the host, by a return or an exception.\<close>

definition comes_to :: "(('g, 'l) host \<Rightarrow> bool) \<Rightarrow> ('a \<times> ('g, 'l) host) + ('b \<times> ('g, 'l) host) \<Rightarrow> bool" where
  "comes_to P r \<longleftrightarrow> (case r of Inl (_, h) \<Rightarrow> P h | Inr (_, h) \<Rightarrow> P h)"

lemma comes_to_simps [simp]: "comes_to P (Inl (a, h)) = P h" "comes_to P (Inr (b, h)) = P h"
  by (simp_all add: comes_to_def)

lemma comes_to_Inr [simp]: "comes_to P (Inr r) = P (snd r)"
  by (cases r) simp

lemma comes_to_in_memory [simp]:
  "P h \<Longrightarrow> comes_to P k \<Longrightarrow> comes_to P (in_memory a p n h k)"
  by (simp add: in_memory_def)

lemma ctxs_safepoint: "comes_to (\<lambda>h'. ctxs h' = ctxs h)
    (map_sum (\<lambda>(s, h). (Stopped s, h)) (\<lambda>h. (0 :: int, h)) (safepoint_tick h))"
  by (simp add: safepoint_tick_def Let_def split: option.split) (simp add: ctxs_def)

lemma ctxs_semihost:
  "host_semihost op args h = Some r \<Longrightarrow>
    comes_to (\<lambda>h'. ctxs h' = ctxs h) (map_sum (\<lambda>e. (Stopped (Failed e), h)) id r)"
  by (cases "semihost op args \<lparr>sh_mem = mem h, sh_state = sh h, sh_con = con h\<rparr>"; cases r)
    (auto simp: host_semihost_def ctxs_def map_sum_def split: sum.splits)

lemma do_import_ctxs:
  assumes "do_import G ops call h = Some r"
  shows "comes_to (\<lambda>h'. ctxs h' = ctxs h) r"
proof (cases call)
  case SafepointTick
  then show ?thesis using assms ctxs_safepoint [of h] by (auto simp: do_import_def)
next
  case (Semihost op args)
  then show ?thesis using assms ctxs_semihost [of op args h] by (auto simp: do_import_def)
qed (use assms in \<open>auto simp: do_import_def Let_def split: if_splits\<close>)

text \<open>Where the guest stops, whatever way.\<close>

definition stops_at :: "(('g, 'l) host \<Rightarrow> bool) \<Rightarrow> ('a \<times> ('g, 'l) host) + ('g, 'l) host \<Rightarrow> bool" where
  "stops_at P r \<longleftrightarrow> (case r of Inl (_, h) \<Rightarrow> P h | Inr h \<Rightarrow> P h)"

lemma stops_at_simps [simp]: "stops_at P (Inl (a, h)) = P h" "stops_at P (Inr h) = P h"
  by (simp_all add: stops_at_def)

text \<open>What every import and every stretch of the guest's own code keeps, a run of the guest keeps.\<close>

lemma run_guest_inv:
  assumes "run_guest G ops h = Some r" and "P h"
    and own: "\<And>h m g t. P h \<Longrightarrow> P (h\<lparr>mem := m, inst := g, wall_ns := wall_ns h + t\<rparr>)"
    and import: "\<And>call h r. P h \<Longrightarrow> do_import G ops call h = Some r \<Longrightarrow> comes_to P r"
  shows "stops_at P r"
proof -
  have answered: "P (h\<lparr>inst := g\<rparr>)" if "P h" for h g
    using own [OF that, where m = "mem h" and g = g and t = 0] by simp
  have "P h0 \<longrightarrow> own = G \<longrightarrow> lops = ops \<longrightarrow> stops_at P res"
    if "run_guest own lops h0 = Some res" for own lops h0 res
    using that
  proof (induction own lops h0 res rule: run_guest.raw_induct [rotated, consumes 1])
    case (1 run own lops h r)
    show ?case
    proof (intro impI)
      assume P: "P h" and [simp]: "own = G" "lops = ops"
      obtain a took m g where act: "run_on G (mem h) (inst h) = ((a, took), m, g)"
        by (metis prod.exhaust_sel)
      define h1 where "h1 = h\<lparr>mem := m, inst := g, wall_ns := wall_ns h + took\<rparr>"
      have P1: "P h1" using own [OF P] by (simp add: h1_def)
      show "stops_at P r"
      proof (cases a)
        case (Import call)
        then obtain r1 where r1: "do_import G ops call h1 = Some r1"
          using 1(2) act by (auto simp: h1_def bind_eq_Some_conv)
        from import [OF P1 r1] have after: "comes_to P r1" .
        show ?thesis
        proof (cases r1)
          case (Inl e)
          then show ?thesis using 1(2) act Import r1 after by (cases e) (auto simp: h1_def)
        next
          case (Inr vh)
          then obtain v h2 where vh: "r1 = Inr (v, h2)" by (cases vh) auto
          have "run G ops (h2\<lparr>inst := answer G v (inst h2)\<rparr>) = Some r"
            using 1(2) act Import r1 vh by (simp add: h1_def)
          with 1(1) [of G ops "h2\<lparr>inst := answer G v (inst h2)\<rparr>" r] answered after vh
          show ?thesis by simp
        qed
      qed (use 1(2) act P1 in \<open>auto simp: h1_def\<close>)
    qed
  qed
  with assms(1,2) show ?thesis by blast
qed

lemma run_guest_ctxs: "run_guest G ops h = Some r \<Longrightarrow> stops_at (\<lambda>h'. ctxs h' = ctxs h) r"
  by (rule run_guest_inv) (auto dest!: do_import_ctxs)

end
