(* ===== verification/Core_Switch.thy ===== *)
theory Core_Switch
  imports Core_Run
begin

text \<open>
  Context switching: a context that has unwound stays where it is, in the map of contexts, through
  whatever the others do, until the guest names its buffer; then the host rewinds that very buffer
  on that very stack.
\<close>

section \<open>Idling leaves the contexts alone\<close>

lemma map_sum_eq_Inr [simp]: "map_sum f g z = Inr y \<longleftrightarrow> (\<exists>x. z = Inr x \<and> y = g x)"
  by (cases z) auto

lemma failed_Inr [simp]: "failed h x = Some (Inr y) \<longleftrightarrow> x = Some (Inr y)"
  by (auto simp: failed_def)

lemma ctxs_more_updates [simp]:
  "ctxs (h\<lparr>quiescent_rounds := n\<rparr>) = ctxs h" "ctxs (h\<lparr>idle_until := u\<rparr>) = ctxs h"
  "ctxs (h\<lparr>opts := os\<rparr>) = ctxs h" "ctxs (h\<lparr>alarm_ns := a\<rparr>) = ctxs h"
  "ctxs (h\<lparr>step_started_at := t\<rparr>) = ctxs h" "ctxs (h\<lparr>yield_to_host := y\<rparr>) = ctxs h"
  "ctxs (h\<lparr>idle_wait_ns := w\<rparr>) = ctxs h"
  by (simp_all add: ctxs_def)

lemma ctxs_set_now [simp]: "ctxs (set_now t h) = ctxs h"
  by (simp add: set_now_def)

lemma ctxs_inject [simp]: "ctxs (host_inject l h) = ctxs h"
  by (simp add: host_inject_def)

lemma ctxs_script_step [simp]: "ctxs (script_step i h) = ctxs h"
  by (simp add: script_step_def Let_def split: script_item.split script_action.split)

lemma ctxs_lan_step [simp]: "ctxs (lan_step ops at h) = ctxs h"
  by (simp add: lan_step_def Let_def split_beta)

lemma ctxs_bt_step_to: "bt_step_to at h = Some (Inr (r, h')) \<Longrightarrow> ctxs h' = ctxs h"
  by (auto simp: bt_step_to_def Let_def split: option.splits sum.splits)

lemma ctxs_alarm_step [simp]: "ctxs (snd (alarm_step a h)) = ctxs h"
  by (simp add: alarm_step_def Let_def split: option.split)

lemma advance_ctxs:
  assumes "advance_to_next_deadline ops limit cin h = Some (Inr (r, h'))"
  shows "ctxs h' = ctxs h"
proof -
  obtain bt_at where "host_next_bt h = Inr bt_at"
    using assms by (auto simp: advance_to_next_deadline_def split: sum.splits)
  with assms show ?thesis
  proof (cases rule: advance_cases)
    case (bt at)
    then show ?thesis by (simp add: ctxs_bt_step_to)
  next
    case (alarm at)
    then show ?thesis using ctxs_alarm_step [of "alarm_due cin h" h] by (metis snd_conv)
  qed simp_all
qed

lemma ctxs_due_frame [simp]: "ctxs (due_frame h) = ctxs h"
  by (simp add: due_frame_def split: option.split)

lemma paced_idle_ctxs:
  assumes "paced_idle ops p at t h = Some (Inr (r, h'))"
  shows "ctxs h' = ctxs h"
proof -
  define h1 where "h1 = (case lan h of None \<Rightarrow> set_now t h
    | Some l \<Rightarrow> (let (fs, l) = lan_advance ops (global_ns (set_now t h)) l in from_lan ops fs l (set_now t h)))"
  have "ctxs h1 = ctxs h" by (simp add: h1_def split_beta split: option.split)
  moreover have "ctxs h' = ctxs h1"
    using assms by (auto simp: paced_idle_def Let_def h1_def [unfolded Let_def] split: option.splits)
  ultimately show ?thesis by simp
qed

lemma interactive_idle_ctxs:
  assumes "interactive_idle ops h = Some (Inr (r, h'))"
  shows "ctxs h' = ctxs h"
proof (cases "pace h")
  case None
  with assms show ?thesis by (simp add: interactive_idle_def advance_ctxs)
next
  case (Some anchor)
  with assms show ?thesis
    by (auto simp: interactive_idle_def Let_def advance_ctxs paced_idle_ctxs split: sum.splits if_splits)
qed

text \<open>What one idle step does, by what it does.\<close>

lemma idle_step_cases:
  assumes "idle_step ops h = Some (Inr (r, h'))"
  obtains (typed) "h' = h\<lparr>con := snd (type_next_line (con h))\<rparr>"
  | (same) y where "h' = h\<lparr>yield_to_host := y\<rparr>"
  | (pair) q h1 where "advance_to_next_deadline ops (step_limit_ns h) (pair_paced (opts h)) h = Some (Inr (q, h1))"
      "h' = (if q then h1 else h1\<lparr>idle_until := Some None\<rparr>)"
  | (interactive) q where "opts.interactive (opts h)" "interactive_idle ops (h\<lparr>yield_to_host := True\<rparr>) = Some (Inr (q, h'))"
  | (alone) q where "advance_to_next_deadline ops None False h = Some (Inr (q, h'))"
proof (cases "deliverable_irqs h = 0 \<and> fst (type_next_line (con h))")
  case True
  with assms typed show ?thesis by (auto simp: idle_step_def Let_def)
next
  case not_typed: False
  let ?quiet = "deliverable_irqs h = 0 \<and> latched_ready h = 0"
  show ?thesis
  proof (cases "in_pair (opts h)")
    case True
    show ?thesis
    proof (cases ?quiet)
      case False
      with True assms not_typed have "h' = h\<lparr>yield_to_host := yield_to_host h\<rparr>"
        by (auto simp: idle_step_def Let_def)
      then show ?thesis by (rule same)
    next
      case quiet: True
      with True assms not_typed obtain q h1
        where "advance_to_next_deadline ops (step_limit_ns h) (pair_paced (opts h)) h = Some (Inr (q, h1))"
          and "h' = (if q then h1 else h1\<lparr>idle_until := Some None\<rparr>)"
        by (auto simp: idle_step_def Let_def)
      then show ?thesis by (rule pair)
    qed
  next
    case False
    note alone_step = not_typed False
    show ?thesis
    proof (cases "opts.interactive (opts h)")
      case True
      with assms alone_step have
        "(h' = h\<lparr>yield_to_host := True\<rparr> \<or> (\<exists>q. interactive_idle ops (h\<lparr>yield_to_host := True\<rparr>) = Some (Inr (q, h'))))"
        by (cases "deliverable_irqs h = 0") (auto simp: idle_step_def Let_def)
      then show ?thesis using same interactive True by blast
    next
      case False
      with assms alone_step have "h' = h\<lparr>yield_to_host := yield_to_host h\<rparr> \<or>
          (\<exists>q. advance_to_next_deadline ops None False h = Some (Inr (q, h')))"
        by (cases ?quiet) (auto simp: idle_step_def Let_def)
      then show ?thesis using same alone by blast
    qed
  qed
qed

lemma idle_step_ctxs:
  assumes "idle_step ops h = Some (Inr (r, h'))"
  shows "ctxs h' = ctxs h"
  using assms
proof (cases rule: idle_step_cases)
  case (pair q h1)
  with advance_ctxs [OF pair(1)] show ?thesis by simp
next
  case (interactive q)
  with interactive_idle_ctxs [OF interactive(2)] show ?thesis by simp
qed (simp_all add: advance_ctxs)

section \<open>A context that waits\<close>

definition parked :: "nat \<Rightarrow> nat \<Rightarrow> nat \<Rightarrow> ('g, 'l) host \<Rightarrow> bool" where
  "parked i b s h \<longleftrightarrow> i < length (store h) \<and> map_of (contexts h) b = Some i \<and> buf (store h ! i) = b \<and>
     sp (store h ! i) = Some s \<and> \<not> fresh (store h ! i)"

lemma parked_ctxs: "ctxs h' = ctxs h \<Longrightarrow> parked i b s h' = parked i b s h"
  by (simp add: parked_def ctxs_def)

lemma parked_update_ctx [simp]: "j \<noteq> i \<Longrightarrow> parked i b s (update_ctx j f h) = parked i b s h"
  by (simp add: parked_def update_ctx_def)

lemma parked_enter_new [simp]: "parked i b s h \<Longrightarrow> parked i b s (enter_new c h)"
  by (auto simp: parked_def enter_new_def nth_append)

lemma parked_note_ctx:
  "j \<noteq> i \<Longrightarrow> parked i b s h \<Longrightarrow> buf (store (note_ctx j h) ! j) \<noteq> b \<Longrightarrow> parked i b s (note_ctx j h)"
  by (auto simp: parked_def note_ctx_def update_ctx_def Let_def update_conv)

lemma stops_at_mono: "stops_at P r \<Longrightarrow> (\<And>h. P h \<Longrightarrow> Q h) \<Longrightarrow> stops_at Q r"
  by (auto simp: stops_at_def split: sum.splits)

lemma parked_run_guest:
  assumes "run_guest G ops h = Some r" and "parked i b s h"
  shows "stops_at (parked i b s) r"
  using run_guest_ctxs [OF assms(1)] by (rule stops_at_mono) (use assms(2) parked_ctxs in blast)

lemma parked_inst [simp]: "parked i b s (h\<lparr>inst := g\<rparr>) = parked i b s h"
  by (rule parked_ctxs) simp

lemma parked_enter_ctx [simp]: "j \<noteq> i \<Longrightarrow> parked i b s (enter_ctx G j h) = parked i b s h"
  by (simp add: enter_ctx_def Let_def)

lemma parked_call_export:
  "call_export G ops n x h = Some r \<Longrightarrow> parked i b s h \<Longrightarrow> stops_at (parked i b s) r"
  unfolding call_export_def by (drule parked_run_guest) simp_all

lemma parked_halted: "parked i b s h \<Longrightarrow> halted G t h = (q, h') \<Longrightarrow> parked i b s h'"
  by (auto simp: halted_def split: if_splits)

lemma parked_raise_trap:
  assumes "raise_trap G ops j t h = Some r" and "j \<noteq> i" and "parked i b s h"
  shows "stops_at (parked i b s) r"
proof -
  define h1 where "h1 = update_ctx j (\<lambda>c. c\<lparr>entry := Z_WASM_TRAP, arg := 0\<rparr>)
    (h\<lparr>traps := traps h + 1,
       mem := mem_put (buf (store h ! j)) (word_bytes (word_of_nat (buf (store h ! j) + 8))) (mem h)\<rparr>)"
  have p1: "parked i b s h1"
    using assms(2,3) by (simp add: h1_def parked_ctxs [of "h\<lparr>traps := _, mem := _\<rparr>" h])
  have p2: "parked i b s (h\<lparr>traps := n\<rparr>)" for n
    using assms(3) parked_ctxs [of "h\<lparr>traps := n\<rparr>" h] by simp
  show ?thesis
  proof (cases "call_export G ops Z_WASM_TRAP 0 h1")
    case None
    then show ?thesis
      using assms(1,3) p2 by (auto simp: raise_trap_def Let_def h1_def split: if_splits)
  next
    case (Some r1)
    note call = Some and after = parked_call_export [OF Some p1]
    show ?thesis
    proof (cases r1)
      case (Inl e)
      then obtain again h2 where e: "r1 = Inl (again, h2)" by (cases e) auto
      obtain q h3 where hal: "halted G again h2 = (q, h3)" by (cases "halted G again h2")
      from after e parked_halted [OF _ hal] have "parked i b s h3" by simp
      then show ?thesis
        using assms(1,3) p2 call e hal
        by (cases q) (auto simp: raise_trap_def Let_def h1_def split: if_splits)
    next
      case (Inr h2)
      then show ?thesis
        using assms(1,3) p2 call after by (auto simp: raise_trap_def Let_def h1_def split: if_splits)
    qed
  qed
qed

lemma parked_switch_step:
  "switch_step h = Inr (r, h') \<Longrightarrow> parked i b s h \<Longrightarrow> parked i b s h'"
  by (auto simp: switch_step_def Let_def split: if_splits option.splits)
    (auto simp: parked_def enter_new_def nth_append)

section \<open>Through a step\<close>

lemma store_note_ctx: "ctxs h' = ctxs h \<Longrightarrow> store h' = store h"
  by (simp add: ctxs_def)

text \<open>A switch or an idle wait does not touch the context that has just run.\<close>

lemma switch_step_store:
  assumes "switch_step h = Inr (r, h')" and "j < length (store h)"
  shows "store h' ! j = store h ! j"
  using assms by (auto simp: switch_step_def enter_new_def Let_def nth_append split: if_splits option.splits)

lemma length_note_ctx [simp]: "length (store (note_ctx j h)) = length (store h)"
  by (simp add: note_ctx_def update_ctx_def Let_def)

lemma after_run_parked:
  assumes "after_run G ops j h = Some (Inr (r, h'))" and "j \<noteq> i" and "j < length (store h)"
    and "parked i b s h" and "buf (store h' ! j) \<noteq> b"
  shows "parked i b s h'"
proof -
  define h1 where "h1 = note_ctx j (h\<lparr>inst := stop_unwind G (inst h)\<rparr>)"
  have "h' = h \<or> h' = h\<lparr>host_done := True, exit_code := 1\<rparr> \<or>
      h' = h\<lparr>inst := stop_unwind G (inst h)\<rparr> \<or>
      idle_step ops h1 = Some (Inr (r, h')) \<or> switch_step h1 = Inr (r, h')"
    using assms(1) by (auto simp: after_run_def Let_def h1_def split: if_splits)
  then consider "h' = h" | "h' = h\<lparr>host_done := True, exit_code := 1\<rparr>"
    | "h' = h\<lparr>inst := stop_unwind G (inst h)\<rparr>"
    | "idle_step ops h1 = Some (Inr (r, h'))" | "switch_step h1 = Inr (r, h')"
    by blast
  then show ?thesis
  proof cases
    case 2
    then show ?thesis using assms(4) parked_ctxs [of h' h i b s] by simp
  next
    case 4
    then have same: "ctxs h' = ctxs h1" by (rule idle_step_ctxs)
    have "parked i b s h1"
      using assms(2,4,5) store_note_ctx [OF same] by (simp add: h1_def parked_note_ctx)
    with same show ?thesis using parked_ctxs by blast
  next
    case 5
    then have "store h' ! j = store h1 ! j"
      using assms(3) by (intro switch_step_store) (simp_all add: h1_def)
    then have "parked i b s h1"
      using assms(2,4,5) by (simp add: h1_def parked_note_ctx)
    with 5 show ?thesis by (rule parked_switch_step)
  qed (use assms(4) in simp_all)
qed

lemma call_export_store:
  assumes "call_export G ops n x h = Some r"
  shows "stops_at (\<lambda>h'. length (store h') = length (store h)) r"
  using run_guest_ctxs [OF assms [unfolded call_export_def]]
  by (rule stops_at_mono) (simp add: ctxs_def)

lemma raise_trap_store:
  assumes "raise_trap G ops j t h = Some r"
  shows "stops_at (\<lambda>h'. length (store h') = length (store h)) r"
proof -
  have hal: "length (store h2) = length (store h1)" if "halted G t h1 = (q, h2)"
    for t q and h1 h2 :: "('a, 'b) host"
    using that by (auto simp: halted_def split: if_splits)
  show ?thesis
    using assms
    by (auto simp: raise_trap_def Let_def update_ctx_def hal
        split: if_splits option.splits sum.splits prod.splits bool.splits
        dest!: call_export_store)
qed

text \<open>
  C10. A context that waits is not disturbed by another's step: if the one that ran has not unwound
  into the same buffer, then the waiting one is still found by its buffer, with the stack pointer it
  left with.
\<close>

theorem parked_context_kept:
  assumes "step G ops h = Some (Inr (r, h'))"
    and "parked i b s h" and "current h \<noteq> i" and "current h < length (store h)"
    and "buf (store h' ! current h) \<noteq> b"
  shows "parked i b s h'"
proof -
  define j where "j = current h"
  define h0 where "h0 = enter_ctx G j h"
  have p0: "parked i b s h0" and j: "j \<noteq> i"
    using assms(2,3) by (simp_all add: h0_def j_def)
  have l0: "j < length (store h0)"
    using assms(4) by (simp add: h0_def j_def enter_ctx_def update_ctx_def Let_def)
  obtain ran where ran: "call_export G ops (entry (store h ! j)) (arg (store h ! j)) h0 = Some ran"
    using assms(1) by (auto simp: step_def Let_def j_def h0_def split: option.splits)
  note p1 = parked_call_export [OF ran p0] and l1 = call_export_store [OF ran]
  show ?thesis
  proof (cases ran)
    case (Inr h1)
    with assms(1) ran have "after_run G ops j h1 = Some (Inr (r, h'))"
      by (simp add: step_def Let_def j_def h0_def)
    then show ?thesis
      using p1 l1 l0 j assms(5) after_run_parked [of G ops j h1 r h' i b s] unfolding Inr j_def [symmetric]
      by simp
  next
    case (Inl e)
    obtain t h1 where e: "e = (t, h1)" by (cases e)
    obtain q h2 where hal: "halted G t h1 = (q, h2)" by (cases "halted G t h1")
    have p2: "parked i b s h2" using p1 Inl e parked_halted [OF _ hal] by simp
    have l2: "j < length (store h2)"
      using l1 l0 Inl e hal by (auto simp: halted_def split: if_splits)
    show ?thesis
    proof (cases q)
      case True
      with assms(1) ran Inl e hal p2 show ?thesis by (simp add: step_def Let_def j_def h0_def)
    next
      case False
      obtain h3 where h3: "raise_trap G ops j t h2 = Some (Inr h3)"
        and rest: "h' = h3 \<or> after_run G ops j h3 = Some (Inr (r, h'))"
        using assms(1) ran Inl e hal False
        by (auto simp: step_def Let_def j_def h0_def split: option.splits sum.splits if_splits)
      have p3: "parked i b s h3" using parked_raise_trap [OF h3 j p2] by simp
      moreover have "j < length (store h3)" using raise_trap_store [OF h3] l2 by simp
      ultimately show ?thesis
        using rest j assms(5) after_run_parked [of G ops j h3 r h' i b s] unfolding j_def [symmetric]
        by blast
    qed
  qed
qed

text \<open>
  C11. When the guest names a waiting context's buffer, the host enters that context: on the stack it
  left, rewinding the buffer its frames are in, by the export it was first entered by.
\<close>

theorem parked_context_resumed:
  assumes "parked i b s h" and "to_buf (read_switch_block h) = b" and "to_fresh (read_switch_block h) = 0"
  shows "\<exists>h'. switch_step h = Inr (True, h') \<and> current h' = i \<and> store h' = store h \<and>
    inst (enter_ctx G i h') = start_rewind G b (set_stack_pointer G s (inst h))"
  using assms by (auto simp: switch_step_def parked_def enter_ctx_def update_ctx_def Let_def)

end
