(* ===== verification/Core_Reboot.thy ===== *)
theory Core_Reboot
  imports Core_Switch
begin

text \<open>
  What a warm reboot keeps and what it starts again, and what it should start again and does not: the
  Bluetooth controller's times.
\<close>

section \<open>The timeline and the flash\<close>

lemma reset_frame [simp]:
  "reboots (reset_for_reboot h) = reboots h" "opts (reset_for_reboot h) = opts h"
  "storage_image (reset_for_reboot h) = storage_image h" "hci (reset_for_reboot h) = hci h"
  "wall_ns (reset_for_reboot h) = wall_ns h" "rand_state (reset_for_reboot h) = rand_state h"
  by (simp_all add: reset_for_reboot_def)

lemma boot_frame [simp]:
  "reboots (boot G h) = reboots h" "opts (boot G h) = opts h" "con (boot G h) = con h"
  "storage_image (boot G h) = storage_image h" "hci (boot G h) = hci h" "now_ns (boot G h) = now_ns h"
  "epoch_ns (boot G h) = epoch_ns h" "deadline_ns (boot G h) = deadline_ns h"
  "contexts (boot G h) = contexts h" "dev (boot G h) = dev h" "alarm_ns (boot G h) = alarm_ns h"
  by (simp_all add: boot_def enter_new_def Let_def)

lemma boot_current:
  "current_ctx (boot G h) = \<lparr>entry = Z_WASM_BOOT, arg = 0, buf = image_scratch (fresh_image G),
    sp = None, fresh = True\<rparr>"
  by (simp add: boot_def enter_new_def current_ctx_def Let_def)

text \<open>
  A reboot is carried out as long as the run may reboot. It starts uptime again and enters the
  boot path with no context and no alarm left; it does not turn back the pair's timeline, does not
  give back any of the run's allowance, keeps what was typed, and keeps the flash as it was.
\<close>

theorem reboot_keeps_timeline:
  assumes "do_reboot G h = Inr (r, h')" and "\<not> realtime (opts h)" and "reboots h < max_reboots (opts h)"
  shows "r \<and> reboots h' = reboots h + 1 \<and> now_ns h' = 0 \<and> alarm_ns h' = None \<and>
    contexts h' = [] \<and> entry (current_ctx h') = Z_WASM_BOOT \<and> fresh (current_ctx h') \<and>
    global_ns h' = global_ns h \<and> deadline_ns h' - now_ns h' = deadline_ns h - now_ns h \<and>
    input (con h') = input (con h) \<and> typing (con h') = typing (con h) \<and>
    Inr (storage_image h') = flash_image h \<and>
    external_irqs (dev h') = external_irqs (dev h)"
proof -
  obtain img where img: "flash_image h = Inr img"
    using assms(1) by (auto simp: do_reboot_def split: sum.splits)
  define h1 where "h1 = h\<lparr>storage_image := img, reboots := reboots h + 1\<rparr>"
  have r: "r" and h': "h' = boot G (reset_for_reboot h1)"
    using assms img by (simp_all add: do_reboot_def h1_def)
  show ?thesis
    using assms(2) r img unfolding h' boot_current
    by (simp add: h1_def reset_for_reboot_def global_ns_def time_ns_def)
qed

text \<open>And past that it gives up.\<close>

lemma reboot_gives_up:
  assumes "flash_image h = Inr img" and "reboots h \<ge> max_reboots (opts h)"
  shows "\<exists>h'. do_reboot G h = Inr (False, h') \<and> exit_code h' = 2"
  using assms by (simp add: do_reboot_def Let_def)

section \<open>The HCI UART after a reboot\<close>

lemma ready_frame [simp]:
  "rx_ready_ns (send p at b) = rx_ready_ns b" "rx_ready_ns (upd_link k f b) = rx_ready_ns b"
  "rx_ready_ns (drop_link k b) = rx_ready_ns b" "rx_ready_ns (complete op ps b) = rx_ready_ns b"
  "rx_ready_ns (status op st b) = rx_ready_ns b" "rx_ready_ns (le_meta s ps b) = rx_ready_ns b"
  "rx_ready_ns (send_on c x at b) = rx_ready_ns b"
  by (simp_all add: send_def upd_link_def drop_link_def complete_def status_def le_meta_def send_on_def Let_def)

lemma ready_link_encrypted [simp]: "rx_ready_ns (link_encrypted c st b) = rx_ready_ns b"
  by (simp add: link_encrypted_def)

lemma ready_rand8 [simp]: "rx_ready_ns (snd (rand8 b)) = rx_ready_ns b"
  by (simp add: rand8_def Let_def split_beta)

lemma ready_commands [simp]:
  "rx_ready_ns (cmd_reset b) = rx_ready_ns b" "rx_ready_ns (cmd_adv_params p b) = rx_ready_ns b"
  "rx_ready_ns (cmd_adv_enable p now b) = rx_ready_ns b"
  "rx_ready_ns (cmd_scan_params p b) = rx_ready_ns b" "rx_ready_ns (cmd_scan_enable p b) = rx_ready_ns b"
  "rx_ready_ns (cmd_create_conn p b) = rx_ready_ns b"
  "rx_ready_ns (cmd_create_conn_cancel b) = rx_ready_ns b" "rx_ready_ns (cmd_rand b) = rx_ready_ns b"
  "rx_ready_ns (cmd_ltk op p now b) = rx_ready_ns b" "rx_ready_ns (cmd_on_link op p b) = rx_ready_ns b"
  by (simp_all add: cmd_reset_def cmd_adv_params_def cmd_adv_enable_def cmd_scan_params_def
      cmd_scan_enable_def cmd_create_conn_def cmd_create_conn_cancel_def cmd_rand_def cmd_ltk_def
      cmd_on_link_def Let_def split_beta split: option.split)

lemma ready_command [simp]: "rx_ready_ns (command op p now b) = rx_ready_ns b"
  by (simp add: command_def)

lemma ready_from_host [simp]: "rx_ready_ns (from_host byte now b) = rx_ready_ns b"
  by (simp add: from_host_def acl_from_host_def Let_def split: option.split)

text \<open>What a guest does to its HCI UART: write a byte, or try to read one.\<close>

datatype hci_io = Write nat | TryRead

fun hci_session :: "(ns \<times> hci_io) list \<Rightarrow> ('g, 'l) host \<Rightarrow> int list" where
  "hci_session [] h = []"
| "hci_session ((t, Write c) # ios) h = hci_session ios (host_poll_out 1 c (h\<lparr>now_ns := t\<rparr>))"
| "hci_session ((t, TryRead) # ios) h =
    (let (r, h) = host_poll_in 1 (h\<lparr>now_ns := t\<rparr>) in r # hci_session ios h)"

lemma stalled_session:
  assumes "hci h = Some (Emulated b)" and "list_all (\<lambda>(t, _). t < rx_ready_ns b) ios"
  shows "list_all (\<lambda>r. r = -1) (hci_session ios h)"
  using assms
proof (induction ios h arbitrary: b rule: hci_session.induct)
  case (2 t c ios h)
  then show ?case
    by (auto simp: host_poll_out_def bt_controller_def hci_from_host_def take_air_def)
next
  case (3 t ios h)
  then have "rx_take t b = (- 1, b)" by (simp add: rx_take_def rx_ready_def)
  with 3 show ?case by (auto simp: host_poll_in_def bt_controller_def hci_rx_take_def Let_def)
qed simp

text \<open>
  The console's UART is ready at once after a reboot, but the Bluetooth controller's is not: until
  uptime has passed the time of the last byte read before the reboot, the guest cannot read anything
  from its controller, not even the answer to the reset it sends first.
\<close>

theorem reboot_stalls_hci:
  assumes "do_reboot G h = Inr (True, h')" and "hci h = Some (Emulated b)"
    and "list_all (\<lambda>(t, _). t < rx_ready_ns b) ios"
  shows "list_all (\<lambda>r. r = -1) (hci_session ios h') \<and> uart_ready_ns (con h') = 0 \<and> now_ns h' = 0"
proof -
  have "hci h' = Some (Emulated b)" and "uart_ready_ns (con h') = 0" and "now_ns h' = 0"
    using assms(1,2)
    by (auto simp: do_reboot_def Let_def split: sum.splits if_splits) (simp_all add: reset_for_reboot_def)
  with stalled_session [OF this(1) assms(3)] show ?thesis by simp
qed

section \<open>Spinning\<close>

lemma raise_irq_time [simp]:
  "opts (raise_irq l h) = opts h" "deadline_ns (raise_irq l h) = deadline_ns h"
  by (simp_all add: raise_irq_def)

text \<open>
  A guest that spins for ever, only reporting progress at its safepoints, is stopped: with a
  virtual clock every report moves time on, and at the limit the host gives up (or earlier, when the
  wall clock runs out).
\<close>

theorem spinning_guest_stopped:
  fixes h :: "('g, 'l) host"
  assumes "\<forall>m g. \<exists>took m' g'. run_on G m g = ((Import SafepointTick, took), m', g')"
    and "\<not> realtime (opts h)"
  shows "\<exists>h'. run_guest G ops h = Some (Inl (Stopped AtMaxTime, h')) \<or>
    run_guest G ops h = Some (Inl (Stopped Hang, h'))"
proof -
  have "\<exists>h'. run_guest G ops h = Some (Inl (Stopped AtMaxTime, h')) \<or>
      run_guest G ops h = Some (Inl (Stopped Hang, h'))"
    if "\<not> realtime (opts h)" "nat (deadline_ns h - now_ns h) = n" for n and h :: "('g, 'l) host"
    using that
  proof (induction n arbitrary: h rule: less_induct)
    case (less n)
    obtain took m' g' where on: "run_on G (mem h) (inst h) = ((Import SafepointTick, took), m', g')"
      using assms(1) by blast
    define h1 where "h1 = h\<lparr>mem := m', inst := g', wall_ns := wall_ns h + took,
      now_ns := now_ns h + SAFEPOINT_TICK_NS\<rparr>"
    have virtual: "\<not> realtime (opts h1)" using less.prems by (simp add: h1_def)
    have ticked: "safepoint_tick (h\<lparr>mem := m', inst := g', wall_ns := wall_ns h + took\<rparr>) =
        (case check_deadline h1 of Some s \<Rightarrow> Inl (s, h1)
         | None \<Rightarrow> (case alarm_ns h1 of None \<Rightarrow> Inr h1
           | Some a \<Rightarrow> if now_ns h1 \<ge> a
             then Inr (raise_irq IRQ_TIMER (h1\<lparr>alarm_ns := None, quiescent_rounds := 0\<rparr>)) else Inr h1))"
    proof -
      have "time_ns h1 = now_ns h1" using virtual by (simp add: time_ns_def)
      then show ?thesis using less.prems by (simp add: safepoint_tick_def Let_def flip: h1_def split: option.split)
    qed
    show ?case
    proof (cases "check_deadline h1")
      case (Some s)
      then have "run_guest G ops h = Some (Inl (Stopped s, h1))"
        by (subst run_guest.simps) (simp add: on ticked do_import_def)
      moreover from Some have "s = AtMaxTime \<or> s = Hang"
        by (auto simp: check_deadline_def Let_def split: if_splits)
      ultimately show ?thesis by auto
    next
      case None
      then have "now_ns h1 \<le> deadline_ns h1"
        using virtual by (auto simp: check_deadline_def Let_def time_ns_def split: if_splits)
      then have shorter: "nat (deadline_ns h1 - now_ns h1) < n"
        using less.prems(2) by (simp add: h1_def SAFEPOINT_TICK_NS_def)
      obtain h2 where h2: "safepoint_tick (h\<lparr>mem := m', inst := g', wall_ns := wall_ns h + took\<rparr>) = Inr h2"
        and same: "opts h2 = opts h1" "deadline_ns h2 = deadline_ns h1" "now_ns h2 = now_ns h1"
        using None ticked by (auto split: option.splits if_splits)
      have "run_guest G ops h = run_guest G ops (h2\<lparr>inst := answer G 0 (inst h2)\<rparr>)"
        by (subst run_guest.simps) (simp add: on h2 do_import_def)
      moreover have "\<exists>h'. run_guest G ops (h2\<lparr>inst := answer G 0 (inst h2)\<rparr>) =
          Some (Inl (Stopped AtMaxTime, h')) \<or>
        run_guest G ops (h2\<lparr>inst := answer G 0 (inst h2)\<rparr>) = Some (Inl (Stopped Hang, h'))"
        using virtual same shorter by (intro less.IH [OF shorter]) simp_all
      ultimately show ?thesis by simp
    qed
  qed
  from this [OF assms(2) refl] show ?thesis .
qed

section \<open>A frame that nobody reads\<close>

text \<open>Idle again and again, the guest doing nothing in between.\<close>

fun idles :: "nat \<Rightarrow> 'l lan_ops \<Rightarrow> ('g, 'l) host \<Rightarrow> ((thrown \<times> ('g, 'l) host) + bool \<times> ('g, 'l) host) option" where
  "idles 0 ops h = Some (Inr (True, h))"
| "idles (Suc n) ops h =
    (case idle_step ops h of
      Some (Inr (True, h)) \<Rightarrow> idles n ops h
    | r \<Rightarrow> r)"

text \<open>A frame is due, earlier than anything else, and nothing the guest has enabled is pending.\<close>

definition frame_unread :: "('g, 'l) host \<Rightarrow> bool" where
  "frame_unread h \<longleftrightarrow> \<not> in_pair (opts h) \<and> \<not> interactive (opts h) \<and> lan h = None \<and> hci h = None \<and>
     next_script h = None \<and> \<not> fst (type_next_line (con h)) \<and> deliverable_irqs h = 0 \<and>
     latched_ready h = 0 \<and> enabled_lines h AND line_bit IRQ_ETH = 0 \<and>
     (\<exists>at. host_next_frame h = Some at \<and> at \<le> now_ns h \<and> from_opt at (alarm_ns h))"

lemma lines_frame [simp]:
  "enabled_lines (host_inject l h) = enabled_lines h"
  "enabled_lines (h\<lparr>quiescent_rounds := n\<rparr>) = enabled_lines h"
  "deliverable_irqs (host_inject l h) = deliverable_irqs h"
  "deliverable_irqs (h\<lparr>quiescent_rounds := n\<rparr>) = deliverable_irqs h"
  "latched_ready (h\<lparr>quiescent_rounds := n\<rparr>) = latched_ready h"
  by (simp_all add: latched_ready_def deliverable_irqs_def enabled_lines_def host_inject_def
      split: option.split)

lemma latched_inject:
  assumes "enabled_lines h AND line_bit l = 0" and "latched_ready h = 0" and "l < 32"
  shows "latched_ready (host_inject l h) = 0"
proof -
  have "\<not> bit (enabled_lines h) l" using assms(1,3) by (metis ready_line)
  moreover have "\<not> (bit (external_irqs (dev h)) n \<and> bit (enabled_lines h) n)" for n
    using arg_cong [OF assms(2), of "\<lambda>w. bit w n"] by (simp add: latched_ready_def bit_and_iff)
  ultimately have "\<not> bit (latched_ready (host_inject l h)) n" for n
    using assms(3) by (auto simp: latched_ready_def bit_and_iff) (auto simp: host_inject_def)
  then show ?thesis by (auto intro: bit_eqI)
qed

lemma frame_unread_idle:
  assumes "frame_unread h"
  shows "\<exists>h'. idle_step ops h = Some (Inr (True, h')) \<and> now_ns h' = now_ns h \<and> frame_unread h'"
proof -
  obtain at where at: "host_next_frame h = Some at" "at \<le> now_ns h" "from_opt at (alarm_ns h)"
    using assms by (auto simp: frame_unread_def)
  define h' where "h' = host_inject IRQ_ETH (h\<lparr>quiescent_rounds := 0\<rparr>)"
  have lone: "min_big (min_big (Some at) (host_next_uart h)) (alarm_ns h) = Some at"
    using at host_next_uart_later [of h]
    by (cases "host_next_uart h"; cases "alarm_ns h") (auto simp: from_opt_def)
  have not_uart: "host_next_uart h \<noteq> Some at" using at(2) host_next_uart_later [of h at] by auto
  have "advance_to_next_deadline ops None False h = Some (Inr (True, h'))"
    using assms at lone not_uart
    by (simp add: advance_to_next_deadline_def frame_unread_def host_next_bt_def host_next_lan_def
        h'_def set_now_def Let_def)
  then have "idle_step ops h = Some (Inr (True, h'))"
    using assms by (simp add: idle_step_def frame_unread_def failed_def)
  moreover have "now_ns h' = now_ns h" by (simp add: h'_def)
  moreover have "frame_unread h'"
  proof -
    have "latched_ready h' = 0"
      using assms unfolding h'_def by (intro latched_inject) (simp_all add: frame_unread_def)
    with assms at show ?thesis
      by (simp add: frame_unread_def h'_def)
        (simp add: host_inject_def inject_irq_def next_script_def host_next_frame_def next_frame_ns_def)
  qed
  ultimately show ?thesis by blast
qed

text \<open>
  A frame that is due and that the guest does not read, because it has not enabled its link, stops
  the clock: however often the guest idles the host goes on with it and the time stays the same, so
  neither the kernel's alarm nor the run's time limit is ever reached.
\<close>

theorem unread_frame_stops_clock:
  assumes "frame_unread h"
  shows "\<exists>h'. idles n ops h = Some (Inr (True, h')) \<and> now_ns h' = now_ns h"
  using assms
proof (induction n arbitrary: h)
  case (Suc n)
  from frame_unread_idle [OF Suc.prems] obtain h1
    where h1: "idle_step ops h = Some (Inr (True, h1))" "now_ns h1 = now_ns h" "frame_unread h1"
    by blast
  with Suc.IH [OF h1(3)] show ?case by simp
qed simp

section \<open>Entropy\<close>

text \<open>
  The bytes the guest's entropy source gives do not depend on how it asks: a buffer filled in two
  calls holds what one call would have put there, nothing else in memory changes, and the generator
  never runs into its one stuck state.
\<close>

theorem entropy_does_not_depend_on_calls:
  assumes "ptr + (m + n) \<le> length (mem h)" and "rand_state h \<noteq> 0"
  shows "entropy_get (ptr + m) n (entropy_get ptr m h) = entropy_get ptr (m + n) h \<and>
    take ptr (mem (entropy_get ptr m h)) = take ptr (mem h) \<and>
    drop (ptr + m) (mem (entropy_get ptr m h)) = drop (ptr + m) (mem h) \<and>
    rand_state (entropy_get ptr m h) \<noteq> 0"
proof -
  obtain bs x where bs: "random_bytes m (rand_state h) = (bs, x)" by fastforce
  obtain cs y where cs: "random_bytes n x = (cs, y)" by fastforce
  have len: "length bs = m" "length cs = n"
    using length_random_bytes [of m "rand_state h"] length_random_bytes [of n x] by (simp_all add: bs cs)
  have all: "random_bytes (m + n) (rand_state h) = (bs @ cs, y)"
    using random_bytes_add [of m n "rand_state h"] by (simp add: bs cs)
  have "mem_put (ptr + m) cs (mem_put ptr bs (mem h)) = mem_put ptr (bs @ cs) (mem h)"
    using assms(1) len by (simp add: mem_put_def ac_simps)
  moreover have "take ptr (mem_put ptr bs (mem h)) = take ptr (mem h)"
    "drop (ptr + m) (mem_put ptr bs (mem h)) = drop (ptr + m) (mem h)"
    using assms(1) len by (simp_all add: mem_put_def)
  ultimately show ?thesis
    using random_bytes_state_nonzero [OF assms(2), of m]
    by (simp add: entropy_get_def bs cs all)
qed

end
