(* ===== verification/Core_Snapshot.thy ===== *)
theory Core_Snapshot
  imports Core_Reboot
begin

text \<open>
  Stepping back (host/core.mjs, \<open>snapshot\<close>, \<open>restore\<close> and \<open>stepBack\<close>): the guest's memory and the
  host's own bookkeeping are copied before a step and written back to undo it. Contexts are objects,
  so a snapshot holds copies of them and a restore makes new ones.
\<close>

section \<open>Model\<close>

text \<open>The current context is one of the map's, by its buffer, or a copy of its own.\<close>

record snap =
  snap_mem :: "nat list"
  snap_sp :: nat
  snap_now :: ns
  snap_alarm :: "ns option"
  snap_clamp :: bool
  snap_quiescent :: nat
  snap_switches :: nat
  snap_exit :: nat
  snap_rand :: "32 word"
  snap_external :: "32 word"
  snap_con :: console
  snap_hci :: "hci option"
  snap_gpio :: "gpio_port list"
  snap_sh :: semihosting
  snap_contexts :: "(nat \<times> ctx) list"
  snap_current :: "nat + ctx"
  snap_resume_same :: bool
  snap_current_sp :: nat
  snap_unwound :: "nat option"

text \<open>\<open>this.bt?.snapshot()\<close>: the state \<open>s\<close> alone, so not what is on its way to the platform.\<close>

definition hci_snapshot :: "hci \<Rightarrow> hci" where
  "hci_snapshot c = (case c of
      Emulated b \<Rightarrow> Emulated (b\<lparr>outbox := []\<rparr>)
    | Real s \<Rightarrow> Real (s\<lparr>ser_out := [], flush_queued := False, device_writes := []\<rparr>))"

definition hci_restore :: "hci \<Rightarrow> hci \<Rightarrow> hci" where
  "hci_restore saved c = (case (saved, c) of
      (Emulated b0, Emulated b) \<Rightarrow> Emulated (restore (snapshot b0) b)
    | (Real s0, Real s) \<Rightarrow> Real (s0\<lparr>ser_out := ser_out s, flush_queued := flush_queued s,
        device_writes := device_writes s\<rparr>)
    | _ \<Rightarrow> c)"

definition host_snapshot :: "'g guest \<Rightarrow> ('g, 'l) host \<Rightarrow> snap" where
  "host_snapshot G h =
    \<lparr>snap_mem = mem h, snap_sp = stack_pointer G (inst h), snap_now = now_ns h, snap_alarm = alarm_ns h,
     snap_clamp = alarm_is_clamp h, snap_quiescent = quiescent_rounds h, snap_switches = switches h,
     snap_exit = exit_code h, snap_rand = rand_state h, snap_external = external_irqs (dev h),
     snap_con = (con h)\<lparr>type_held := False, written := []\<rparr>,
     snap_hci = map_option hci_snapshot (hci h), snap_gpio = gpio (dev h), snap_sh = sh h,
     snap_contexts = map (\<lambda>(b, i). (b, store h ! i)) (contexts h),
     snap_current = (case filter (\<lambda>(b, i). i = current h) (rev (contexts h)) of
         (b, _) # _ \<Rightarrow> Inl b
       | [] \<Rightarrow> Inr (current_ctx h)),
     snap_resume_same = resume_same h, snap_current_sp = current_sp h, snap_unwound = unwound_into h\<rparr>"

definition host_restore :: "'g guest \<Rightarrow> snap \<Rightarrow> ('g, 'l) host \<Rightarrow> ('g, 'l) host" where
  "host_restore G s h =
    (let base = length (store h); n = length (snap_contexts s);
         fresh_contexts = zip (map fst (snap_contexts s)) [base..<base + n]
     in h\<lparr>mem := snap_mem s @ drop (length (snap_mem s)) (mem h),
          inst := set_stack_pointer G (snap_sp s) (inst h), now_ns := snap_now s,
          alarm_ns := snap_alarm s, alarm_is_clamp := snap_clamp s,
          quiescent_rounds := snap_quiescent s, switches := snap_switches s,
          exit_code := snap_exit s, rand_state := snap_rand s,
          con := (snap_con s)\<lparr>type_held := type_held (con h), written := written (con h)\<rparr>,
          hci := (case (hci h, snap_hci s) of
              (Some c, Some saved) \<Rightarrow> Some (hci_restore saved c)
            | _ \<Rightarrow> hci h),
          dev := (dev h)\<lparr>external_irqs := snap_external s, gpio := snap_gpio s\<rparr>, sh := snap_sh s,
          store := store h @ map snd (snap_contexts s) @
            (case snap_current s of Inl _ \<Rightarrow> [] | Inr c \<Rightarrow> [c]),
          contexts := fresh_contexts,
          current := (case snap_current s of
              Inl b \<Rightarrow> the (map_of fresh_contexts b)
            | Inr _ \<Rightarrow> base + n),
          resume_same := snap_resume_same s, current_sp := snap_current_sp s,
          unwound_into := snap_unwound s\<rparr>)"

text \<open>The history keeps the last \<open>historyMax\<close> snapshots; stepping back takes the newest.\<close>

definition history_push :: "nat \<Rightarrow> snap \<Rightarrow> snap list \<Rightarrow> snap list" where
  "history_push most s hist = (let hist = hist @ [s] in if length hist > most then tl hist else hist)"

definition step_back :: "'g guest \<Rightarrow> snap list \<Rightarrow> ('g, 'l) host \<Rightarrow> bool \<times> snap list \<times> ('g, 'l) host" where
  "step_back G hist h =
    (if hist = [] then (False, hist, h) else (True, butlast hist, host_restore G (last hist) h))"

section \<open>What comes back\<close>

text \<open>The same controller behind the UART, whatever it has done meanwhile.\<close>

definition same_controller :: "hci option \<Rightarrow> hci option \<Rightarrow> bool" where
  "same_controller c c' \<longleftrightarrow> (case (c, c') of
      (None, None) \<Rightarrow> True
    | (Some (Emulated b), Some (Emulated b')) \<Rightarrow> address b' = address b \<and> has_air b' = has_air b
    | (Some (Real _), Some (Real _)) \<Rightarrow> True
    | _ \<Rightarrow> False)"

lemma hci_snapshot_restore:
  "same_controller (Some c) (Some c') \<Longrightarrow> hci_snapshot (hci_restore (hci_snapshot c) c') = hci_snapshot c"
  by (cases c; cases c')
    (simp_all add: same_controller_def hci_snapshot_def hci_restore_def restore_def snapshot_def
      set_state_def bt_state.defs bt.defs)

text \<open>The copies of the contexts are where the new map says.\<close>

lemma copied_contexts:
  fixes ks :: "nat list" and xs :: "'a list"
  assumes "length xs = length ks"
  shows "map (\<lambda>(b, i). (b, (old @ xs @ ys) ! i)) (zip ks [length old..<length old + length ks]) = zip ks xs"
  using assms by (intro nth_equalityI) (simp_all add: nth_append)

lemma head_key:
  assumes "xs \<noteq> []" and "\<And>x. x \<in> set xs \<Longrightarrow> fst x = b"
  shows "(case xs of (k, _) # _ \<Rightarrow> Inl k | [] \<Rightarrow> z) = Inl b"
proof (cases xs)
  case (Cons e es)
  then show ?thesis using assms(2) [of e] by (cases e) simp
qed (use assms(1) in simp)

lemma numbered_key:
  assumes "distinct ks" and "b \<in> set ks"
  obtains k where "k < length ks" "ks ! k = b" "map_of (zip ks [n..<n + length ks]) b = Some (n + k)"
proof -
  obtain k where k: "k < length ks" "ks ! k = b" using assms(2) by (auto simp: in_set_conv_nth)
  moreover from k assms(1) have "map_of (zip ks [n..<n + length ks]) b = Some (n + k)"
    using map_of_zip_nth [of ks "[n..<n + length ks]" k] by simp
  ultimately show ?thesis by (rule that)
qed

lemma restored_current:
  fixes h h2 :: "('g, 'l) host" and G :: "'g guest"
  assumes keys: "distinct (map fst (contexts h))"
  defines "s \<equiv> host_snapshot G h" and "h' \<equiv> host_restore G (host_snapshot G h) h2"
  shows "(case filter (\<lambda>(b, i). i = current h') (rev (contexts h')) of
      (b, _) # _ \<Rightarrow> Inl b | [] \<Rightarrow> Inr (current_ctx h')) = snap_current s"
proof -
  let ?ks = "map fst (contexts h)" and ?n = "length (store h2)"
  have ks: "map fst (snap_contexts s) = ?ks" by (simp add: s_def host_snapshot_def split_beta)
  have ct: "contexts h' = zip ?ks [?n..<?n + length ?ks]"
    by (simp add: h'_def host_restore_def Let_def flip: s_def)
      (simp add: s_def host_snapshot_def case_prod_unfold o_def)
  show ?thesis
  proof (cases "filter (\<lambda>(b, i). i = current h) (rev (contexts h))")
    case Nil
    then have s: "snap_current s = Inr (current_ctx h)" by (simp add: s_def host_snapshot_def)
    then have cur: "current h' = ?n + length ?ks" and ctx: "current_ctx h' = current_ctx h"
      unfolding h'_def s_def [symmetric] current_ctx_def
      by (simp_all add: host_restore_def Let_def nth_append)
        (simp_all add: s_def host_snapshot_def)
    have "filter (\<lambda>(b, i). i = current h') (rev (contexts h')) = []"
      unfolding ct cur by (auto simp: filter_empty_conv dest: set_zip_rightD)
    then show ?thesis by (simp add: s ctx)
  next
    case (Cons e es)
    obtain b i where e: "e = (b, i)" by (cases e)
    from Cons e have s: "snap_current s = Inl b" by (simp add: s_def host_snapshot_def)
    have "(b, i) \<in> set (contexts h)"
      using Cons e by (metis (no_types, lifting) filter_is_subset list.set_intros(1) set_rev subsetD)
    then have "b \<in> set ?ks" by force
    then obtain k where k: "k < length ?ks" "?ks ! k = b"
        "map_of (contexts h') b = Some (?n + k)"
      unfolding ct by (rule numbered_key [OF keys]) blast
    have cur: "current h' = ?n + k"
      using k(3) unfolding h'_def s_def [symmetric]
      by (simp add: host_restore_def Let_def s)
    show ?thesis
      unfolding s cur
    proof (rule head_key)
      have "(b, ?n + k) \<in> set (contexts h')" using k(3) by (rule map_of_SomeD)
      then show "filter (\<lambda>(b, i). i = ?n + k) (rev (contexts h')) \<noteq> []"
        by (auto simp: filter_empty_conv)
      fix x
      assume "x \<in> set (filter (\<lambda>(b, i). i = ?n + k) (rev (contexts h')))"
      then show "fst x = b"
        using k(1,2) unfolding ct by (auto simp: in_set_zip)
    qed
  qed
qed

text \<open>
  Whatever the guest and its host have done since, restoring a snapshot brings back all of the
  machine that a snapshot holds: the memory and stack pointer, the clock, the console, the files, the
  interrupts, and every context with the buffer it is found by.
\<close>

theorem snapshot_restored:
  fixes h h2 :: "('g, 'l) host"
  assumes "distinct (map fst (contexts h))" and "length (mem h2) = length (mem h)"
    and "same_controller (hci h) (hci h2)" and "stack_pointer G (set_stack_pointer G
      (stack_pointer G (inst h)) (inst h2)) = stack_pointer G (inst h)"
  shows "host_snapshot G (host_restore G (host_snapshot G h) h2) = host_snapshot G h"
proof -
  define s where "s = host_snapshot G h"
  define h' where "h' = host_restore G s h2"
  have ks: "length (map fst (snap_contexts s)) = length (snap_contexts s)" by simp
  have "map (\<lambda>(b, i). (b, store h' ! i)) (contexts h') =
      zip (map fst (snap_contexts s)) (map snd (snap_contexts s))"
    using copied_contexts [of "map snd (snap_contexts s)" "map fst (snap_contexts s)" "store h2"]
    by (simp add: h'_def host_restore_def Let_def)
  then have ctxs': "map (\<lambda>(b, i). (b, store h' ! i)) (contexts h') = snap_contexts s"
    by (simp add: zip_map_fst_snd)
  have controller: "map_option hci_snapshot (hci h') = snap_hci s"
    using assms(3) hci_snapshot_restore
    by (cases "hci h"; cases "hci h2")
      (auto simp: h'_def s_def host_restore_def host_snapshot_def Let_def same_controller_def
        split: hci.splits)
  have cur: "(case filter (\<lambda>(b, i). i = current h') (rev (contexts h')) of
      (b, _) # _ \<Rightarrow> Inl b | [] \<Rightarrow> Inr (current_ctx h')) = snap_current s"
    using restored_current [OF assms(1), of G h2] unfolding h'_def s_def .
  have "host_snapshot G h' = s"
  proof (rule snap.equality)
    show "snap_contexts (host_snapshot G h') = snap_contexts s"
      using ctxs' by (simp add: host_snapshot_def)
    show "snap_current (host_snapshot G h') = snap_current s"
      using cur by (simp add: host_snapshot_def)
    show "snap_hci (host_snapshot G h') = snap_hci s"
      using controller by (simp add: host_snapshot_def)
  qed (use assms(2,4) in \<open>simp_all add: host_snapshot_def h'_def host_restore_def Let_def s_def\<close>)
  then show ?thesis by (simp add: h'_def s_def)
qed

text \<open>
  But what the undone step took out of the host's queues is lost: an input event the guest read in
  it is not there to be read again when the step is repeated.
\<close>

theorem step_back_loses_events:
  assumes "input_queue (dev h) = ev # rest"
    and "do_import G ops (InputPoll ptr) h = Some (Inr (v, h2))"
  shows "v = 1 \<and> input_queue (dev (host_restore G (host_snapshot G h) h2)) = rest"
proof -
  have "host_input_poll ptr h = (v, h2)"
    using assms by (auto simp: do_import_def in_memory_def split: if_splits)
  then have "v = 1" "input_queue (dev h2) = rest"
    using assms(1) by (auto simp: host_input_poll_def input_poll_def inject_irq_def Let_def)
  then show ?thesis by (simp add: host_restore_def Let_def)
qed

end
