(* ===== verification/Core_Time.thy ===== *)
theory Core_Time
  imports Core_Switch
begin

text \<open>
  Time on the timeline that the boards of a pair share, and the frames a board sends: whatever its
  guest does, and even over a reboot, time never goes back, and each frame is stamped with the time it
  was sent and the link's latency, in order.
\<close>

definition wire_of :: "('g, 'l) host \<Rightarrow> ns \<times> ns \<times> nat \<times> (ns \<times> nat list) list" where
  "wire_of h = (now_ns h, epoch_ns h, reboots h, eth_out h)"

text \<open>From one host to a later one: the uptime starts again only at a reboot.\<close>

definition moves :: "('g, 'l) host \<Rightarrow> ('g, 'l) host \<Rightarrow> bool" where
  "moves h h' \<longleftrightarrow> global_ns h \<le> global_ns h' \<and>
    reboots h \<le> reboots h' \<and> (reboots h' = reboots h \<longrightarrow> epoch_ns h' = epoch_ns h) \<and>
    (\<exists>fs. eth_out h' = eth_out h @ fs \<and> sorted (map fst fs) \<and>
      (\<forall>at \<in> fst ` set fs. global_ns h + LINK_LATENCY_NS \<le> at \<and> at \<le> global_ns h' + LINK_LATENCY_NS))"

lemma moves_later:
  "eth_out h' = eth_out h \<Longrightarrow> reboots h' = reboots h \<Longrightarrow> epoch_ns h' = epoch_ns h \<Longrightarrow>
    global_ns h \<le> global_ns h' \<Longrightarrow> moves h h'"
  by (simp add: moves_def)

lemma moves_same: "wire_of h' = wire_of h \<Longrightarrow> moves h h'"
  by (simp add: moves_later wire_of_def global_ns_def)

lemma moves_refl [simp]: "moves h h"
  by (simp add: moves_later)

lemma moves_trans:
  assumes "moves h1 h2" and "moves h2 h3"
  shows "moves h1 h3"
proof -
  obtain fs gs where f: "eth_out h2 = eth_out h1 @ fs" "sorted (map fst fs)"
      "\<forall>at \<in> fst ` set fs. global_ns h1 + LINK_LATENCY_NS \<le> at \<and> at \<le> global_ns h2 + LINK_LATENCY_NS"
    and g: "eth_out h3 = eth_out h2 @ gs" "sorted (map fst gs)"
      "\<forall>at \<in> fst ` set gs. global_ns h2 + LINK_LATENCY_NS \<le> at \<and> at \<le> global_ns h3 + LINK_LATENCY_NS"
    and t: "global_ns h1 \<le> global_ns h2" "global_ns h2 \<le> global_ns h3"
    and b: "reboots h1 \<le> reboots h2" "reboots h2 \<le> reboots h3"
      "reboots h2 = reboots h1 \<longrightarrow> epoch_ns h2 = epoch_ns h1" "reboots h3 = reboots h2 \<longrightarrow> epoch_ns h3 = epoch_ns h2"
    using assms unfolding moves_def by blast
  have "sorted (map fst (fs @ gs))" using f(2,3) g(2,3) by (force simp: sorted_append)
  moreover have "global_ns h1 + LINK_LATENCY_NS \<le> at \<and> at \<le> global_ns h3 + LINK_LATENCY_NS"
    if "at \<in> fst ` set (fs @ gs)" for at
    using that f(3) g(3) t by (simp only: set_append image_Un Un_iff) (meson add_right_mono order_trans)
  ultimately show ?thesis
    using t b f(1) g(1) unfolding moves_def by (intro conjI exI [of _ "fs @ gs"] ballI) auto
qed

lemma moves_from: "moves h1 h2 \<Longrightarrow> wire_of h1 = wire_of h \<Longrightarrow> moves h h2"
  by (rule moves_trans [OF moves_same])

lemma moves_to: "moves h h1 \<Longrightarrow> wire_of h2 = wire_of h1 \<Longrightarrow> moves h h2"
  by (rule moves_trans [OF _ moves_same])

section \<open>What leaves both alone\<close>

lemma wire_of_update [simp]:
  "wire_of (h\<lparr>con := c\<rparr>) = wire_of h" "wire_of (h\<lparr>dev := d\<rparr>) = wire_of h" "wire_of (h\<lparr>mem := m\<rparr>) = wire_of h"
  "wire_of (h\<lparr>inst := g\<rparr>) = wire_of h" "wire_of (h\<lparr>disp := p\<rparr>) = wire_of h" "wire_of (h\<lparr>lan := l\<rparr>) = wire_of h"
  "wire_of (h\<lparr>storage := s\<rparr>) = wire_of h" "wire_of (h\<lparr>hci := b\<rparr>) = wire_of h" "wire_of (h\<lparr>wall_ns := t\<rparr>) = wire_of h"
  "wire_of (h\<lparr>host_done := q\<rparr>) = wire_of h" "wire_of (h\<lparr>exit_code := e\<rparr>) = wire_of h"
  "wire_of (h\<lparr>traps := n\<rparr>) = wire_of h" "wire_of (h\<lparr>step_limit_ns := sl\<rparr>) = wire_of h"
  "wire_of (h\<lparr>quiescent_rounds := n\<rparr>) = wire_of h" "wire_of (h\<lparr>idle_until := u\<rparr>) = wire_of h"
  "wire_of (h\<lparr>opts := os\<rparr>) = wire_of h" "wire_of (h\<lparr>alarm_ns := a\<rparr>) = wire_of h"
  "wire_of (h\<lparr>step_started_at := v\<rparr>) = wire_of h" "wire_of (h\<lparr>storage_image := im\<rparr>) = wire_of h"
  "wire_of (h\<lparr>yield_to_host := y\<rparr>) = wire_of h" "wire_of (h\<lparr>idle_wait_ns := w\<rparr>) = wire_of h"
  "wire_of (h\<lparr>switches := n\<rparr>) = wire_of h"
  "wire_of (h\<lparr>current := n\<rparr>) = wire_of h" "wire_of (h\<lparr>contexts := cs\<rparr>) = wire_of h"
  "wire_of (h\<lparr>store := st\<rparr>) = wire_of h"
  by (simp_all add: wire_of_def)

lemma wire_of_lower [simp]: "wire_of (fold lower_limit ats h) = wire_of h"
  by (simp add: wire_of_def)

lemma wire_of_take_air [simp]: "wire_of (take_air h) = wire_of h"
  by (simp add: take_air_def Let_def split: option.split hci.split) (simp add: wire_of_def)

lemma wire_of_raise_irq [simp]: "wire_of (raise_irq l h) = wire_of h"
  by (simp add: raise_irq_def)

lemma wire_of_inject [simp]: "wire_of (host_inject l h) = wire_of h"
  by (simp add: host_inject_def)

lemma wire_of_poll [simp]:
  "wire_of (host_poll_out port c h) = wire_of h" "wire_of (snd (host_poll_in port h)) = wire_of h"
  by (simp_all add: host_poll_out_def host_poll_in_def split_beta)

lemma wire_of_push_ethernet [simp]: "wire_of (host_push_ethernet f t h) = wire_of h"
  by (simp add: host_push_ethernet_def)

lemma wire_of_from_lan [simp]: "wire_of (from_lan ops fs l h) = wire_of h"
proof -
  have "wire_of (fold (\<lambda>f. host_push_ethernet f t) fs h) = wire_of h" for h :: "('a, 'b) host" and t
    by (induction fs arbitrary: h) simp_all
  then show ?thesis by (simp add: from_lan_def)
qed

lemma wire_of_recv [simp]:
  "wire_of (snd (host_eth_recv p n h)) = wire_of h"
  "wire_of (snd (host_input_poll p h)) = wire_of h" "wire_of (snd (host_sensor_poll p h)) = wire_of h"
  by (simp_all add: host_eth_recv_def host_input_poll_def host_sensor_poll_def split_beta
      split: prod.split option.split)

lemma wire_of_storage [simp]: "wire_of (storage_attach p n h) = wire_of h"
  by (simp add: storage_attach_def Let_def split: option.split)

lemma wire_of_entropy [simp]: "wire_of (entropy_get p n h) = wire_of h"
  by (simp add: entropy_get_def split_beta) (simp add: wire_of_def)

lemma wire_of_suspend [simp]: "wire_of (suspend G idle fatal h) = wire_of h"
  by (simp add: suspend_def Let_def) (simp add: wire_of_def)

lemma wire_of_wait [simp]: "wire_of (wait_or_switch G idle h) = wire_of h"
  by (simp add: wait_or_switch_def)

lemma wire_of_set_alarm [simp]: "wire_of (set_alarm d h) = wire_of h"
  by (simp add: set_alarm_def) (simp add: wire_of_def)

lemma wire_of_script_step [simp]: "wire_of (script_step i h) = wire_of h"
  by (simp add: script_step_def Let_def split: script_item.split script_action.split)

section \<open>The guest\<close>

lemma moves_eth_send: "moves h (eth_send ops f h)"
proof (cases "lan h")
  case None
  then show ?thesis by (simp add: moves_def eth_send_def Let_def global_ns_def)
next
  case (Some l)
  then show ?thesis by (intro moves_same) (simp add: eth_send_def Let_def split_beta)
qed

lemma moves_safepoint: "comes_to (moves h)
    (map_sum (\<lambda>(s, h). (Stopped s, h)) (\<lambda>h. (0 :: int, h)) (safepoint_tick h))"
proof -
  define h1 where "h1 = (if realtime (opts h) then h else h\<lparr>now_ns := now_ns h + SAFEPOINT_TICK_NS\<rparr>)"
  have m: "moves h h1" by (simp add: h1_def moves_def global_ns_def SAFEPOINT_TICK_NS_def)
  then have "moves h (raise_irq l (h1\<lparr>alarm_ns := a, quiescent_rounds := q\<rparr>))" for l a q
    by (rule moves_to) simp
  with m show ?thesis
    unfolding safepoint_tick_def h1_def [symmetric] by (simp add: Let_def split: option.split)
qed

lemma do_import_moves:
  assumes "do_import G ops call h = Some r"
  shows "comes_to (moves h) r"
proof (cases call)
  case SafepointTick
  then show ?thesis using assms moves_safepoint [of h] by (auto simp: do_import_def)
next
  case (Semihost op args)
  then obtain z where z: "semihost op args \<lparr>sh_mem = mem h, sh_state = sh h, sh_con = con h\<rparr> = Some z"
    and r: "r = map_sum (\<lambda>e. (Stopped (Failed e), h)) id
      (map_sum id (\<lambda>(v, m). (v, h\<lparr>mem := sh_mem m, sh := sh_state m, con := sh_con m\<rparr>)) z)"
    using assms by (auto simp: do_import_def host_semihost_def)
  have "wire_of (h\<lparr>mem := m, sh := s, con := c\<rparr>) = wire_of h" for m s c by (simp add: wire_of_def)
  then show ?thesis by (cases z) (auto simp: r moves_same)
next
  case (EthSend p n)
  then show ?thesis using assms moves_eth_send by (auto simp: do_import_def in_memory_def)
qed (use assms in \<open>auto simp: do_import_def Let_def moves_same split: if_splits\<close>)

lemma call_export_moves:
  assumes "call_export G ops n x h = Some r"
  shows "stops_at (moves h) r"
proof (rule run_guest_inv)
  show "run_guest G ops (h\<lparr>inst := enter G n x (inst h)\<rparr>) = Some r" using assms by (simp add: call_export_def)
qed (auto intro: moves_same moves_to moves_trans dest!: do_import_moves simp: comes_to_def split: sum.splits)

section \<open>The host\<close>

lemma moves_set_now: "moves h (set_now t h)"
  by (rule moves_later) (simp_all add: set_now_def global_ns_def)

lemma moves_lan_step: "moves h (lan_step ops at h)"
  unfolding lan_step_def Let_def split_beta by (rule moves_to [OF moves_set_now]) simp

lemma bt_step_to_moves:
  assumes "bt_step_to at h = Some (Inr (r, h'))"
  shows "moves h h'"
proof -
  have "wire_of h' = wire_of (set_now at h)"
    using assms by (auto simp: bt_step_to_def Let_def split: option.splits sum.splits)
  then show ?thesis by (rule moves_to [OF moves_set_now])
qed

lemma moves_alarm_step: "moves h (snd (alarm_step a h))"
proof (cases a)
  case (Some t)
  have "moves h (raise_irq l ((set_now t (h\<lparr>quiescent_rounds := n\<rparr>))\<lparr>alarm_ns := u\<rparr>))" for l n u
    by (rule moves_to [OF moves_trans [OF moves_same moves_set_now]]) (simp_all only: wire_of_raise_irq wire_of_update)
  then show ?thesis by (simp add: alarm_step_def Some Let_def moves_same)
qed (simp add: alarm_step_def)

lemma advance_moves:
  assumes "advance_to_next_deadline ops limit cin h = Some (Inr (r, h'))"
  shows "moves h h'"
proof -
  obtain bt_at where "host_next_bt h = Inr bt_at"
    using assms by (auto simp: advance_to_next_deadline_def split: sum.splits)
  with assms show ?thesis
  proof (cases rule: advance_cases)
    case (uart at)
    then show ?thesis using host_next_uart_later [of h at] by (simp add: moves_later global_ns_def)
  next
    case (alarm at)
    then show ?thesis using moves_alarm_step [of h "alarm_due cin h"] by (metis snd_conv)
  next
    case (bt at)
    then show ?thesis by (simp add: bt_step_to_moves)
  qed (auto intro: moves_to [OF moves_set_now] moves_lan_step)
qed

lemma wire_of_due_frame [simp]: "wire_of (due_frame h) = wire_of h"
  by (simp add: due_frame_def split: option.split)

lemma paced_idle_wire:
  assumes "paced_idle ops p at t h = Some (Inr (r, h'))"
  shows "wire_of h' = wire_of (set_now t h)"
proof -
  define h1 where "h1 = (case lan h of None \<Rightarrow> set_now t h
    | Some l \<Rightarrow> (let (fs, l) = lan_advance ops (global_ns (set_now t h)) l in from_lan ops fs l (set_now t h)))"
  have "wire_of h1 = wire_of (set_now t h)" by (simp add: h1_def split_beta split: option.split)
  moreover have "wire_of h' = wire_of h1"
    using assms by (auto simp: paced_idle_def Let_def h1_def [unfolded Let_def] split: option.splits)
  ultimately show ?thesis by simp
qed

lemma paced_idle_moves: "paced_idle ops p at t h = Some (Inr (r, h')) \<Longrightarrow> moves h h'"
  by (rule moves_to [OF moves_set_now paced_idle_wire])

lemma interactive_idle_moves:
  assumes "interactive_idle ops h = Some (Inr (r, h'))"
  shows "moves h h'"
  using assms
  by (cases "pace h")
    (auto simp: interactive_idle_def Let_def advance_moves paced_idle_moves split: sum.splits if_splits prod.splits)

lemma map_sum_eq_Inl [simp]: "map_sum f g z = Inl y \<longleftrightarrow> (\<exists>x. z = Inl x \<and> y = f x)"
  by (cases z) auto

lemma failed_Inl [simp]: "failed h x = Some (Inl e) \<longleftrightarrow> (\<exists>j. x = Some (Inl j) \<and> e = (Stopped (Failed j), h))"
  by (auto simp: failed_def)

lemma idle_step_error: "idle_step ops h = Some (Inl e) \<Longrightarrow> wire_of (snd e) = wire_of h"
  by (auto simp: idle_step_def Let_def split: if_splits)

lemma idle_step_moves:
  assumes "idle_step ops h = Some (Inr (r, h'))"
  shows "moves h h'"
  using assms
proof (cases rule: idle_step_cases)
  case (pair q h1)
  from moves_to [OF advance_moves [OF pair(1)]] show ?thesis by (simp add: pair(2))
next
  case (interactive q)
  have "moves h (h\<lparr>yield_to_host := True\<rparr>)" by (intro moves_same) simp
  then show ?thesis by (rule moves_trans) (rule interactive_idle_moves [OF interactive(2)])
qed (auto intro: moves_same advance_moves)

section \<open>A step\<close>

lemma wire_of_boot [simp]: "wire_of (boot G h) = wire_of h"
  by (simp add: boot_def enter_new_def Let_def) (simp add: wire_of_def)

lemma wire_of_step [simp]:
  "wire_of (update_ctx i f h) = wire_of h" "wire_of (enter_new c h) = wire_of h"
  "wire_of (enter_ctx G i h) = wire_of h" "wire_of (note_ctx i h) = wire_of h"
  by (simp_all add: update_ctx_def enter_new_def enter_ctx_def note_ctx_def Let_def)

lemma wire_of_halted: "halted G t h = (b, h') \<Longrightarrow> wire_of h' = wire_of h"
  by (auto simp: halted_def split: if_splits)

lemma stops_at_moves: "stops_at (moves h1) r \<Longrightarrow> moves h h1 \<Longrightarrow> stops_at (moves h) r"
  by (auto simp: stops_at_def intro: moves_trans split: sum.splits)

lemma raise_trap_moves:
  assumes "raise_trap G ops i t h = Some r"
  shows "stops_at (moves h) r"
proof -
  let ?c = "store h ! i"
  define h1 where "h1 = update_ctx i (\<lambda>c. c\<lparr>entry := Z_WASM_TRAP, arg := 0\<rparr>)
    (h\<lparr>traps := traps h + 1, mem := mem_put (buf ?c) (word_bytes (word_of_nat (buf ?c + 8))) (mem h)\<rparr>)"
  have h1: "moves h h1" by (intro moves_same) (simp add: h1_def)
  let ?h = "h\<lparr>traps := traps h + 1\<rparr>"
  define guard where "guard \<longleftrightarrow> t \<noteq> Trapped \<or> \<not> has_trap_handler G \<or> buf ?c = scratch_buf h \<or> entry ?c = Z_WASM_TRAP \<or>
    asyncify_state G (inst h) \<noteq> NORMAL"
  have eq: "Some r = (if guard then Some (Inl (t, h)) else if traps ?h > MAX_TRAPS then Some (Inl (t, ?h))
    else case call_export G ops Z_WASM_TRAP 0 h1 of
        None \<Rightarrow> None
      | Some (Inr h) \<Rightarrow> Some (Inr h)
      | Some (Inl (again, h)) \<Rightarrow> (case halted G again h of (True, h) \<Rightarrow> Some (Inr h) | (False, h) \<Rightarrow> Some (Inl (again, h))))"
    unfolding assms [symmetric] raise_trap_def Let_def guard_def h1_def by simp
  show ?thesis
  proof (cases "guard \<or> traps ?h > MAX_TRAPS")
    case True
    then show ?thesis using eq by (auto intro: moves_same split: if_splits)
  next
    case False
    then obtain s where s: "call_export G ops Z_WASM_TRAP 0 h1 = Some s" using eq by (auto split: option.splits)
    have m: "stops_at (moves h) s" by (rule stops_at_moves [OF call_export_moves [OF s] h1])
    show ?thesis
    proof (cases s)
      case (Inr h2)
      then show ?thesis using eq False s m by simp
    next
      case (Inl th)
      obtain u h2 where th: "th = (u, h2)" by fastforce
      obtain b h3 where hl: "halted G u h2 = (b, h3)" by fastforce
      have "moves h h3" using m Inl th moves_to [OF _ wire_of_halted [OF hl]] by simp
      then show ?thesis using eq False s Inl th hl by (cases b) simp_all
    qed
  qed
qed

lemma after_run_moves:
  assumes "after_run G ops i h = Some r"
  shows "comes_to (moves h) r"
proof (cases "asyncify_state G (inst h) = UNWINDING \<and> (unwound_into h = None \<or> buffer_ok (the (unwound_into h)) h) \<and>
    \<not> pending_fatal h")
  case False
  have "moves h (h\<lparr>host_done := True, exit_code := 1\<rparr>)" "moves h (h\<lparr>inst := g\<rparr>)" for g
    by (simp_all add: moves_same)
  then have "comes_to (moves h) (the (after_run G ops i h))"
    using False by (auto simp: after_run_def Let_def)
  then show ?thesis using assms by simp
next
  case True
  define h1 where "h1 = note_ctx i (h\<lparr>inst := stop_unwind G (inst h)\<rparr>)"
  have h1: "moves h h1" by (intro moves_same) (simp add: h1_def)
  have r: "(if resume_same h1 then idle_step ops h1 else Some (switch_step h1)) = Some r"
    using assms True by (auto simp: after_run_def h1_def Let_def)
  show ?thesis
  proof (cases "resume_same h1")
    case True
    show ?thesis
    proof (cases r)
      case (Inr qh)
      then show ?thesis using r True moves_trans [OF h1 idle_step_moves [of ops h1 "fst qh" "snd qh"]] by (cases qh) simp
    next
      case (Inl e)
      then have "wire_of (snd e) = wire_of h1" using r True by (intro idle_step_error [of ops h1 e]) simp
      then show ?thesis using h1 Inl by (cases e) (simp add: moves_to)
    qed
  next
    case False
    then show ?thesis using r h1
      by (auto simp: switch_step_def Let_def intro!: moves_to [OF h1] split: if_splits option.splits)
  qed
qed

lemma step_moves:
  assumes "step G ops h = Some r"
  shows "comes_to (moves h) r"
proof -
  let ?i = "current h"
  have e: "moves h (enter_ctx G ?i h)" by (intro moves_same) simp
  obtain s where s: "call_export G ops (entry (store h ! ?i)) (arg (store h ! ?i)) (enter_ctx G ?i h) = Some s"
    using assms by (auto simp: step_def Let_def split: option.splits)
  have sm: "stops_at (moves h) s" by (rule stops_at_moves [OF call_export_moves [OF s] e])
  have onward: "comes_to (moves h) r" if "after_run G ops ?i h1 = Some r" "moves h h1" for h1
    using after_run_moves [OF that(1)] that(2) by (auto simp: comes_to_def intro: moves_trans split: sum.splits)
  show ?thesis
  proof (cases s)
    case (Inr h1)
    then show ?thesis using assms s sm onward by (simp add: step_def Let_def)
  next
    case (Inl th)
    obtain t h1 where th: "th = (t, h1)" by fastforce
    then have m1: "moves h h1" using sm Inl by simp
    obtain b h2 where hl: "halted G t h1 = (b, h2)" by fastforce
    have m2: "moves h h2" by (rule moves_to [OF m1 wire_of_halted [OF hl]])
    show ?thesis
    proof (cases b)
      case True
      then have "r = Inr (False, h2)" using assms s Inl th hl by (simp add: step_def Let_def)
      then show ?thesis using m2 by simp
    next
      case False
      then obtain u where u: "raise_trap G ops ?i t h2 = Some u" and r: "r = (case u of Inl e \<Rightarrow> Inl e
          | Inr h \<Rightarrow> if pending_fatal h then Inr (False, h) else the (after_run G ops ?i h)) \<and>
          (\<forall>h. u = Inr h \<longrightarrow> \<not> pending_fatal h \<longrightarrow> after_run G ops ?i h \<noteq> None)"
        using assms s Inl th hl by (auto simp: step_def Let_def split: option.splits sum.splits if_splits)
      have um: "stops_at (moves h) u" by (rule stops_at_moves [OF raise_trap_moves [OF u] m2])
      show ?thesis
      proof (cases u)
        case (Inr h3)
        then show ?thesis using r um onward [of h3] by auto
      qed (use r um in \<open>auto simp: comes_to_def stops_at_def\<close>)
    qed
  qed
qed

lemma wire_of_raise_lines [simp]: "wire_of (raise_lines ready ls h) = wire_of h"
  by (induction ready ls h rule: raise_lines.induct) simp_all

lemma wire_of_prepare [simp]:
  "wire_of (apply_external h) = wire_of h" "wire_of (raise_uart h) = wire_of h" "wire_of (raise_due_frame h) = wire_of h"
  by (simp_all add: apply_external_def raise_uart_def raise_due_frame_def Let_def split: list.split)

lemma wire_of_raise_hci: "raise_hci h = Some (Inr h') \<Longrightarrow> wire_of h' = wire_of h"
  by (auto simp: raise_hci_def split: option.splits sum.splits)

lemma comes_to_moves: "comes_to (moves h1) r \<Longrightarrow> moves h h1 \<Longrightarrow> comes_to (moves h) r"
  by (auto simp: comes_to_def intro: moves_trans split: sum.splits)

lemma step_prepared_moves:
  assumes "step_prepared G ops h = Some r"
  shows "comes_to (moves h) r"
proof -
  let ?h = "raise_uart (raise_due_frame (h\<lparr>step_started_at := Some (wall_ns h)\<rparr>))"
  have m: "moves h ?h" by (intro moves_same) simp
  consider s where "r = Inl (s, h)" | s where "r = Inl (s, ?h)"
    | h1 where "raise_hci ?h = Some (Inr h1)" "step G ops (apply_external h1) = Some r"
    using assms by (auto simp: step_prepared_def Let_def split: option.splits sum.splits)
  then show ?thesis
  proof cases
    case (3 h1)
    have "moves h (apply_external h1)" by (rule moves_to [OF m]) (simp add: wire_of_raise_hci [OF 3(1)])
    then show ?thesis by (rule comes_to_moves [OF step_moves [OF 3(2)]])
  qed (use m in auto)
qed

lemma moves_reboot: "moves h (boot G (reset_for_reboot (h\<lparr>storage_image := img, reboots := reboots h + 1\<rparr>)))"
  by (rule moves_to [of h "reset_for_reboot (h\<lparr>storage_image := img, reboots := reboots h + 1\<rparr>)"])
    (simp_all add: moves_def reset_for_reboot_def global_ns_def)

lemma run_step_moves:
  assumes "run_step G ops h = Some (Inr (b, h'))"
  shows "moves h h'"
proof -
  obtain r where r: "step_prepared G ops h = Some r"
    using assms by (auto simp: run_step_def split: option.splits)
  note m = step_prepared_moves [OF r]
  show ?thesis
  proof (cases r)
    case (Inr bh)
    then show ?thesis using assms r m by (simp add: run_step_def)
  next
    case (Inl th)
    obtain t h1 where th: "th = (t, h1)" by fastforce
    have m1: "moves h h1" using m Inl th by simp
    have "h' = h1\<lparr>exit_code := 0\<rparr> \<or> h' = h1\<lparr>exit_code := 2\<rparr> \<or> do_reboot G h1 = Inr (b, h')"
      using assms r Inl th by (auto simp: run_step_def split: thrown.splits stop.splits if_splits)
    then show ?thesis
    proof (elim disjE)
      assume "do_reboot G h1 = Inr (b, h')"
      then obtain img where "h' = h1\<lparr>storage_image := img, reboots := reboots h1 + 1, exit_code := 2\<rparr> \<or>
          h' = boot G (reset_for_reboot (h1\<lparr>storage_image := img, reboots := reboots h1 + 1\<rparr>))"
        by (auto simp: do_reboot_def Let_def split: sum.splits if_splits)
      moreover have "moves h1 (h1\<lparr>storage_image := img, reboots := reboots h1 + 1, exit_code := 2\<rparr>)"
        by (simp add: moves_def global_ns_def)
      ultimately show ?thesis using moves_trans [OF m1] moves_reboot by auto
    qed (auto intro: moves_to [OF m1])
  qed
qed

section \<open>Runs\<close>

lemma run_until_steps_moves: "run_until_steps n G ops h = Some (Inr (why, h')) \<Longrightarrow> moves h h'"
proof (induction n arbitrary: h)
  case (Suc n)
  show ?case
  proof (cases "host_done h \<or> (step_limit_ns h \<noteq> None \<and> now_ns h \<ge> the (step_limit_ns h))")
    case True
    then have "h' = h" using Suc.prems by (auto split: if_splits)
    then show ?thesis by simp
  next
    case False
    then obtain b h1 where r: "run_step G ops (h\<lparr>idle_until := None\<rparr>) = Some (Inr (b, h1))"
      and next_h: "(if \<not> b then Some (Inr (Done, h1\<lparr>host_done := True\<rparr>))
        else case idle_until h1 of
          Some at \<Rightarrow> Some (Inr (Idle (map_option (\<lambda>t. t + epoch_ns h1) at), h1))
        | None \<Rightarrow> run_until_steps n G ops h1) = Some (Inr (why, h'))"
      using Suc.prems by (auto split: option.splits sum.splits bool.splits)
    have m: "moves h h1" by (rule moves_from [OF run_step_moves [OF r]]) simp
    show ?thesis
    proof (cases "b \<and> idle_until h1 = None")
      case True
      then have "moves h1 h'" using next_h Suc.IH by simp
      then show ?thesis by (rule moves_trans [OF m])
    next
      case False
      then have "wire_of h' = wire_of h1" using next_h by (auto split: if_splits option.splits)
      then show ?thesis by (rule moves_to [OF m])
    qed
  qed
qed simp

lemma run_until_moves: "run_until G ops limit n h = Some (Inr (why, h')) \<Longrightarrow> moves h h'"
  unfolding run_until_def by (drule run_until_steps_moves) (erule moves_from, simp)

text \<open>
  C7. Whatever the guest does in a run of a board, reboots included: its time on the pair's timeline does
  not go back, and the frames it sends are stamped in order, none before the run began and the link's
  latency, and none after it ended and the latency.
\<close>

theorem frames_leave_in_order:
  assumes "run_until G ops limit n h = Some (Inr (why, h'))"
  shows "global_ns h \<le> global_ns h' \<and> (\<exists>fs. eth_out h' = eth_out h @ fs \<and> sorted (map fst fs) \<and>
    (\<forall>at \<in> fst ` set fs. global_ns h + LINK_LATENCY_NS \<le> at \<and> at \<le> global_ns h' + LINK_LATENCY_NS))"
  using run_until_moves [OF assms] unfolding moves_def by blast

text \<open>
  C19. But a reboot moves the limit that the pair set: it is kept on the uptime, which starts again, so on
  the pair's timeline it is later by all the board had run.
\<close>

theorem reboot_moves_the_limit:
  assumes "do_reboot G h = Inr (True, h')" and "step_limit_ns h = Some l"
  shows "\<exists>l'. step_limit_ns h' = Some l' \<and> epoch_ns h' + l' = epoch_ns h + l + now_ns h \<and> global_ns h' = global_ns h"
  using assms
  by (auto simp: do_reboot_def Let_def boot_def enter_new_def reset_for_reboot_def global_ns_def split: sum.splits if_splits)

end
