(* ===== verification/Core_Sample.thy ===== *)
theory Core_Sample
  imports Core_Snapshot Core_Time
begin

text \<open>
  A small guest to apply the driver loop's theorems to: it makes the calls of a script, one after the
  other, and returns when it has none left or is being unwound; rewound, it is back in \<open>switch_to\<close>.
\<close>

section \<open>The guest\<close>

type_synonym scripted = "(nat \<times> nat) \<times> act list"

definition scripted_guest :: "scripted guest" where
  "scripted_guest = \<lparr>enter = \<lambda>_ _ g. g,
     run_on = \<lambda>m ((mode, s), acts).
       if mode = UNWINDING then ((Return, 1), m, ((mode, s), acts))
       else if mode = REWINDING then ((Import SwitchTo, 1), m, ((mode, s), acts))
       else (case acts of
           [] \<Rightarrow> ((Return, 1), m, ((mode, s), []))
         | a # rest \<Rightarrow> ((a, 1), m, ((mode, s), rest))),
     answer = \<lambda>_ g. g,
     asyncify_state = \<lambda>((mode, _), _). mode,
     start_unwind = \<lambda>_ ((_, s), acts). ((UNWINDING, s), acts),
     stop_unwind = \<lambda>((_, s), acts). ((NORMAL, s), acts),
     start_rewind = \<lambda>_ ((_, s), acts). ((REWINDING, s), acts),
     stop_rewind = \<lambda>((_, s), acts). ((NORMAL, s), acts),
     stack_pointer = \<lambda>((_, s), _). s,
     set_stack_pointer = \<lambda>s ((mode, _), acts). ((mode, s), acts),
     has_trap_handler = True,
     fresh_image = \<lparr>image_inst = ((NORMAL, 900), []), image_mem = replicate 64 0,
       image_switch_block = 0, image_irq_pending = 24, image_scratch = 32, image_masked = None,
       image_enabled = None\<rparr>\<rparr>"

text \<open>The switch block names buffer 60, to be resumed; the boot path's buffer is empty.\<close>

definition sample_memory :: "nat list" where
  "sample_memory = replicate 12 0 @ [60] @ replicate 19 0 @ [40, 0, 0, 0, 48, 0, 0, 0] @ replicate 24 0"

definition waiting_ctx :: ctx where
  "waiting_ctx = \<lparr>entry = Z_WASM_THREAD_ENTRY, arg = 7, buf = 60, sp = Some 500, fresh = False\<rparr>"

text \<open>The boot path runs, and a thread waits.\<close>

definition two_contexts :: "(scripted, unit) host" where
  "two_contexts = (new_host sample_opts False 0 (- 1) None 0 ((NORMAL, 900), [Import SwitchTo]))
     \<lparr>mem := sample_memory, irq_pending_addr := 24, scratch_buf := 32,
      store := [\<lparr>entry = Z_WASM_BOOT, arg = 0, buf = 32, sp = None, fresh = True\<rparr>, waiting_ctx],
      contexts := [(60, 1)]\<rparr>"

lemmas sample_defs = two_contexts_def new_host_def sample_opts_def waiting_ctx_def

lemma two_contexts_parked: "parked 1 60 500 two_contexts"
  by (simp add: parked_def sample_defs)

lemma sample_words:
  "mem_word sample_memory 0 = 0" "mem_word sample_memory 4 = 0" "mem_word sample_memory 8 = 0"
  "mem_word sample_memory 12 = 60" "mem_word sample_memory 16 = 0" "mem_word sample_memory 20 = 0"
  "mem_word sample_memory 24 = 0" "mem_word sample_memory 32 = 40" "mem_word sample_memory 36 = 48"
  by (simp_all add: mem_word_def rd16_def byte_at_def sample_memory_def nth_append nth_Cons')

text \<open>One step: the boot path switches to the thread.\<close>

lemma two_contexts_step:
  "\<exists>h'. step scripted_guest no_lan two_contexts = Some (Inr (True, h')) \<and> current h' = 1 \<and>
    buf (store h' ! 0) = 32"
proof -
  have block: "read_switch_block h = \<lparr>from_sp = 0, from_buf = 0, to_sp = 0, to_buf = 60, to_fresh = 0,
      to_arg = 0\<rparr>" if "mem h = sample_memory" "switch_block_addr h = 0" for h :: "(scripted, unit) host"
    using that by (simp add: read_switch_block_def sample_words Let_def)
  have ok: "buffer_ok 32 h" if "mem h = sample_memory" for h :: "(scripted, unit) host"
    using that by (simp add: buffer_ok_def sample_words Let_def)
  show ?thesis
    by (simp add: step_def call_export_def enter_ctx_def update_ctx_def Let_def sample_defs
        run_guest.simps scripted_guest_def do_import_def wait_or_switch_def suspend_def block
        after_run_def ok note_ctx_def switch_step_def)
qed

section \<open>The theorems applied\<close>

theorem no_interrupt_lost_witness:
  "bit (pending_word (apply_external (host_inject IRQ_GPIO (two_contexts\<lparr>enabled_addr := None\<rparr>)))) 1"
  using no_interrupt_lost [of "host_inject IRQ_GPIO (two_contexts\<lparr>enabled_addr := None\<rparr>)" 1]
  by (simp add: sample_defs host_inject_def enabled_lines_def sample_memory_def)

theorem parked_context_kept_witness:
  "\<exists>h'. step scripted_guest no_lan two_contexts = Some (Inr (True, h')) \<and> parked 1 60 500 h'"
proof -
  obtain h' where h': "step scripted_guest no_lan two_contexts = Some (Inr (True, h'))"
    "buf (store h' ! 0) = 32"
    using two_contexts_step by blast
  have "current two_contexts = 0" "length (store two_contexts) = 2" by (simp_all add: sample_defs)
  with parked_context_kept [OF h'(1) two_contexts_parked] h' show ?thesis by simp
qed

theorem parked_context_resumed_witness:
  "\<exists>h'. switch_step two_contexts = Inr (True, h') \<and> current h' = 1 \<and>
    stack_pointer scripted_guest (inst (enter_ctx scripted_guest 1 h')) = 500"
proof -
  have "read_switch_block two_contexts = \<lparr>from_sp = 0, from_buf = 0, to_sp = 0, to_buf = 60,
      to_fresh = 0, to_arg = 0\<rparr>"
    by (simp add: read_switch_block_def sample_words Let_def sample_defs)
  then have "\<exists>h'. switch_step two_contexts = Inr (True, h') \<and> current h' = 1 \<and>
      store h' = store two_contexts \<and> inst (enter_ctx scripted_guest 1 h') =
        start_rewind scripted_guest 60 (set_stack_pointer scripted_guest 500 (inst two_contexts))"
    by (intro parked_context_resumed [OF two_contexts_parked]) simp_all
  then show ?thesis by (auto simp: scripted_guest_def sample_defs)
qed

theorem reboot_keeps_timeline_witness:
  "\<exists>h'. do_reboot scripted_guest (two_contexts\<lparr>now_ns := 7000, deadline_ns := 10000\<rparr>) = Inr (True, h') \<and>
    global_ns h' = 7000 \<and> deadline_ns h' - now_ns h' = 3000"
proof -
  let ?h = "two_contexts\<lparr>now_ns := 7000, deadline_ns := 10000\<rparr>"
  obtain h' where h': "do_reboot scripted_guest ?h = Inr (True, h')"
    by (simp add: do_reboot_def flash_image_def sample_defs)
  with reboot_keeps_timeline [OF h'] show ?thesis by (simp add: sample_defs global_ns_def)
qed

theorem reboot_stalls_hci_witness:
  "\<exists>h'. do_reboot scripted_guest (two_contexts\<lparr>now_ns := 7000,
      hci := Some (Emulated ((new_bt [1, 2, 3, 4, 5, 6] 1 True)\<lparr>rx_ready_ns := 17000\<rparr>))\<rparr>) = Inr (True, h') \<and>
    list_all (\<lambda>r. r = -1) (hci_session [(100, Write 1), (200, Write 3), (300, Write 12), (400, Write 0),
      (500, TryRead), (16000, TryRead)] h')"
proof -
  let ?b = "(new_bt [1, 2, 3, 4, 5, 6] 1 True)\<lparr>rx_ready_ns := 17000\<rparr>"
  let ?h = "two_contexts\<lparr>now_ns := 7000, hci := Some (Emulated ?b)\<rparr>"
  obtain h' where h': "do_reboot scripted_guest ?h = Inr (True, h')"
    by (simp add: do_reboot_def flash_image_def sample_defs)
  from reboot_stalls_hci [OF h', of ?b "[(100, Write 1), (200, Write 3), (300, Write 12),
      (400, Write 0), (500, TryRead), (16000, TryRead)]"] h'
  show ?thesis by simp
qed

theorem spinning_guest_stopped_witness:
  "\<exists>h'. run_guest (scripted_guest\<lparr>run_on := \<lambda>m g. ((Import SafepointTick, 0), m, g)\<rparr>) no_lan
      (two_contexts\<lparr>deadline_ns := 5000000000\<rparr>) = Some (Inl (Stopped AtMaxTime, h')) \<or>
    run_guest (scripted_guest\<lparr>run_on := \<lambda>m g. ((Import SafepointTick, 0), m, g)\<rparr>) no_lan
      (two_contexts\<lparr>deadline_ns := 5000000000\<rparr>) = Some (Inl (Stopped Hang, h'))"
  by (rule spinning_guest_stopped) (simp_all add: sample_defs)

text \<open>A frame has come, and the guest has enabled no line.\<close>

definition frame_waits :: "(scripted, unit) host" where
  "frame_waits = two_contexts\<lparr>enabled_addr := Some 24, alarm_ns := Some 5000,
     dev := push_ethernet 0 [1, 2, 3] (initial_devices 0)\<rparr>"

lemma frame_waits_unread: "frame_unread frame_waits"
  by (simp add: frame_unread_def frame_waits_def sample_defs next_script_def type_next_line_def
      initial_console_def deliverable_irqs_def latched_ready_def enabled_lines_def
      sample_words initial_devices_def push_ethernet_def ETH_QUEUE_MAX_def host_next_frame_def
      next_frame_ns_def)

theorem unread_frame_stops_clock_witness:
  "\<exists>h'. idles 1000 no_lan frame_waits = Some (Inr (True, h')) \<and> now_ns h' = 0"
  using unread_frame_stops_clock [OF frame_waits_unread, of 1000 no_lan]
  by (simp add: frame_waits_def sample_defs)

theorem entropy_does_not_depend_on_calls_witness:
  "entropy_get 5 4 (entropy_get 2 3 two_contexts) = entropy_get 2 7 two_contexts"
  using entropy_does_not_depend_on_calls [of 2 3 4 two_contexts]
  by (simp add: sample_defs sample_memory_def initial_rand_def DEFAULT_SEED_def)

theorem snapshot_restored_witness:
  "host_snapshot scripted_guest (host_restore scripted_guest (host_snapshot scripted_guest two_contexts)
      (two_contexts\<lparr>now_ns := 99, store := [], contexts := []\<rparr>))
    = host_snapshot scripted_guest two_contexts"
  by (rule snapshot_restored)
    (simp_all add: sample_defs same_controller_def scripted_guest_def)

definition key_pressed :: "(scripted, unit) host" where
  "key_pressed = two_contexts\<lparr>dev := push_input [\<lparr>ev_type = 1, ev_code = 30, ev_value = 1,
     ev_sync = 1\<rparr>] (initial_devices 0)\<rparr>"

theorem step_back_loses_events_witness:
  "\<exists>h2. do_import scripted_guest no_lan (InputPoll 40) key_pressed = Some (Inr (1, h2)) \<and>
    input_queue (dev (host_restore scripted_guest (host_snapshot scripted_guest key_pressed) h2)) = []"
proof -
  have q: "input_queue (dev key_pressed) = [\<lparr>ev_type = 1, ev_code = 30, ev_value = 1, ev_sync = 1\<rparr>]"
    by (simp add: key_pressed_def push_input_def initial_devices_def)
  obtain v h2 where poll: "host_input_poll 40 key_pressed = (v, h2)" by fastforce
  have "length (mem key_pressed) = 64" by (simp add: key_pressed_def sample_defs sample_memory_def)
  then have h2: "do_import scripted_guest no_lan (InputPoll 40) key_pressed = Some (Inr (v, h2))"
    by (simp add: do_import_def in_memory_def q poll)
  from step_back_loses_events [OF q h2] h2 show ?thesis by simp
qed

text \<open>A board that sends a frame and then halts.\<close>

definition sends_one :: "(scripted, unit) host" where
  "sends_one = two_contexts\<lparr>inst := ((NORMAL, 900), [Import (EthSend 32 2)]), deadline_ns := 1000000000\<rparr>"

theorem frames_leave_in_order_witness:
  "\<exists>why h'. run_until scripted_guest no_lan (Some 500000) 1 sends_one = Some (Inr (why, h')) \<and>
    sorted (map fst (eth_out h'))"
proof -
  obtain why h' where r: "run_until scripted_guest no_lan (Some 500000) 1 sends_one = Some (Inr (why, h'))"
    "eth_out sends_one = []"
    by (simp add: run_until_def run_step_def step_prepared_def check_deadline_def raise_uart_def raise_due_frame_def
        raise_hci_def apply_external_def uart_ready_def Let_def step_def call_export_def enter_ctx_def update_ctx_def
        sends_one_def sample_defs run_guest.simps scripted_guest_def do_import_def in_memory_def sample_memory_def
        eth_send_def lower_limit_def after_run_def initial_devices_def initial_console_def time_ns_def)
  from frames_leave_in_order [OF r(1)] r show ?thesis by auto
qed

theorem reboot_moves_the_limit_witness:
  "\<exists>h'. do_reboot scripted_guest (two_contexts\<lparr>now_ns := 7000, step_limit_ns := Some 7100\<rparr>) = Inr (True, h') \<and>
    (\<exists>l'. step_limit_ns h' = Some l' \<and> epoch_ns h' + l' = 14100 \<and> global_ns h' = 7000)"
proof -
  let ?h = "two_contexts\<lparr>now_ns := 7000, step_limit_ns := Some 7100\<rparr>"
  obtain h' where h': "do_reboot scripted_guest ?h = Inr (True, h')"
    by (simp add: do_reboot_def flash_image_def sample_defs)
  with reboot_moves_the_limit [OF h', of 7100] show ?thesis by (simp add: sample_defs global_ns_def)
qed

end
