(* ===== verification/Core_Loop.thy ===== *)
theory Core_Loop
  imports Core_Snapshot Core_Time
begin

text \<open>
  The run of a board on its own (host/core.mjs, \<open>run\<close>): a step of the driver loop at a time, held
  between steps while it is paused, with snapshots of the steps it is asked for one by one, and,
  when it is paced, with waits that keep the guest's clock from getting ahead of the wall clock.
  Whatever the person at it does arrives while the run waits.
\<close>

section \<open>State\<close>

record ('g, 'l) session =
  machine :: "('g, 'l) host"
  paused :: bool
  steps_left :: nat
  history :: "snap list"
  history_max :: nat
  time_scale :: speed
  last_now :: ns
  last_yield :: ns

definition PACE_MAX_NS :: ns where "PACE_MAX_NS = 5000000000"
definition PACE_BEHIND_NS :: ns where "PACE_BEHIND_NS = 250000000"
definition PACE_YIELD_NS :: ns where "PACE_YIELD_NS = 50000000"

text \<open>\<open>this.opts.timeScale || 1\<close>\<close>

definition scale :: "('g, 'l) session \<Rightarrow> speed" where
  "scale s = (if fst (time_scale s) = 0 then (1, 1) else time_scale s)"

definition on_machine :: "(('g, 'l) host \<Rightarrow> ('g, 'l) host) \<Rightarrow> ('g, 'l) session \<Rightarrow> ('g, 'l) session" where
  "on_machine f s = s\<lparr>machine := f (machine s)\<rparr>"

section \<open>What arrives while it waits\<close>

text \<open>From the person at it, from a real controller's serial port, and from a relay.\<close>

datatype user_act =
    Pause
  | Resume
  | Step_once nat
  | Step_back
  | Set_speed speed
  | Stop
  | Type_byte nat
  | Set_pin nat nat bool
  | Push_input "input_event list"
  | Push_sensor "reading list"
  | Hci_bytes "nat list"
  | Receive_frame "nat list"

fun user_act_on :: "'g guest \<Rightarrow> user_act \<Rightarrow> ('g, 'l) session \<Rightarrow> ('g, 'l) session" where
  "user_act_on G Pause s = s\<lparr>paused := True\<rparr>"
| "user_act_on G Resume s = s\<lparr>paused := False\<rparr>"
| "user_act_on G (Step_once n) s = s\<lparr>steps_left := steps_left s + n, paused := True\<rparr>"
| "user_act_on G Step_back s =
    (case step_back G (history s) (machine s) of
      (True, hist, h) \<Rightarrow> s\<lparr>history := hist, machine := h, paused := True\<rparr>
    | (False, _) \<Rightarrow> s)"
| "user_act_on G (Set_speed v) s = s\<lparr>time_scale := v\<rparr>"
| "user_act_on G Stop s = on_machine (\<lambda>h. h\<lparr>host_done := True\<rparr>) s"
| "user_act_on G (Type_byte b) s = on_machine (\<lambda>h. h\<lparr>con := (con h)\<lparr>input := input (con h) @ [b]\<rparr>\<rparr>) s"
| "user_act_on G (Set_pin port pin level) s = on_machine (\<lambda>h. h\<lparr>dev := set_gpio_input port pin level (dev h)\<rparr>) s"
| "user_act_on G (Push_input evs) s = on_machine (\<lambda>h. h\<lparr>dev := push_input evs (dev h)\<rparr>) s"
| "user_act_on G (Push_sensor rs) s = on_machine (\<lambda>h. h\<lparr>dev := push_sensor rs (dev h)\<rparr>) s"
| "user_act_on G (Hci_bytes bs) s = on_machine (\<lambda>h. h\<lparr>hci := (case hci h of
      Some (Real c) \<Rightarrow> Some (Real (serial_deliver bs c)) | c \<Rightarrow> c)\<rparr>) s"
| "user_act_on G (Receive_frame frame) s = on_machine (\<lambda>h. host_push_ethernet frame (global_ns h) h) s"

text \<open>
  What a wait turns out to be: how much later than asked it ends, and what arrives in it. Timers
  take whole milliseconds, so one may end earlier than asked, by less than that.
\<close>

record wait_env =
  late :: int
  acts :: "user_act list"

definition await :: "'g guest \<Rightarrow> wait_env \<Rightarrow> ns \<Rightarrow> ('g, 'l) session \<Rightarrow> ('g, 'l) session" where
  "await G e t s =
    fold (user_act_on G) (acts e) (on_machine (\<lambda>h. h\<lparr>wall_ns := wall_ns h + max 0 (t + late e)\<rparr>) s)"

section \<open>The loop\<close>

definition reanchor :: "('g, 'l) session \<Rightarrow> ('g, 'l) session" where
  "reanchor s = on_machine (\<lambda>h. h\<lparr>pace := Some \<lparr>pace_guest = now_ns h, pace_wall = wall_ns h,
     pace_scale = scale s\<rparr>\<rparr>) s"

text \<open>The start of \<open>run\<close>.\<close>

definition loop_start :: "'g guest \<Rightarrow> bool \<Rightarrow> ('g, 'l) session \<Rightarrow> ('g, 'l) session" where
  "loop_start G paced s =
    (let s = on_machine (start_host G) s;
         s = s\<lparr>last_now := now_ns (machine s), last_yield := wall_ns (machine s)\<rparr>
     in if paced then reanchor s else s)"

definition held :: "('g, 'l) session \<Rightarrow> bool" where
  "held s \<longleftrightarrow> paused s \<and> steps_left s = 0"

text \<open>Paused: 50 ms at a time; the clocks are lined up again when it goes on.\<close>

definition held_turn :: "'g guest \<Rightarrow> wait_env \<Rightarrow> ('g, 'l) session \<Rightarrow> ('g, 'l) session" where
  "held_turn G e s =
    (let s = await G e 50000000 s
     in if held s \<and> \<not> host_done (machine s) then s else reanchor s)"

definition take_snapshot :: "'g guest \<Rightarrow> ('g, 'l) session \<Rightarrow> ('g, 'l) session" where
  "take_snapshot G s =
    (if steps_left s > 0
     then s\<lparr>history := history_push (history_max s) (host_snapshot G (machine s)) (history s),
            steps_left := steps_left s - 1\<rparr>
     else s)"

text \<open>How far the guest's clock is ahead of the wall clock.\<close>

definition ahead_ns :: "speed \<Rightarrow> ('g, 'l) host \<Rightarrow> ns" where
  "ahead_ns sc h = (let p = the (pace h)
     in pace_wall p + over_speed (now_ns h - pace_guest p) sc - wall_ns h)"

text \<open>The anchor that the pace is kept by.\<close>

definition keep_anchor :: "('g, 'l) session \<Rightarrow> ('g, 'l) session" where
  "keep_anchor s =
    (let now = now_ns (machine s);
         s = (if scale s \<noteq> pace_scale (the (pace (machine s))) \<or> now < last_now s \<or>
                 now - last_now s > PACE_MAX_NS
              then reanchor s else s)
     in s\<lparr>last_now := now\<rparr>)"

definition rested :: "('g, 'l) session \<Rightarrow> ('g, 'l) session" where
  "rested = on_machine (\<lambda>h. h\<lparr>yield_to_host := False, idle_wait_ns := 0\<rparr>)"

definition awaited :: "('g, 'l) session \<Rightarrow> ('g, 'l) session" where
  "awaited s = s\<lparr>last_yield := wall_ns (machine s)\<rparr>"

text \<open>Idle, or somebody's turn.\<close>

definition idle_turn :: "'g guest \<Rightarrow> wait_env \<Rightarrow> ('g, 'l) session \<Rightarrow> ('g, 'l) session" where
  "idle_turn G e s =
    (if idle_wait_ns (machine s) > 0
     then awaited (await G e (idle_wait_ns (machine s)) (rested s))
     else if yield_to_host (machine s)
     then awaited (await G e 0 (on_machine (\<lambda>h. h\<lparr>yield_to_host := False\<rparr>) s))
     else s)"

definition paced_turn :: "'g guest \<Rightarrow> wait_env \<Rightarrow> ('g, 'l) session \<Rightarrow> ('g, 'l) session" where
  "paced_turn G e s =
    (let s = keep_anchor s; ahead = ahead_ns (scale s) (machine s)
     in if ahead \<ge> 1000000 then awaited (await G e ahead (rested s))
        else (let s = (if ahead < - PACE_BEHIND_NS then reanchor s else s);
                  s = (if wall_ns (machine s) - last_yield s > PACE_YIELD_NS
                       then on_machine (\<lambda>h. h\<lparr>yield_to_host := True\<rparr>) s else s)
          in idle_turn G e s))"

text \<open>One turn of the loop; the result says whether it goes on. A reboot drops the history, and
  loading the module again is a wait.\<close>

definition loop_turn ::
  "'g guest \<Rightarrow> 'l lan_ops \<Rightarrow> bool \<Rightarrow> wait_env \<Rightarrow> ('g, 'l) session \<Rightarrow>
    ((thrown \<times> ('g, 'l) session) + bool \<times> ('g, 'l) session) option" where
  "loop_turn G ops paced e s =
    (if host_done (machine s) then Some (Inr (False, s))
     else if held s then Some (Inr (True, held_turn G e s))
     else (let s = take_snapshot G s
       in case run_step G ops (machine s) of
         None \<Rightarrow> None
       | Some (Inl (t, h)) \<Rightarrow> Some (Inl (t, s\<lparr>machine := h\<rparr>))
       | Some (Inr (False, h)) \<Rightarrow> Some (Inr (False, s\<lparr>machine := h\<rparr>))
       | Some (Inr (True, h)) \<Rightarrow>
           Some (Inr (True,
             if reboots h \<noteq> reboots (machine s)
             then await G e 0 (s\<lparr>machine := h, history := []\<rparr>)
             else if paced then paced_turn G e (s\<lparr>machine := h\<rparr>)
             else idle_turn G e (s\<lparr>machine := h\<rparr>)))))"

fun loop_run ::
  "'g guest \<Rightarrow> 'l lan_ops \<Rightarrow> bool \<Rightarrow> wait_env list \<Rightarrow> ('g, 'l) session \<Rightarrow>
    ((thrown \<times> ('g, 'l) session) + bool \<times> ('g, 'l) session) option" where
  "loop_run G ops paced [] s = Some (Inr (True, s))"
| "loop_run G ops paced (e # es) s =
    (case loop_turn G ops paced e s of
      Some (Inr (True, s)) \<Rightarrow> loop_run G ops paced es s
    | r \<Rightarrow> r)"

end
