(* ===== verification/Core_Replay.thy ===== *)
theory Core_Replay
  imports Core_Time
begin

text \<open>
  A board on virtual time does not see the wall clock: from hosts that differ only in what they know of
  it, the driver loop goes the same way, unless one of the two gives up on a guest that takes too long.
\<close>

section \<open>Alike but for the wall clock\<close>

definition unwall :: "('g, 'l) host \<Rightarrow> ('g, 'l) host" where
  "unwall h = h\<lparr>wall_ns := 0, started_at := 0, step_started_at := None, pace := None, yield_to_host := False,
     idle_wait_ns := 0\<rparr>"

text \<open>On virtual time, and with nobody typing.\<close>

definition plain :: "('g, 'l) host \<Rightarrow> bool" where
  "plain h \<longleftrightarrow> \<not> realtime (opts h) \<and> \<not> opts.interactive (opts h)"

definition alike :: "('g, 'l) host \<Rightarrow> ('g, 'l) host \<Rightarrow> bool" where
  "alike h k \<longleftrightarrow> unwall h = unwall k \<and> plain h"

lemma plain_unwall [simp]: "plain (unwall h) = plain h"
  by (simp add: plain_def unwall_def)

lemma alike_plain: "alike h k \<Longrightarrow> plain h \<and> plain k"
  unfolding alike_def by (metis plain_unwall)

lemma alike_refl: "plain h \<Longrightarrow> alike h h"
  by (simp add: alike_def)

lemma alike_trans: "alike h1 h2 \<Longrightarrow> alike h2 h3 \<Longrightarrow> alike h1 h3"
  by (simp add: alike_def)

lemma alike_sym: "alike h k \<Longrightarrow> alike k h"
  using alike_plain by (auto simp: alike_def)

lemma alike_eq:
  assumes "alike h k" and "\<And>h. f (unwall h) = f h"
  shows "f h = f k"
  using assms by (metis alike_def)

lemma alike_by:
  assumes "alike h k" and "\<And>h. unwall (f h) = f (unwall h)" and "\<And>h. plain (f h) = plain h"
  shows "alike (f h) (f k)"
  using assms by (simp add: alike_def)

lemma alike_fields:
  assumes "alike h k"
  shows "mem h = mem k" "inst h = inst k" "store h = store k" "current h = current k" "contexts h = contexts k"
    "opts h = opts k" "con h = con k" "dev h = dev k" "hci h = hci k" "lan h = lan k" "now_ns h = now_ns k"
    "epoch_ns h = epoch_ns k" "alarm_ns h = alarm_ns k" "deadline_ns h = deadline_ns k" "disp h = disp k"
    "sh h = sh k" "pending_fatal h = pending_fatal k" "unwound_into h = unwound_into k"
    "resume_same h = resume_same k" "scratch_buf h = scratch_buf k" "traps h = traps k"
    "reboots h = reboots k" "switch_block_addr h = switch_block_addr k" "current_sp h = current_sp k"
    "storage h = storage k" "storage_image h = storage_image k" "host_done h = host_done k"
    "exit_code h = exit_code k" "step_limit_ns h = step_limit_ns k" "idle_until h = idle_until k"
  by (rule alike_eq [OF assms], simp add: unwall_def)+

text \<open>Fields that the wall clock has nothing to do with.\<close>

lemma unwall_fields [simp]:
  "mem (unwall h) = mem h" "inst (unwall h) = inst h" "store (unwall h) = store h" "current (unwall h) = current h"
  "contexts (unwall h) = contexts h" "opts (unwall h) = opts h" "con (unwall h) = con h" "dev (unwall h) = dev h"
  "hci (unwall h) = hci h" "lan (unwall h) = lan h" "now_ns (unwall h) = now_ns h" "epoch_ns (unwall h) = epoch_ns h"
  "alarm_ns (unwall h) = alarm_ns h" "deadline_ns (unwall h) = deadline_ns h" "disp (unwall h) = disp h"
  "sh (unwall h) = sh h" "pending_fatal (unwall h) = pending_fatal h" "unwound_into (unwall h) = unwound_into h"
  "resume_same (unwall h) = resume_same h" "scratch_buf (unwall h) = scratch_buf h" "traps (unwall h) = traps h"
  "reboots (unwall h) = reboots h" "switch_block_addr (unwall h) = switch_block_addr h"
  "current_sp (unwall h) = current_sp h" "storage (unwall h) = storage h" "storage_image (unwall h) = storage_image h"
  "host_done (unwall h) = host_done h" "exit_code (unwall h) = exit_code h" "step_limit_ns (unwall h) = step_limit_ns h"
  "idle_until (unwall h) = idle_until h" "irq_pending_addr (unwall h) = irq_pending_addr h"
  "masked_addr (unwall h) = masked_addr h" "enabled_addr (unwall h) = enabled_addr h"
  "alarm_is_clamp (unwall h) = alarm_is_clamp h" "quiescent_rounds (unwall h) = quiescent_rounds h"
  "rand_state (unwall h) = rand_state h" "peer_on (unwall h) = peer_on h" "air_out (unwall h) = air_out h"
  "eth_out (unwall h) = eth_out h" "switches (unwall h) = switches h" "global_ns (unwall h) = global_ns h"
  by (simp_all add: unwall_def global_ns_def)

section \<open>Operations that do not look at it\<close>

text \<open>Each commutes with forgetting the wall clock, and leaves the options alone.\<close>

named_theorems unwalls

lemma unwall_set [unwalls]:
  "unwall (h\<lparr>con := c\<rparr>) = (unwall h)\<lparr>con := c\<rparr>" "unwall (h\<lparr>dev := d\<rparr>) = (unwall h)\<lparr>dev := d\<rparr>"
  "unwall (h\<lparr>mem := m\<rparr>) = (unwall h)\<lparr>mem := m\<rparr>" "unwall (h\<lparr>inst := g\<rparr>) = (unwall h)\<lparr>inst := g\<rparr>"
  "unwall (h\<lparr>hci := b\<rparr>) = (unwall h)\<lparr>hci := b\<rparr>" "unwall (h\<lparr>lan := l\<rparr>) = (unwall h)\<lparr>lan := l\<rparr>"
  "unwall (h\<lparr>disp := p\<rparr>) = (unwall h)\<lparr>disp := p\<rparr>" "unwall (h\<lparr>storage := st\<rparr>) = (unwall h)\<lparr>storage := st\<rparr>"
  "unwall (h\<lparr>eth_out := e\<rparr>) = (unwall h)\<lparr>eth_out := e\<rparr>" "unwall (h\<lparr>air_out := a\<rparr>) = (unwall h)\<lparr>air_out := a\<rparr>"
  "unwall (h\<lparr>step_limit_ns := t\<rparr>) = (unwall h)\<lparr>step_limit_ns := t\<rparr>"
  "unwall (h\<lparr>rand_state := r\<rparr>) = (unwall h)\<lparr>rand_state := r\<rparr>"
  "unwall (h\<lparr>alarm_ns := al\<rparr>) = (unwall h)\<lparr>alarm_ns := al\<rparr>"
  "unwall (h\<lparr>alarm_is_clamp := cl\<rparr>) = (unwall h)\<lparr>alarm_is_clamp := cl\<rparr>"
  "unwall (h\<lparr>now_ns := n\<rparr>) = (unwall h)\<lparr>now_ns := n\<rparr>" "unwall (h\<lparr>sh := s\<rparr>) = (unwall h)\<lparr>sh := s\<rparr>"
  "unwall (h\<lparr>quiescent_rounds := q\<rparr>) = (unwall h)\<lparr>quiescent_rounds := q\<rparr>"
  "unwall (h\<lparr>opts := os\<rparr>) = (unwall h)\<lparr>opts := os\<rparr>" "unwall (h\<lparr>idle_until := u\<rparr>) = (unwall h)\<lparr>idle_until := u\<rparr>"
  "unwall (h\<lparr>store := sr\<rparr>) = (unwall h)\<lparr>store := sr\<rparr>" "unwall (h\<lparr>current := cu\<rparr>) = (unwall h)\<lparr>current := cu\<rparr>"
  "unwall (h\<lparr>contexts := cs\<rparr>) = (unwall h)\<lparr>contexts := cs\<rparr>" "unwall (h\<lparr>traps := tr\<rparr>) = (unwall h)\<lparr>traps := tr\<rparr>"
  "unwall (h\<lparr>exit_code := x\<rparr>) = (unwall h)\<lparr>exit_code := x\<rparr>"
  "unwall (h\<lparr>host_done := dn\<rparr>) = (unwall h)\<lparr>host_done := dn\<rparr>"
  "unwall (h\<lparr>switches := sw\<rparr>) = (unwall h)\<lparr>switches := sw\<rparr>"
  "unwall (h\<lparr>current_sp := cp\<rparr>) = (unwall h)\<lparr>current_sp := cp\<rparr>"
  "unwall (h\<lparr>resume_same := rs\<rparr>) = (unwall h)\<lparr>resume_same := rs\<rparr>"
  "unwall (h\<lparr>pending_fatal := pf\<rparr>) = (unwall h)\<lparr>pending_fatal := pf\<rparr>"
  "unwall (h\<lparr>unwound_into := ui\<rparr>) = (unwall h)\<lparr>unwound_into := ui\<rparr>"
  "unwall (h\<lparr>storage_image := im\<rparr>) = (unwall h)\<lparr>storage_image := im\<rparr>"
  "unwall (h\<lparr>reboots := rb\<rparr>) = (unwall h)\<lparr>reboots := rb\<rparr>"
  by (simp_all add: unwall_def)

lemma unwall_only [simp]:
  "unwall (h\<lparr>wall_ns := w\<rparr>) = unwall h" "unwall (h\<lparr>step_started_at := v\<rparr>) = unwall h"
  "unwall (h\<lparr>started_at := sa\<rparr>) = unwall h"
  "unwall (h\<lparr>pace := p\<rparr>) = unwall h" "unwall (h\<lparr>yield_to_host := y\<rparr>) = unwall h"
  "unwall (h\<lparr>idle_wait_ns := i\<rparr>) = unwall h"
  by (simp_all add: unwall_def)

lemma plain_set [simp]:
  "plain (h\<lparr>con := c\<rparr>) = plain h" "plain (h\<lparr>dev := d\<rparr>) = plain h" "plain (h\<lparr>mem := m\<rparr>) = plain h"
  "plain (h\<lparr>inst := g\<rparr>) = plain h" "plain (h\<lparr>hci := b\<rparr>) = plain h" "plain (h\<lparr>lan := l\<rparr>) = plain h"
  "plain (h\<lparr>disp := p\<rparr>) = plain h" "plain (h\<lparr>storage := st\<rparr>) = plain h" "plain (h\<lparr>eth_out := e\<rparr>) = plain h"
  "plain (h\<lparr>air_out := a\<rparr>) = plain h" "plain (h\<lparr>step_limit_ns := t\<rparr>) = plain h"
  "plain (h\<lparr>rand_state := r\<rparr>) = plain h" "plain (h\<lparr>alarm_ns := al\<rparr>) = plain h"
  "plain (h\<lparr>alarm_is_clamp := cl\<rparr>) = plain h" "plain (h\<lparr>now_ns := n\<rparr>) = plain h" "plain (h\<lparr>sh := s\<rparr>) = plain h"
  "plain (h\<lparr>quiescent_rounds := q\<rparr>) = plain h" "plain (h\<lparr>idle_until := u\<rparr>) = plain h"
  "plain (h\<lparr>store := sr\<rparr>) = plain h" "plain (h\<lparr>current := cu\<rparr>) = plain h" "plain (h\<lparr>contexts := cs\<rparr>) = plain h"
  "plain (h\<lparr>traps := tr\<rparr>) = plain h" "plain (h\<lparr>exit_code := x\<rparr>) = plain h" "plain (h\<lparr>host_done := dn\<rparr>) = plain h"
  "plain (h\<lparr>switches := sw\<rparr>) = plain h" "plain (h\<lparr>current_sp := cp\<rparr>) = plain h"
  "plain (h\<lparr>resume_same := rs\<rparr>) = plain h" "plain (h\<lparr>pending_fatal := pf\<rparr>) = plain h"
  "plain (h\<lparr>unwound_into := ui\<rparr>) = plain h" "plain (h\<lparr>storage_image := im\<rparr>) = plain h"
  "plain (h\<lparr>reboots := rb\<rparr>) = plain h" "plain (h\<lparr>wall_ns := w\<rparr>) = plain h" "plain (h\<lparr>step_started_at := v\<rparr>) = plain h"
  "plain (h\<lparr>started_at := sa\<rparr>) = plain h" "plain (h\<lparr>pace := pc\<rparr>) = plain h" "plain (h\<lparr>yield_to_host := y\<rparr>) = plain h"
  "plain (h\<lparr>idle_wait_ns := i\<rparr>) = plain h"
  "plain (h\<lparr>opts := (opts h)\<lparr>gpio_script := gs\<rparr>\<rparr>) = plain h"
  "plain (h\<lparr>opts := (opts h)\<lparr>input_script := is\<rparr>\<rparr>) = plain h"
  by (simp_all add: plain_def)

lemma unwall_lower_limit [unwalls]: "unwall (lower_limit t h) = lower_limit t (unwall h)"
  by (auto simp: lower_limit_def Let_def unwalls)

lemma unwall_small [unwalls]:
  "unwall (raise_irq l h) = raise_irq l (unwall h)" "unwall (host_inject l h) = host_inject l (unwall h)"
  "unwall (host_push_ethernet f t h) = host_push_ethernet f t (unwall h)"
  "unwall (push_air p t h) = push_air p t (unwall h)"
  "unwall (entropy_get ptr len h) = entropy_get ptr len (unwall h)"
  "unwall (storage_attach ptr len h) = storage_attach ptr len (unwall h)"
  "unwall (suspend G idle fatal h) = suspend G idle fatal (unwall h)"
  by (simp_all add: raise_irq_def host_inject_def host_push_ethernet_def push_air_def entropy_get_def
      storage_attach_def suspend_def read_switch_block_def current_ctx_def Let_def unwalls split_beta
      split: option.split hci.split)

lemma plain_small [simp]:
  "plain (raise_irq l h) = plain h" "plain (host_inject l h) = plain h" "plain (lower_limit t h) = plain h"
  "plain (host_push_ethernet f t h) = plain h" "plain (push_air p t h) = plain h"
  "plain (entropy_get ptr len h) = plain h" "plain (storage_attach ptr len h) = plain h"
  "plain (suspend G idle fatal h) = plain h"
  by (simp_all add: raise_irq_def host_inject_def lower_limit_def host_push_ethernet_def push_air_def entropy_get_def
      storage_attach_def suspend_def Let_def split_beta split: option.split hci.split)

lemma fold_unwall [unwalls]:
  "unwall (fold lower_limit ts h) = fold lower_limit ts (unwall h)"
  "unwall (fold (\<lambda>f. host_push_ethernet f t) fs h) = fold (\<lambda>f. host_push_ethernet f t) fs (unwall h)"
  by (induction ts arbitrary: h; induction fs arbitrary: h; simp add: unwalls)+

lemma fold_plain [simp]:
  "plain (fold lower_limit ts h) = plain h" "plain (fold (\<lambda>f. host_push_ethernet f t) fs h) = plain h"
  by (induction ts arbitrary: h; induction fs arbitrary: h; simp)+

lemma unwall_wire [unwalls]:
  "unwall (take_air h) = take_air (unwall h)" "unwall (from_lan ops fs l h) = from_lan ops fs l (unwall h)"
  by (simp_all add: take_air_def from_lan_def Let_def unwalls split: option.split hci.split)

lemma plain_wire [simp]: "plain (take_air h) = plain h" "plain (from_lan ops fs l h) = plain h"
  by (simp_all add: take_air_def from_lan_def Let_def split: option.split hci.split)

lemma unwall_imports [unwalls]:
  "unwall (host_poll_out port c h) = host_poll_out port c (unwall h)"
  "unwall (eth_send ops f h) = eth_send ops f (unwall h)"
  "unwall (wait_or_switch G idle h) = wait_or_switch G idle (unwall h)"
  "unwall (set_now t h) = set_now t (unwall h)"
  "unwall (script_step i h) = script_step i (unwall h)"
  by (simp_all add: host_poll_out_def eth_send_def wait_or_switch_def set_now_def script_step_def bt_controller_def
      global_ns_def Let_def unwalls split_beta split: option.split script_item.split script_action.split)

lemma plain_imports [simp]:
  "plain (host_poll_out port c h) = plain h" "plain (eth_send ops f h) = plain h"
  "plain (wait_or_switch G idle h) = plain h" "plain (set_now t h) = plain h" "plain (set_alarm d h) = plain h"
  "plain (script_step i h) = plain h"
  by (simp_all add: host_poll_out_def eth_send_def wait_or_switch_def set_now_def script_step_def set_alarm_def
      Let_def split_beta split: option.split script_item.split script_action.split)

lemma unwall_set_alarm [unwalls]: "plain h \<Longrightarrow> unwall (set_alarm d h) = set_alarm d (unwall h)"
  by (simp add: set_alarm_def time_ns_def plain_def unwalls)

lemma unwall_answers [unwalls]:
  "host_poll_in port (unwall h) = map_prod id unwall (host_poll_in port h)"
  "host_input_poll ptr (unwall h) = map_prod id unwall (host_input_poll ptr h)"
  "host_eth_recv ptr room (unwall h) = map_prod id unwall (host_eth_recv ptr room h)"
  "host_sensor_poll ptr (unwall h) = map_prod id unwall (host_sensor_poll ptr h)"
  by (simp_all add: host_poll_in_def host_input_poll_def host_eth_recv_def host_sensor_poll_def bt_controller_def
      unwalls split_beta split: prod.split option.split)

lemma plain_answers [simp]:
  "plain (snd (host_poll_in port h)) = plain h" "plain (snd (host_input_poll ptr h)) = plain h"
  "plain (snd (host_eth_recv ptr room h)) = plain h" "plain (snd (host_sensor_poll ptr h)) = plain h"
  by (simp_all add: host_poll_in_def host_input_poll_def host_eth_recv_def host_sensor_poll_def split_beta
      split: prod.split option.split)

lemma unwall_semihost [unwalls]:
  "host_semihost op a (unwall h) = map_option (map_sum id (map_prod id unwall)) (host_semihost op a h)"
proof (cases "semihost op a \<lparr>sh_mem = mem h, sh_state = sh h, sh_con = con h\<rparr>")
  case (Some r)
  then show ?thesis by (cases r) (simp_all add: host_semihost_def unwalls split_beta)
qed (simp add: host_semihost_def)

section \<open>One import\<close>

definition host_of :: "('e \<times> ('g, 'l) host) + 'a \<times> ('g, 'l) host \<Rightarrow> ('g, 'l) host" where
  "host_of r = (case r of Inl (_, h) \<Rightarrow> h | Inr (_, h) \<Rightarrow> h)"

lemma host_of_simps [simp]: "host_of (Inl (t, h)) = h" "host_of (Inr (a, h)) = h" "host_of (Inl x) = snd x"
  "host_of (Inr y) = snd y"
  by (simp_all add: host_of_def split_beta)

abbreviation unwall_result :: "('e \<times> ('g, 'l) host) + 'a \<times> ('g, 'l) host \<Rightarrow> ('e \<times> ('g, 'l) host) + 'a \<times> ('g, 'l) host" where
  "unwall_result \<equiv> map_sum (map_prod id unwall) (map_prod id unwall)"

lemma do_import_unwall:
  assumes "plain h" and "call \<noteq> SafepointTick"
  shows "do_import G ops call (unwall h) = map_option unwall_result (do_import G ops call h)"
proof (cases call)
  case (Semihost op args)
  show ?thesis
  proof (cases "host_semihost op args h")
    case (Some r)
    then show ?thesis using Semihost by (cases r) (simp_all add: do_import_def unwalls)
  qed (simp add: do_import_def Semihost unwalls)
qed (use assms in \<open>simp_all add: do_import_def in_memory_def Let_def unwalls time_ns_def plain_def map_prod_def split_beta\<close>)

lemma semihost_plain: "host_semihost op a h = Some (Inr (v, h')) \<Longrightarrow> plain h' = plain h"
  by (auto simp: host_semihost_def map_sum_eq_Inr split: prod.splits)

lemma safepoint_plain: "safepoint_tick h = Inl (s, h') \<Longrightarrow> plain h' = plain h"
  "safepoint_tick h = Inr h' \<Longrightarrow> plain h' = plain h"
  by (auto simp: safepoint_tick_def Let_def split: option.splits if_splits)

lemma plain_in_memory [simp]:
  "plain (host_of k) = plain h \<Longrightarrow> plain (host_of (in_memory align ptr len h k)) = plain h"
  "plain (host_of k) = plain h' \<Longrightarrow> plain h' = plain h \<Longrightarrow> plain (host_of (in_memory align ptr len h' k)) = plain h"
  by (simp_all add: in_memory_def)

lemma other_import_plain:
  assumes "call \<noteq> SafepointTick" and "\<not> (\<exists>op args. call = Semihost op args)"
  shows "plain (host_of (the (do_import G ops call h))) = plain h"
  using assms by (cases call) (simp_all add: do_import_def Let_def)

lemma do_import_plain:
  assumes "do_import G ops call h = Some r"
  shows "plain (host_of r) = plain h"
proof (cases "call = SafepointTick \<or> (\<exists>op args. call = Semihost op args)")
  case True
  then show ?thesis
  proof (elim disjE exE)
    assume "call = SafepointTick"
    then have r: "r = map_sum (\<lambda>(s, h). (Stopped s, h)) (\<lambda>h. (0, h)) (safepoint_tick h)"
      using assms by (simp add: do_import_def)
    show ?thesis
    proof (cases "safepoint_tick h")
      case (Inl sh)
      then show ?thesis using safepoint_plain(1) [of h "fst sh" "snd sh"] by (cases sh) (simp add: r)
    qed (simp add: r safepoint_plain(2))
  next
    fix op args
    assume "call = Semihost op args"
    then obtain x where x: "host_semihost op args h = Some x" "r = map_sum (\<lambda>e. (Stopped (Failed e), h)) id x"
      using assms by (auto simp: do_import_def)
    show ?thesis
    proof (cases x)
      case (Inr vh)
      then show ?thesis using semihost_plain [of op args h "fst vh" "snd vh"] x by (cases vh) simp
    qed (simp add: x)
  qed
next
  case False
  with other_import_plain [of call G ops h] assms show ?thesis by simp
qed

section \<open>Following\<close>

text \<open>
  The second result follows the first: it is the same, from a host that is alike, unless one of the two
  gave up on a hang.
\<close>

definition hung :: "(thrown \<times> ('g, 'l) host) + 'a \<Rightarrow> bool" where
  "hung r \<longleftrightarrow> (\<exists>h. r = Inl (Stopped Hang, h))"

lemma hung_Inl [simp]: "hung (Inl (t, h)) \<longleftrightarrow> t = Stopped Hang" "\<not> hung (Inr a)"
  by (auto simp: hung_def)

definition follows ::
  "('a \<Rightarrow> 'a \<Rightarrow> bool) \<Rightarrow> ((thrown \<times> ('g, 'l) host) + 'a) option \<Rightarrow> ((thrown \<times> ('g, 'l) host) + 'a) option \<Rightarrow> bool" where
  "follows R x y \<longleftrightarrow> (\<forall>r. x = Some r \<longrightarrow> hung r \<or>
     (\<exists>r'. y = Some r' \<and> (hung r' \<or> rel_sum (rel_prod (=) alike) R r r')))"

abbreviation same_way :: "('a \<times> ('g, 'l) host) \<Rightarrow> ('a \<times> ('g, 'l) host) \<Rightarrow> bool" where
  "same_way \<equiv> rel_prod (=) alike"

lemma follows_None [simp]: "follows R None y"
  by (simp add: follows_def)

lemma follows_hung [simp]:
  "follows R (Some (Inl (Stopped Hang, h))) y" "follows R x (Some (Inl (Stopped Hang, k)))"
  by (simp_all add: follows_def)

lemma follows_Inl: "alike h k \<Longrightarrow> follows R (Some (Inl (t, h))) (Some (Inl (t, k)))"
  by (simp add: follows_def)

lemma follows_Inr: "R a b \<Longrightarrow> follows R (Some (Inr a)) (Some (Inr b))"
  by (simp add: follows_def)

lemma follows_cases:
  assumes "follows R x y"
  obtains (none) "x = None" | (hung1) h where "x = Some (Inl (Stopped Hang, h))"
    | (hung2) r k where "x = Some r" "y = Some (Inl (Stopped Hang, k))"
    | (error) t h k where "x = Some (Inl (t, h))" "y = Some (Inl (t, k))" "alike h k"
    | (result) a b where "x = Some (Inr a)" "y = Some (Inr b)" "R a b"
proof (cases x)
  case (Some r)
  with assms consider "hung r" | r' where "y = Some r'" "hung r'"
    | r' where "y = Some r'" "rel_sum (rel_prod (=) alike) R r r'"
    unfolding follows_def by blast
  then show ?thesis
  proof cases
    case (3 r')
    then show ?thesis using Some that by (cases r; cases r') auto
  qed (use Some that in \<open>auto simp: hung_def\<close>)
qed (rule none)

lemma follows_then:
  assumes "follows R x y" and "\<And>a b. R a b \<Longrightarrow> follows Q (f a) (g b)"
  shows "follows Q (case x of None \<Rightarrow> None | Some (Inl e) \<Rightarrow> Some (Inl e) | Some (Inr a) \<Rightarrow> f a)
    (case y of None \<Rightarrow> None | Some (Inl e) \<Rightarrow> Some (Inl e) | Some (Inr a) \<Rightarrow> g a)"
  using assms(1)
proof (cases rule: follows_cases)
  case (hung2 r k)
  then show ?thesis by simp
qed (simp_all add: assms(2) follows_Inl)

text \<open>What commutes with forgetting the wall clock follows.\<close>

lemma follows_commuting:
  assumes "alike h k" and "\<And>h. plain h \<Longrightarrow> F (unwall h) = map_option unwall_result (F h)"
    and "\<And>h r. plain h \<Longrightarrow> F h = Some r \<Longrightarrow> plain (host_of r)"
  shows "follows same_way (F h) (F k)"
proof -
  have e: "map_option unwall_result (F h) = map_option unwall_result (F k)"
    using assms(1) assms(2) [of h] assms(2) [of k] alike_plain [OF assms(1)] by (simp add: alike_def)
  show ?thesis
  proof (cases "F h")
    case (Some r)
    then obtain r' where r': "F k = Some r'" "unwall_result r = unwall_result r'" using e by (cases "F k") auto
    have "plain (host_of r)" using assms(3) alike_plain [OF assms(1)] Some by blast
    then have "rel_sum same_way same_way r r'"
      using r'(2) by (cases r; cases r') (auto simp: alike_def host_of_def split_beta intro!: rel_prod.intros prod_eqI)
    then show ?thesis using Some r' by (simp add: follows_def)
  qed simp
qed

lemma deadline_alike:
  assumes "alike h k"
  shows "(\<exists>d. check_deadline h = Some d \<and> check_deadline k = Some d) \<or> check_deadline h = Some Hang \<or>
    check_deadline k = Some Hang \<or> (check_deadline h = None \<and> check_deadline k = None)"
  using alike_fields [OF assms] alike_plain [OF assms]
  by (auto simp: check_deadline_def time_ns_def plain_def Let_def)

lemma do_import_follows:
  fixes h k :: "('g, 'l) host"
  assumes "alike h k"
  shows "follows same_way (do_import G ops call h) (do_import G ops call k)"
proof (cases "call = SafepointTick")
  case False
  show ?thesis
    by (rule follows_commuting [OF assms]) (use do_import_unwall False do_import_plain in \<open>blast+\<close>)
next
  case True
  have p: "plain h" "plain k" using alike_plain [OF assms] by simp_all
  define tick where "tick = (\<lambda>h :: ('g, 'l) host. h\<lparr>now_ns := now_ns h + SAFEPOINT_TICK_NS\<rparr>)"
  have t: "alike (tick h) (tick k)"
    by (rule alike_by [OF assms]) (simp_all add: tick_def unwalls)
  have st: "safepoint_tick h = (case check_deadline (tick h) of
      Some s \<Rightarrow> Inl (s, tick h)
    | None \<Rightarrow> (case alarm_ns (tick h) of
        None \<Rightarrow> Inr (tick h)
      | Some a \<Rightarrow> if now_ns (tick h) \<ge> a
          then Inr (raise_irq IRQ_TIMER ((tick h)\<lparr>alarm_ns := None, quiescent_rounds := 0\<rparr>))
          else Inr (tick h)))" if "plain h" for h :: "('g, 'l) host"
    using that by (simp add: safepoint_tick_def tick_def plain_def time_ns_def split: option.split)
  let ?raised = "\<lambda>h :: ('g, 'l) host. raise_irq IRQ_TIMER (h\<lparr>alarm_ns := None, quiescent_rounds := 0\<rparr>)"
  have r: "alike (?raised (tick h)) (?raised (tick k))" by (rule alike_by [OF t]) (simp_all add: unwalls)
  show ?thesis
    using deadline_alike [OF t] alike_fields [OF t] t r st [OF p(1)] st [OF p(2)]
    by (auto simp: True do_import_def intro: follows_Inl follows_Inr split: option.splits)
qed

section \<open>The guest\<close>

lemma run_guest_follows:
  fixes h k :: "('g, 'l) host"
  assumes "alike h k"
  shows "follows alike (run_guest G ops h) (run_guest G ops k)"
proof -
  have "hung r \<or> (\<exists>r'. run_guest G ops k = Some r' \<and> (hung r' \<or> rel_sum same_way alike r r'))"
    if "run_guest G ops h = Some r" "alike h k" for r and h k :: "('g, 'l) host"
    using that
  proof (induction G ops h r arbitrary: k rule: run_guest.raw_induct [rotated, consumes 1])
    case (1 run G ops h r)
    obtain a took m g where run: "run_on G (mem h) (inst h) = ((a, took), m, g)" by (metis surj_pair)
    define h1 where "h1 = h\<lparr>mem := m, inst := g, wall_ns := wall_ns h + took\<rparr>"
    define k1 where "k1 = k\<lparr>mem := m, inst := g, wall_ns := wall_ns k + took\<rparr>"
    have "run_on G (mem k) (inst k) = ((a, took), m, g)" using run alike_fields [OF "1.prems"(1)] by simp
    then have k: "run_guest G ops k = (case a of
        Return \<Rightarrow> Some (Inr k1)
      | Trap \<Rightarrow> Some (Inl (Trapped, k1))
      | Import call \<Rightarrow> Option.bind (do_import G ops call k1)
          (\<lambda>r. case r of Inl e \<Rightarrow> Some (Inl e)
            | Inr (v, h) \<Rightarrow> run_guest G ops (h\<lparr>inst := answer G v (inst h)\<rparr>)))"
      by (subst run_guest.simps) (simp add: k1_def Let_def split: act.split)
    have a1: "alike h1 k1"
      using "1.prems"(1) by (simp add: alike_def h1_def k1_def unwalls)
    show ?case
    proof (cases a)
      case (Import call)
      from do_import_follows [OF a1, of G ops call] show ?thesis
      proof (cases rule: follows_cases)
        case none
        with 1 run Import show ?thesis by (simp add: h1_def [symmetric] Let_def)
      next
        case (result x y)
        obtain v h2 where x: "x = (v, h2)" by fastforce
        with result obtain k2 where y: "y = (v, k2)" and a2: "alike h2 k2" by (cases y) auto
        have "run G ops (h2\<lparr>inst := answer G v (inst h2)\<rparr>) = Some r"
          using "1.hyps" run Import result x by (simp add: h1_def [symmetric] Let_def)
        moreover have "alike (h2\<lparr>inst := answer G v (inst h2)\<rparr>) (k2\<lparr>inst := answer G v (inst k2)\<rparr>)"
          by (rule alike_by [OF a2]) (simp_all add: unwalls)
        ultimately show ?thesis using "1.IH" result x y k Import by simp
      qed (use 1 run Import k in \<open>auto simp: h1_def [symmetric] Let_def\<close>)
    qed (use 1 run k a1 in \<open>auto simp: h1_def [symmetric] Let_def\<close>)
  qed
  then show ?thesis using assms unfolding follows_def by blast
qed

section \<open>Idling\<close>

lemma unwall_moves [unwalls]:
  "alarm_step a (unwall h) = map_prod id unwall (alarm_step a h)"
  "unwall (lan_step ops t h) = lan_step ops t (unwall h)"
  "bt_step_to t (unwall h) = map_option (map_sum id (map_prod id unwall)) (bt_step_to t h)"
proof -
  show "unwall (lan_step ops t h) = lan_step ops t (unwall h)"
    by (simp add: lan_step_def Let_def split_beta unwalls) (simp add: set_now_def global_ns_def)
  show "alarm_step a (unwall h) = map_prod id unwall (alarm_step a h)"
    by (simp add: alarm_step_def Let_def unwalls split: option.split)
  show "bt_step_to t (unwall h) = map_option (map_sum id (map_prod id unwall)) (bt_step_to t h)"
    by (simp add: bt_step_to_def Let_def unwalls split: option.split sum.split)
qed

lemma unwall_views [unwalls]:
  "host_next_bt (unwall h) = host_next_bt h" "next_script (unwall h) = next_script h"
  "host_next_frame (unwall h) = host_next_frame h" "host_next_uart (unwall h) = host_next_uart h"
  "host_next_lan ops (unwall h) = host_next_lan ops h" "deliverable_irqs (unwall h) = deliverable_irqs h"
  "latched_ready (unwall h) = latched_ready h" "enabled_lines (unwall h) = enabled_lines h"
  "buffer_ok b (unwall h) = buffer_ok b h" "read_switch_block (unwall h) = read_switch_block h"
  "current_ctx (unwall h) = current_ctx h"
  by (simp_all add: host_next_bt_def next_script_def host_next_frame_def host_next_uart_def host_next_lan_def
      deliverable_irqs_def latched_ready_def enabled_lines_def buffer_ok_def read_switch_block_def current_ctx_def
      split: option.split)

lemma advance_unwall:
  "advance_to_next_deadline ops lim cin (unwall h) =
    map_option (map_sum id (map_prod id unwall)) (advance_to_next_deadline ops lim cin h)"
  by (cases "host_next_bt h")
    (simp_all only: advance_to_next_deadline_def unwalls unwall_fields sum.case Let_def
      if_distrib [of "map_option (map_sum id (map_prod id unwall))"] option.map map_sum.simps map_prod_simp id_apply)

lemma plain_moves [simp]:
  "plain (snd (alarm_step a h)) = plain h" "plain (lan_step ops t h) = plain h"
  by (simp_all add: alarm_step_def lan_step_def Let_def split_beta split: option.split)

lemma bt_step_plain: "bt_step_to t h = Some (Inr (r, h')) \<Longrightarrow> plain h' = plain h"
  by (auto simp: bt_step_to_def Let_def split: option.splits sum.splits)

lemma advance_plain:
  assumes "advance_to_next_deadline ops limit cin h = Some (Inr (r, h'))"
  shows "plain h' = plain h"
proof -
  obtain bt_at where "host_next_bt h = Inr bt_at"
    using assms by (auto simp: advance_to_next_deadline_def split: sum.splits)
  with assms show ?thesis
  proof (cases rule: advance_cases)
    case (bt at)
    then show ?thesis by (simp add: bt_step_plain)
  next
    case (alarm at)
    then show ?thesis using plain_moves(1) [of "alarm_due cin h" h] by (metis snd_conv)
  qed simp_all
qed

lemma failed_unwall:
  "failed (unwall h) (map_option (map_sum id (map_prod id unwall)) x) = map_option unwall_result (failed h x)"
proof (cases x)
  case (Some y)
  then show ?thesis by (cases y) (simp_all add: failed_def)
qed (simp add: failed_def)

lemma idle_unwall:
  assumes "plain h"
  shows "idle_step ops (unwall h) = map_option unwall_result (idle_step ops h)"
proof -
  define adv where "adv = (\<lambda>l c. failed h (advance_to_next_deadline ops l c h))"
  have a: "failed (unwall h) (advance_to_next_deadline ops l c (unwall h)) = map_option unwall_result (adv l c)" for l c
    by (simp add: advance_unwall failed_unwall adv_def)
  have q: "map_option (map_sum id (\<lambda>(r, h). (True, if r then h else h\<lparr>idle_until := Some None\<rparr>)))
        (map_option unwall_result x) =
      map_option unwall_result (map_option (map_sum id (\<lambda>(r, h). (True, if r then h else h\<lparr>idle_until := Some None\<rparr>))) x)"
    for x :: "((thrown \<times> ('a, 'b) host) + bool \<times> ('a, 'b) host) option"
  proof (cases x)
    case (Some y)
    then show ?thesis by (cases y) (auto simp: unwalls)
  qed simp
  have "\<not> opts.interactive (opts h)" using assms by (simp add: plain_def)
  then show ?thesis
    unfolding idle_step_def Let_def unwall_fields unwalls a q
    by (simp add: unwalls adv_def)
qed

lemma idle_plain:
  assumes "plain h" and "idle_step ops h = Some r"
  shows "plain (host_of r)"
proof (cases r)
  case (Inr bh)
  obtain b h' where "bh = (b, h')" by fastforce
  with Inr assms(2) have "idle_step ops h = Some (Inr (b, h'))" by simp
  then have "plain h'"
  proof (cases rule: idle_step_cases)
    case (pair q h1)
    from advance_plain [OF pair(1)] assms(1) show ?thesis by (simp add: pair(2))
  next
    case (interactive q)
    with assms(1) show ?thesis by (simp add: plain_def)
  next
    case (alone q)
    from advance_plain [OF alone] assms(1) show ?thesis by simp
  qed (use assms(1) in simp_all)
  then show ?thesis using Inr \<open>bh = (b, h')\<close> by simp
next
  case (Inl e)
  have "\<not> opts.interactive (opts h)" using assms(1) by (simp add: plain_def)
  with Inl assms(2) have "snd e = h"
    by (auto simp: idle_step_def Let_def split: if_splits)
  with Inl assms(1) show ?thesis by simp
qed

section \<open>After the guest\<close>

lemma unwall_switch [unwalls]:
  "switch_step (unwall h) = unwall_result (switch_step h)"
  "unwall (note_ctx i h) = note_ctx i (unwall h)" "unwall (update_ctx i f h) = update_ctx i f (unwall h)"
  "unwall (enter_ctx G i h) = enter_ctx G i (unwall h)"
  by (simp_all add: switch_step_def note_ctx_def update_ctx_def enter_ctx_def enter_new_def Let_def unwalls
      split: option.split)

lemma plain_switch [simp]:
  "plain (host_of (switch_step h)) = plain h" "plain (note_ctx i h) = plain h"
  "plain (update_ctx i f h) = plain h" "plain (enter_ctx G i h) = plain h"
  by (simp_all add: switch_step_def note_ctx_def update_ctx_def enter_ctx_def enter_new_def Let_def
      split: option.split)

lemma after_run_unwall:
  assumes "plain h"
  shows "after_run G ops i (unwall h) = map_option unwall_result (after_run G ops i h)"
proof -
  define n where "n = note_ctx i (h\<lparr>inst := stop_unwind G (inst h)\<rparr>)"
  have "note_ctx i ((unwall h)\<lparr>inst := stop_unwind G (inst h)\<rparr>) = unwall n"
    by (simp add: n_def unwalls)
  moreover have "idle_step ops (unwall n) = map_option unwall_result (idle_step ops n)"
    by (rule idle_unwall) (simp add: n_def assms)
  ultimately show ?thesis
    by (simp add: after_run_def Let_def unwalls n_def [symmetric])
qed

lemma after_run_plain:
  assumes "plain h" and "after_run G ops i h = Some r"
  shows "plain (host_of r)"
proof -
  let ?n = "note_ctx i (h\<lparr>inst := stop_unwind G (inst h)\<rparr>)"
  have "plain (host_of r)" if "idle_step ops ?n = Some r" by (rule idle_plain [OF _ that]) (simp add: assms(1))
  then show ?thesis using assms by (auto simp: after_run_def Let_def split: if_splits)
qed

lemma after_run_follows: "alike h k \<Longrightarrow> follows same_way (after_run G ops i h) (after_run G ops i k)"
  by (rule follows_commuting [where F = "after_run G ops i"]) (simp_all add: after_run_unwall after_run_plain)

section \<open>A step\<close>

lemma call_export_follows:
  assumes "alike h k"
  shows "follows alike (call_export G ops name x h) (call_export G ops name x k)"
  unfolding call_export_def
  by (rule run_guest_follows, rule alike_by [OF assms]) (simp_all add: unwalls)

lemma halted_alike:
  assumes "alike h k"
  shows "fst (halted G t h) = fst (halted G t k) \<and> alike (snd (halted G t h)) (snd (halted G t k))"
proof -
  have "alike (h\<lparr>inst := stop_unwind G (inst h)\<rparr>) (k\<lparr>inst := stop_unwind G (inst k)\<rparr>)"
    by (rule alike_by [OF assms]) (simp_all add: unwalls)
  then show ?thesis using assms alike_fields [OF assms] by (simp add: halted_def)
qed

lemma halted_hung [simp]: "halted G (Stopped s) h = (False, h)"
  by (simp add: halted_def)

lemma raise_trap_hung: "raise_trap G ops i (Stopped s) h = Some (Inl (Stopped s, h))"
  by (simp add: raise_trap_def Let_def)

lemma raise_trap_follows:
  assumes "alike h k"
  shows "follows alike (raise_trap G ops i t h) (raise_trap G ops i t k)"
proof -
  note f = alike_fields [OF assms]
  define trapped where "trapped = (\<lambda>h :: ('a, 'b) host. update_ctx i (\<lambda>c. c\<lparr>entry := Z_WASM_TRAP, arg := 0\<rparr>)
    (h\<lparr>traps := traps h + 1, mem := mem_put (buf (store h ! i)) (word_bytes (word_of_nat (buf (store h ! i) + 8))) (mem h)\<rparr>))"
  have t1: "alike (h\<lparr>traps := traps h + 1\<rparr>) (k\<lparr>traps := traps k + 1\<rparr>)"
    by (rule alike_by [OF assms]) (simp_all add: unwalls)
  have "alike (trapped h) (trapped k)"
    by (rule alike_by [OF assms]) (simp_all add: trapped_def unwalls)
  from call_export_follows [OF this, of G ops Z_WASM_TRAP 0]
  have "follows alike
    (case call_export G ops Z_WASM_TRAP 0 (trapped h) of
        None \<Rightarrow> None
      | Some (Inr h) \<Rightarrow> Some (Inr h)
      | Some (Inl (again, h)) \<Rightarrow> (case halted G again h of (True, h) \<Rightarrow> Some (Inr h) | (False, h) \<Rightarrow> Some (Inl (again, h))))
    (case call_export G ops Z_WASM_TRAP 0 (trapped k) of
        None \<Rightarrow> None
      | Some (Inr h) \<Rightarrow> Some (Inr h)
      | Some (Inl (again, h)) \<Rightarrow> (case halted G again h of (True, h) \<Rightarrow> Some (Inr h) | (False, h) \<Rightarrow> Some (Inl (again, h))))"
  proof (cases rule: follows_cases)
    case (error t h k)
    then show ?thesis using halted_alike [OF error(3), of G t]
      by (auto simp: split_beta intro: follows_Inl follows_Inr split: bool.split)
  qed (auto intro: follows_Inr)
  moreover have "raise_trap G ops i t h =
    (if t \<noteq> Trapped \<or> \<not> has_trap_handler G \<or> buf (store h ! i) = scratch_buf h \<or> entry (store h ! i) = Z_WASM_TRAP \<or>
        asyncify_state G (inst h) \<noteq> NORMAL
     then Some (Inl (t, h))
     else if traps h + 1 > MAX_TRAPS then Some (Inl (t, h\<lparr>traps := traps h + 1\<rparr>))
     else (case call_export G ops Z_WASM_TRAP 0 (trapped h) of
        None \<Rightarrow> None
      | Some (Inr h) \<Rightarrow> Some (Inr h)
      | Some (Inl (again, h)) \<Rightarrow> (case halted G again h of (True, h) \<Rightarrow> Some (Inr h) | (False, h) \<Rightarrow> Some (Inl (again, h)))))"
    for h :: "('a, 'b) host"
    by (simp add: raise_trap_def trapped_def Let_def)
  ultimately show ?thesis using assms f t1 by (simp add: follows_Inl)
qed

lemma step_follows:
  assumes "alike h k"
  shows "follows same_way (step G ops h) (step G ops k)"
proof -
  let ?i = "current h"
  note f = alike_fields [OF assms]
  have "alike (enter_ctx G ?i h) (enter_ctx G ?i k)" by (rule alike_by [OF assms]) (simp_all add: unwalls)
  from call_export_follows [OF this, of G ops "entry (store h ! ?i)" "arg (store h ! ?i)"] show ?thesis
  proof (cases rule: follows_cases)
    case (hung2 r k')
    then show ?thesis by (simp add: step_def Let_def raise_trap_hung f)
  next
    case (error t h' k')
    note hl = halted_alike [OF error(3), of G t]
    show ?thesis
    proof (cases "fst (halted G t h')")
      case True
      with error hl show ?thesis
        by (cases "halted G t h'"; cases "halted G t k'") (simp add: step_def Let_def f follows_Inr)
    next
      case False
      obtain h1 k1 where e: "halted G t h' = (False, h1)" "halted G t k' = (False, k1)" "alike h1 k1"
        using False hl by (cases "halted G t h'"; cases "halted G t k'") auto
      from raise_trap_follows [OF e(3), of G ops ?i t] show ?thesis
      proof (cases rule: follows_cases)
        case (result a b)
        then show ?thesis using error e f alike_fields [OF result(3)] after_run_follows [OF result(3), of G ops ?i]
          by (simp add: step_def Let_def follows_Inr)
      qed (use error e f in \<open>simp_all add: step_def Let_def follows_Inl\<close>)
    qed
  qed (use f in \<open>simp_all add: step_def Let_def raise_trap_hung after_run_follows\<close>)
qed

lemma unwall_raise_lines [unwalls]: "unwall (raise_lines ready ls h) = raise_lines ready ls (unwall h)"
  by (induction ready ls h rule: raise_lines.induct) (simp_all add: unwalls)

lemma plain_raise_lines [simp]: "plain (raise_lines ready ls h) = plain h"
  by (induction ready ls h rule: raise_lines.induct) simp_all

lemma unwall_prepare [unwalls]:
  "unwall (raise_due_frame h) = raise_due_frame (unwall h)" "unwall (raise_uart h) = raise_uart (unwall h)"
  "unwall (apply_external h) = apply_external (unwall h)"
  "raise_hci (unwall h) = map_option (map_sum id unwall) (raise_hci h)"
  by (simp_all add: raise_due_frame_def raise_uart_def apply_external_def raise_hci_def Let_def unwalls
      split: list.split option.split sum.split)

lemma plain_prepare [simp]:
  "plain (raise_due_frame h) = plain h" "plain (raise_uart h) = plain h" "plain (apply_external h) = plain h"
  by (simp_all add: raise_due_frame_def raise_uart_def apply_external_def Let_def split: list.split)

lemma raise_hci_plain: "raise_hci h = Some (Inr h') \<Longrightarrow> plain h' = plain h"
  by (auto simp: raise_hci_def split: option.splits sum.splits if_splits)

lemma step_prepared_follows:
  assumes "alike h k"
  shows "follows same_way (step_prepared G ops h) (step_prepared G ops k)"
proof -
  let ?p = "\<lambda>h :: ('a, 'b) host. raise_uart (raise_due_frame (h\<lparr>step_started_at := Some (wall_ns h)\<rparr>))"
  have p: "alike (?p h) (?p k)" using assms by (simp add: alike_def unwalls)
  have r: "map_option (map_sum id unwall) (raise_hci (?p h)) = map_option (map_sum id unwall) (raise_hci (?p k))"
    using p unfolding alike_def unwall_prepare(4) [symmetric] by simp
  have hci: "follows same_way
     (case raise_hci (?p h) of None \<Rightarrow> None | Some (Inl e) \<Rightarrow> Some (Inl (Stopped (Failed e), ?p h))
      | Some (Inr h) \<Rightarrow> step G ops (apply_external h))
     (case raise_hci (?p k) of None \<Rightarrow> None | Some (Inl e) \<Rightarrow> Some (Inl (Stopped (Failed e), ?p k))
      | Some (Inr h) \<Rightarrow> step G ops (apply_external h))"
  proof (cases "raise_hci (?p h)")
    case (Some x)
    with r obtain y where y: "raise_hci (?p k) = Some y" "map_sum id unwall x = map_sum id unwall y"
      by (cases "raise_hci (?p k)") auto
    show ?thesis
    proof (cases x)
      case (Inl e)
      with y Some p show ?thesis by (cases y) (auto intro: follows_Inl)
    next
      case (Inr h1)
      with y obtain k1 where k1: "y = Inr k1" "unwall h1 = unwall k1" by (cases y) auto
      have "plain h1" using raise_hci_plain [of "?p h" h1] Some Inr alike_plain [OF assms] by simp
      then have "alike (apply_external h1) (apply_external k1)" using k1(2) by (simp add: alike_def unwalls)
      from step_follows [OF this, of G ops] show ?thesis using Some Inr y k1 by simp
    qed
  qed simp
  show ?thesis using deadline_alike [OF assms] hci assms
    by (auto simp: step_prepared_def Let_def intro: follows_Inl)
qed

section \<open>The run loop\<close>

text \<open>The step ends in the host giving up on a hang.\<close>

definition hangs :: "'g guest \<Rightarrow> 'l lan_ops \<Rightarrow> ('g, 'l) host \<Rightarrow> bool" where
  "hangs G ops h \<longleftrightarrow> (\<exists>h'. step_prepared G ops h = Some (Inl (Stopped Hang, h')))"

lemma do_reboot_alike:
  assumes "alike h k"
  shows "rel_sum same_way same_way (do_reboot G h) (do_reboot G k)"
proof -
  have u: "unwall_result (do_reboot G h) = do_reboot G (unwall h)" if "plain h" for h :: "('a, 'b) host"
    using that by (simp add: do_reboot_def flash_image_def boot_def reset_for_reboot_def enter_new_def Let_def
        time_ns_def plain_def split: option.split) (simp add: unwall_def)
  have "plain (host_of (do_reboot G h)) = plain h"
    by (simp add: do_reboot_def flash_image_def boot_def reset_for_reboot_def enter_new_def Let_def plain_def
        split: option.split)
  moreover have "unwall_result (do_reboot G h) = unwall_result (do_reboot G k)"
    using u alike_plain [OF assms] assms by (simp add: alike_def)
  ultimately show ?thesis using alike_plain [OF assms]
    by (cases "do_reboot G h"; cases "do_reboot G k")
      (auto simp: alike_def split_beta intro!: rel_prod.intros prod_eqI)
qed

lemma run_step_alike:
  assumes "alike h k" and "run_step G ops h = Some r"
  shows "hangs G ops h \<or> hangs G ops k \<or> (\<exists>r'. run_step G ops k = Some r' \<and> rel_sum same_way same_way r r')"
  using step_prepared_follows [OF assms(1), of G ops]
proof (cases rule: follows_cases)
  case (error t h1 k1)
  have a: "alike (h1\<lparr>exit_code := x\<rparr>) (k1\<lparr>exit_code := x\<rparr>)" for x
    by (rule alike_by [OF error(3)]) (simp_all add: unwalls)
  show ?thesis
    using assms(2) error a alike_fields [OF error(3)] do_reboot_alike [OF error(3), of G]
    by (auto simp: run_step_def split: thrown.splits stop.splits)
qed (use assms(2) in \<open>auto simp: run_step_def hangs_def\<close>)

end
