(* ===== verification/Core_Loop_Proofs.thy ===== *)
theory Core_Loop_Proofs
  imports Core_Loop Core_Sample Core_Replay
begin

text \<open>
  What a run promises: the guest's clock does not get ahead of the wall clock when the run is paced, a
  step can be undone, and two ways in which pausing does more than pause.
\<close>

section \<open>What the person at it can do\<close>

text \<open>The snapshots are of times that have been, the newest last.\<close>

definition history_ok :: "('g, 'l) session \<Rightarrow> bool" where
  "history_ok s \<longleftrightarrow> sorted (map snap_now (history s) @ [now_ns (machine s)])"

lemma restored_clock [simp]:
  "now_ns (host_restore G s h) = snap_now s" "wall_ns (host_restore G s h) = wall_ns h"
  "pace (host_restore G s h) = pace h" "reboots (host_restore G s h) = reboots h"
  "host_done (host_restore G s h) = host_done h" "step_started_at (host_restore G s h) = step_started_at h"
  by (simp_all add: host_restore_def Let_def)

lemma user_act_keeps:
  assumes "history_ok s"
  shows "history_ok (user_act_on G a s) \<and> now_ns (machine (user_act_on G a s)) \<le> now_ns (machine s) \<and>
    wall_ns (machine (user_act_on G a s)) = wall_ns (machine s) \<and>
    pace (machine (user_act_on G a s)) = pace (machine s) \<and>
    reboots (machine (user_act_on G a s)) = reboots (machine s)"
proof (cases a)
  case Step_back
  show ?thesis
  proof (cases "history s" rule: rev_cases)
    case (snoc hs x)
    then show ?thesis using assms Step_back
      by (simp add: step_back_def history_ok_def sorted_append)
  qed (use assms Step_back in \<open>simp add: step_back_def history_ok_def\<close>)
qed (use assms in \<open>simp_all add: history_ok_def on_machine_def host_push_ethernet_def\<close>)

lemma user_acts_keep:
  "history_ok s \<Longrightarrow> history_ok (fold (user_act_on G) as s) \<and>
    now_ns (machine (fold (user_act_on G) as s)) \<le> now_ns (machine s) \<and>
    wall_ns (machine (fold (user_act_on G) as s)) = wall_ns (machine s) \<and>
    pace (machine (fold (user_act_on G) as s)) = pace (machine s) \<and>
    reboots (machine (fold (user_act_on G) as s)) = reboots (machine s)"
proof (induction as arbitrary: s)
  case (Cons a as)
  from user_act_keeps [OF Cons.prems, of G a] Cons.IH [of "user_act_on G a s"] show ?case by simp
qed simp

lemma await_keeps:
  assumes "history_ok s"
  shows "history_ok (await G e t s) \<and> now_ns (machine (await G e t s)) \<le> now_ns (machine s) \<and>
    wall_ns (machine (await G e t s)) = wall_ns (machine s) + max 0 (t + late e) \<and>
    pace (machine (await G e t s)) = pace (machine s) \<and>
    reboots (machine (await G e t s)) = reboots (machine s)"
  using user_acts_keep [of "on_machine (\<lambda>h. h\<lparr>wall_ns := wall_ns h + max 0 (t + late e)\<rparr>) s" G "acts e"] assms
  by (simp add: await_def history_ok_def on_machine_def)

section \<open>Pace\<close>

text \<open>By its own anchor, how far the guest is ahead.\<close>

definition ahead :: "('g, 'l) session \<Rightarrow> ns" where
  "ahead s = ahead_ns (pace_scale (the (pace (machine s)))) (machine s)"

lemma over_speed_mono: "t \<le> u \<Longrightarrow> over_speed t v \<le> over_speed u v"
  by (cases "fst v = 0") (simp_all add: over_speed_def zdiv_mono1 mult_right_mono)

lemma over_speed_0: "over_speed 0 v = 0"
  by (simp add: over_speed_def)

lemma ahead_reanchor: "ahead (reanchor s) = 0"
  by (simp add: ahead_def ahead_ns_def reanchor_def on_machine_def over_speed_0)

lemma ahead_later:
  assumes "now_ns (machine s') \<le> now_ns (machine s)" and "wall_ns (machine s) + w \<le> wall_ns (machine s')"
    and "pace (machine s') = pace (machine s)"
  shows "ahead s' \<le> ahead s - w"
proof -
  have "over_speed (now_ns (machine s') - t) v \<le> over_speed (now_ns (machine s) - t) v" for t v
    using assms(1) by (intro over_speed_mono) simp
  from this [of "pace_guest (the (pace (machine s)))" "pace_scale (the (pace (machine s)))"] assms(2)
  show ?thesis by (simp add: ahead_def ahead_ns_def Let_def assms(3))
qed

lemma await_ahead:
  assumes "history_ok s"
  shows "ahead (await G e t s) \<le> ahead s - max 0 (t + late e)"
  using await_keeps [OF assms, of G e t] by (intro ahead_later) simp_all

lemma history_ok_frame [simp]:
  "history_ok (rested s) = history_ok s" "history_ok (awaited s) = history_ok s"
  "history_ok (reanchor s) = history_ok s"
  "history_ok (on_machine (\<lambda>h. h\<lparr>yield_to_host := y\<rparr>) s) = history_ok s"
  by (simp_all add: history_ok_def rested_def awaited_def reanchor_def on_machine_def)

lemma ahead_frame [simp]:
  "ahead (rested s) = ahead s" "ahead (awaited s) = ahead s"
  "ahead (on_machine (\<lambda>h. h\<lparr>yield_to_host := y\<rparr>) s) = ahead s"
  by (simp_all add: ahead_def ahead_ns_def rested_def awaited_def on_machine_def)

lemma reboots_frame [simp]:
  "reboots (machine (rested s)) = reboots (machine s)" "reboots (machine (awaited s)) = reboots (machine s)"
  "reboots (machine (reanchor s)) = reboots (machine s)"
  "reboots (machine (on_machine (\<lambda>h. h\<lparr>yield_to_host := y\<rparr>) s)) = reboots (machine s)"
  by (simp_all add: rested_def awaited_def reanchor_def on_machine_def)

lemma idle_turn_keeps:
  assumes "history_ok s"
  shows "history_ok (idle_turn G e s) \<and> ahead (idle_turn G e s) \<le> ahead s \<and>
    reboots (machine (idle_turn G e s)) = reboots (machine s)"
proof -
  let ?y = "on_machine (\<lambda>h. h\<lparr>yield_to_host := False\<rparr>) s" and ?t = "idle_wait_ns (machine s)"
  have a: "history_ok (await G e t s') \<and> ahead (await G e t s') \<le> ahead s' \<and>
      reboots (machine (await G e t s')) = reboots (machine s')" if "history_ok s'" for t s'
    using await_keeps [OF that, of G e t] await_ahead [OF that, of G e t] by simp
  have "history_ok ?y" "history_ok (rested s)" using assms by simp_all
  from a [OF this(1), of 0] a [OF this(2), of ?t] show ?thesis using assms
    by (cases "0 < ?t"; cases "yield_to_host (machine s)") (simp_all add: idle_turn_def)
qed

lemma keep_anchor_keeps:
  "history_ok (keep_anchor s) = history_ok s" "reboots (machine (keep_anchor s)) = reboots (machine s)"
  "ahead_ns (scale (keep_anchor s)) (machine (keep_anchor s)) = ahead (keep_anchor s)"
proof -
  have sc: "scale (r\<lparr>last_now := n\<rparr>) = scale r" "scale (reanchor s) = scale s" for n and r :: "('a, 'b) session"
    by (simp_all add: scale_def reanchor_def on_machine_def)
  have re: "pace_scale (the (pace (machine (reanchor s)))) = scale s" by (simp add: reanchor_def on_machine_def)
  let ?again = "scale s \<noteq> pace_scale (the (pace (machine s))) \<or> now_ns (machine s) < last_now s \<or>
    now_ns (machine s) - last_now s > PACE_MAX_NS"
  show "history_ok (keep_anchor s) = history_ok s" "reboots (machine (keep_anchor s)) = reboots (machine s)"
    by (simp_all add: keep_anchor_def Let_def) (simp_all add: history_ok_def reanchor_def on_machine_def)
  show "ahead_ns (scale (keep_anchor s)) (machine (keep_anchor s)) = ahead (keep_anchor s)"
    by (cases ?again) (simp_all add: keep_anchor_def Let_def ahead_def sc re)
qed

lemma paced_turn_keeps:
  assumes "history_ok s" and "- 1000000 < late e"
  shows "history_ok (paced_turn G e s) \<and> ahead (paced_turn G e s) < 1000000 \<and>
    reboots (machine (paced_turn G e s)) = reboots (machine s)"
proof -
  define k where "k = keep_anchor s"
  have k: "history_ok k" "reboots (machine k) = reboots (machine s)" "ahead_ns (scale k) (machine k) = ahead k"
    using assms(1) keep_anchor_keeps [of s] by (simp_all add: k_def)
  show ?thesis
  proof (cases "1000000 \<le> ahead k")
    case True
    then have "paced_turn G e s = awaited (await G e (ahead k) (rested k))"
      by (simp add: paced_turn_def Let_def k_def [symmetric] k(3))
    moreover have "history_ok (rested k)" using k(1) by simp
    ultimately show ?thesis
      using await_keeps [of "rested k" G e "ahead k"] await_ahead [of "rested k" G e "ahead k"] assms(2) k True by simp
  next
    case False
    define r where "r = (if ahead k < - PACE_BEHIND_NS then reanchor k else k)"
    define y where "y = (if wall_ns (machine r) - last_yield r > PACE_YIELD_NS
      then on_machine (\<lambda>h. h\<lparr>yield_to_host := True\<rparr>) r else r)"
    have "paced_turn G e s = idle_turn G e y"
      using False by (simp add: paced_turn_def Let_def k_def [symmetric] k(3) r_def [symmetric] y_def [symmetric])
    moreover have "history_ok y" "ahead y < 1000000" "reboots (machine y) = reboots (machine s)"
      using k False by (simp_all add: y_def r_def ahead_reanchor)
    ultimately show ?thesis using idle_turn_keeps [of y G e] by simp
  qed
qed

lemma step_not_back:
  assumes "run_step G ops h = Some (Inr (b, h'))" and "reboots h' = reboots h"
  shows "now_ns h \<le> now_ns h'"
  using run_step_moves [OF assms(1)] assms(2) by (simp add: moves_def global_ns_def)

lemma take_snapshot_ok:
  assumes "history_ok s"
  shows "history_ok (take_snapshot G s)"
proof -
  have "sorted (map snap_now (history s @ [host_snapshot G (machine s)]))"
    using assms by (simp add: history_ok_def host_snapshot_def)
  then have "sorted (map snap_now (history_push (history_max s) (host_snapshot G (machine s)) (history s)))"
    by (auto simp: history_push_def Let_def map_tl sorted_tl)
  moreover have "snap_now x \<le> now_ns (machine s)"
    if "x \<in> set (history_push (history_max s) (host_snapshot G (machine s)) (history s))" for x
  proof -
    from that have "x \<in> set (history s @ [host_snapshot G (machine s)])"
      by (auto simp: history_push_def Let_def split: if_splits dest: list.set_sel(2) [rotated])
    then show ?thesis using assms by (auto simp: history_ok_def sorted_append host_snapshot_def)
  qed
  ultimately show ?thesis using assms by (auto simp: take_snapshot_def history_ok_def sorted_append)
qed

lemma take_snapshot_frame [simp]: "machine (take_snapshot G s) = machine s" "paused (take_snapshot G s) = paused s"
  "steps_left (take_snapshot G s) = steps_left s - 1"
  by (simp_all add: take_snapshot_def)

lemma turn_keeps:
  assumes "loop_turn G ops True e s = Some (Inr (True, s'))" and "history_ok s" and "- 1000000 < late e"
  shows "history_ok s' \<and> reboots (machine s) \<le> reboots (machine s') \<and>
    (reboots (machine s') = reboots (machine s) \<and> \<not> held s' \<longrightarrow> ahead s' < 1000000)"
proof (cases "held s")
  case True
  then have s': "s' = held_turn G e s" using assms(1) by (simp add: loop_turn_def split: if_splits)
  define w where "w = await G e 50000000 s"
  have w: "history_ok w" "reboots (machine w) = reboots (machine s)"
    using await_keeps [OF assms(2), of G e 50000000] by (simp_all add: w_def)
  have "s' = (if held w \<and> \<not> host_done (machine w) then w else reanchor w)"
    by (simp add: s' held_turn_def w_def Let_def)
  then show ?thesis using w ahead_reanchor [of w] by (cases "held w \<and> \<not> host_done (machine w)") simp_all
next
  case False
  define q where "q = take_snapshot G s"
  from False assms(1) obtain h where r: "run_step G ops (machine s) = Some (Inr (True, h))"
    and s': "s' = (if reboots h \<noteq> reboots (machine s) then await G e 0 (q\<lparr>machine := h, history := []\<rparr>)
      else paced_turn G e (q\<lparr>machine := h\<rparr>))"
    by (auto simp: loop_turn_def Let_def q_def split: if_splits option.splits sum.splits bool.splits)
  have q: "history_ok q" "machine q = machine s" using take_snapshot_ok [OF assms(2), of G] by (simp_all add: q_def)
  have b: "reboots (machine s) \<le> reboots h" using run_step_moves [OF r] by (simp add: moves_def)
  show ?thesis
  proof (cases "reboots h = reboots (machine s)")
    case True
    have "history_ok (q\<lparr>machine := h\<rparr>)"
      using q step_not_back [OF r True] by (auto simp: history_ok_def sorted_append)
    from paced_turn_keeps [OF this assms(3), of G] show ?thesis using s' True by simp
  next
    case False
    have "history_ok (q\<lparr>machine := h, history := []\<rparr>)" by (simp add: history_ok_def)
    from await_keeps [OF this, of G e 0] show ?thesis using s' False b by simp
  qed
qed

lemma run_keeps:
  assumes "loop_run G ops True es s = Some (Inr (True, s'))" and "history_ok s"
    and "list_all (\<lambda>e. - 1000000 < late e) es"
  shows "reboots (machine s) \<le> reboots (machine s') \<and>
    (reboots (machine s') = reboots (machine s) \<and> (\<not> held s \<longrightarrow> ahead s < 1000000) \<and> \<not> held s' \<longrightarrow> ahead s' < 1000000)"
  using assms
proof (induction es arbitrary: s)
  case (Cons e es)
  then obtain s1 where t: "loop_turn G ops True e s = Some (Inr (True, s1))"
    and r: "loop_run G ops True es s1 = Some (Inr (True, s'))"
    by (auto split: option.splits sum.splits prod.splits bool.splits)
  from turn_keeps [OF t Cons.prems(2)] Cons.prems(3) have k: "history_ok s1"
    "reboots (machine s) \<le> reboots (machine s1)"
    "reboots (machine s1) = reboots (machine s) \<and> \<not> held s1 \<longrightarrow> ahead s1 < 1000000" by simp_all
  from Cons.IH [OF r k(1)] Cons.prems(3) k show ?case by auto
qed simp


section \<open>Undoing a step\<close>

text \<open>A snapshot does not hold what the host knows of the wall clock.\<close>

lemma snapshot_unwall [simp]: "host_snapshot G (unwall h) = host_snapshot G h"
  by (simp add: host_snapshot_def unwalls split: list.split)

lemma snapshot_alike: "unwall h = unwall k \<Longrightarrow> host_snapshot G h = host_snapshot G k"
  by (metis snapshot_unwall)

text \<open>With nobody at it, a turn does nothing besides the step but what has to do with the clocks.\<close>

definition same_run :: "('g, 'l) session \<Rightarrow> ('g, 'l) session \<Rightarrow> bool" where
  "same_run s s' \<longleftrightarrow> history s' = history s \<and> paused s' = paused s \<and> steps_left s' = steps_left s \<and>
     unwall (machine s') = unwall (machine s)"

lemma same_run_refl [simp]: "same_run s s"
  by (simp add: same_run_def)

lemma same_run_trans: "same_run s1 s2 \<Longrightarrow> same_run s2 s3 \<Longrightarrow> same_run s1 s3"
  by (simp add: same_run_def)

lemma same_run_frame [simp]:
  "same_run s (reanchor s')  = same_run s s'" "same_run s (rested s') = same_run s s'"
  "same_run s (awaited s') = same_run s s'" "same_run s (s'\<lparr>last_now := n\<rparr>) = same_run s s'"
  "same_run s (on_machine (\<lambda>h. h\<lparr>yield_to_host := y\<rparr>) s') = same_run s s'"
  by (simp_all add: same_run_def reanchor_def rested_def awaited_def on_machine_def)

lemma same_run_turns [simp]:
  assumes "acts e = []"
  shows "same_run s (await G e t s') = same_run s s'" "same_run s (idle_turn G e s') = same_run s s'"
    "same_run s (paced_turn G e s') = same_run s s'"
proof -
  have aw: "same_run s (await G e t s') = same_run s s'" for t s'
    by (simp add: await_def assms same_run_def on_machine_def)
  then show "same_run s (await G e t s') = same_run s s'" .
  have idle: "same_run s (idle_turn G e s') = same_run s s'" for s'
    by (simp add: idle_turn_def aw)
  then show "same_run s (idle_turn G e s') = same_run s s'" .
  have "same_run s (keep_anchor s') = same_run s s'" by (simp add: keep_anchor_def Let_def)
  then show "same_run s (paced_turn G e s') = same_run s s'"
    by (simp add: paced_turn_def Let_def aw idle)
qed

text \<open>A turn that steps, with nobody at it.\<close>

lemma quiet_turn:
  assumes "loop_turn G ops paced e s = Some (Inr (True, s'))" and "acts e = []" and "\<not> held s"
  obtains h where "run_step G ops (machine s) = Some (Inr (True, h))" "unwall (machine s') = unwall h"
    "paused s' = paused s" "steps_left s' = steps_left s - 1"
    "reboots h = reboots (machine s) \<Longrightarrow> history s' = history (take_snapshot G s)"
proof -
  from assms obtain h where r: "run_step G ops (machine s) = Some (Inr (True, h))"
    and s': "s' = (if reboots h \<noteq> reboots (machine s)
      then await G e 0 ((take_snapshot G s)\<lparr>machine := h, history := []\<rparr>)
      else if paced then paced_turn G e ((take_snapshot G s)\<lparr>machine := h\<rparr>)
      else idle_turn G e ((take_snapshot G s)\<lparr>machine := h\<rparr>))"
    by (auto simp: loop_turn_def Let_def split: if_splits option.splits sum.splits bool.splits)
  let ?q = "if reboots h \<noteq> reboots (machine s) then (take_snapshot G s)\<lparr>machine := h, history := []\<rparr>
    else (take_snapshot G s)\<lparr>machine := h\<rparr>"
  have "same_run ?q s'" using assms(2) by (simp add: s')
  then have q: "history s' = history ?q" "paused s' = paused ?q" "steps_left s' = steps_left ?q"
    "unwall (machine s') = unwall (machine ?q)" by (simp_all add: same_run_def)
  show ?thesis by (rule that [OF r]) (simp_all add: q)
qed

lemma history_push_newest:
  assumes "0 < most"
  shows "history_push most x hs \<noteq> [] \<and> last (history_push most x hs) = x \<and>
    (length hs < most \<longrightarrow> butlast (history_push most x hs) = hs)"
  using assms by (cases hs) (auto simp: history_push_def Let_def)


section \<open>Pacing changes when, never what\<close>

definition quiet :: "wait_env list \<Rightarrow> bool" where
  "quiet es \<longleftrightarrow> list_all (\<lambda>e. acts e = []) es"

definition same_outcome ::
  "(thrown \<times> ('g, 'l) session) + bool \<times> ('g, 'l) session \<Rightarrow> (thrown \<times> ('g, 'l) session) + bool \<times> ('g, 'l) session \<Rightarrow> bool" where
  "same_outcome = rel_sum (\<lambda>(t, s) (t', s'). t = t' \<and> alike (machine s) (machine s'))
     (\<lambda>(b, s) (b', s'). b = b' \<and> alike (machine s) (machine s') \<and> \<not> paused s \<and> \<not> paused s')"

lemma quiet_turn_goes_on:
  assumes "run_step G ops (machine s) = Some (Inr (True, h))" and "acts e = []" and "\<not> host_done (machine s)" and "\<not> held s"
  shows "\<exists>s'. loop_turn G ops paced e s = Some (Inr (True, s')) \<and> unwall (machine s') = unwall h \<and> paused s' = paused s"
proof -
  define s' where "s' = (if reboots h \<noteq> reboots (machine s)
      then await G e 0 ((take_snapshot G s)\<lparr>machine := h, history := []\<rparr>)
      else if paced then paced_turn G e ((take_snapshot G s)\<lparr>machine := h\<rparr>)
      else idle_turn G e ((take_snapshot G s)\<lparr>machine := h\<rparr>))"
  have "same_run ((take_snapshot G s)\<lparr>machine := h, history := (if reboots h \<noteq> reboots (machine s) then []
      else history (take_snapshot G s))\<rparr>) s'"
    using assms(2) by (simp add: s'_def)
  then have "unwall (machine s') = unwall h" "paused s' = paused s"
    by (simp_all add: same_run_def take_snapshot_def split: if_splits)
  moreover have "loop_turn G ops paced e s = Some (Inr (True, s'))"
    using assms by (simp add: loop_turn_def Let_def s'_def)
  ultimately show ?thesis by blast
qed

lemma turn_alike:
  assumes "loop_turn G ops p e s = Some r" and "alike (machine s) (machine t)" and "\<not> paused s" and "\<not> paused t"
    and "acts e = []" and "acts f = []"
  shows "hangs G ops (machine s) \<or> hangs G ops (machine t) \<or> (\<exists>r'. loop_turn G ops q f t = Some r' \<and> same_outcome r r')"
proof (cases "host_done (machine s)")
  case True
  then have "host_done (machine t)" using alike_fields(27) [OF assms(2)] by simp
  with True show ?thesis using assms by (auto simp: loop_turn_def same_outcome_def)
next
  case False
  then have nd: "\<not> host_done (machine t)" using alike_fields(27) [OF assms(2)] by simp
  have nh: "\<not> held s" "\<not> held t" using assms(3,4) by (simp_all add: held_def)
  obtain x where x: "run_step G ops (machine s) = Some x"
    using assms(1) False nh by (auto simp: loop_turn_def Let_def split: option.splits)
  from run_step_alike [OF assms(2) x] consider "hangs G ops (machine s)" | "hangs G ops (machine t)"
    | y where "run_step G ops (machine t) = Some y" "rel_sum same_way same_way x y" by blast
  then show ?thesis
  proof cases
    case (3 y)
    show ?thesis
    proof (cases x)
      case (Inl e1)
      with 3 obtain th h k where "x = Inl (th, h)" "y = Inl (th, k)" "alike h k" by (cases y; cases e1) auto
      with 3 x assms(1) False nd nh show ?thesis by (auto simp: loop_turn_def Let_def same_outcome_def)
    next
      case (Inr bh)
      with 3 obtain b h k where xy: "x = Inr (b, h)" "y = Inr (b, k)" "alike h k" by (cases y; cases bh) auto
      show ?thesis
      proof (cases b)
        case True
        from quiet_turn_goes_on [OF _ assms(5) False nh(1), of G ops h p] x xy True obtain s' where
          s': "loop_turn G ops p e s = Some (Inr (True, s'))" "unwall (machine s') = unwall h" "paused s' = paused s" by auto
        from quiet_turn_goes_on [OF _ assms(6) nd nh(2), of G ops k q] 3 xy True obtain t' where
          t': "loop_turn G ops q f t = Some (Inr (True, t'))" "unwall (machine t') = unwall k" "paused t' = paused t" by auto
        have "plain (machine s')" using s'(2) alike_plain [OF xy(3)] by (metis plain_unwall)
        then have "alike (machine s') (machine t')" using s' t' xy(3) by (simp add: alike_def)
        with s' t' assms(1,3,4) show ?thesis by (auto simp: same_outcome_def)
      next
        case b: False
        with 3 x xy assms(1,3,4) False nd nh show ?thesis
          by (auto simp: loop_turn_def Let_def same_outcome_def)
      qed
    qed
  qed auto
qed

text \<open>Somewhere in a run the host gives up on a guest that takes too long.\<close>

definition gives_up :: "'g guest \<Rightarrow> 'l lan_ops \<Rightarrow> bool \<Rightarrow> wait_env list \<Rightarrow> ('g, 'l) session \<Rightarrow> bool" where
  "gives_up G ops paced es s \<longleftrightarrow> (\<exists>n s'. loop_run G ops paced (take n es) s = Some (Inr (True, s')) \<and> hangs G ops (machine s'))"

lemma gives_up_now: "hangs G ops (machine s) \<Longrightarrow> gives_up G ops paced es s"
  unfolding gives_up_def by (rule exI [of _ 0]) simp

lemma gives_up_later:
  assumes "loop_turn G ops paced e s = Some (Inr (True, s1))" and "gives_up G ops paced es s1"
  shows "gives_up G ops paced (e # es) s"
proof -
  obtain n s' where "loop_run G ops paced (take n es) s1 = Some (Inr (True, s'))" "hangs G ops (machine s')"
    using assms(2) unfolding gives_up_def by blast
  with assms(1) show ?thesis unfolding gives_up_def by (intro exI [of _ "Suc n"]) simp
qed

lemma runs_alike:
  assumes "loop_run G ops p es s = Some r" and "alike (machine s) (machine t)" and "\<not> paused s" and "\<not> paused t"
    and "quiet es" and "quiet fs" and "length fs = length es"
  shows "gives_up G ops p es s \<or> gives_up G ops q fs t \<or> (\<exists>r'. loop_run G ops q fs t = Some r' \<and> same_outcome r r')"
  using assms
proof (induction es arbitrary: fs s t)
  case Nil
  then show ?case by (auto simp: same_outcome_def)
next
  case (Cons e es)
  then obtain f fs' where fs: "fs = f # fs'" "length fs' = length es" by (cases fs) auto
  obtain x where x: "loop_turn G ops p e s = Some x" using Cons.prems(1) by (auto split: option.splits)
  have acts: "acts e = []" "acts f = []" "quiet es" "quiet fs'"
    using Cons.prems(5,6) fs by (simp_all add: quiet_def)
  from turn_alike [OF x Cons.prems(2-4) acts(1,2), of q] consider "hangs G ops (machine s)"
    | "hangs G ops (machine t)" | y where "loop_turn G ops q f t = Some y" "same_outcome x y" by blast
  then show ?case
  proof cases
    case (3 y)
    show ?thesis
    proof (cases "\<exists>s1. x = Inr (True, s1)")
      case True
      then obtain s1 where s1: "x = Inr (True, s1)" ..
      with 3 obtain t1 where t1: "y = Inr (True, t1)" "alike (machine s1) (machine t1)" "\<not> paused s1" "\<not> paused t1"
        by (cases y) (auto simp: same_outcome_def)
      have "loop_run G ops p es s1 = Some r" using Cons.prems(1) x s1 by simp
      from Cons.IH [OF this t1(2-4) acts(3,4) fs(2)] show ?thesis
        using gives_up_later x s1 3(1) t1(1) fs(1) by (fastforce simp: t1(1))
    next
      case False
      then have "loop_run G ops p (e # es) s = Some x" using x by (auto split: sum.split prod.split bool.split)
      then have r: "r = x" using Cons.prems(1) by simp
      have "\<not> (\<exists>t1. y = Inr (True, t1))" using False 3(2) by (cases x) (auto simp: same_outcome_def)
      then have "loop_run G ops q fs t = Some y" using 3(1) fs(1) by (auto split: sum.split prod.split bool.split)
      with r 3(2) show ?thesis by blast
    qed
  qed (use gives_up_now fs in blast)+
qed

text \<open>
  C1. A board that is paced does what it does unpaced. On virtual time, with nobody at it: after as many
  turns, however long any wait was and at whatever speed, the two are the same but for what the host
  knows of the wall clock, or have ended the same way; unless in one of them the host gave up on a
  guest that took too long.
\<close>

theorem pacing_changes_nothing:
  assumes "loop_run G ops True es (loop_start G True s) = Some r"
    and "plain (machine s)" and "\<not> paused s" and "quiet es" and "quiet fs" and "length fs = length es"
    and "\<not> gives_up G ops True es (loop_start G True s)" and "\<not> gives_up G ops False fs (loop_start G False s)"
  shows "\<exists>r'. loop_run G ops False fs (loop_start G False s) = Some r' \<and> same_outcome r r'"
proof -
  have "plain (start_host G (machine s))"
    using assms(2) by (simp add: start_host_def boot_def enter_new_def Let_def plain_def)
  then have "alike (machine (loop_start G True s)) (machine (loop_start G False s))"
    by (simp add: alike_def loop_start_def Let_def reanchor_def on_machine_def)
  moreover have "\<not> paused (loop_start G b s)" for b
    using assms(3) by (simp add: loop_start_def Let_def reanchor_def on_machine_def)
  ultimately show ?thesis using runs_alike [OF assms(1)] assms(4-8) by blast
qed

end
