(* ===== verification/Core_Pause.thy ===== *)
theory Core_Pause
  imports Core_Loop_Proofs
begin

text \<open>
  What being held does to a run besides holding it: the wall clock goes on, and so does the time in
  which the guest has to suspend; and a board that runs as fast as it can comes back on the wall
  clock's pace. Then the theorems about the run applied to a small guest.
\<close>

section \<open>Held\<close>

definition wait_ns :: "wait_env \<Rightarrow> ns" where
  "wait_ns e = max 0 (50000000 + late e)"

definition later :: "ns \<Rightarrow> ('g, 'l) session \<Rightarrow> ('g, 'l) session" where
  "later t = on_machine (\<lambda>h. h\<lparr>wall_ns := wall_ns h + t\<rparr>)"

lemma later_frame [simp]:
  "held (later t s) = held s" "host_done (machine (later t s)) = host_done (machine s)"
  "wall_ns (machine (later t s)) = wall_ns (machine s) + t" "paused (later t s) = paused s"
  "steps_left (later t s) = steps_left s" "later t (later u s) = later (u + t) s"
  by (simp_all add: later_def on_machine_def held_def add.assoc)

lemma later_0 [simp]: "later 0 s = s"
  by (simp add: later_def on_machine_def)

lemma await_quiet: "await G e 50000000 s = fold (user_act_on G) (acts e) (later (wait_ns e) s)"
  by (simp add: await_def later_def wait_ns_def)

lemma held_turn_quiet:
  assumes "held s" and "\<not> host_done (machine s)" and "acts e = []"
  shows "loop_turn G ops paced e s = Some (Inr (True, later (wait_ns e) s))"
  using assms by (simp add: loop_turn_def held_turn_def Let_def await_quiet)

text \<open>While it is held, only the wall clock goes on.\<close>

lemma holds:
  assumes "held s" and "\<not> host_done (machine s)" and "quiet es"
  shows "loop_run G ops paced (es @ fs) s = loop_run G ops paced fs (later (sum_list (map wait_ns es)) s)"
  using assms
proof (induction es arbitrary: s)
  case (Cons e es)
  then have "loop_turn G ops paced e s = Some (Inr (True, later (wait_ns e) s))" "quiet es"
    by (simp_all add: held_turn_quiet quiet_def)
  with Cons show ?case by simp
qed simp

text \<open>What lets it go: it is resumed, or asked for steps.\<close>

definition lets_go :: "user_act list \<Rightarrow> bool" where
  "lets_go as \<longleftrightarrow> (case as of [Resume] \<Rightarrow> True | [Step_once n] \<Rightarrow> n > 0 | _ \<Rightarrow> False)"

lemma let_go_turn:
  assumes "held s" and "\<not> host_done (machine s)" and "lets_go (acts e)"
  obtains s' where "loop_turn G ops paced e s = Some (Inr (True, reanchor s'))" "\<not> held s'"
    "machine s' = machine (later (wait_ns e) s)" "\<not> host_done (machine s')" "time_scale s' = time_scale s"
proof -
  define s' where "s' = await G e 50000000 s"
  have "acts e = [Resume] \<or> (\<exists>n > 0. acts e = [Step_once n])"
    using assms(3) by (auto simp: lets_go_def split: list.splits user_act.splits)
  then have "machine s' = machine (later (wait_ns e) s)" "\<not> held s'" "time_scale s' = time_scale s"
    by (auto simp: s'_def await_quiet held_def later_def on_machine_def)
  then show ?thesis using assms(1,2) by (intro that [of s']) (simp_all add: loop_turn_def held_turn_def s'_def [symmetric])
qed

lemma reanchor_frame [simp]:
  "host_done (machine (reanchor s)) = host_done (machine s)" "held (reanchor s) = held s"
  "unwall (machine (reanchor s)) = unwall (machine s)" "step_started_at (machine (reanchor s)) = step_started_at (machine s)"
  "wall_ns (machine (reanchor s)) = wall_ns (machine s)"
  by (simp_all add: reanchor_def on_machine_def held_def unwall_def)

lemma late_step_gives_up:
  assumes "step_started_at h = Some t" and "time_ns h \<le> deadline_ns h"
    and "wall_ns h - t > max (int (max_time_ms (opts h)) * 3) 60000 * 1000000"
  shows "run_step G ops h = Some (Inr (False, h\<lparr>exit_code := 2\<rparr>))"
  using assms by (simp add: run_step_def step_prepared_def check_deadline_def)

lemma late_turn_gives_up:
  assumes "\<not> host_done (machine s)" and "\<not> held s" and "step_started_at (machine s) = Some t"
    and "time_ns (machine s) \<le> deadline_ns (machine s)"
    and "wall_ns (machine s) - t > max (int (max_time_ms (opts (machine s))) * 3) 60000 * 1000000"
  shows "\<exists>s'. loop_turn G ops paced e s = Some (Inr (False, s')) \<and> machine s' = (machine s)\<lparr>exit_code := 2\<rparr>"
  using late_step_gives_up [OF assms(3-5)] assms(1,2) by (simp add: loop_turn_def Let_def)

text \<open>
  C4. A board that is held for longer than the guest may take to suspend is given up as soon as it goes
  on, with exit code 2 and as if the guest had hung, though the guest has not run a step since: the
  time is taken from the start of the step before, and goes on while the board is held.
\<close>

theorem long_pause_gives_up:
  assumes "held s" and "\<not> host_done (machine s)" and "quiet es" and "lets_go (acts e)"
    and "step_started_at (machine s) = Some t"
    and "\<not> realtime (opts (machine s))" and "now_ns (machine s) \<le> deadline_ns (machine s)"
    and "wall_ns (machine s) + sum_list (map wait_ns (es @ [e])) - t
      > max (int (max_time_ms (opts (machine s))) * 3) 60000 * 1000000"
  shows "\<exists>s'. loop_run G ops paced (es @ [e, f]) s = Some (Inr (False, s')) \<and>
    exit_code (machine s') = 2 \<and> inst (machine s') = inst (machine s) \<and> mem (machine s') = mem (machine s)"
proof -
  let ?s = "later (sum_list (map wait_ns es)) s"
  have "held ?s" "\<not> host_done (machine ?s)" using assms(1,2) by simp_all
  then obtain s1 where s1: "loop_turn G ops paced e ?s = Some (Inr (True, reanchor s1))" "\<not> held s1"
    "machine s1 = machine (later (wait_ns e) ?s)" "\<not> host_done (machine s1)"
    using assms(4) by (rule let_go_turn)
  obtain p where m: "machine (reanchor s1) = (machine s)\<lparr>wall_ns := wall_ns (machine s) +
      sum_list (map wait_ns (es @ [e])), pace := p\<rparr>"
    using s1(3) by (auto simp: reanchor_def later_def on_machine_def add.assoc)
  have "\<exists>s'. loop_turn G ops paced f (reanchor s1) = Some (Inr (False, s')) \<and>
      machine s' = (machine (reanchor s1))\<lparr>exit_code := 2\<rparr>"
    using s1(2,4) by (intro late_turn_gives_up [of _ t]) (use assms(2,5-8) in \<open>simp_all add: m time_ns_def\<close>)
  moreover have "loop_run G ops paced (es @ [e, f]) s = loop_run G ops paced [f] (reanchor s1)"
    using holds [OF assms(1-3), of G ops paced "[e, f]"] s1(1) by simp
  ultimately show ?thesis using m by auto
qed

section \<open>Let go\<close>

lemma next_deadline_unwall: "next_deadline_ns ops (h\<lparr>wall_ns := w, pace := p\<rparr>) = next_deadline_ns ops h"
proof -
  let ?k = "h\<lparr>wall_ns := w, pace := p\<rparr>"
  have "host_next_bt ?k = host_next_bt h" "host_next_lan ops ?k = host_next_lan ops h"
    "host_next_frame ?k = host_next_frame h" "host_next_uart ?k = host_next_uart h"
    by (simp_all add: host_next_lan_def host_next_frame_def host_next_uart_def host_next_bt_def split: option.split)
  then show ?thesis by (simp add: next_deadline_ns_def split: sum.split)
qed

text \<open>
  An interactive board that is not paced jumps to the next deadline when it is idle. Held once, it does
  not any more: with the next deadline not yet reached by the wall clock, counted from when it was let
  go, its clock stops short of it.
\<close>

theorem pausing_starts_the_wall_clock:
  assumes "held s" and "\<not> host_done (machine s)" and "lets_go (acts e)"
    and "pace (machine s) = None" and "\<not> alarm_is_clamp (machine s)"
    and "next_deadline_ns ops (machine s) = Inr (Some t)" and "now_ns (machine s) < t"
    and "times_speed (w - (wall_ns (machine s) + wait_ns e)) (scale s) < t - now_ns (machine s)"
    and "interactive_idle ops (machine s) = Some (Inr (r, h))"
    and "loop_turn G ops False e s = Some (Inr (True, s'))"
    and "interactive_idle ops ((machine s')\<lparr>wall_ns := w\<rparr>) = Some (Inr (r', h'))"
  shows "now_ns h = t \<and> now_ns h' < t"
proof -
  have "advance_to_next_deadline ops None False (machine s) = Some (Inr (r, h))"
    using assms(4,9) by (simp add: interactive_idle_def)
  from advance_reaches_deadline [OF assms(6,5) this] have "now_ns h = t" using assms(7) by simp
  obtain s1 where s1: "loop_turn G ops False e s = Some (Inr (True, reanchor s1))"
    "machine s1 = machine (later (wait_ns e) s)" "time_scale s1 = time_scale s"
    using assms(1-3) by (rule let_go_turn)
  let ?p = "\<lparr>pace_guest = now_ns (machine s), pace_wall = wall_ns (machine s) + wait_ns e, pace_scale = scale s\<rparr>"
  have m: "(machine s')\<lparr>wall_ns := w\<rparr> = (machine s)\<lparr>wall_ns := w, pace := Some ?p\<rparr>"
    using s1 assms(10) by (simp add: reanchor_def later_def on_machine_def scale_def)
  let ?b = "now_ns (machine s) + times_speed (w - pace_wall ?p) (pace_scale ?p)"
  have "paced_idle ops ?p (Some t) ?b ((machine s)\<lparr>wall_ns := w, pace := Some ?p\<rparr>) = Some (Inr (r', h'))"
    using assms(8,11) unfolding m by (simp add: interactive_idle_def next_deadline_unwall assms(6))
  from paced_idle_wire [OF this] have "now_ns h' = max (now_ns (machine s)) ?b"
    by (simp add: wire_of_def set_now_def)
  with assms(7,8) \<open>now_ns h = t\<close> show ?thesis by simp
qed

end
