(* ===== verification/Core_Loop_Sample.thy ===== *)
theory Core_Loop_Sample
  imports Core_Pause
begin

text \<open>
  The theorems about the run applied: a guest that boots, ticks once, starts a thread and returns.
\<close>

definition switching_memory :: "nat list" where
  "switching_memory = replicate 12 0 @ [60, 0, 0, 0, 1] @ replicate 15 0 @ [40, 0, 0, 0, 48, 0, 0, 0] @ replicate 24 0"

definition ticking_guest :: "scripted guest" where
  "ticking_guest = scripted_guest\<lparr>fresh_image := \<lparr>image_inst = ((NORMAL, 900), [Import SafepointTick, Import SwitchTo]),
     image_mem = switching_memory, image_switch_block = 0, image_irq_pending = 24, image_scratch = 32,
     image_masked = None, image_enabled = None\<rparr>\<rparr>"

text \<open>At a twentieth of the speed, so that a tick is two milliseconds.\<close>

definition slow_board :: "(scripted, unit) session" where
  "slow_board = \<lparr>machine = two_contexts, paused = False, steps_left = 0, history = [], history_max = 4,
     time_scale = (1, 20), last_now = 0, last_yield = 0\<rparr>"

definition quick_timer :: wait_env where
  "quick_timer = \<lparr>late = - 500000, acts = []\<rparr>"

lemma switching_words:
  "mem_word switching_memory 0 = 0" "mem_word switching_memory 4 = 0" "mem_word switching_memory 8 = 0"
  "mem_word switching_memory 12 = 60" "mem_word switching_memory 16 = 1" "mem_word switching_memory 20 = 0"
  "mem_word switching_memory 24 = 0" "mem_word switching_memory 32 = 40" "mem_word switching_memory 36 = 48"
  by (simp_all add: mem_word_def rd16_def byte_at_def switching_memory_def nth_append nth_Cons')

lemma switching_block:
  "mem h = switching_memory \<Longrightarrow> switch_block_addr h = 0 \<Longrightarrow> read_switch_block h =
     \<lparr>from_sp = 0, from_buf = 0, to_sp = 0, to_buf = 60, to_fresh = 1, to_arg = 0\<rparr>"
  by (simp add: read_switch_block_def switching_words Let_def)

lemma switching_buffer: "mem h = switching_memory \<Longrightarrow> buffer_ok 32 h"
  by (simp add: buffer_ok_def switching_words Let_def)

lemmas run_step_defs = run_step_def step_prepared_def check_deadline_def raise_uart_def raise_due_frame_def
  raise_hci_def apply_external_def uart_ready_def Let_def step_def call_export_def enter_ctx_def update_ctx_def
  run_guest.simps do_import_def in_memory_def after_run_def initial_devices_def initial_console_def time_ns_def
  wait_or_switch_def suspend_def note_ctx_def switch_step_def switching_block switching_buffer enter_new_def
  safepoint_tick_def SAFEPOINT_TICK_NS_def

lemmas slow_defs = slow_board_def quick_timer_def ticking_guest_def scripted_guest_def sample_defs

lemmas turn_defs = loop_start_def start_host_def boot_def loop_turn_def held_def take_snapshot_def paced_turn_def
  keep_anchor_def ahead_ns_def over_speed_def scale_def reanchor_def on_machine_def rested_def awaited_def await_def
  idle_turn_def PACE_MAX_NS_def PACE_BEHIND_NS_def PACE_YIELD_NS_def


lemma no_hang: "step_prepared G ops h = Some (Inr x) \<Longrightarrow> \<not> hangs G ops h"
  by (simp add: hangs_def)

lemma ends_before_giving_up:
  assumes "loop_turn G ops paced e s = Some (Inr (True, s1))" and "loop_turn G ops paced f s1 = Some (Inr (False, s2))"
    and "\<not> hangs G ops (machine s)" and "\<not> hangs G ops (machine s1)"
  shows "\<not> gives_up G ops paced [e, f] s"
proof
  assume "gives_up G ops paced [e, f] s"
  then obtain n s' where n: "loop_run G ops paced (take n [e, f]) s = Some (Inr (True, s'))" "hangs G ops (machine s')"
    unfolding gives_up_def by blast
  consider "n = 0" | "n = Suc 0" | m where "n = Suc (Suc m)" by (cases n rule: nat.exhaust [of _ _, OF _ old.nat.exhaust]) auto
  then show False using n assms by cases auto
qed

text \<open>Paced, it waits; as fast as it can, it does not. Then it returns.\<close>

lemma slow_turns:
  "\<exists>s1 s2 x y. loop_turn ticking_guest no_lan paced quick_timer (loop_start ticking_guest paced slow_board) = Some (Inr (True, s1)) \<and>
    loop_turn ticking_guest no_lan paced quick_timer s1 = Some (Inr (False, s2)) \<and>
    step_prepared ticking_guest no_lan (machine (loop_start ticking_guest paced slow_board)) = Some (Inr x) \<and>
    step_prepared ticking_guest no_lan (machine s1) = Some (Inr y)"
  by (cases paced) (simp_all add: turn_defs run_step_defs slow_defs ex_bool_eq)

lemma slow_does_not_give_up:
  "\<not> gives_up ticking_guest no_lan paced [quick_timer, quick_timer] (loop_start ticking_guest paced slow_board)"
  using slow_turns [of paced] ends_before_giving_up no_hang by blast

theorem pacing_changes_nothing_witness:
  "\<exists>s t r. loop_run ticking_guest no_lan True [quick_timer, quick_timer] (loop_start ticking_guest True slow_board)
      = Some (Inr (False, s)) \<and>
    loop_run ticking_guest no_lan False [quick_timer, quick_timer] (loop_start ticking_guest False slow_board) = Some r \<and>
    same_outcome (Inr (False, s)) r"
proof -
  obtain s where s: "loop_run ticking_guest no_lan True [quick_timer, quick_timer] (loop_start ticking_guest True slow_board)
      = Some (Inr (False, s))"
    using slow_turns [of True] by auto
  have "plain (machine slow_board)" "\<not> paused slow_board" "quiet [quick_timer, quick_timer]"
    by (simp_all add: slow_defs plain_def quiet_def)
  from pacing_changes_nothing [OF s this(1,2,3) this(3) refl slow_does_not_give_up slow_does_not_give_up]
  show ?thesis using s by blast
qed

text \<open>One step at a time.\<close>

definition held_board :: "(scripted, unit) session" where
  "held_board = slow_board\<lparr>machine := two_contexts\<lparr>opts := sample_opts\<lparr>interactive := True\<rparr>, deadline_ns := 5000000000, step_started_at := Some 0,
     alarm_ns := Some 2000000\<rparr>, paused := True\<rparr>"

lemmas held_board_defs = held_board_def slow_defs


theorem long_pause_gives_up_witness:
  "\<exists>s'. loop_run scripted_guest no_lan False [quick_timer, \<lparr>late = 60000000000, acts = [Resume]\<rparr>, quick_timer] held_board
      = Some (Inr (False, s')) \<and> exit_code (machine s') = 2 \<and> inst (machine s') = inst two_contexts"
proof -
  let ?e = "\<lparr>late = 60000000000, acts = [Resume]\<rparr>"
  have w: "sum_list (map wait_ns ([quick_timer] @ [?e])) = 60099500000" by (simp add: wait_ns_def quick_timer_def)
  have "held held_board" "\<not> host_done (machine held_board)" "quiet [quick_timer]" "lets_go (acts ?e)"
    "step_started_at (machine held_board) = Some 0" "\<not> realtime (opts (machine held_board))"
    "now_ns (machine held_board) \<le> deadline_ns (machine held_board)" "inst (machine held_board) = inst two_contexts"
    "wall_ns (machine held_board) + sum_list (map wait_ns ([quick_timer] @ [?e])) - 0
      > max (int (max_time_ms (opts (machine held_board))) * 3) 60000 * 1000000"
    unfolding w by (simp_all add: held_board_defs held_def quiet_def lets_go_def)
  from long_pause_gives_up [OF this(1-7,9), of scripted_guest no_lan False quick_timer] this(8) show ?thesis by auto
qed

lemmas idle_defs = host_next_bt_def host_next_lan_def host_next_frame_def next_frame_ns_def host_next_uart_def
  next_uart_ns_def next_script_def initial_devices_def initial_console_def alarm_step_def Let_def set_now_def

text \<open>With the next deadline two milliseconds off, and one gone by.\<close>

theorem pausing_starts_the_wall_clock_witness:
  "\<exists>h s' r h'. interactive_idle no_lan (machine held_board) = Some (Inr (True, h)) \<and> now_ns h = 2000000 \<and>
    loop_turn scripted_guest no_lan False \<lparr>late = 0, acts = [Resume]\<rparr> held_board = Some (Inr (True, s')) \<and>
    interactive_idle no_lan ((machine s')\<lparr>wall_ns := 51000000\<rparr>) = Some (Inr (r, h')) \<and> now_ns h' < 2000000"
proof -
  let ?e = "\<lparr>late = 0, acts = [Resume]\<rparr>"
  have b: "held held_board" "\<not> host_done (machine held_board)" "lets_go (acts ?e)" "pace (machine held_board) = None"
    "\<not> alarm_is_clamp (machine held_board)" "now_ns (machine held_board) < 2000000"
    "times_speed (51000000 - (wall_ns (machine held_board) + wait_ns ?e)) (scale held_board) < 2000000 - now_ns (machine held_board)"
    by (simp_all add: held_board_defs held_def lets_go_def wait_ns_def scale_def times_speed_def)
  have n: "next_deadline_ns no_lan (machine held_board) = Inr (Some 2000000)"
    by (simp add: next_deadline_ns_def idle_defs held_board_defs)
  obtain h where h: "interactive_idle no_lan (machine held_board) = Some (Inr (True, h))"
    by (simp add: interactive_idle_def advance_to_next_deadline_def idle_defs held_board_defs)
  obtain s' where s': "loop_turn scripted_guest no_lan False ?e held_board = Some (Inr (True, s'))"
      "interactive_idle no_lan ((machine s')\<lparr>wall_ns := 51000000\<rparr>) \<noteq> None"
      "\<forall>e. interactive_idle no_lan ((machine s')\<lparr>wall_ns := 51000000\<rparr>) \<noteq> Some (Inl e)"
    by (simp add: turn_defs held_turn_def Let_def interactive_idle_def paced_idle_def next_deadline_ns_def idle_defs
        times_speed_def due_frame_def held_board_defs)
  from s'(2,3) obtain r h' where "interactive_idle no_lan ((machine s')\<lparr>wall_ns := 51000000\<rparr>) = Some (Inr (r, h'))"
    by (cases "interactive_idle no_lan ((machine s')\<lparr>wall_ns := 51000000\<rparr>)") (auto, metis sum.exhaust surj_pair)
  with pausing_starts_the_wall_clock [OF b(1-5) n b(6,7) h s'(1) this] h s'(1) show ?thesis by blast
qed

end
