(* ===== verification/Js_Text.thy ===== *)
theory Js_Text
  imports Prelude
begin

text \<open>
  Text, as the services of the LAN (host/lan_services.mjs) use it. A JavaScript string that came from
  UTF-8 is its list of code points, \<open>text\<close>; bytes become text by \<open>TextDecoder.decode\<close> and text bytes
  by \<open>TextEncoder.encode\<close>, both as the Encoding standard defines them. The searches, splits and
  regular expressions the services apply to text are written out.
\<close>

type_synonym "text" = "nat list"

definition lit :: "string \<Rightarrow> text" where
  "lit s = map of_char s"

definition CRLF :: "text" where
  "CRLF = [13, 10]"

section \<open>UTF-8\<close>

definition utf8_char :: "nat \<Rightarrow> nat list" where
  "utf8_char c =
    (if c < 0x80 then [c]
     else if c < 0x800 then [0xc0 + c div 64, 0x80 + c mod 64]
     else if c < 0x10000 then [0xe0 + c div 4096, 0x80 + c div 64 mod 64, 0x80 + c mod 64]
     else [0xf0 + c div 262144, 0x80 + c div 4096 mod 64, 0x80 + c div 64 mod 64, 0x80 + c mod 64])"

definition utf8_encode :: "text \<Rightarrow> nat list" where
  "utf8_encode cs = concat (map utf8_char cs)"

text \<open>What a first byte announces: how many bytes follow, its own bits, and the range of the second.\<close>

definition utf8_lead :: "nat \<Rightarrow> (nat \<times> nat \<times> nat \<times> nat) option" where
  "utf8_lead b =
    (if 0xc2 \<le> b \<and> b \<le> 0xdf then Some (1, b mod 32, 0x80, 0xbf)
     else if 0xe0 \<le> b \<and> b \<le> 0xef then
       Some (2, b mod 16, if b = 0xe0 then 0xa0 else 0x80, if b = 0xed then 0x9f else 0xbf)
     else if 0xf0 \<le> b \<and> b \<le> 0xf4 then
       Some (3, b mod 8, if b = 0xf0 then 0x90 else 0x80, if b = 0xf4 then 0x8f else 0xbf)
     else None)"

abbreviation "REPLACEMENT \<equiv> 0xfffd :: nat"

function utf8_run :: "nat \<Rightarrow> nat \<Rightarrow> nat \<Rightarrow> nat \<Rightarrow> nat list \<Rightarrow> text" where
  "utf8_run needed cp lo hi [] = (if needed = 0 then [] else [REPLACEMENT])"
| "utf8_run 0 cp lo hi (b # bs) =
    (if b < 0x80 then b # utf8_run 0 0 0 0 bs
     else case utf8_lead b of
         None \<Rightarrow> REPLACEMENT # utf8_run 0 0 0 0 bs
       | Some (n, cp, lo, hi) \<Rightarrow> utf8_run n cp lo hi bs)"
| "utf8_run (Suc n) cp lo hi (b # bs) =
    (if b < lo \<or> b > hi then REPLACEMENT # utf8_run 0 0 0 0 (b # bs)
     else if n = 0 then (64 * cp + b mod 64) # utf8_run 0 0 0 0 bs
     else utf8_run n (64 * cp + b mod 64) 0x80 0xbf bs)"
  by pat_completeness auto
termination
  by (relation "inv_image (less_than <*lex*> less_than) (\<lambda>(n, _, _, _, bs). (length bs, n))") auto

text \<open>A decoder that is not told to keep it drops a byte order mark at the front.\<close>

definition utf8_decode :: "nat list \<Rightarrow> text" where
  "utf8_decode bs = utf8_run 0 0 0 0 (if take 3 bs = [0xef, 0xbb, 0xbf] then drop 3 bs else bs)"

definition is_ascii :: "text \<Rightarrow> bool" where
  "is_ascii cs \<longleftrightarrow> list_all (\<lambda>c. c < 0x80) cs"

lemma is_ascii_simps [simp]:
  "is_ascii []" "is_ascii (c # cs) \<longleftrightarrow> c < 0x80 \<and> is_ascii cs"
  "is_ascii (cs @ ds) \<longleftrightarrow> is_ascii cs \<and> is_ascii ds"
  by (auto simp: is_ascii_def)

lemma utf8_encode_simps [simp]:
  "utf8_encode [] = []" "utf8_encode (c # cs) = utf8_char c @ utf8_encode cs"
  "utf8_encode (cs @ ds) = utf8_encode cs @ utf8_encode ds"
  by (simp_all add: utf8_encode_def)

lemma utf8_encode_ascii: "is_ascii cs \<Longrightarrow> utf8_encode cs = cs"
  by (induction cs) (auto simp: utf8_char_def)

lemma utf8_decode_ascii:
  assumes "is_ascii cs"
  shows "utf8_decode cs = cs"
proof -
  have "utf8_run 0 0 0 0 cs = cs" using assms by (induction cs) auto
  moreover have "take 3 cs \<noteq> [0xef, 0xbb, 0xbf]" using assms by (cases cs) auto
  ultimately show ?thesis by (simp add: utf8_decode_def)
qed

text \<open>A code point that text can hold: not a surrogate.\<close>

definition is_scalar :: "nat \<Rightarrow> bool" where
  "is_scalar c \<longleftrightarrow> c < 0x110000 \<and> \<not> (0xd800 \<le> c \<and> c \<le> 0xdfff)"

lemma tail_mod: "x < 64 \<Longrightarrow> (0x80 + x) mod 64 = x" for x :: nat
  by (simp add: mod_add_left_eq [of 128 64, symmetric])

lemma utf8_run_char_2:
  assumes "0x80 \<le> c" "c < 0x800"
  shows "utf8_run 0 0 0 0 (utf8_char c @ bs) = c # utf8_run 0 0 0 0 bs"
proof -
  define a where "a = c div 64"
  define d where "d = c mod 64"
  have a: "2 \<le> a" "a < 32" and d: "d < 64" and c: "64 * a + d = c"
    using assms by (auto simp: a_def d_def less_mult_imp_div_less)
  have "utf8_lead (0xc0 + a) = Some (1, a, 0x80, 0xbf)"
    using a mod_less [OF a(2)] by (simp add: utf8_lead_def mod_add_left_eq [of 192 32, symmetric])
  moreover have "utf8_char c = [0xc0 + a, 0x80 + d]" using assms by (simp add: utf8_char_def a_def d_def)
  ultimately show ?thesis using d c tail_mod [OF d] by simp
qed

lemma utf8_run_char_3:
  assumes "0x800 \<le> c" "c < 0x10000" "\<not> (0xd800 \<le> c \<and> c \<le> 0xdfff)"
  shows "utf8_run 0 0 0 0 (utf8_char c @ bs) = c # utf8_run 0 0 0 0 bs"
proof -
  define a where "a = c div 4096"
  define b where "b = c div 64 mod 64"
  define d where "d = c mod 64"
  have q: "64 * a + b = c div 64" using div_mult2_eq [of c 64 64] by (simp add: a_def b_def)
  then have c: "64 * (64 * a + b) + d = c" by (simp add: d_def)
  have a: "a < 16" and b: "b < 64" and d: "d < 64"
    using assms by (auto simp: a_def b_def d_def less_mult_imp_div_less)
  have lo: "32 \<le> b" if "a = 0" using that c d assms(1) by simp
  have hi: "b < 32" if "a = 13" using that c d b assms(3) by simp
  have "utf8_lead (0xe0 + a) = Some (2, a, if a = 0 then 0xa0 else 0x80, if a = 13 then 0x9f else 0xbf)"
    using a by (simp add: utf8_lead_def mod_add_left_eq [of 224 16, symmetric])
  moreover have "utf8_char c = [0xe0 + a, 0x80 + b, 0x80 + d]"
    using assms by (simp add: utf8_char_def a_def b_def d_def)
  moreover have "\<not> (0x80 + b < (if a = 0 then 0xa0 else 0x80) \<or> 0x80 + b > (if a = 13 then 0x9f else 0xbf))"
    using lo hi b by auto
  ultimately show ?thesis
    using b d c tail_mod [OF b] tail_mod [OF d] by (simp add: numeral_2_eq_2 del: One_nat_def)
qed

lemma utf8_run_char_4:
  assumes "0x10000 \<le> c" "c < 0x110000"
  shows "utf8_run 0 0 0 0 (utf8_char c @ bs) = c # utf8_run 0 0 0 0 bs"
proof -
  define a where "a = c div 262144"
  define b where "b = c div 4096 mod 64"
  define e where "e = c div 64 mod 64"
  define d where "d = c mod 64"
  have q: "64 * a + b = c div 4096" using div_mult2_eq [of c 4096 64] by (simp add: a_def b_def)
  have r: "64 * (c div 4096) + e = c div 64" using div_mult2_eq [of c 64 64] by (simp add: e_def)
  have c: "64 * (64 * (64 * a + b) + e) + d = c" by (simp add: q r d_def)
  have a: "a < 5" and b: "b < 64" and e: "e < 64" and d: "d < 64"
    using assms by (auto simp: a_def b_def d_def e_def less_mult_imp_div_less)
  have lo: "16 \<le> b" if "a = 0" using that c d e assms(1) by simp
  have hi: "b < 16" if "a = 4" using that c d e assms(2) by simp
  have "utf8_lead (0xf0 + a) = Some (3, a, if a = 0 then 0x90 else 0x80, if a = 4 then 0x8f else 0xbf)"
    using a by (simp add: utf8_lead_def mod_add_left_eq [of 240 8, symmetric])
  moreover have "utf8_char c = [0xf0 + a, 0x80 + b, 0x80 + e, 0x80 + d]"
    using assms by (simp add: utf8_char_def a_def b_def d_def e_def)
  moreover have "\<not> (0x80 + b < (if a = 0 then 0x90 else 0x80) \<or> 0x80 + b > (if a = 4 then 0x8f else 0xbf))"
    using lo hi b by auto
  ultimately show ?thesis
    using b d e c tail_mod [OF b] tail_mod [OF d] tail_mod [OF e]
    by (simp add: numeral_3_eq_3 del: One_nat_def)
qed

lemma utf8_run_char:
  assumes "is_scalar c"
  shows "utf8_run 0 0 0 0 (utf8_char c @ bs) = c # utf8_run 0 0 0 0 bs"
proof -
  consider "c < 0x80" | "0x80 \<le> c" "c < 0x800" | "0x800 \<le> c" "c < 0x10000" | "0x10000 \<le> c" by linarith
  then show ?thesis
  proof cases
    case 1
    then show ?thesis by (simp add: utf8_char_def)
  qed (use assms in \<open>simp_all add: is_scalar_def utf8_run_char_2 utf8_run_char_3 utf8_run_char_4\<close>)
qed

lemma utf8_run_encode: "list_all is_scalar cs \<Longrightarrow> utf8_run 0 0 0 0 (utf8_encode cs) = cs"
  by (induction cs) (simp_all add: utf8_run_char)

text \<open>So text survives the wire, unless it begins with a byte order mark.\<close>

lemma utf8_decode_encode:
  assumes "list_all is_scalar cs" and "cs \<noteq> [] \<Longrightarrow> hd cs \<noteq> 0xfeff"
  shows "utf8_decode (utf8_encode cs) = cs"
proof -
  have "take 3 (utf8_encode cs) \<noteq> [0xef, 0xbb, 0xbf]"
  proof
    assume "take 3 (utf8_encode cs) = [0xef, 0xbb, 0xbf]"
    then have "utf8_encode cs = 0xef # 0xbb # 0xbf # drop 3 (utf8_encode cs)"
      using append_take_drop_id [of 3 "utf8_encode cs"] by simp
    then obtain r where "utf8_encode cs = 0xef # 0xbb # 0xbf # r" ..
    then have "utf8_run 0 0 0 0 (utf8_encode cs) = 0xfeff # utf8_run 0 0 0 0 r"
      by (simp add: utf8_lead_def numeral_2_eq_2 del: One_nat_def)
    with assms show False by (simp add: utf8_run_encode)
  qed
  then show ?thesis using assms(1) by (simp add: utf8_decode_def utf8_run_encode)
qed

section \<open>Searching and splitting\<close>

text \<open>\<open>s.indexOf(pat)\<close>, \<open>None\<close> for -1.\<close>

fun index_of :: "'a list \<Rightarrow> 'a list \<Rightarrow> nat option" where
  "index_of pat [] = (if pat = [] then Some 0 else None)"
| "index_of pat (x # xs) =
    (if take (length pat) (x # xs) = pat then Some 0 else map_option Suc (index_of pat xs))"

text \<open>\<open>s.split(c)\<close> for a single character, and \<open>parts.join(c)\<close>.\<close>

fun split_char :: "nat \<Rightarrow> text \<Rightarrow> text list" where
  "split_char c [] = [[]]"
| "split_char c (x # xs) =
    (if x = c then [] # split_char c xs
     else (x # hd (split_char c xs)) # tl (split_char c xs))"

fun join_text :: "text \<Rightarrow> text list \<Rightarrow> text" where
  "join_text sep [] = []"
| "join_text sep [p] = p"
| "join_text sep (p # q # ps) = p @ sep @ join_text sep (q # ps)"

definition starts_with :: "text \<Rightarrow> text \<Rightarrow> bool" where
  "starts_with pre s \<longleftrightarrow> take (length pre) s = pre"

text \<open>\<open>String(n)\<close>, and upper and lower case. Only ASCII letters have case here: what the services
  compare is ASCII.\<close>

fun nat_text :: "nat \<Rightarrow> text" where
  "nat_text n = (if n < 10 then [48 + n] else nat_text (n div 10) @ [48 + n mod 10])"

declare nat_text.simps [simp del]

definition upper :: "text \<Rightarrow> text" where
  "upper s = map (\<lambda>c. if 97 \<le> c \<and> c \<le> 122 then c - 32 else c) s"

definition lower :: "text \<Rightarrow> text" where
  "lower s = map (\<lambda>c. if 65 \<le> c \<and> c \<le> 90 then c + 32 else c) s"

definition dotted :: "nat list \<Rightarrow> text" where
  "dotted ip = join_text (lit ''.'') (map nat_text ip)"

text \<open>\<open>\s\<close>, a line's end, and \<^verbatim>\<open>/^name\s*(\S+)/im\<close> for a name in lower case.\<close>

definition is_space :: "nat \<Rightarrow> bool" where
  "is_space c \<longleftrightarrow> c \<in> {9, 10, 11, 12, 13, 32, 0xa0, 0x1680, 0x2028, 0x2029, 0x202f, 0x205f, 0x3000, 0xfeff} \<or>
    (0x2000 \<le> c \<and> c \<le> 0x200a)"

definition is_line_end :: "nat \<Rightarrow> bool" where
  "is_line_end c \<longleftrightarrow> c \<in> {10, 13, 0x2028, 0x2029}"

fun header_value :: "text \<Rightarrow> bool \<Rightarrow> text \<Rightarrow> text option" where
  "header_value name at_start [] = None"
| "header_value name at_start (c # cs) =
    (let rest = dropWhile is_space (drop (length name) (c # cs))
     in if at_start \<and> lower (take (length name) (c # cs)) = name \<and> rest \<noteq> []
        then Some (takeWhile (\<lambda>x. \<not> is_space x) rest)
        else header_value name (is_line_end c) cs)"

lemma split_char_not_Nil [simp]: "split_char c s \<noteq> []"
  by (induction s) auto

lemma join_split_char: "join_text [c] (split_char c s) = s"
proof (induction s)
  case (Cons x xs)
  then show ?case by (cases "split_char c xs" rule: list.exhaust; cases "tl (split_char c xs)") auto
qed simp

lemma split_char_no_sep: "p \<in> set (split_char c s) \<Longrightarrow> c \<notin> set p"
proof (induction s arbitrary: p)
  case (Cons x xs)
  have "hd (split_char c xs) \<in> set (split_char c xs)" by simp
  with Cons show ?case by (auto split: if_splits dest: list.set_sel(2) [rotated])
qed simp

lemma split_char_id: "c \<notin> set s \<Longrightarrow> split_char c s = [s]"
  by (induction s) auto

lemma split_char_append: "c \<notin> set s \<Longrightarrow> split_char c (s @ c # t) = s # split_char c t"
  by (induction s) auto

lemma split_join_char:
  "ps \<noteq> [] \<Longrightarrow> list_all (\<lambda>p. c \<notin> set p) ps \<Longrightarrow> split_char c (join_text [c] ps) = ps"
proof (induction ps rule: induct_list012)
  case (3 p q ps)
  then show ?case by (simp add: split_char_append)
qed (simp_all add: split_char_id)

lemma index_of_Some:
  "index_of pat s = Some i \<Longrightarrow> s = take i s @ pat @ drop (i + length pat) s"
proof (induction s arbitrary: i)
  case (Cons x xs)
  show ?case
  proof (cases "take (length pat) (x # xs) = pat")
    case True
    with Cons.prems show ?thesis using append_take_drop_id [of "length pat" "x # xs"] by auto
  next
    case False
    then obtain j where "i = Suc j" "index_of pat xs = Some j" using Cons.prems by auto
    with Cons.IH show ?thesis by simp
  qed
qed (simp split: if_splits)

section \<open>Objects used as tables\<close>

text \<open>
  \<open>table[name]\<close> on an object literal: its own property, one it inherits from \<open>Object.prototype\<close>, or
  \<open>undefined\<close>.
\<close>

datatype 'a js_prop = Own 'a | Inherited | Absent

definition object_prototype :: "text list" where
  "object_prototype = map lit [''constructor'', ''hasOwnProperty'', ''isPrototypeOf'',
    ''propertyIsEnumerable'', ''toLocaleString'', ''toString'', ''valueOf'', ''__proto__'',
    ''__defineGetter__'', ''__defineSetter__'', ''__lookupGetter__'', ''__lookupSetter__'']"

definition js_get :: "(text \<times> 'a) list \<Rightarrow> text \<Rightarrow> 'a js_prop" where
  "js_get table name = (case map_of table name of
      Some v \<Rightarrow> Own v
    | None \<Rightarrow> if name \<in> set object_prototype then Inherited else Absent)"

end
