(* ===== verification/Core_Inspect.thy ===== *)
theory Core_Inspect
  imports Core_Run Js_Text
begin

text \<open>
  The thread table: what the guest says of its threads (arch/wasm/core/inspect.c), what the host makes
  of it (host/core.mjs, \<open>snapshotThreads\<close>, and \<open>report\<close>'s throttle), and how it reads to a person
  (host/threads.mjs, and \<open>threadTable\<close> in host/run.mjs).
\<close>

section \<open>The guest's side\<close>

text \<open>
  A thread as inspect.c reads it: the address of its \<open>k_thread\<close>, and the fields that it looks at.
  \<open>kt_timeout\<close> is what is left of its timeout in ms, if it has one.
\<close>

record kthread =
  kt_addr :: nat
  kt_state :: "32 word"
  kt_name :: nat
  kt_prio :: int
  kt_stack_start :: nat
  kt_stack_size :: nat
  kt_sp :: nat
  kt_buf :: nat
  kt_pended_on :: nat
  kt_timeout :: "nat option"

text \<open>The kernel: its list of threads, the current one, and what is where a wait queue's \<open>k_mutex\<close>
  would be, the owner and the lock count.\<close>

record kernel =
  kernel_threads :: "kthread list"
  kernel_current :: nat
  mutex_at :: "nat \<Rightarrow> nat \<times> nat"

definition is_thread :: "kernel \<Rightarrow> nat \<Rightarrow> bool" where
  "is_thread K a \<longleftrightarrow> a \<in> set (map kt_addr (kernel_threads K))"

definition THREAD_PENDING :: "32 word" where "THREAD_PENDING = 2"

definition mutex_owner :: "kernel \<Rightarrow> kthread \<Rightarrow> nat" where
  "mutex_owner K t =
    (let (owner, locks) = mutex_at K (kt_pended_on t)
     in if kt_pended_on t = 0 \<or> kt_state t AND THREAD_PENDING = 0 then 0
        else if owner = 0 \<or> owner = kt_addr t \<or> locks = 0 \<or> \<not> is_thread K owner then 0
        else owner)"

definition timeout_ms :: "kthread \<Rightarrow> int" where
  "timeout_ms t = (case kt_timeout t of None \<Rightarrow> - 1 | Some ms \<Rightarrow> int ms)"

definition thread_info :: "kernel \<Rightarrow> kthread \<Rightarrow> 32 word list" where
  "thread_info K t =
    [word_of_nat (kt_addr t), kt_state t, if kt_addr t = kernel_current K then 1 else 0, word_of_nat (kt_name t),
     word_of_int (kt_prio t), word_of_nat (kt_stack_start t), word_of_nat (kt_stack_size t), word_of_nat (kt_sp t),
     word_of_nat (kt_buf t), word_of_nat (kt_pended_on t), word_of_nat (mutex_owner K t), word_of_int (timeout_ms t)]"

text \<open>\<open>z_wasm_inspect_threads(out, max)\<close>, on the guest's memory.\<close>

definition inspect_threads :: "kernel \<Rightarrow> nat \<Rightarrow> nat \<Rightarrow> nat list \<Rightarrow> nat \<times> nat list" where
  "inspect_threads K out most m =
    (let infos = map (thread_info K) (take most (kernel_threads K))
     in (length infos, mem_put out (concat (map word_bytes (concat infos))) m))"

section \<open>The host's side\<close>

definition THREAD_INFO_WORDS :: nat where "THREAD_INFO_WORDS = 12"
definition THREAD_INFO_MAX :: nat where "THREAD_INFO_MAX = 24"

definition THREAD_STATE_BITS :: "string list" where
  "THREAD_STATE_BITS = [''dummy'', ''pending'', ''sleeping'', ''dead'',
     ''suspended'', ''aborting'', ''suspending'', ''queued'']"

record thread_row =
  row_thread :: nat
  row_state :: "32 word"
  row_states :: "text list"
  row_current :: bool
  row_name :: "text"
  row_prio :: int
  row_stack_base :: nat
  row_stack_size :: nat
  row_sp :: nat
  row_buf :: nat
  row_pended_on :: nat
  row_held_by :: nat
  row_timeout_ms :: int

text \<open>The instance's two exports; inspecting may trap.\<close>

record 'g inspector =
  inspect_stack_top :: nat
  inspect_on :: "nat \<Rightarrow> nat \<Rightarrow> nat list \<Rightarrow> 'g \<Rightarrow> nat option \<times> nat list \<times> 'g"

definition info_addr :: "nat \<Rightarrow> int" where
  "info_addr stack = sint ((word_of_int (int stack - int (THREAD_INFO_MAX * THREAD_INFO_WORDS * 4)) :: 32 word) AND NOT 15)"

definition states_of :: "32 word \<Rightarrow> text list" where
  "states_of st = map (\<lambda>(_, s). lit s) (filter (\<lambda>(b, _). st AND push_bit b 1 \<noteq> 0) (enumerate 0 THREAD_STATE_BITS))"

text \<open>At most 64 bytes, to the first NUL.\<close>

definition name_at :: "nat list \<Rightarrow> nat \<Rightarrow> text" where
  "name_at m p = (if p = 0 then [] else utf8_decode (takeWhile (\<lambda>b. b \<noteq> 0) (take 64 (drop p m))))"

definition row_at :: "nat list \<Rightarrow> nat \<Rightarrow> nat \<Rightarrow> thread_row" where
  "row_at m base i =
    (let word = (\<lambda>k. mem_word m (base + 4 * (i * THREAD_INFO_WORDS + k)))
     in \<lparr>row_thread = unat (word 0), row_state = word 1, row_states = states_of (word 1),
         row_current = (word 2 = 1), row_name = name_at m (unat (word 3)), row_prio = sint (word 4),
         row_stack_base = unat (word 5), row_stack_size = unat (word 6), row_sp = unat (word 7),
         row_buf = unat (word 8), row_pended_on = unat (word 9), row_held_by = unat (word 10),
         row_timeout_ms = sint (word 11)\<rparr>)"

definition snapshot_threads ::
  "'g guest \<Rightarrow> 'g inspector option \<Rightarrow> ('g, 'l) host \<Rightarrow> (thrown \<times> ('g, 'l) host) + thread_row list option \<times> ('g, 'l) host" where
  "snapshot_threads G ins h =
    (case ins of
      None \<Rightarrow> Inr (None, h)
    | Some ins \<Rightarrow>
      (let at = info_addr (inspect_stack_top ins); base = nat (at mod 2 ^ 32); saved = stack_pointer G (inst h);
           (count, m, g) = inspect_on ins base THREAD_INFO_MAX (mem h) (set_stack_pointer G base (inst h));
           h = h\<lparr>mem := m, inst := set_stack_pointer G saved g\<rparr>
       in case count of
            None \<Rightarrow> Inl (Trapped, h)
          | Some n \<Rightarrow>
            if at < 0 then Inl (Stopped (Failed RangeError), h)
            else in_memory 4 base (4 * (n * THREAD_INFO_WORDS)) h
              (Inr (Some (map (row_at m base) [0..<n]), h))))"

section \<open>In words\<close>

text \<open>\<open>n.toString(16)\<close>\<close>

fun nat_hex :: "nat \<Rightarrow> text" where
  "nat_hex n = (let d = n mod 16; c = (if d < 10 then 48 + d else 87 + d) in if n < 16 then [c] else nat_hex (n div 16) @ [c])"

declare nat_hex.simps [simp del]

definition hex :: "nat \<Rightarrow> text" where
  "hex n = lit ''0x'' @ nat_hex n"

definition thread_name :: "thread_row \<Rightarrow> text" where
  "thread_name r = (if row_name r = [] then lit ''thread '' @ hex (row_thread r) else row_name r)"

definition thread_state :: "thread_row \<Rightarrow> text" where
  "thread_state r =
    (let states = filter (\<lambda>s. s \<noteq> lit ''queued'') (row_states r)
     in if states \<noteq> [] then join_text (lit '', '') states
        else if row_current r then lit ''running'' else lit ''ready'')"

definition describe_wait :: "thread_row \<Rightarrow> thread_row list \<Rightarrow> text" where
  "describe_wait r rows =
    (let ms = row_timeout_ms r
     in if row_pended_on r \<noteq> 0
        then (let what = (if row_held_by r = 0 then lit ''kernel object '' @ hex (row_pended_on r)
                else (let who = (case find (\<lambda>x. row_thread x = row_held_by r) rows of
                          Some holder \<Rightarrow> thread_name holder
                        | None \<Rightarrow> lit ''thread '' @ hex (row_held_by r))
                  in lit ''mutex '' @ hex (row_pended_on r) @ lit '' held by '' @ who))
          in if ms \<ge> 0 then what @ lit '', gives up in '' @ nat_text (nat ms) @ lit '' ms'' else what)
        else if ms \<ge> 0 then lit ''wakes in '' @ nat_text (nat ms) @ lit '' ms'' else [])"

section \<open>How often it is shown\<close>

text \<open>\<open>Date.now()\<close> is in ms.\<close>

record reporting =
  last_report_at :: "int option"
  report_owed :: bool

definition may_report :: "bool \<Rightarrow> bool \<Rightarrow> int \<Rightarrow> reporting \<Rightarrow> bool \<times> reporting" where
  "may_report force paused now r =
    (if \<not> force \<and> \<not> paused \<and> (case last_report_at r of None \<Rightarrow> False | Some t \<Rightarrow> now - t < 100)
     then (False, r\<lparr>report_owed := True\<rparr>)
     else (True, \<lparr>last_report_at = Some now, report_owed = False\<rparr>))"

end
