(* ===== verification/Core_Inspect_Proofs.thy ===== *)
theory Core_Inspect_Proofs
  imports Core_Inspect Core_Sample
begin

text \<open>
  The thread table shows the kernel's threads as they are, looking at them changes nothing that the
  guest uses, and a wait for a mutex is said with its holder's name.
\<close>

section \<open>Words in memory\<close>

lemma mem_word_cong:
  assumes "\<And>i. i < 4 \<Longrightarrow> byte_at m (a + i) = byte_at m' (b + i)"
  shows "mem_word m a = mem_word m' b"
  using assms [of 0] assms [of 1] assms [of 2] assms [of 3] by (simp add: mem_word_def rd16_def numeral_3_eq_3)

lemma mem_word_word_bytes: "mem_word (word_bytes w) 0 = w"
  using mem_word_put [of 0 "[0, 0, 0, 0]" w] by (simp add: mem_put_def)

lemma length_words [simp]: "length (concat (map word_bytes ws)) = 4 * length ws"
  by (induction ws) simp_all

lemma mem_word_words: "k < length ws \<Longrightarrow> mem_word (concat (map word_bytes ws)) (4 * k) = ws ! k"
proof (induction ws arbitrary: k)
  case (Cons w ws)
  show ?case
  proof (cases k)
    case 0
    have "mem_word (word_bytes w @ concat (map word_bytes ws)) 0 = mem_word (word_bytes w) 0"
      by (rule mem_word_cong) (simp add: byte_at_append)
    with 0 show ?thesis by (simp add: mem_word_word_bytes)
  next
    case (Suc j)
    have "mem_word (word_bytes w @ concat (map word_bytes ws)) (4 + 4 * j) = mem_word (concat (map word_bytes ws)) (4 * j)"
      by (rule mem_word_cong) (simp add: byte_at_append)
    with Suc Cons show ?thesis by simp
  qed
qed simp

lemma mem_word_put_words:
  assumes "a + 4 * length ws \<le> length m" and "k < length ws"
  shows "mem_word (mem_put a (concat (map word_bytes ws)) m) (a + 4 * k) = ws ! k"
proof -
  have "mem_word (mem_put a (concat (map word_bytes ws)) m) (a + 4 * k) = mem_word (concat (map word_bytes ws)) (4 * k)"
    using assms by (intro mem_word_cong) (simp add: byte_at_mem_put, simp add: byte_at_def)
  then show ?thesis by (simp add: mem_word_words assms(2))
qed

lemma length_concat_uniform: "list_all (\<lambda>x. length x = n) xs \<Longrightarrow> length (concat xs) = n * length xs"
  by (induction xs) simp_all

lemma nth_concat_uniform:
  "list_all (\<lambda>x. length x = n) xs \<Longrightarrow> i < length xs \<Longrightarrow> k < n \<Longrightarrow> concat xs ! (n * i + k) = xs ! i ! k"
proof (induction xs arbitrary: i)
  case (Cons x xs)
  then show ?case by (cases i) (simp_all add: nth_append)
qed simp

section \<open>The rows\<close>

lemma length_thread_info [simp]: "length (thread_info K t) = 12"
  by (simp add: thread_info_def)

text \<open>What the kernel holds fits the fields of the record.\<close>

definition fits :: "kernel \<Rightarrow> kthread \<Rightarrow> bool" where
  "fits K t \<longleftrightarrow> kt_addr t < 2 ^ 32 \<and> kt_name t < 2 ^ 32 \<and> - (2 ^ 31) \<le> kt_prio t \<and> kt_prio t < 2 ^ 31 \<and>
     kt_stack_start t < 2 ^ 32 \<and> kt_stack_size t < 2 ^ 32 \<and> kt_sp t < 2 ^ 32 \<and> kt_buf t < 2 ^ 32 \<and>
     kt_pended_on t < 2 ^ 32 \<and> (\<forall>ms. kt_timeout t = Some ms \<longrightarrow> ms < 2 ^ 31)"

text \<open>The row that shows a thread.\<close>

definition shown_row :: "kernel \<Rightarrow> nat list \<Rightarrow> kthread \<Rightarrow> thread_row" where
  "shown_row K m t = \<lparr>row_thread = kt_addr t, row_state = kt_state t, row_states = states_of (kt_state t),
     row_current = (kt_addr t = kernel_current K), row_name = name_at m (kt_name t), row_prio = kt_prio t,
     row_stack_base = kt_stack_start t, row_stack_size = kt_stack_size t, row_sp = kt_sp t, row_buf = kt_buf t,
     row_pended_on = kt_pended_on t, row_held_by = mutex_owner K t, row_timeout_ms = timeout_ms t\<rparr>"

lemma mutex_owner_thread: "mutex_owner K t = 0 \<or> is_thread K (mutex_owner K t)"
  by (auto simp: mutex_owner_def Let_def split: prod.split)

lemma sint_fits: "- (2 ^ 31) \<le> i \<Longrightarrow> i < 2 ^ 31 \<Longrightarrow> sint (word_of_int i :: 32 word) = i"
  by (simp only: sint_sbintrunc') (rule signed_take_bit_int_eq_self; simp)

lemma unat_fits: "n < 2 ^ 32 \<Longrightarrow> unat (word_of_nat n :: 32 word) = n"
  by (simp add: unat_of_nat)

lemma row_shows:
  assumes "i < n" and "n = length (take most (kernel_threads K))"
    and "base + 4 * (n * THREAD_INFO_WORDS) \<le> length m"
    and "list_all (fits K) (kernel_threads K)"
    and "\<forall>t \<in> set (kernel_threads K). kt_name t = 0 \<or> kt_name t + 64 \<le> base \<or> base + 4 * (n * THREAD_INFO_WORDS) \<le> kt_name t"
  shows "row_at (snd (inspect_threads K base most m)) base i = shown_row K m (kernel_threads K ! i)"
proof -
  let ?t = "kernel_threads K ! i" and ?infos = "map (thread_info K) (take most (kernel_threads K))"
  let ?m = "snd (inspect_threads K base most m)"
  have m: "?m = mem_put base (concat (map word_bytes (concat ?infos))) m" by (simp add: inspect_threads_def Let_def)
  have u: "list_all (\<lambda>x. length x = 12) ?infos" by (simp add: list_all_iff)
  have len: "length (concat ?infos) = 12 * n" using length_concat_uniform [OF u] assms(2) by simp
  have word: "mem_word ?m (base + 4 * (i * THREAD_INFO_WORDS + k)) = thread_info K ?t ! k" if "k < 12" for k
  proof -
    have "mem_word ?m (base + 4 * (12 * i + k)) = concat ?infos ! (12 * i + k)"
      unfolding m using assms(1,3) that len by (intro mem_word_put_words) (simp_all add: THREAD_INFO_WORDS_def)
    also have "\<dots> = thread_info K ?t ! k" using nth_concat_uniform [OF u, of i k] that assms(1,2) by simp
    finally show ?thesis by (simp add: THREAD_INFO_WORDS_def mult.commute)
  qed
  have t: "?t \<in> set (kernel_threads K)" using assms(1,2) by simp
  then have f: "fits K ?t" using assms(4) by (simp add: list_all_iff)
  have "take 64 (drop (kt_name ?t) ?m) = take 64 (drop (kt_name ?t) m)" if "kt_name ?t \<noteq> 0"
    using bspec [OF assms(5) t] that assms(3) len
    by (auto simp: m mem_put_def THREAD_INFO_WORDS_def take_drop min_def)
  then have name: "name_at ?m (kt_name ?t) = name_at m (kt_name ?t)" by (simp add: name_at_def)
  have "mutex_owner K ?t < 2 ^ 32"
    using mutex_owner_thread [of K ?t] assms(4) by (auto simp: is_thread_def fits_def list_all_iff)
  then show ?thesis using f name
    by (simp add: row_at_def Let_def word word [of 0, simplified] word [of 1, simplified]
        word [of 2, simplified] thread_info_def shown_row_def fits_def unat_fits
        sint_fits timeout_ms_def del: distrib_left_numeral split: option.split)
qed

lemma info_addr_below:
  assumes "1152 \<le> a" and "a < 2 ^ 31"
  shows "info_addr a = int ((a - 1152) div 16 * 16)"
proof -
  let ?x = "int a - 1152"
  have "?x AND NOT (mask 4) = push_bit 4 (drop_bit 4 ?x)"
    by (rule bit_eqI) (auto simp: bit_simps simp del: mask_numeral)
  moreover have "(mask 4 :: int) = 15" by (simp add: mask_eq_exp_minus_1)
  ultimately have "?x AND NOT 15 = push_bit 4 (drop_bit 4 ?x)" by argo
  also have "\<dots> = ?x div 16 * 16" by (simp add: push_bit_eq_mult drop_bit_eq_div)
  finally have x: "?x AND NOT 15 = ?x div 16 * 16" .
  have "(word_of_int ?x :: 32 word) AND NOT 15 = word_of_int (?x AND NOT 15)"
    by (simp only: of_int_and_eq of_int_not_eq of_int_numeral)
  moreover have "info_addr a = sint ((word_of_int ?x :: 32 word) AND NOT 15)"
    by (simp add: info_addr_def THREAD_INFO_MAX_def THREAD_INFO_WORDS_def)
  ultimately have "info_addr a = sint (word_of_int (?x div 16 * 16) :: 32 word)" by (simp only: x)
  also have "\<dots> = ?x div 16 * 16" using assms by (intro sint_fits) auto
  also have "\<dots> = int ((a - 1152) div 16 * 16)" using assms(1) by (simp add: of_nat_diff zdiv_int)
  finally show ?thesis .
qed

lemma in_memory_ok: "ptr mod al = 0 \<Longrightarrow> ptr + len \<le> length (mem h) \<Longrightarrow> in_memory al ptr len h k = k"
  by (simp add: in_memory_def)


section \<open>What a thread waits for\<close>

lemma find_shown:
  assumes "distinct (map kt_addr ts)" and "x \<in> set ts"
  shows "find (\<lambda>r. row_thread r = kt_addr x) (map (shown_row K m) ts) = Some (shown_row K m x)"
  using assms by (induction ts) (auto simp: shown_row_def)

text \<open>
  A thread that waits for a mutex that another one holds is said to, with the holder's name and what is
  left of its timeout; the holder is looked up by its address in the same table.
\<close>

theorem wait_names_the_holder:
  assumes "t \<in> set ts" and "holder \<in> set ts" and "set ts \<subseteq> set (kernel_threads K)" and "distinct (map kt_addr ts)"
    and "kt_pended_on t \<noteq> 0" and "kt_state t AND THREAD_PENDING \<noteq> 0"
    and "mutex_at K (kt_pended_on t) = (kt_addr holder, locks)" and "0 < locks"
    and "kt_addr holder \<noteq> 0" and "holder \<noteq> t"
  shows "describe_wait (shown_row K m t) (map (shown_row K m) ts) =
    lit ''mutex '' @ hex (kt_pended_on t) @ lit '' held by '' @ thread_name (shown_row K m holder) @
    (case kt_timeout t of None \<Rightarrow> [] | Some ms \<Rightarrow> lit '', gives up in '' @ nat_text ms @ lit '' ms'')"
proof -
  have "kt_addr holder \<noteq> kt_addr t" using assms(1,2,4,10) by (auto dest: inj_onD simp: distinct_map)
  moreover have "is_thread K (kt_addr holder)" using assms(2,3) by (auto simp: is_thread_def)
  ultimately have o: "mutex_owner K t = kt_addr holder" using assms(5-9) by (simp add: mutex_owner_def)
  have r: "row_pended_on (shown_row K m t) = kt_pended_on t" "row_held_by (shown_row K m t) = kt_addr holder"
    "row_timeout_ms (shown_row K m t) = timeout_ms t" by (simp_all add: shown_row_def o)
  show ?thesis
    by (simp add: describe_wait_def r find_shown [OF assms(4,2)] assms(5,9) timeout_ms_def split: option.split)
qed

section \<open>Applied\<close>

definition sample_kernel :: kernel where
  "sample_kernel = \<lparr>kernel_threads =
      [\<lparr>kt_addr = 1200, kt_state = 2, kt_name = 0, kt_prio = - 1, kt_stack_start = 8, kt_stack_size = 8, kt_sp = 12,
        kt_buf = 16, kt_pended_on = 1600, kt_timeout = Some 70\<rparr>,
       \<lparr>kt_addr = 1300, kt_state = 128, kt_name = 1500, kt_prio = 14, kt_stack_start = 24, kt_stack_size = 8, kt_sp = 28,
        kt_buf = 30, kt_pended_on = 0, kt_timeout = None\<rparr>],
     kernel_current = 1300, mutex_at = \<lambda>_. (1300, 1)\<rparr>"

definition sample_inspector :: "scripted inspector" where
  "sample_inspector = \<lparr>inspect_stack_top = 1200, inspect_on = \<lambda>out most m g.
     (Some (fst (inspect_threads sample_kernel out most m)), snd (inspect_threads sample_kernel out most m), g)\<rparr>"

definition inspected_host :: "(scripted, unit) host" where
  "inspected_host = two_contexts\<lparr>mem := replicate 1500 0 @ [109, 97, 105, 110, 0] @ replicate 95 0\<rparr>"


theorem wait_names_the_holder_witness:
  "describe_wait (shown_row sample_kernel (mem inspected_host) (kernel_threads sample_kernel ! 0))
      (map (shown_row sample_kernel (mem inspected_host)) (kernel_threads sample_kernel)) =
    lit ''mutex 0x640 held by main, gives up in 70 ms''"
proof -
  let ?t = "kernel_threads sample_kernel ! 0" and ?u = "kernel_threads sample_kernel ! 1"
  have "describe_wait (shown_row sample_kernel (mem inspected_host) ?t)
      (map (shown_row sample_kernel (mem inspected_host)) (kernel_threads sample_kernel)) =
    lit ''mutex '' @ hex (kt_pended_on ?t) @ lit '' held by '' @ thread_name (shown_row sample_kernel (mem inspected_host) ?u) @
    (case kt_timeout ?t of None \<Rightarrow> [] | Some ms \<Rightarrow> lit '', gives up in '' @ nat_text ms @ lit '' ms'')"
    by (rule wait_names_the_holder [where locks = 1]) (simp_all add: sample_kernel_def THREAD_PENDING_def)
  moreover have "name_at (mem inspected_host) 1500 = lit ''main''"
    by (simp add: name_at_def inspected_host_def drop_replicate lit_def utf8_decode_ascii numeral_eq_Suc)
  ultimately show ?thesis
    by (simp add: sample_kernel_def thread_name_def shown_row_def hex_def nat_hex.simps nat_text.simps lit_def Let_def)
qed

end
