(* ===== verification/Pair_Run.thy ===== *)
theory Pair_Run
  imports Core_Time
begin

text \<open>
  Two boards on one clock (host/pair.mjs, class \<open>Pair\<close>): the wire and the air between them, which
  board runs next, and how far. The wall clock, which only holds a paced pair back, comes in where the
  code lets it change a board: when both are asleep.

  What a board sends goes out in the course of its run, while the other stands still; here it is
  collected as the board runs and handed over when its run is over. The one thing a board's own run
  can see of it, its limit, is lowered as it is sent (\<open>lower_limit\<close> of \<open>Core_Host\<close>).
\<close>

section \<open>The pair\<close>

definition PACE_YIELD_NS :: ns where "PACE_YIELD_NS = 50000000"

text \<open>For each board: whether it is on, and what it was last seen doing, running (\<open>False\<close>) or idle until
  an event, if there is one.\<close>

record ('g, 'l) board_pair =
  boards :: "('g, 'l) host list"
  powered :: "bool list"
  seen :: "(bool \<times> ns option) list"
  paced :: bool
  pair_done :: bool
  pair_exit :: nat

definition new_pair :: "ns \<Rightarrow> bool \<Rightarrow> ('g, 'l) host \<Rightarrow> ('g, 'l) host \<Rightarrow> ('g, 'l) board_pair" where
  "new_pair delay pcd a b =
    (let join = (\<lambda>epoch h. h\<lparr>epoch_ns := epoch, opts := (opts h)\<lparr>in_pair := True, pair_paced := pcd\<rparr>\<rparr>)
     in \<lparr>boards = [join 0 a, join delay b], powered = [False, False],
         seen = [(False, None), (True, Some delay)], paced = pcd, pair_done = False, pair_exit = 0\<rparr>)"

abbreviation board :: "nat \<Rightarrow> ('g, 'l) board_pair \<Rightarrow> ('g, 'l) host" where
  "board i p \<equiv> boards p ! i"

definition set_board :: "nat \<Rightarrow> ('g, 'l) host \<Rightarrow> ('g, 'l) board_pair \<Rightarrow> ('g, 'l) board_pair" where
  "set_board i h p = p\<lparr>boards := (boards p)[i := h]\<rparr>"

section \<open>The wire and the air\<close>

text \<open>Something will arrive at board \<open>i\<close>: an idle board has something to wake for.\<close>

definition arriving :: "nat \<Rightarrow> ns \<Rightarrow> ('g, 'l) board_pair \<Rightarrow> ('g, 'l) board_pair" where
  "arriving i at p = (case seen p ! i of
      (True, nxt) \<Rightarrow> if nxt = None \<or> at < the nxt then p\<lparr>seen := (seen p)[i := (True, Some at)]\<rparr> else p
    | (False, _) \<Rightarrow> p)"

definition pair_send :: "nat \<Rightarrow> ns \<times> nat list \<Rightarrow> ('g, 'l) board_pair \<Rightarrow> ('g, 'l) board_pair" where
  "pair_send i = (\<lambda>(at, frame) p.
    if \<not> powered p ! i then p
    else arriving i at (set_board i (host_push_ethernet frame at (board i p)) p))"

definition pair_send_air :: "nat \<Rightarrow> ns \<times> pdu \<Rightarrow> ('g, 'l) board_pair \<Rightarrow> ('g, 'l) board_pair" where
  "pair_send_air i = (\<lambda>(at, p') p.
    if \<not> powered p ! i then p
    else arriving i at (set_board i (push_air p' at (board i p)) p))"

text \<open>What board \<open>i\<close> has sent goes to the other.\<close>

definition hand_over :: "nat \<Rightarrow> ('g, 'l) board_pair \<Rightarrow> ('g, 'l) board_pair" where
  "hand_over i p =
    (let h = board i p
     in fold (pair_send_air (1 - i)) (air_out h) (fold (pair_send (1 - i)) (eth_out h)
          (set_board i (h\<lparr>eth_out := [], air_out := []\<rparr>) p)))"

section \<open>Who runs, and how far\<close>

definition pair_time :: "nat \<Rightarrow> ('g, 'l) board_pair \<Rightarrow> ns" where
  "pair_time i p = (if powered p ! i then global_ns (board i p) else epoch_ns (board i p))"

definition asleep :: "nat \<Rightarrow> ('g, 'l) board_pair \<Rightarrow> bool" where
  "asleep i p \<longleftrightarrow> powered p ! i \<and> seen p ! i = (True, None) \<and> input (con (board i p)) = [] \<and>
    typing (con (board i p)) = [] \<and> latched_ready (board i p) = 0"

definition both_asleep :: "('g, 'l) board_pair \<Rightarrow> bool" where
  "both_asleep p \<longleftrightarrow> asleep 0 p \<and> asleep 1 p"

text \<open>The board that is behind; an asleep one never needs to run.\<close>

definition chosen :: "('g, 'l) board_pair \<Rightarrow> nat" where
  "chosen p = (let i = (if pair_time 0 p \<le> pair_time 1 p then 0 else 1) in if asleep i p then 1 - i else i)"

text \<open>When board \<open>j\<close> could next send anything; and how far board \<open>i\<close> may go for that.\<close>

definition could_send_at :: "nat \<Rightarrow> ('g, 'l) board_pair \<Rightarrow> ns option" where
  "could_send_at j p =
    (if asleep j p then None
     else case seen p ! j of
       (True, None) \<Rightarrow> None
     | (True, Some nxt) \<Rightarrow> Some (max (pair_time j p) nxt)
     | (False, _) \<Rightarrow> Some (pair_time j p))"

definition pair_limit :: "nat \<Rightarrow> ('g, 'l) board_pair \<Rightarrow> ns option" where
  "pair_limit i p =
    (let limit = map_option (\<lambda>t. t + LINK_LATENCY_NS) (could_send_at (1 - i) p);
         step = global_ns (board i p) + PACE_YIELD_NS
     in if paced p \<and> (limit = None \<or> step < the limit) then Some step else limit)"

section \<open>A turn\<close>

definition power_on :: "'g guest \<Rightarrow> nat \<Rightarrow> ('g, 'l) board_pair \<Rightarrow> ('g, 'l) board_pair" where
  "power_on G i p =
    (let p = set_board i ((start_host G (board i p))\<lparr>peer_on := powered p ! (1 - i)\<rparr>) p;
         p = set_board (1 - i) ((board (1 - i) p)\<lparr>peer_on := True\<rparr>) p
     in p\<lparr>powered := (powered p)[i := True], seen := (seen p)[i := (False, None)]\<rparr>)"

text \<open>Asleep, and waiting for a person: time passes as it does for them.\<close>

definition pair_wait :: "ns \<Rightarrow> ('g, 'l) board_pair \<Rightarrow> ('g, 'l) board_pair" where
  "pair_wait by_wall p = p\<lparr>boards := map (\<lambda>(on, h).
      if on \<and> global_ns h < by_wall then h\<lparr>now_ns := by_wall - epoch_ns h\<rparr> else h) (zip (powered p) (boards p))\<rparr>"

definition turn_over :: "nat \<Rightarrow> reason \<Rightarrow> ('g, 'l) host \<Rightarrow> ('g, 'l) board_pair \<Rightarrow> ('g, 'l) board_pair" where
  "turn_over i why h p =
    (let p = hand_over i (set_board i h p)
     in case why of
       Done \<Rightarrow> p\<lparr>pair_exit := exit_code h\<rparr>
     | Idle nxt \<Rightarrow> p\<lparr>seen := (seen p)[i := (True, nxt)]\<rparr>
     | _ \<Rightarrow> p\<lparr>seen := (seen p)[i := (False, None)]\<rparr>)"

text \<open>One turn of the loop, and whether there is another.\<close>

definition pair_turn ::
  "(nat \<Rightarrow> 'g guest) \<Rightarrow> 'l lan_ops \<Rightarrow> ns \<Rightarrow> ('g, 'l) board_pair \<Rightarrow>
    ((thrown \<times> ('g, 'l) host) + bool \<times> ('g, 'l) board_pair) option" where
  "pair_turn G ops by_wall p =
    (if both_asleep p
     then Some (Inr (if paced p then (True, pair_wait by_wall p) else (False, p)))
     else (let i = chosen p
       in if \<not> powered p ! i then Some (Inr (True, power_on (G i) i p))
          else map_option (map_sum id (\<lambda>(why, h). (why \<noteq> Done, turn_over i why h p)))
            (run_until (G i) ops (pair_limit i p) 256 (board i p))))"

definition pair_stop :: "('g, 'l) board_pair \<Rightarrow> ('g, 'l) board_pair" where
  "pair_stop p = p\<lparr>pair_done := True, boards := map (\<lambda>h. h\<lparr>host_done := True\<rparr>) (boards p)\<rparr>"

partial_function (option) pair_loop ::
  "(nat \<Rightarrow> 'g guest) \<Rightarrow> 'l lan_ops \<Rightarrow> (nat \<Rightarrow> ns) \<Rightarrow> nat \<Rightarrow> ('g, 'l) board_pair \<Rightarrow>
    ((thrown \<times> ('g, 'l) host) + ('g, 'l) board_pair) option" where
  "pair_loop G ops wall k p =
    (if pair_done p then Some (Inr (pair_stop p))
     else Option.bind (pair_turn G ops (wall k) p) (\<lambda>r. case r of
         Inl e \<Rightarrow> Some (Inl e)
       | Inr (on, p) \<Rightarrow> if on then pair_loop G ops wall (k + 1) p else Some (Inr (pair_stop p))))"

text \<open>\<^verbatim>\<open>run()\<close>: the first board is started, and the pair runs until one has ended.\<close>

definition pair_started :: "(nat \<Rightarrow> 'g guest) \<Rightarrow> ('g, 'l) board_pair \<Rightarrow> ('g, 'l) board_pair" where
  "pair_started G p =
    (let p = set_board 0 (start_host (G 0) (board 0 p)) p;
         p = set_board 1 ((board 1 p)\<lparr>peer_on := True\<rparr>) p
     in p\<lparr>powered := (powered p)[0 := True]\<rparr>)"

definition pair_run ::
  "(nat \<Rightarrow> 'g guest) \<Rightarrow> 'l lan_ops \<Rightarrow> (nat \<Rightarrow> ns) \<Rightarrow> ('g, 'l) board_pair \<Rightarrow>
    ((thrown \<times> ('g, 'l) host) + ('g, 'l) board_pair) option" where
  "pair_run G ops wall p = pair_loop G ops wall 0 (pair_started G p)"

end
