(* ===== verification/Web_Worker.thy ===== *)
theory Web_Worker
  imports Core_Loop Pair_Run
begin

text \<open>
  The browser's front end to the host (host/web/worker.js): the messages that the page sends while a
  run goes on, what a run message asks for, the timer that stops a run and saves its flash and its
  display, and how a run begins and ends. Fetching a module, and what is only passed on to the page
  (output, pins, the kernel's state, progress), are left out.
\<close>

section \<open>Messages\<close>

text \<open>What a run message asks for; what it leaves out is \<open>None\<close>. An uplink, a LAN and a URL are only
  passed on.\<close>

record run_msg =
  msg_max_time_ms :: "nat option"
  msg_interactive :: bool
  msg_paced :: "bool option"
  msg_time_scale :: "speed option"
  msg_flash_image :: "nat list option"
  msg_seed :: "32 word option"
  msg_uplink :: bool
  msg_lan :: bool
  msg_hci_serial :: bool

datatype msg =
    Msg_Pause
  | Msg_Resume
  | Msg_Step "nat option"
  | Msg_Back
  | Msg_Speed speed
  | Msg_Gpio "nat option" nat bool
  | Msg_Sensor "reading list"
  | Msg_Hci_rx "nat list"
  | Msg_Input_events "input_event list"
  | Msg_Input "nat option" "nat list"
  | Msg_Stop

section \<open>State\<close>

text \<open>Nothing, a board, or a pair of which the first is \<open>host\<close>.\<close>

datatype ('g, 'l) running = No_run | Alone "('g, 'l) session" | Two "('g, 'l) board_pair"

record ('g, 'l) worker =
  stop_requested :: bool
  sensor_readings :: "reading list option"
  input_open :: bool
  last_flash :: "nat list option"
  ticks :: nat
  running :: "('g, 'l) running"

definition the_host :: "('g, 'l) worker \<Rightarrow> ('g, 'l) host option" where
  "the_host w = (case running w of No_run \<Rightarrow> None | Alone s \<Rightarrow> Some (machine s) | Two p \<Rightarrow> Some (board 0 p))"

fun set_host :: "('g, 'l) host \<Rightarrow> ('g, 'l) running \<Rightarrow> ('g, 'l) running" where
  "set_host h No_run = No_run"
| "set_host h (Alone s) = Alone (s\<lparr>machine := h\<rparr>)"
| "set_host h (Two p) = Two (set_board 0 h p)"

section \<open>A message while a run goes on\<close>

text \<open>What it does to a board. Bytes are only taken while the board reads input.\<close>

fun acts_of :: "bool \<Rightarrow> msg \<Rightarrow> user_act list" where
  "acts_of reads Msg_Pause = [Pause]"
| "acts_of reads Msg_Resume = [Resume]"
| "acts_of reads (Msg_Step n) = [Step_once (case n of None \<Rightarrow> 1 | Some n \<Rightarrow> n)]"
| "acts_of reads Msg_Back = [Step_back]"
| "acts_of reads (Msg_Speed v) = [Set_speed v]"
| "acts_of reads (Msg_Gpio port pin level) = [Set_pin (case port of None \<Rightarrow> 0 | Some p \<Rightarrow> p) pin level]"
| "acts_of reads (Msg_Sensor rs) = [Push_sensor rs]"
| "acts_of reads (Msg_Hci_rx bs) = [Hci_bytes bs]"
| "acts_of reads (Msg_Input_events evs) = [Push_input evs]"
| "acts_of reads (Msg_Input i bs) = (if reads then map Type_byte bs else [])"
| "acts_of reads Msg_Stop = [Stop]"

text \<open>A board of a pair has no run of its own, and so no history: to pause or step it changes nothing.\<close>

definition board_act :: "'g guest \<Rightarrow> user_act \<Rightarrow> ('g, 'l) host \<Rightarrow> ('g, 'l) host" where
  "board_act G a h = machine (user_act_on G a \<lparr>machine = h, paused = False, steps_left = 0, history = [],
     history_max = 64, time_scale = (1, 1), last_now = 0, last_yield = 0\<rparr>)"

fun act_on :: "'g guest \<Rightarrow> user_act \<Rightarrow> ('g, 'l) running \<Rightarrow> ('g, 'l) running" where
  "act_on G a No_run = No_run"
| "act_on G a (Alone s) = Alone (user_act_on G a s)"
| "act_on G a (Two p) = Two (set_board 0 (board_act G a (board 0 p)) p)"

text \<open>Typing goes to the board of a pair that it names.\<close>

definition type_into :: "nat \<Rightarrow> nat list \<Rightarrow> ('g, 'l) board_pair \<Rightarrow> ('g, 'l) board_pair" where
  "type_into i bs p = set_board i ((board i p)\<lparr>con := (con (board i p))\<lparr>input := input (con (board i p)) @ bs\<rparr>\<rparr>) p"

definition on_message :: "'g guest \<Rightarrow> msg \<Rightarrow> ('g, 'l) worker \<Rightarrow> ('g, 'l) worker" where
  "on_message G m w =
    (let w = (case m of Msg_Sensor rs \<Rightarrow> w\<lparr>sensor_readings := Some rs\<rparr>
           | Msg_Stop \<Rightarrow> w\<lparr>stop_requested := True\<rparr> | _ \<Rightarrow> w);
         acts = fold (act_on G) (acts_of (input_open w) m) (running w)
     in w\<lparr>running := (case (running w, m) of
          (Two p, Msg_Input i bs) \<Rightarrow> Two (type_into (case i of None \<Rightarrow> 0 | Some i \<Rightarrow> i) bs p)
        | (Two p, Msg_Stop) \<Rightarrow> Two (pair_stop p)
        | _ \<Rightarrow> acts)\<rparr>)"

section \<open>What goes to the page\<close>

datatype posted = Flash "nat list" | Frame frame | Finished nat | Harness_error

definition send_flash :: "nat list option \<Rightarrow> ('g, 'l) worker \<Rightarrow> posted list \<times> ('g, 'l) worker" where
  "send_flash img w =
    (case img of
      None \<Rightarrow> ([], w)
    | Some bs \<Rightarrow> if last_flash w = Some bs then ([], w) else ([Flash bs], w\<lparr>last_flash := Some bs\<rparr>))"

text \<open>A frame, if something was drawn. A display outside the memory throws.\<close>

definition send_frame :: "('g, 'l) worker \<Rightarrow> js_error + posted list \<times> ('g, 'l) worker" where
  "send_frame w =
    (case the_host w of
      None \<Rightarrow> Inr ([], w)
    | Some h \<Rightarrow>
      if \<not> display_dirty (disp h) then Inr ([], w)
      else (case display_frame (mem h) (disp h) of
        Inl e \<Rightarrow> Inl e
      | Inr (f, d) \<Rightarrow>
        Inr (case f of None \<Rightarrow> [] | Some f \<Rightarrow> [Frame f], w\<lparr>running := set_host (h\<lparr>disp := d\<rparr>) (running w)\<rparr>)))"

definition save_flash :: "('g, 'l) worker \<Rightarrow> js_error + posted list \<times> ('g, 'l) worker" where
  "save_flash w =
    (case the_host w of
      None \<Rightarrow> Inr ([], w)
    | Some h \<Rightarrow> if storage h = None then Inr ([], w) else map_sum id (\<lambda>img. send_flash img w) (flash_image h))"

text \<open>The timer, every 50 ms: a board that was asked to stop is stopped, and every two seconds the
  flash is saved. What throws ends this tick.\<close>

definition stop_asked :: "('g, 'l) worker \<Rightarrow> ('g, 'l) worker" where
  "stop_asked w = (case running w of
      Alone s \<Rightarrow> if stop_requested w then w\<lparr>running := Alone (on_machine (\<lambda>h. h\<lparr>host_done := True\<rparr>) s)\<rparr> else w
    | _ \<Rightarrow> w)"

definition tick :: "('g, 'l) worker \<Rightarrow> posted list \<times> ('g, 'l) worker" where
  "tick w =
    (if the_host w = None then ([], w)
     else (let w = stop_asked w
       in case send_frame w of
         Inl e \<Rightarrow> ([], w)
       | Inr (ps, w) \<Rightarrow>
         (let w = w\<lparr>ticks := ticks w + 1\<rparr>
          in if ticks w mod 40 \<noteq> 0 then (ps, w)
             else case save_flash w of Inl e \<Rightarrow> (ps, w) | Inr (qs, w) \<Rightarrow> (ps @ qs, w))))"

text \<open>A pair's timer only stops it.\<close>

definition pair_tick :: "('g, 'l) worker \<Rightarrow> ('g, 'l) worker" where
  "pair_tick w = (case running w of
      Two p \<Rightarrow> if stop_requested w then w\<lparr>running := Two (pair_stop p)\<rparr> else w
    | _ \<Rightarrow> w)"

datatype worker_input = Got msg | Tick

definition worker_event :: "'g guest \<Rightarrow> worker_input \<Rightarrow> ('g, 'l) worker \<Rightarrow> posted list \<times> ('g, 'l) worker" where
  "worker_event G e w =
    (case e of
      Got m \<Rightarrow> ([], on_message G m w)
    | Tick \<Rightarrow> (case running w of Two p \<Rightarrow> ([], pair_tick w) | _ \<Rightarrow> tick w))"

fun worker_events :: "'g guest \<Rightarrow> worker_input list \<Rightarrow> ('g, 'l) worker \<Rightarrow> posted list \<times> ('g, 'l) worker" where
  "worker_events G [] w = ([], w)"
| "worker_events G (e # es) w =
    (let (ps, w) = worker_event G e w; (qs, w) = worker_events G es w in (ps @ qs, w))"

section \<open>A run\<close>

record run_opts =
  host_opts :: opts
  run_paced :: bool
  run_scale :: speed
  run_uplink :: bool
  run_lan :: bool
  run_true_random :: bool

text \<open>Real peers and a real controller follow the wall clock, and the controller's address is to be
  made from real entropy. (\<open>interactive\<close> of the model's options is all that makes the run loop wait.)\<close>

definition run_options :: "run_msg \<Rightarrow> run_opts" where
  "run_options m =
    \<lparr>host_opts = \<lparr>realtime = False, max_time_ms = (case msg_max_time_ms m of None \<Rightarrow> 10000 | Some t \<Rightarrow> t),
       stop_at_max_time = False, in_pair = False, pair_paced = False,
       interactive = (msg_interactive m \<or> msg_uplink m \<or> msg_hci_serial m), seed_opt = msg_seed m,
       gpio_script = [], input_script = [], max_reboots = 64\<rparr>,
     run_paced = (msg_uplink m \<or> msg_hci_serial m \<or> msg_paced m = Some True),
     run_scale = (case msg_time_scale m of None \<Rightarrow> (1, 1) | Some v \<Rightarrow> v),
     run_uplink = msg_uplink m, run_lan = (msg_lan m \<and> \<not> msg_uplink m), run_true_random = msg_hci_serial m\<rparr>"

text \<open>The host \<open>h\<close> is made from the options; a tilt sent before it was is pushed.\<close>

definition begin_run :: "'g guest \<Rightarrow> run_msg \<Rightarrow> ('g, 'l) host \<Rightarrow> ('g, 'l) worker \<Rightarrow> ('g, 'l) worker" where
  "begin_run G m h w =
    (let s = \<lparr>machine = h, paused = False, steps_left = 0, history = [], history_max = 64,
           time_scale = run_scale (run_options m), last_now = 0, last_yield = 0\<rparr>;
         s = (case sensor_readings w of None \<Rightarrow> s | Some rs \<Rightarrow> user_act_on G (Push_sensor rs) s)
     in w\<lparr>stop_requested := False, last_flash := msg_flash_image m, ticks := 0, running := Alone s\<rparr>)"

text \<open>\<open>host.run()\<close> starts, once the network is there.\<close>

definition enter_run :: "'g guest \<Rightarrow> run_msg \<Rightarrow> ('g, 'l) worker \<Rightarrow> ('g, 'l) worker" where
  "enter_run G m w = (case running w of
      Alone s \<Rightarrow> w\<lparr>running := Alone (loop_start G (run_paced (run_options m)) s), input_open := msg_interactive m\<rparr>
    | _ \<Rightarrow> w)"

definition run_failed :: "('g, 'l) worker \<Rightarrow> posted list \<times> ('g, 'l) worker" where
  "run_failed w = ([Harness_error, Finished 1], w\<lparr>running := No_run\<rparr>)"

text \<open>It has come back with a code: the flash and the last frame go to the page first.\<close>

definition run_over :: "nat \<Rightarrow> ('g, 'l) worker \<Rightarrow> posted list \<times> ('g, 'l) worker" where
  "run_over code w =
    (let w = w\<lparr>input_open := False\<rparr>
     in case save_flash w of
       Inl e \<Rightarrow> run_failed w
     | Inr (ps, w) \<Rightarrow>
       (case send_frame w of
         Inl e \<Rightarrow> map_prod ((@) ps) id (run_failed w)
       | Inr (qs, w) \<Rightarrow> (ps @ qs @ [Finished code], w\<lparr>running := No_run\<rparr>)))"

end
