(* ===== verification/Web_Worker_Proofs.thy ===== *)
theory Web_Worker_Proofs
  imports Web_Worker Core_Sample
begin

text \<open>
  A stop message ends the run whenever it comes, and the page has the board's flash: every image it is
  sent is new, the last one is what the worker takes it to have, and two seconds are enough for it to
  have what is in the flash.
\<close>

section \<open>Stop\<close>

text \<open>The run is to end: every board of it is done.\<close>

definition ending :: "('g, 'l) running \<Rightarrow> bool" where
  "ending r \<longleftrightarrow> (case r of No_run \<Rightarrow> True | Alone s \<Rightarrow> host_done (machine s) | Two p \<Rightarrow> pair_done p \<and> list_all host_done (boards p))"

lemma host_restore_done: "host_done (host_restore G x h) = host_done h"
  by (simp add: host_restore_def Let_def)

lemma user_act_done: "host_done (machine s) \<Longrightarrow> host_done (machine (user_act_on G a s))"
  by (cases a) (auto simp: on_machine_def step_back_def host_restore_done host_push_ethernet_def)

lemma board_act_done: "host_done h \<Longrightarrow> host_done (board_act G a h)"
  by (simp add: board_act_def user_act_done)

lemma boards_done:
  assumes "list_all host_done (boards p)" and "\<And>h. host_done h \<Longrightarrow> host_done (f h)"
  shows "list_all host_done (boards (set_board i (f (board i p)) p))"
proof (cases "i < length (boards p)")
  case True
  with assms have "host_done (f (board i p))" by (simp add: list_all_length)
  with assms(1) True show ?thesis by (simp add: set_board_def list_all_length nth_list_update)
qed (use assms(1) in \<open>simp add: set_board_def list_update_beyond\<close>)

lemma set_board_done [simp]: "pair_done (set_board i h p) = pair_done p"
  by (simp add: set_board_def)

lemma act_on_ending: "ending r \<Longrightarrow> ending (act_on G a r)"
  by (cases r) (simp_all add: ending_def user_act_done boards_done board_act_done)

lemma acts_on_ending: "ending r \<Longrightarrow> ending (fold (act_on G) as r)"
  by (induction as arbitrary: r) (simp_all add: act_on_ending)

lemma pair_stop_ending: "ending (Two (pair_stop p))"
  by (simp add: ending_def pair_stop_def list_all_iff)

lemma type_into_ending: "ending (Two p) \<Longrightarrow> ending (Two (type_into i bs p))"
  unfolding type_into_def
  using boards_done [of p "\<lambda>h. h\<lparr>con := (con h)\<lparr>input := input (con h) @ bs\<rparr>\<rparr>" i] by (simp add: ending_def)

lemma on_message_cases:
  obtains (acts) "running (on_message G m w) = fold (act_on G) (acts_of (input_open w) m) (running w)"
  | (typed) p i bs where "running w = Two p" "running (on_message G m w) = Two (type_into i bs p)"
  | (stopped) p where "running w = Two p" "running (on_message G m w) = Two (pair_stop p)"
  by (cases "running w"; cases m) (simp_all add: on_message_def)

lemma on_message_ending: "ending (running w) \<Longrightarrow> ending (running (on_message G m w))"
  by (cases rule: on_message_cases [of G m w]) (simp_all add: acts_on_ending type_into_ending pair_stop_ending)

lemma send_flash_running [simp]: "running (snd (send_flash img w)) = running w"
  by (simp add: send_flash_def split: option.split)

lemma save_flash_running: "save_flash w = Inr (ps, w') \<Longrightarrow> running w' = running w"
  by (auto simp: save_flash_def send_flash_def map_sum_def split: option.splits sum.splits if_splits)

lemma set_host_ending:
  assumes "ending (running w)" and "the_host w = Some h" and "host_done h \<Longrightarrow> host_done h'"
  shows "ending (set_host h' (running w))"
proof (cases "running w")
  case (Two p)
  then have "h = board 0 p" using assms(2) by (simp add: the_host_def)
  with boards_done [of p "\<lambda>h. if host_done h then h' else h" 0] assms Two show ?thesis
    by (cases "boards p = []") (auto simp: ending_def set_board_def list_all_length)
qed (use assms in \<open>auto simp: ending_def the_host_def\<close>)

lemma send_frame_ending:
  assumes "send_frame w = Inr (ps, w')" and "ending (running w)"
  shows "ending (running w')"
proof (cases "the_host w")
  case (Some h)
  with assms set_host_ending [OF assms(2) Some] show ?thesis
    by (auto simp: send_frame_def split: if_splits sum.splits)
qed (use assms in \<open>simp add: send_frame_def\<close>)

lemma tick_ending:
  assumes "ending (running w)"
  shows "ending (running (snd (tick w)))"
proof -
  have s: "ending (running (stop_asked w))" using assms
    by (auto simp: stop_asked_def ending_def on_machine_def split: running.splits)
  show ?thesis using assms s send_frame_ending [OF _ s]
    by (auto simp: tick_def Let_def save_flash_running split: sum.split prod.split)
qed

lemma event_ending: "ending (running w) \<Longrightarrow> ending (running (snd (worker_event G e w)))"
  by (auto simp: worker_event_def on_message_ending tick_ending pair_tick_def pair_stop_ending split: worker_input.split running.split)

lemma events_ending: "ending (running w) \<Longrightarrow> ending (running (snd (worker_events G es w)))"
proof (induction es arbitrary: w)
  case (Cons e es)
  obtain ps w1 where w1: "worker_event G e w = (ps, w1)" by fastforce
  with event_ending [OF Cons.prems, of G e] Cons.IH [of w1] show ?case by (auto split: prod.split)
qed simp

lemma stop_message_ending: "ending (running (on_message G Msg_Stop w))"
  using pair_stop_ending by (cases "running w") (simp_all add: on_message_def ending_def on_machine_def)

lemma stop_among_events:
  assumes "Got Msg_Stop \<in> set es"
  shows "ending (running (snd (worker_events G es w)))"
proof -
  obtain es1 es2 where es: "es = es1 @ Got Msg_Stop # es2" using split_list [OF assms] by blast
  show ?thesis unfolding es
  proof (induction es1 arbitrary: w)
    case Nil
    then show ?case using events_ending [OF stop_message_ending, of G es2 G w]
      by (auto simp: worker_event_def split: prod.split)
  next
    case (Cons e es1)
    then show ?case by (auto split: prod.split) (metis snd_conv)
  qed
qed

text \<open>
  C40. Whatever else the page sends, and whenever the stop message comes: a board of its own does not take
  another step, and a pair's run is over, with its boards as they are.
\<close>

theorem stop_message_ends_run:
  assumes "Got Msg_Stop \<in> set es" and "worker_events G es w = (ps, w')"
  shows "case running w' of
      No_run \<Rightarrow> True
    | Alone s \<Rightarrow> loop_turn G ops pcd e s = Some (Inr (False, s))
    | Two p \<Rightarrow> pair_loop Gs ops wall k p = Some (Inr p)"
proof -
  have e: "ending (running w')" using stop_among_events [OF assms(1), of G w] assms(2) by simp
  show ?thesis
  proof (cases "running w'")
    case (Alone s)
    with e show ?thesis by (simp add: ending_def loop_turn_def)
  next
    case (Two p)
    have "map (\<lambda>h. h\<lparr>host_done := True\<rparr>) (boards p) = boards p"
      using e Two by (intro map_idI) (auto simp: ending_def list_all_iff)
    then have "pair_stop p = p" using e Two by (simp add: ending_def pair_stop_def)
    with e Two show ?thesis by (subst pair_loop.simps) (simp add: ending_def)
  qed simp
qed

section \<open>The flash\<close>

fun flashes :: "posted list \<Rightarrow> nat list list" where
  "flashes [] = []"
| "flashes (Flash bs # ps) = bs # flashes ps"
| "flashes (_ # ps) = flashes ps"

lemma flashes_append [simp]: "flashes (ps @ qs) = flashes ps @ flashes qs"
  by (induction ps rule: flashes.induct) simp_all

text \<open>What the page has, of what it had and what it was sent; and every image it is sent is another.\<close>

definition page_flash :: "nat list option \<Rightarrow> posted list \<Rightarrow> nat list option" where
  "page_flash c ps = last (c # map Some (flashes ps))"

definition each_new :: "nat list option \<Rightarrow> posted list \<Rightarrow> bool" where
  "each_new c ps \<longleftrightarrow> distinct_adj (c # map Some (flashes ps))"

definition tracks :: "('g, 'l) worker \<Rightarrow> posted list \<times> ('g, 'l) worker \<Rightarrow> bool" where
  "tracks w = (\<lambda>(ps, w'). page_flash (last_flash w) ps = last_flash w' \<and> each_new (last_flash w) ps)"

lemma tracks_none: "last_flash w' = last_flash w \<Longrightarrow> flashes ps = [] \<Longrightarrow> tracks w (ps, w')"
  by (simp add: tracks_def page_flash_def each_new_def)

lemma chain_append:
  "distinct_adj (c # xs) \<Longrightarrow> distinct_adj (last (c # xs) # ys) \<Longrightarrow>
    distinct_adj (c # xs @ ys) \<and> last (c # xs @ ys) = last (last (c # xs) # ys)"
  by (induction xs arbitrary: c) (auto simp: distinct_adj_Cons)

lemma tracks_then:
  assumes "tracks w (ps, w1)" and "tracks w1 (qs, w2)"
  shows "tracks w (ps @ qs, w2)"
  using assms chain_append [of "last_flash w" "map Some (flashes ps)" "map Some (flashes qs)"]
  unfolding tracks_def page_flash_def each_new_def prod.case flashes_append map_append by metis

lemma tracks_send_flash: "tracks w (send_flash img w)"
  by (auto simp: send_flash_def tracks_def page_flash_def each_new_def split: option.split)

lemma tracks_save_flash: "save_flash w = Inr r \<Longrightarrow> tracks w r"
  using tracks_send_flash [of w] tracks_none [of w w "[]"]
  by (auto simp: save_flash_def split: option.splits if_splits)

lemma send_frame_flash: "send_frame w = Inr (ps, w') \<Longrightarrow> flashes ps = [] \<and> last_flash w' = last_flash w"
  by (auto simp: send_frame_def split: option.splits if_splits sum.splits)

lemma tracks_tick: "tracks w (tick w)"
proof (cases "the_host w = None")
  case False
  let ?w = "stop_asked w"
  have s: "last_flash ?w = last_flash w" by (simp add: stop_asked_def split: running.split)
  show ?thesis
  proof (cases "send_frame ?w")
    case (Inl e)
    with False s show ?thesis by (simp add: tick_def tracks_none)
  next
    case (Inr r)
    obtain ps w1 where r: "r = (ps, w1)" by fastforce
    then have f: "flashes ps = []" "last_flash w1 = last_flash w" using Inr send_frame_flash [of ?w ps w1] s by simp_all
    let ?w1 = "w1\<lparr>ticks := ticks w1 + 1\<rparr>"
    have a: "tracks w (ps, ?w1)" using f by (intro tracks_none) simp_all
    show ?thesis
    proof (cases "save_flash ?w1")
      case (Inl e)
      with a False Inr r show ?thesis by (auto simp: tick_def Let_def)
    next
      case (Inr q)
      with tracks_save_flash [OF this] a tracks_then [OF a, of "fst q" "snd q"] False r \<open>send_frame ?w = Inr r\<close>
      show ?thesis by (auto simp: tick_def Let_def split: prod.split)
    qed
  qed
qed (simp add: tick_def tracks_none)

lemma on_message_flash: "last_flash (on_message G m w) = last_flash w"
  by (simp add: on_message_def Let_def split: msg.split)

lemma tracks_event: "tracks w (worker_event G e w)"
  using tracks_tick [of w]
  by (auto simp: worker_event_def on_message_flash pair_tick_def tracks_none split: worker_input.split running.split)

lemma tracks_events: "tracks w (worker_events G es w)"
proof (induction es arbitrary: w)
  case (Cons e es)
  obtain ps w1 where w1: "worker_event G e w = (ps, w1)" by fastforce
  obtain qs w2 where w2: "worker_events G es w1 = (qs, w2)" by fastforce
  have "tracks w (ps, w1)" "tracks w1 (qs, w2)" using tracks_event [of w G e] Cons.IH [of w1] w1 w2 by simp_all
  with w1 w2 show ?case using tracks_then by simp
qed (simp add: tracks_none)

lemma the_host_alone [simp]: "running w = Alone s \<Longrightarrow> the_host w = Some (machine s)"
  by (simp add: the_host_def)

lemma save_flash_saves:
  assumes "the_host w = Some h" and "storage h \<noteq> None" and "flash_image h = Inr (Some img)"
  shows "\<exists>r. save_flash w = Inr r \<and> last_flash (snd r) = Some img \<and> the_host (snd r) = Some h"
  using assms by (auto simp: save_flash_def send_flash_def the_host_def)

lemma display_frame_flash: "display_frame m d = Inr (f, d') \<Longrightarrow> d' = map_option (dirty_update (\<lambda>_. None)) d"
  by (auto simp: display_frame_def Let_def split: option.splits if_splits)

text \<open>A display that can be read, if there is one.\<close>

definition readable :: "('g, 'l) host \<Rightarrow> bool" where
  "readable h \<longleftrightarrow> (\<exists>r. display_frame (mem h) (disp h) = Inr r)"

lemma send_frame_readable:
  assumes "running w = Alone s" and "readable (machine s)"
  obtains ps d where "send_frame w = Inr (ps, w\<lparr>running := Alone (on_machine (\<lambda>h. h\<lparr>disp := d\<rparr>) s)\<rparr>)"
    "\<exists>r. display_frame (mem (machine s)) d = Inr r" "flashes ps = []"
proof (cases "display_dirty (disp (machine s))")
  case True
  obtain f d where d: "display_frame (mem (machine s)) (disp (machine s)) = Inr (f, d)"
    using assms(2) by (auto simp: readable_def)
  have "\<exists>r. display_frame (mem (machine s)) d = Inr r"
    using d by (auto simp: display_frame_def Let_def split: option.splits if_splits)
  with True d assms(1) show ?thesis
    by (intro that [of "case f of None \<Rightarrow> [] | Some f \<Rightarrow> [Frame f]" d])
      (simp_all add: send_frame_def on_machine_def split: option.split)
next
  case False
  with assms show ?thesis by (intro that [of "[]" "disp (machine s)"]) (simp_all add: send_frame_def readable_def on_machine_def)
qed

text \<open>What a tick leaves: the same flash, a display that can be read, one tick more; and at every
  fortieth the flash is saved.\<close>

definition flash_is :: "nat list \<Rightarrow> ('g, 'l) worker \<Rightarrow> bool" where
  "flash_is img w \<longleftrightarrow> (\<exists>s. running w = Alone s \<and> storage (machine s) \<noteq> None \<and>
     flash_image (machine s) = Inr (Some img) \<and> readable (machine s))"

lemma flash_image_frame [simp]:
  "flash_image (h\<lparr>disp := d\<rparr>) = flash_image h" "flash_image (h\<lparr>host_done := b\<rparr>) = flash_image h"
  by (simp_all add: flash_image_def split: option.split)

lemma flash_is_stop: "flash_is img w \<Longrightarrow> flash_is img (stop_asked w)"
  by (auto simp: flash_is_def stop_asked_def on_machine_def readable_def)

lemma flash_is_tick:
  assumes "flash_is img w"
  shows "flash_is img (snd (tick w)) \<and> ticks (snd (tick w)) = ticks w + 1 \<and>
    (last_flash w = Some img \<or> ticks (snd (tick w)) mod 40 = 0 \<longrightarrow> last_flash (snd (tick w)) = Some img)"
proof -
  let ?w = "stop_asked w"
  obtain s where s: "running ?w = Alone s" "storage (machine s) \<noteq> None" "flash_image (machine s) = Inr (Some img)"
    "readable (machine s)" using flash_is_stop [OF assms] by (auto simp: flash_is_def)
  have same: "last_flash ?w = last_flash w" "ticks ?w = ticks w" by (simp_all add: stop_asked_def split: running.split)
  obtain hh where h: "the_host w = Some hh" using assms by (auto simp: flash_is_def)
  obtain ps d where f: "send_frame ?w = Inr (ps, ?w\<lparr>running := Alone (on_machine (\<lambda>h. h\<lparr>disp := d\<rparr>) s)\<rparr>)"
    "\<exists>r. display_frame (mem (machine s)) d = Inr r" using send_frame_readable [OF s(1,4)] by metis
  define w1 where "w1 = ?w\<lparr>running := Alone (on_machine (\<lambda>h. h\<lparr>disp := d\<rparr>) s), ticks := ticks w + 1\<rparr>"
  have w1: "flash_is img w1" "last_flash w1 = last_flash w" "ticks w1 = ticks w + 1"
    using s f(2) by (auto simp: w1_def flash_is_def on_machine_def readable_def same)
  obtain r where r: "save_flash w1 = Inr r" "last_flash (snd r) = Some img"
    using save_flash_saves [of w1 "machine s\<lparr>disp := d\<rparr>" img] s by (auto simp: w1_def on_machine_def)
  obtain qs w2 where q: "r = (qs, w2)" by fastforce
  have w2: "running w2 = running w1" "ticks w2 = ticks w1"
    using save_flash_running [of w1 qs w2] r(1) q by (auto simp: save_flash_def send_flash_def map_sum_def split: option.splits if_splits sum.splits)
  have t: "snd (tick w) = (if ticks w1 mod 40 \<noteq> 0 then w1 else w2)"
    using h f(1) r(1) q by (simp add: tick_def Let_def w1_def same)
  show ?thesis
  proof (cases "ticks w1 mod 40 = 0")
    case True
    then have "flash_is img w2" using w1(1) w2(1) by (simp add: flash_is_def)
    with True t w1 w2 r(2) q show ?thesis by simp
  qed (use t w1 in simp)
qed

lemma flash_is_ticks:
  assumes "flash_is img w"
  shows "last_flash w = Some img \<or> (\<exists>k. 0 < k \<and> k \<le> n \<and> (ticks w + k) mod 40 = 0) \<longrightarrow>
    last_flash (snd (worker_events G (replicate n Tick) w)) = Some img"
  using assms
proof (induction n arbitrary: w)
  case (Suc n)
  let ?w = "snd (tick w)"
  have t: "flash_is img ?w" "ticks ?w = ticks w + 1"
    "last_flash w = Some img \<or> (ticks w + 1) mod 40 = 0 \<longrightarrow> last_flash ?w = Some img" using flash_is_tick [OF Suc.prems] by auto
  have e: "snd (worker_events G (replicate (Suc n) Tick) w) = snd (worker_events G (replicate n Tick) ?w)"
    using Suc.prems by (auto simp: worker_event_def flash_is_def split: prod.split)
  have st: "last_flash w = Some img \<or> (\<exists>k. 0 < k \<and> k \<le> Suc n \<and> (ticks w + k) mod 40 = 0) \<Longrightarrow>
      last_flash ?w = Some img \<or> (\<exists>k. 0 < k \<and> k \<le> n \<and> (ticks ?w + k) mod 40 = 0)"
  proof (elim disjE exE conjE)
    fix k assume k: "0 < k" "k \<le> Suc n" "(ticks w + k) mod 40 = 0"
    show ?thesis
    proof (cases "k = 1")
      case True with k t(3) show ?thesis by simp
    next
      case False
      with k t(2) have "0 < k - 1 \<and> k - 1 \<le> n \<and> (ticks ?w + (k - 1)) mod 40 = 0" by simp
      then show ?thesis by (intro disjI2 exI)
    qed
  qed (rule disjI1, rule mp [OF t(3)], erule disjI1)
  show ?case unfolding e by (rule impI, rule mp [OF Suc.IH [OF t(1)]], rule st)
qed simp


text \<open>
  Forty ticks of the timer, two seconds, are enough for the page to have what is in the flash of a
  board that does not run meanwhile, whenever they begin.
\<close>

theorem flash_saved_in_forty_ticks:
  assumes "running w = Alone s" and "storage (machine s) \<noteq> None" and "flash_image (machine s) = Inr (Some img)"
    and "\<exists>r. display_frame (mem (machine s)) (disp (machine s)) = Inr r"
  shows "\<exists>ps w'. worker_events G (replicate 40 Tick) w = (ps, w') \<and> page_flash (last_flash w) ps = Some img"
proof -
  have f: "flash_is img w" using assms by (auto simp: flash_is_def readable_def)
  have k: "\<exists>k. 0 < k \<and> k \<le> 40 \<and> (ticks w + k) mod 40 = 0"
  proof (intro exI conjI)
    show "(ticks w + (40 - ticks w mod 40)) mod 40 = 0"
      by (metis add.commute le_add_diff_inverse2 less_imp_le_nat mod_add_left_eq mod_less_divisor mod_self zero_less_numeral)
  qed simp_all
  define es where "es = replicate 40 Tick"
  have l: "last_flash (snd (worker_events G es w)) = Some img"
    unfolding es_def by (rule mp [OF flash_is_ticks [OF f]], rule disjI2, rule k)
  obtain ps w' where r: "worker_events G es w = (ps, w')" by fastforce
  from tracks_events [of w G es] l have "page_flash (last_flash w) ps = Some img" by (simp add: r tracks_def)
  with r show ?thesis unfolding es_def by blast
qed

section \<open>Applied\<close>

definition sample_worker :: "(scripted, unit) worker" where
  "sample_worker = \<lparr>stop_requested = False, sensor_readings = None, input_open = True, last_flash = None, ticks = 7,
     running = Alone \<lparr>machine = two_contexts\<lparr>storage := Some (12, 4)\<rparr>, paused = False, steps_left = 0, history = [],
       history_max = 64, time_scale = (1, 1), last_now = 0, last_yield = 0\<rparr>\<rparr>"

lemma sample_flash: "take 4 (drop 12 sample_memory) = [60, 0, 0, 0]" "length sample_memory = 64"
  by (simp_all add: sample_memory_def numeral_eq_Suc)

theorem stop_message_ends_run_witness:
  "\<exists>ps w' s. worker_events scripted_guest [Got (Msg_Input None [65]), Got Msg_Stop, Got Msg_Resume] sample_worker = (ps, w') \<and>
    running w' = Alone s \<and> input (con (machine s)) = [65] \<and>
    loop_turn scripted_guest no_lan False \<lparr>late = 0, acts = []\<rparr> s = Some (Inr (False, s))"
proof -
  let ?es = "[Got (Msg_Input None [65]), Got Msg_Stop, Got Msg_Resume]"
  obtain ps w' s where w: "worker_events scripted_guest ?es sample_worker = (ps, w')" "running w' = Alone s"
    "input (con (machine s)) = [65]"
    by (simp add: worker_event_def on_message_def sample_worker_def on_machine_def sample_defs initial_console_def)
  have "Got Msg_Stop \<in> set ?es" by simp
  from stop_message_ends_run [OF this w(1), of no_lan False "\<lparr>late = 0, acts = []\<rparr>"] w show ?thesis by auto
qed


theorem flash_saved_in_forty_ticks_witness:
  "\<exists>ps w'. worker_events scripted_guest (replicate 40 Tick) sample_worker = (ps, w') \<and> page_flash None ps = Some [60, 0, 0, 0]"
proof -
  obtain s where s: "running sample_worker = Alone s" "storage (machine s) \<noteq> None"
    "flash_image (machine s) = Inr (Some [60, 0, 0, 0])" "\<exists>r. display_frame (mem (machine s)) (disp (machine s)) = Inr r"
    "last_flash sample_worker = None"
    by (simp add: sample_worker_def sample_defs flash_image_def sample_flash display_frame_def)
  show ?thesis using flash_saved_in_forty_ticks [OF s(1-4), of scripted_guest] unfolding s(5) .
qed

end
