(* ===== verification/Run_Args.thy ===== *)
theory Run_Args
  imports Core_Host Js_Text
begin

text \<open>
  The command line (host/run.mjs): its options and what they ask for, and what is done with a run's
  files and its last frame when it is over. Usage, messages, opening files and devices, and setting the
  run up from the options are the operating system's, or are modelled with what they set up.
\<close>

section \<open>Numbers\<close>

text \<open>
  \<open>Number(text)\<close>: not a number, an infinity, or \<open>Dec m e\<close>, which is m times ten to the e. It is kept
  exactly, where JavaScript has the double next to it.
\<close>

datatype js_number = NaN | Infinite bool | Dec int int

definition is_digit :: "nat \<Rightarrow> bool" where
  "is_digit c \<longleftrightarrow> 48 \<le> c \<and> c \<le> 57"

definition digits_value :: "text \<Rightarrow> nat" where
  "digits_value ds = fold (\<lambda>c n. 10 * n + (c - 48)) ds 0"

definition span_digits :: "text \<Rightarrow> text \<times> text" where
  "span_digits s = (takeWhile is_digit s, dropWhile is_digit s)"

text \<open>What follows a character.\<close>

definition read_char :: "nat \<Rightarrow> text \<Rightarrow> text option" where
  "read_char c s = (case s of [] \<Rightarrow> None | x # r \<Rightarrow> if x = c then Some r else None)"

definition trim :: "text \<Rightarrow> text" where
  "trim s = rev (dropWhile is_space (rev (dropWhile is_space s)))"

text \<open>A digit of base up to 16, and digits in a base.\<close>

definition digit_value :: "nat \<Rightarrow> nat option" where
  "digit_value c = (if is_digit c then Some (c - 48) else if 97 \<le> c \<and> c \<le> 102 then Some (c - 87)
     else if 65 \<le> c \<and> c \<le> 70 then Some (c - 55) else None)"

definition in_base :: "nat \<Rightarrow> text \<Rightarrow> js_number" where
  "in_base b ds =
    (if ds \<noteq> [] \<and> list_all (\<lambda>c. case digit_value c of None \<Rightarrow> False | Some d \<Rightarrow> d < b) ds
     then Dec (int (fold (\<lambda>c n. b * n + the (digit_value c)) ds 0)) 0 else NaN)"

definition read_sign :: "text \<Rightarrow> int \<times> text" where
  "read_sign s = (case read_char 45 s of
      Some t \<Rightarrow> (- 1, t)
    | None \<Rightarrow> (1, case read_char 43 s of Some t \<Rightarrow> t | None \<Rightarrow> s))"

definition exponent :: "text \<Rightarrow> int option" where
  "exponent s =
    (case s of
      [] \<Rightarrow> Some 0
    | c # t \<Rightarrow>
      (let (sign, ds) = read_sign t
       in if (c = 101 \<or> c = 69) \<and> ds \<noteq> [] \<and> list_all is_digit ds then Some (sign * int (digits_value ds)) else None))"

definition unsigned_number :: "int \<Rightarrow> text \<Rightarrow> js_number" where
  "unsigned_number sign s =
    (if s = lit ''Infinity'' then Infinite (sign > 0)
     else (let (ip, r) = span_digits s;
               (fp, r) = (case read_char 46 r of Some t \<Rightarrow> span_digits t | None \<Rightarrow> ([], r))
       in if ip @ fp = [] then NaN
          else (case exponent r of None \<Rightarrow> NaN
            | Some e \<Rightarrow> Dec (sign * int (digits_value (ip @ fp))) (e - int (length fp)))))"

definition based :: "text \<Rightarrow> (nat \<times> text) option" where
  "based s = (case s of
      z # c # ds \<Rightarrow>
        if z \<noteq> 48 then None
        else if c = 120 \<or> c = 88 then Some (16, ds)
        else if c = 111 \<or> c = 79 then Some (8, ds)
        else if c = 98 \<or> c = 66 then Some (2, ds)
        else None
    | _ \<Rightarrow> None)"

definition number_of :: "text \<Rightarrow> js_number" where
  "number_of s =
    (let s = trim s
     in if s = [] then Dec 0 0
        else case based s of
          Some (b, ds) \<Rightarrow> in_base b ds
        | None \<Rightarrow> (let (sign, t) = read_sign s in unsigned_number sign t))"

text \<open>\<open>Number(argv[i])\<close>, which may be \<open>undefined\<close>.\<close>

definition number_arg :: "text option \<Rightarrow> js_number" where
  "number_arg a = (case a of None \<Rightarrow> NaN | Some s \<Rightarrow> number_of s)"

text \<open>\<open>BigInt(Math.round(x * 1e6))\<close>, which throws for what is no number; and \<open>x >>> 0\<close>.\<close>

definition round_dec :: "int \<Rightarrow> int \<Rightarrow> int" where
  "round_dec m e = (if 0 \<le> e then m * 10 ^ nat e else (2 * m + 10 ^ nat (- e)) div (2 * 10 ^ nat (- e)))"

definition to_millionths :: "js_number \<Rightarrow> js_error + int" where
  "to_millionths x = (case x of Dec m e \<Rightarrow> Inr (round_dec m (e + 6)) | _ \<Rightarrow> Inl RangeError)"

definition trunc_dec :: "int \<Rightarrow> int \<Rightarrow> int" where
  "trunc_dec m e = (if 0 \<le> e then m * 10 ^ nat e else sgn m * (\<bar>m\<bar> div 10 ^ nat (- e)))"

definition to_uint32 :: "js_number \<Rightarrow> 32 word" where
  "to_uint32 x = (case x of Dec m e \<Rightarrow> word_of_int (trunc_dec m e) | _ \<Rightarrow> 0)"

definition js_succ :: "js_number \<Rightarrow> js_number" where
  "js_succ x = (case x of Dec m e \<Rightarrow> if 0 \<le> e then Dec (m * 10 ^ nat e + 1) 0 else Dec (m + 10 ^ nat (- e)) e | y \<Rightarrow> y)"

section \<open>What an option says happens\<close>

text \<open>The regular expressions, from the left: a number and what must follow it.\<close>

definition read_nat :: "text \<Rightarrow> (nat \<times> text) option" where
  "read_nat s = (let (ds, r) = span_digits s in if ds = [] then None else Some (digits_value ds, r))"

definition COLON :: nat where "COLON = 58"
definition COMMA :: nat where "COMMA = 44"

text \<open>\<open><ms>:<pin>=<0|1>\<close>\<close>

definition parse_gpio_event :: "text \<Rightarrow> pin_event option" where
  "parse_gpio_event s = Option.bind (read_nat s) (\<lambda>(ms, r). Option.bind (read_char COLON r) (\<lambda>r.
     Option.bind (read_nat r) (\<lambda>(pin, r). Option.bind (read_char 61 r) (\<lambda>r.
       if r = [48] \<or> r = [49]
       then Some \<lparr>pin_at = int ms * 1000000, pin_port = 0, pin_number = pin, pin_level = (r = [49])\<rparr> else None))))"

abbreviation "EV_KEY \<equiv> 1 :: int"
abbreviation "EV_ABS \<equiv> 3 :: int"
abbreviation "BTN_TOUCH \<equiv> 0x14a :: int"

definition ev :: "int \<Rightarrow> int \<Rightarrow> int \<Rightarrow> int \<Rightarrow> input_event" where
  "ev t c v s = \<lparr>ev_type = t, ev_code = c, ev_value = v, ev_sync = s\<rparr>"

type_synonym scripted_at = "ns \<times> script_action"

text \<open>\<open><ms>:<x>,<y>\<close>\<close>

definition parse_touch :: "text \<Rightarrow> scripted_at list option" where
  "parse_touch s = Option.bind (read_nat s) (\<lambda>(ms, r). Option.bind (read_char COLON r) (\<lambda>r.
     Option.bind (read_nat r) (\<lambda>(x, r). Option.bind (read_char COMMA r) (\<lambda>r.
       Option.bind (read_nat r) (\<lambda>(y, r). if r \<noteq> [] then None else (let at = int ms * 1000000
         in Some [(at, Events [ev EV_ABS 0 (int x) 0, ev EV_ABS 1 (int y) 0, ev EV_KEY BTN_TOUCH 1 1]),
           (at + 50000000, Events [ev EV_KEY BTN_TOUCH 0 1])]))))))"

text \<open>\<open><ms>:<code>\<close>\<close>

definition parse_key :: "text \<Rightarrow> scripted_at list option" where
  "parse_key s = Option.bind (read_nat s) (\<lambda>(ms, r). Option.bind (read_char COLON r) (\<lambda>r.
     Option.bind (read_nat r) (\<lambda>(code, r). if r \<noteq> [] then None else (let at = int ms * 1000000
       in Some [(at, Events [ev EV_KEY (int code) 1 1]), (at + 50000000, Events [ev EV_KEY (int code) 0 1])]))))"

text \<open>\<open>(-?\d+(?:\.\d+)?)\<close>, in millionths\<close>

definition read_decimal :: "text \<Rightarrow> (int \<times> text) option" where
  "read_decimal s =
    (let (sign, s) = (case read_char 45 s of Some t \<Rightarrow> (- 1, t) | None \<Rightarrow> (1 :: int, s)); (ip, r) = span_digits s;
         (fp, r) = (case read_char 46 r of
             Some t \<Rightarrow> (let (fp, u) = span_digits t in if fp = [] then ([], r) else (fp, u))
           | None \<Rightarrow> ([], r))
     in if ip = [] then None
        else Some (round_dec (sign * int (digits_value (ip @ fp))) (6 - int (length fp)), r))"

text \<open>\<open><ms>:<x>,<y>,<z>\<close>\<close>

definition parse_accel :: "text \<Rightarrow> scripted_at option" where
  "parse_accel s = Option.bind (read_nat s) (\<lambda>(ms, r). Option.bind (read_char COLON r) (\<lambda>r.
     Option.bind (read_decimal r) (\<lambda>(x, r). Option.bind (read_char COMMA r) (\<lambda>r.
       Option.bind (read_decimal r) (\<lambda>(y, r). Option.bind (read_char COMMA r) (\<lambda>r.
         Option.bind (read_decimal r) (\<lambda>(z, r). if r \<noteq> [] then None
           else Some (int ms * 1000000, Sensors (map (\<lambda>(axis, v).
             \<lparr>sensor = 0, channel = axis, millionths = v\<rparr>) [(0, x), (1, y), (2, z)])))))))))"

text \<open>\<open>httpGet(path)\<close>, and \<open><ms>:<port>[:<path>]\<close>\<close>

definition http_get :: "text option \<Rightarrow> text" where
  "http_get path = lit ''GET '' @ (case path of None \<Rightarrow> lit ''/'' | Some p \<Rightarrow> p) @ lit '' HTTP/1.0'' @ CRLF @ CRLF"

record dial_spec =
  dial_at_ms :: nat
  dial_port :: nat
  dial_send :: "text"

definition parse_dial :: "text \<Rightarrow> dial_spec option" where
  "parse_dial s = Option.bind (read_nat s) (\<lambda>(ms, r). Option.bind (read_char COLON r) (\<lambda>r.
     Option.bind (read_nat r) (\<lambda>(port, r).
       let dial = (\<lambda>path. Some \<lparr>dial_at_ms = ms, dial_port = port, dial_send = http_get path\<rparr>)
       in if r = [] then dial None
          else Option.bind (read_char COLON r) (\<lambda>path.
            if read_char 47 path \<noteq> None \<and> list_all (\<lambda>c. \<not> is_space c) path then dial (Some path) else None))))"

definition parse_ping :: "text \<Rightarrow> nat option" where
  "parse_ping s = (if s \<noteq> [] \<and> list_all is_digit s then Some (digits_value s) else None)"

section \<open>The arguments\<close>

text \<open>A run that does not start: the process exits, or an exception ends it.\<close>

datatype cli_end = Exit nat | Uncaught js_error

record args =
  a_realtime :: bool
  a_trace_switches :: bool
  a_trace_gpio :: bool
  a_max_time :: js_number
  a_stop_at_max_time :: bool
  a_interactive :: bool
  a_gpio :: "pin_event list"
  a_input_script :: "scripted_at list"
  a_type_held :: bool
  a_paced :: bool
  a_time_scale :: js_number
  a_seed :: "js_number option"
  a_true_random :: bool
  a_threads :: bool
  a_flash_file :: "text option"
  a_semihost_dir :: "text option"
  a_screenshot :: "text option"
  a_peer :: "text option"
  a_peer_out :: "text option"
  a_peer_delay :: "js_number option"
  a_peer_stdin :: "text option"
  a_uplink :: "text option"
  a_hci_tty :: "text option"
  a_hci_no_flow :: bool
  a_lan :: bool
  a_lan_dial :: "dial_spec list"
  a_lan_ping :: "nat list"
  a_wasm :: "text option"

definition default_args :: args where
  "default_args = \<lparr>a_realtime = False, a_trace_switches = False, a_trace_gpio = False, a_max_time = Dec 10000 0,
     a_stop_at_max_time = False, a_interactive = False, a_gpio = [], a_input_script = [], a_type_held = False,
     a_paced = False, a_time_scale = Dec 1 0, a_seed = None, a_true_random = False, a_threads = False,
     a_flash_file = None, a_semihost_dir = None, a_screenshot = None, a_peer = None, a_peer_out = None,
     a_peer_delay = None, a_peer_stdin = None, a_uplink = None, a_hci_tty = None, a_hci_no_flow = False,
     a_lan = False, a_lan_dial = [], a_lan_ping = [], a_wasm = None\<rparr>"

definition RELAYNET_URL :: "text" where "RELAYNET_URL = lit ''wss://relay.relaynet.network/''"

text \<open>A specification that does not read ends the process; \<open>undefined\<close> reads as no text.\<close>

definition spec_arg :: "(text \<Rightarrow> 'a option) \<Rightarrow> text option \<Rightarrow> ('a \<Rightarrow> args) \<Rightarrow> cli_end + args" where
  "spec_arg parse v k = (case parse (case v of None \<Rightarrow> [] | Some s \<Rightarrow> s) of None \<Rightarrow> Inl (Exit 2) | Some x \<Rightarrow> Inr (k x))"

text \<open>Options that take no value.\<close>

definition flag :: "text \<Rightarrow> args \<Rightarrow> args option" where
  "flag a o1 =
    (if a = lit ''--realtime'' then Some (o1\<lparr>a_realtime := True\<rparr>)
     else if a = lit ''--paced'' then Some (o1\<lparr>a_paced := True\<rparr>)
     else if a = lit ''--true-random'' then Some (o1\<lparr>a_true_random := True\<rparr>)
     else if a = lit ''--threads'' then Some (o1\<lparr>a_threads := True\<rparr>)
     else if a = lit ''--trace-switches'' then Some (o1\<lparr>a_trace_switches := True\<rparr>)
     else if a = lit ''--trace-gpio'' then Some (o1\<lparr>a_trace_gpio := True\<rparr>)
     else if a = lit ''--interactive'' then Some (o1\<lparr>a_interactive := True\<rparr>)
     else if a = lit ''--hci-no-flow'' then Some (o1\<lparr>a_hci_no_flow := True\<rparr>)
     else if a = lit ''--lan'' then Some (o1\<lparr>a_lan := True\<rparr>)
     else if a = lit ''--stop-at-max-time'' then Some (o1\<lparr>a_stop_at_max_time := True\<rparr>)
     else None)"

text \<open>Options whose value is the next argument, if there is one.\<close>

definition valued :: "text \<Rightarrow> text option \<Rightarrow> args \<Rightarrow> (cli_end + args) option" where
  "valued a v o1 =
    (if a = lit ''--time-scale'' then Some (Inr (o1\<lparr>a_time_scale := number_arg v\<rparr>))
     else if a = lit ''--seed'' then Some (Inr (o1\<lparr>a_seed := Some (number_arg v)\<rparr>))
     else if a = lit ''--gpio'' then Some (spec_arg parse_gpio_event v (\<lambda>x. o1\<lparr>a_gpio := a_gpio o1 @ [x]\<rparr>))
     else if a = lit ''--flash'' then Some (Inr (o1\<lparr>a_flash_file := v\<rparr>))
     else if a = lit ''--semihost-dir'' then Some (Inr (o1\<lparr>a_semihost_dir := v\<rparr>))
     else if a = lit ''--screenshot'' then Some (Inr (o1\<lparr>a_screenshot := v\<rparr>))
     else if a = lit ''--touch'' then Some (spec_arg parse_touch v (\<lambda>x. o1\<lparr>a_input_script := a_input_script o1 @ x\<rparr>))
     else if a = lit ''--key'' then Some (spec_arg parse_key v (\<lambda>x. o1\<lparr>a_input_script := a_input_script o1 @ x\<rparr>))
     else if a = lit ''--accel'' then Some (spec_arg parse_accel v (\<lambda>x. o1\<lparr>a_input_script := a_input_script o1 @ [x]\<rparr>))
     else if a = lit ''--type-at'' then Some (case to_millionths (number_arg v) of
         Inl e \<Rightarrow> Inl (Uncaught e)
       | Inr t \<Rightarrow> Inr (o1\<lparr>a_input_script := a_input_script o1 @ [(t, TypeStart)], a_type_held := True\<rparr>))
     else if a = lit ''--peer'' then Some (Inr (o1\<lparr>a_peer := v\<rparr>))
     else if a = lit ''--peer-out'' then Some (Inr (o1\<lparr>a_peer_out := v\<rparr>))
     else if a = lit ''--peer-delay'' then Some (Inr (o1\<lparr>a_peer_delay := Some (number_arg v)\<rparr>))
     else if a = lit ''--peer-stdin'' then Some (Inr (o1\<lparr>a_peer_stdin := v\<rparr>))
     else if a = lit ''--uplink'' then Some (Inr (o1\<lparr>a_uplink := (if v = Some (lit ''relaynet'') then Some RELAYNET_URL else v)\<rparr>))
     else if a = lit ''--hci-tty'' then Some (Inr (o1\<lparr>a_hci_tty := v\<rparr>))
     else if a = lit ''--lan-dial'' then Some (spec_arg parse_dial v (\<lambda>x. o1\<lparr>a_lan := True, a_lan_dial := a_lan_dial o1 @ [x]\<rparr>))
     else if a = lit ''--lan-ping'' then Some (spec_arg parse_ping v (\<lambda>x. o1\<lparr>a_lan := True, a_lan_ping := a_lan_ping o1 @ [x]\<rparr>))
     else if a = lit ''--max-time'' then Some (Inr (o1\<lparr>a_max_time := number_arg v\<rparr>))
     else None)"

text \<open>What is left: a limit after an equals sign, help, the module, and what is unknown.\<close>

definition other_arg :: "text \<Rightarrow> args \<Rightarrow> cli_end + args" where
  "other_arg a o1 =
    (if starts_with (lit ''--max-time='') a then Inr (o1\<lparr>a_max_time := number_of (drop 11 a)\<rparr>)
     else if a = lit ''--help'' \<or> a = lit ''-h'' then Inl (Exit 0)
     else if \<not> starts_with (lit ''-'') a then Inr (o1\<lparr>a_wasm := Some a\<rparr>)
     else Inl (Exit 2))"

function read_args :: "text list \<Rightarrow> args \<Rightarrow> cli_end + args" where
  "read_args [] o1 = Inr o1"
| "read_args (a # rest) o1 =
    (case flag a o1 of
      Some o2 \<Rightarrow> read_args rest o2
    | None \<Rightarrow>
      (case valued a (case rest of [] \<Rightarrow> None | v # _ \<Rightarrow> Some v) o1 of
        Some (Inl e) \<Rightarrow> Inl e
      | Some (Inr o2) \<Rightarrow> read_args (tl rest) o2
      | None \<Rightarrow> (case other_arg a o1 of Inl e \<Rightarrow> Inl e | Inr o2 \<Rightarrow> read_args rest o2)))"
  by pat_completeness auto
termination by (relation "measure (\<lambda>(as, _). length as)") (auto simp: le_imp_less_Suc)

text \<open>No text is no value, where the code asks whether there is one.\<close>

definition given :: "text option \<Rightarrow> bool" where
  "given v \<longleftrightarrow> v \<noteq> None \<and> v \<noteq> Some []"

definition parse_args :: "text list \<Rightarrow> cli_end + args" where
  "parse_args argv =
    (case read_args argv default_args of
      Inl e \<Rightarrow> Inl e
    | Inr o1 \<Rightarrow>
      if \<not> given (a_wasm o1) then Inl (Exit 2)
      else if length (filter id [given (a_uplink o1), given (a_peer o1), a_lan o1]) > 1 then Inl (Exit 2)
      else (let o1 = (if given (a_uplink o1) then o1\<lparr>a_paced := True\<rparr> else o1);
                o1 = (if given (a_hci_tty o1) then o1\<lparr>a_paced := True, a_true_random := True\<rparr> else o1)
        in Inr (o1\<lparr>a_input_script := sort_key fst (a_input_script o1)\<rparr>)))"

section \<open>The two boards' seeds\<close>

definition own_seed :: "args \<Rightarrow> 32 word option" where
  "own_seed o1 = map_option to_uint32 (a_seed o1)"

definition peer_seed :: "args \<Rightarrow> 32 word option" where
  "peer_seed o1 = Some (case a_seed o1 of None \<Rightarrow> DEFAULT_SEED + 1 | Some x \<Rightarrow> to_uint32 (js_succ x))"

section \<open>What is typed\<close>

text \<open>A chunk from the terminal: bytes up to Ctrl-C, and whether it was there.\<close>

definition on_stdin :: "nat list \<Rightarrow> nat list \<times> bool" where
  "on_stdin chunk = (takeWhile (\<lambda>b. b \<noteq> 3) chunk, 3 \<in> set chunk)"

section \<open>When the run is over\<close>

text \<open>
  \<open>path.resolve\<close>, where / is the separator: the parts of the path from the root. \<open>cwd\<close> is the working
  directory, which is absolute.
\<close>

fun normal_parts :: "text list \<Rightarrow> text list \<Rightarrow> text list" where
  "normal_parts out [] = out"
| "normal_parts out (p # ps) =
    (if p = [] \<or> p = lit ''.'' then normal_parts out ps
     else if p = lit ''..'' then normal_parts (butlast out) ps
     else normal_parts (out @ [p]) ps)"

definition resolve :: "text list \<Rightarrow> text \<Rightarrow> text list" where
  "resolve base p = normal_parts (if starts_with (lit ''/'') p then [] else base) (split_char 47 p)"

definition path_text :: "text list \<Rightarrow> text" where
  "path_text parts = lit ''/'' @ join_text (lit ''/'') parts"

text \<open>The files that the guest made, each with where it goes, or left out for being outside.\<close>

definition semihost_out :: "text list \<Rightarrow> text \<Rightarrow> (text \<times> nat list) list \<Rightarrow> (text \<times> nat list) list" where
  "semihost_out cwd dir files =
    (let root = resolve cwd dir
     in concat (map (\<lambda>(name, bytes). let out = path_text (resolve root name)
          in if starts_with (path_text root @ lit ''/'') out then [(out, bytes)] else []) files))"

text \<open>The display's last frame, as a binary PPM.\<close>

fun rgb_of :: "nat list \<Rightarrow> nat list" where
  "rgb_of (r # g # b # a # rest) = r # g # b # rgb_of rest"
| "rgb_of _ = []"

definition ppm :: "frame \<Rightarrow> nat list" where
  "ppm f = lit ''P6'' @ [10] @ nat_text (frame_width f) @ lit '' '' @ nat_text (frame_height f) @ [10] @ lit ''255'' @ [10]
     @ rgb_of (rgba f)"

text \<open>The process's code, where there is no frame to write.\<close>

definition screenshot_code :: "frame option \<Rightarrow> nat \<Rightarrow> nat" where
  "screenshot_code f code = (if f = None \<and> code = 0 then 1 else code)"

end
