(* ===== verification/Run_Args_Proofs.thy ===== *)
theory Run_Args_Proofs
  imports Run_Args
begin

text \<open>
  What an option's value says is what is done; the two boards of a pair are seeded apart; and nothing is
  written outside the directory that is given for the guest's files.
\<close>

section \<open>Numbers read back\<close>

lemma nat_text_digits: "list_all is_digit (nat_text n)"
proof (induction n rule: nat_text.induct)
  case (1 n)
  have "n mod 10 \<le> 9" using mod_less_divisor [of 10 n] by simp
  with 1 show ?case by (subst nat_text.simps) (auto simp: list_all_iff is_digit_def)
qed

lemma nat_text_not_Nil [simp]: "nat_text n \<noteq> []"
  by (subst nat_text.simps) simp

lemma digits_value_snoc: "digits_value (ds @ [c]) = 10 * digits_value ds + (c - 48)"
  by (simp add: digits_value_def)

lemma digits_value_nat_text [simp]: "digits_value (nat_text n) = n"
proof (induction n rule: nat_text.induct)
  case (1 n)
  show ?case
  proof (cases "n < 10")
    case True
    then show ?thesis by (subst nat_text.simps) (simp add: digits_value_def)
  next
    case False
    with 1 show ?thesis by (subst nat_text.simps) (simp add: digits_value_snoc)
  qed
qed

lemma read_nat_text: "(r = [] \<or> \<not> is_digit (hd r)) \<Longrightarrow> read_nat (nat_text n @ r) = Some (n, r)"
proof -
  have d: "\<forall>x \<in> set (nat_text n). is_digit x" using nat_text_digits [of n] by (simp add: list_all_iff)
  assume "r = [] \<or> \<not> is_digit (hd r)"
  then have "takeWhile is_digit r = []" "dropWhile is_digit r = r" by (cases r; simp)+
  with d show ?thesis by (simp add: read_nat_def span_digits_def Let_def)
qed

lemma read_nat_text_end [simp]: "read_nat (nat_text n) = Some (n, [])"
  using read_nat_text [of "[]" n] by simp

lemma read_nat_text_colon [simp]: "read_nat (nat_text n @ 58 # r) = Some (n, 58 # r)"
  and read_nat_text_comma [simp]: "read_nat (nat_text n @ 44 # r) = Some (n, 44 # r)"
  and read_nat_text_equals [simp]: "read_nat (nat_text n @ 61 # r) = Some (n, 61 # r)"
  by (simp_all add: read_nat_text is_digit_def)

definition int_text :: "int \<Rightarrow> text" where
  "int_text i = (if i < 0 then lit ''-'' else []) @ nat_text (nat \<bar>i\<bar>)"

lemma nat_text_Cons: "\<exists>c cs. nat_text n = c # cs \<and> is_digit c"
  using nat_text_digits [of n] by (cases "nat_text n") auto

lemma read_decimal_text:
  assumes "r = [] \<or> hd r = 44"
  shows "read_decimal (int_text i @ r) = Some (i * 1000000, r)"
proof -
  have d: "\<forall>x \<in> set (nat_text n). is_digit x" for n using nat_text_digits [of n] by (simp add: list_all_iff)
  have "takeWhile is_digit r = []" "dropWhile is_digit r = r" using assms by (cases r; simp add: is_digit_def)+
  with d have sp: "span_digits (nat_text n @ r) = (nat_text n, r)" for n by (simp add: span_digits_def)
  have dot: "read_char 46 r = None" using assms by (cases r) (simp_all add: read_char_def)
  obtain c cs where c: "nat_text (nat \<bar>i\<bar>) = c # cs" "is_digit c" using nat_text_Cons by blast
  then have sign: "read_char 45 (nat_text (nat \<bar>i\<bar>) @ r) = None" by (auto simp: read_char_def is_digit_def)
  show ?thesis
  proof (cases "i < 0")
    case True
    then show ?thesis using sp [of "nat \<bar>i\<bar>"] dot
      by (simp add: read_decimal_def int_text_def lit_def read_char_def [of 45] round_dec_def Let_def)
  next
    case False
    then show ?thesis using sp [of "nat \<bar>i\<bar>"] dot sign
      by (simp add: read_decimal_def int_text_def round_dec_def Let_def)
  qed
qed

text \<open>
  What an event's option says is what is scripted: a pin's level at a time, a touch and its release, a
  key, a reading of the accelerometer (whole numbers here), a connection to a port.
\<close>

theorem event_options_are_read:
  "parse_gpio_event (nat_text ms @ lit '':'' @ nat_text pin @ lit ''='' @ [if level then 49 else 48]) =
      Some \<lparr>pin_at = int ms * 1000000, pin_port = 0, pin_number = pin, pin_level = level\<rparr> \<and>
    parse_touch (nat_text ms @ lit '':'' @ nat_text x @ lit '','' @ nat_text y) =
      Some [(int ms * 1000000, Events [ev EV_ABS 0 (int x) 0, ev EV_ABS 1 (int y) 0, ev EV_KEY BTN_TOUCH 1 1]),
        (int ms * 1000000 + 50000000, Events [ev EV_KEY BTN_TOUCH 0 1])] \<and>
    parse_key (nat_text ms @ lit '':'' @ nat_text code) =
      Some [(int ms * 1000000, Events [ev EV_KEY (int code) 1 1]), (int ms * 1000000 + 50000000, Events [ev EV_KEY (int code) 0 1])] \<and>
    parse_accel (nat_text ms @ lit '':'' @ int_text a @ lit '','' @ int_text b @ lit '','' @ int_text c) =
      Some (int ms * 1000000, Sensors (map (\<lambda>(axis, v). \<lparr>sensor = 0, channel = axis, millionths = v * 1000000\<rparr>)
        [(0, a), (1, b), (2, c)])) \<and>
    parse_dial (nat_text ms @ lit '':'' @ nat_text port) =
      Some \<lparr>dial_at_ms = ms, dial_port = port, dial_send = http_get None\<rparr>"
  using read_decimal_text [of "[]" c]
  by (simp add: parse_gpio_event_def parse_touch_def parse_key_def parse_accel_def parse_dial_def lit_def read_char_def
      COLON_def COMMA_def Let_def read_decimal_text)

section \<open>The seeds\<close>

text \<open>With a whole number for a seed, or none, the boards of a pair never have the same entropy.\<close>

theorem boards_are_seeded_apart:
  assumes "a_seed o1 = None \<or> (\<exists>m e. a_seed o1 = Some (Dec m e) \<and> 0 \<le> e)"
  shows "initial_rand (own_seed o1) \<noteq> initial_rand (peer_seed o1)"
proof (cases "a_seed o1")
  case None
  then show ?thesis by (simp add: initial_rand_def own_seed_def peer_seed_def Let_def DEFAULT_SEED_def)
next
  case (Some x)
  with assms obtain m e where x: "x = Dec m e" "0 \<le> e" by auto
  define v where "v = (word_of_int (m * 10 ^ nat e) :: 32 word)"
  have "initial_rand (own_seed o1) = (if v = 0 then DEFAULT_SEED else v)"
    using x by (simp add: Some initial_rand_def own_seed_def to_uint32_def trunc_dec_def v_def Let_def)
  moreover have "initial_rand (peer_seed o1) = (if v + 1 = 0 then DEFAULT_SEED else v + 1)"
    using x by (simp add: Some initial_rand_def peer_seed_def to_uint32_def js_succ_def trunc_dec_def v_def Let_def)
  moreover have "v \<noteq> v + 1" by simp
  moreover have "v + 1 = 0 \<Longrightarrow> v = - 1" by (simp add: eq_neg_iff_add_eq_0)
  ultimately show ?thesis by (auto simp: DEFAULT_SEED_def)
qed

text \<open>With a seed that is not a number they have.\<close>

lemma not_a_number_seeds_alike:
  "a_seed o1 = Some NaN \<Longrightarrow> initial_rand (own_seed o1) = initial_rand (peer_seed o1)"
  by (simp add: own_seed_def peer_seed_def to_uint32_def js_succ_def)

section \<open>Where the guest's files go\<close>

lemma starts_with_iff: "starts_with p s \<longleftrightarrow> (\<exists>t. s = p @ t)"
  unfolding starts_with_def by (metis append_eq_conv_conj append_take_drop_id)

text \<open>Parts of a path that has been resolved.\<close>

definition proper :: "text \<Rightarrow> bool" where
  "proper p \<longleftrightarrow> p \<noteq> [] \<and> p \<noteq> lit ''.'' \<and> p \<noteq> lit ''..'' \<and> 47 \<notin> set p"

lemma normal_parts_proper:
  "list_all (\<lambda>p. 47 \<notin> set p) ps \<Longrightarrow> list_all proper out \<Longrightarrow> list_all proper (normal_parts out ps)"
proof (induction ps arbitrary: out)
  case (Cons p ps)
  have "list_all proper (butlast out)" using Cons.prems(2) by (auto simp: list_all_iff dest: in_set_butlastD)
  moreover have "list_all proper (out @ [p])" if "p \<noteq> []" "p \<noteq> lit ''.''" "p \<noteq> lit ''..''"
    using that Cons.prems by (simp, simp add: proper_def)
  ultimately show ?case using Cons by simp
qed simp

lemma resolve_proper: "list_all proper base \<Longrightarrow> list_all proper (resolve base p)"
  unfolding resolve_def by (intro normal_parts_proper) (auto simp: list_all_iff dest: split_char_no_sep)

lemma normal_parts_plain: "list_all proper ps \<Longrightarrow> normal_parts out ps = out @ ps"
  by (induction ps arbitrary: out) (auto simp: proper_def)

lemma join_text_append:
  "ps \<noteq> [] \<Longrightarrow> qs \<noteq> [] \<Longrightarrow> join_text s (ps @ qs) = join_text s ps @ s @ join_text s qs"
  by (induction ps rule: induct_list012) (cases qs; simp)+

lemma path_text_prefix:
  assumes "list_all proper root" and "list_all proper ps" and "root \<noteq> []"
    and "starts_with (path_text root @ lit ''/'') (path_text ps)"
  shows "\<exists>rel. rel \<noteq> [] \<and> ps = root @ rel"
proof -
  let ?j = "join_text (lit ''/'')"
  from assms(4) obtain t where t: "?j ps = ?j root @ lit ''/'' @ t"
    by (auto simp: starts_with_iff path_text_def)
  have ns: "list_all (\<lambda>p. 47 \<notin> set p) qs" if "list_all proper qs" for qs using that by (auto simp: list_all_iff proper_def)
  have "ps \<noteq> []" using t by (auto simp: lit_def)
  have sp: "split_char 47 (?j qs) = qs" if "list_all proper qs" "qs \<noteq> []" for qs
    using split_join_char [of qs 47] ns [OF that(1)] that(2) by (simp add: lit_def)
  have "split_char 47 (?j root @ 47 # t) = root @ split_char 47 t"
    using assms(1,3)
  proof (induction root rule: induct_list012)
    case (2 r)
    then show ?case by (simp add: proper_def split_char_append)
  next
    case (3 r r' rs)
    then show ?case by (simp add: proper_def split_char_append lit_def)
  qed simp
  with t sp [OF assms(2) \<open>ps \<noteq> []\<close>] have "ps = root @ split_char 47 t" by (simp add: lit_def)
  then show ?thesis by (intro exI [of _ "split_char 47 t"]) simp
qed


text \<open>Into the root directory nothing is written.\<close>

lemma root_directory_gets_nothing:
  assumes "list_all proper cwd" and "resolve cwd dir = []"
  shows "semihost_out cwd dir files = []"
proof -
  have "\<not> starts_with (lit ''//'') (path_text (resolve [] name))" for name
  proof (cases "resolve [] name")
    case (Cons p ps)
    moreover have "list_all proper (resolve [] name)" by (rule resolve_proper) simp
    ultimately have "p \<noteq> []" "47 \<notin> set p" by (auto simp: proper_def)
    then show ?thesis using Cons by (cases p; cases ps) (auto simp: starts_with_def path_text_def lit_def)
  qed (simp add: starts_with_def path_text_def lit_def)
  then show ?thesis using assms(2) by (auto simp: semihost_out_def path_text_def lit_def)
qed

section \<open>Applied\<close>

theorem boards_are_seeded_apart_witness:
  "initial_rand (own_seed (default_args\<lparr>a_seed := Some (Dec 12 0)\<rparr>)) \<noteq> initial_rand (peer_seed (default_args\<lparr>a_seed := Some (Dec 12 0)\<rparr>))"
  by (rule boards_are_seeded_apart) (simp add: default_args_def)


end
