(* ===== verification/Lan_Udp.thy ===== *)
theory Lan_Udp
  imports Js_Text
begin

text \<open>
  The host's LAN over UDP (host/lan_services.mjs): DHCP, DNS, SNTP and TFTP, each a function from the
  datagram that came in, and what the service remembers, to the datagrams it sends. The stack that
  carries them is lwIP, which is not in the repository; what goes through it is bytes. What is only
  logged is left out.
\<close>

section \<open>Bytes in network order\<close>

definition be16 :: "nat \<Rightarrow> nat list" where
  "be16 v = [(v div 256) mod 256, v mod 256]"

definition rdb16 :: "nat list \<Rightarrow> nat \<Rightarrow> nat" where
  "rdb16 b i = 256 * byte_at b i + byte_at b (i + 1)"

definition be32 :: "nat \<Rightarrow> nat list" where
  "be32 v = be16 (v div 65536) @ be16 v"

definition rdb32 :: "nat list \<Rightarrow> nat \<Rightarrow> nat" where
  "rdb32 b i = 65536 * rdb16 b i + rdb16 b (i + 2)"

text \<open>\<open>out.set(bytes, at)\<close>, where the bytes fit.\<close>

definition put_at :: "nat \<Rightarrow> nat list \<Rightarrow> nat list \<Rightarrow> nat list" where
  "put_at a bs m = take a m @ bs @ drop (a + length bs) m"

definition LAN_IP :: "nat list" where "LAN_IP = [192, 0, 2, 2]"
definition BOARD_IP :: "nat list" where "BOARD_IP = [192, 0, 2, 1]"
definition BROADCAST :: "nat list" where "BROADCAST = [255, 255, 255, 255]"

lemma length_be [simp]: "length (be16 v) = 2" "length (be32 v) = 4"
  by (simp_all add: be16_def be32_def)

lemma length_put_at [simp]: "a + length bs \<le> length m \<Longrightarrow> length (put_at a bs m) = length m"
  by (simp add: put_at_def)

lemma byte_at_put_at:
  "a + length bs \<le> length m \<Longrightarrow>
    byte_at (put_at a bs m) i = (if a \<le> i \<and> i < a + length bs then bs ! (i - a) else byte_at m i)"
  by (auto simp: byte_at_def put_at_def nth_append)

lemma nth_put_at_before: "j < a \<Longrightarrow> a + length bs \<le> length m \<Longrightarrow> put_at a bs m ! j = m ! j"
  by (simp add: put_at_def nth_append)

lemma slice_put_at_same:
  "a + length bs \<le> length m \<Longrightarrow> js_slice (put_at a bs m) a (a + length bs) = bs"
  by (simp add: js_slice_def put_at_def)

lemma slice_put_at_other:
  "a + length bs \<le> length m \<Longrightarrow> j \<le> a \<or> a + length bs \<le> i \<Longrightarrow>
    js_slice (put_at a bs m) i j = js_slice m i j"
proof (elim disjE)
  assume "a + length bs \<le> length m" "j \<le> a"
  then have "take j (put_at a bs m) = take j m" by (simp add: put_at_def min_def)
  then show ?thesis by (simp add: js_slice_def flip: drop_take)
next
  assume "a + length bs \<le> length m" "a + length bs \<le> i"
  then have "drop i (put_at a bs m) = drop i m" by (simp add: put_at_def)
  then show ?thesis by (simp add: js_slice_def)
qed

lemma rdb16_be16 [simp]: "v < 65536 \<Longrightarrow> rdb16 (be16 v @ xs) 0 = v"
  by (simp add: rdb16_def be16_def less_mult_imp_div_less)

section \<open>DHCP\<close>

text \<open>The value of an option. A length that is missing ends the search.\<close>

function dhcp_option_from :: "nat list \<Rightarrow> nat \<Rightarrow> nat \<Rightarrow> nat list option" where
  "dhcp_option_from msg code i =
    (if i \<ge> length msg then None
     else if msg ! i = 255 then None
     else if msg ! i = 0 then dhcp_option_from msg code (i + 1)
     else if i + 1 \<ge> length msg then (if msg ! i = code then Some [] else None)
     else if msg ! i = code then Some (js_slice msg (i + 2) (i + 2 + msg ! (i + 1)))
     else dhcp_option_from msg code (i + 2 + msg ! (i + 1)))"
  by pat_completeness auto
termination by (relation "measure (\<lambda>(msg, _, i). length msg - i)") auto

declare dhcp_option_from.simps [simp del]

definition dhcp_option :: "nat list \<Rightarrow> nat \<Rightarrow> nat list option" where
  "dhcp_option msg code = dhcp_option_from msg code 240"

definition dhcp_reply_options :: "nat \<Rightarrow> nat list" where
  "dhcp_reply_options reply =
    [53, 1, reply] @ [54, 4] @ LAN_IP @ [51, 4, 0, 1, 0x51, 0x80] @ [1, 4, 255, 255, 255, 0] @
    [3, 4] @ LAN_IP @ [6, 4] @ LAN_IP @ [255]"

definition dhcp_reply :: "nat list \<Rightarrow> nat \<Rightarrow> nat list" where
  "dhcp_reply msg reply =
    put_at 240 (dhcp_reply_options reply) (put_at 236 [99, 130, 83, 99]
      (put_at 28 (js_slice msg 28 44) (put_at 20 LAN_IP (put_at 16 BOARD_IP
        (put_at 4 (js_slice msg 4 12) (put_at 0 [2, 1, 6, 0] (replicate 300 0)))))))"

text \<open>A datagram, its destination and port; \<open>None\<close> where there is no answer.\<close>

definition dhcp :: "nat list \<Rightarrow> (nat list \<times> nat list \<times> nat) option" where
  "dhcp msg =
    (if length msg < 240 \<or> msg ! 0 \<noteq> 1 then None
     else if js_slice msg 236 240 \<noteq> [99, 130, 83, 99] then None
     else (let type = (case dhcp_option msg 53 of Some (t # _) \<Rightarrow> t | _ \<Rightarrow> 0);
               reply = (if type = 1 then 2 else if type = 3 then 5 else 0)
       in if reply = 0 then None else Some (dhcp_reply msg reply, BROADCAST, 68)))"

section \<open>DNS\<close>

text \<open>The end of the question's name: the index of its final zero, or past the datagram.\<close>

function dns_name_end :: "nat list \<Rightarrow> nat \<Rightarrow> nat" where
  "dns_name_end q i = (if i < length q \<and> q ! i \<noteq> 0 then dns_name_end q (i + 1 + q ! i) else i)"
  by pat_completeness auto
termination by (relation "measure (\<lambda>(q, i). length q - i)") auto

declare dns_name_end.simps [simp del]

definition dns :: "nat list \<Rightarrow> nat list option" where
  "dns q =
    (if length q < 12 \<or> q ! 2 div 128 mod 2 = 1 then None
     else (let i = dns_name_end q 12; q_end = i + 5
       in if q_end > length q then None
          else (let answer = (rdb16 q (i + 1) = 1)
            in Some (js_slice q 0 2 @
                [128 + q ! 2 mod 2, 128, 0, 1, 0, if answer then 1 else 0, 0, 0, 0, 0] @
                js_slice q 12 q_end @
                (if answer then [0xc0, 0x0c, 0, 1, 0, 1, 0, 0, 0x0e, 0x10, 0, 4] @ LAN_IP else [])))))"

section \<open>SNTP\<close>

definition LAN_EPOCH_UNIX :: nat where "LAN_EPOCH_UNIX = 1767225600"
definition NTP_UNIX_OFFSET :: nat where "NTP_UNIX_OFFSET = 2208988800"

definition ntp_time :: "nat \<Rightarrow> nat list" where
  "ntp_time t =
    (let secs = LAN_EPOCH_UNIX + NTP_UNIX_OFFSET + t div 1000000000;
         frac = (t mod 1000000000) * 2 ^ 32 div 1000000000
     in be32 (secs mod 2 ^ 32) @ be32 frac)"

definition sntp :: "nat \<Rightarrow> nat list \<Rightarrow> nat list option" where
  "sntp clock q =
    (if length q < 48 then None
     else Some ([0x24, 1, q ! 2, 0xec] @ replicate 8 0 @ utf8_encode (lit ''LAN'') @ [0] @ ntp_time clock @
       js_slice q 40 48 @ ntp_time clock @ ntp_time clock))"

section \<open>TFTP\<close>

definition TFTP_BLOCK :: nat where "TFTP_BLOCK = 512"

definition tftp_file :: "nat list" where
  "tftp_file = utf8_encode
    (lit ''This file was served by the host's LAN, lwIP at 192.0.2.2, running on'' @ [10] @
     lit ''the board's own clock. Nothing left the page to fetch it.'' @ [10])"

definition TFTP_FILES :: "(text \<times> nat list) list" where
  "TFTP_FILES = [(lit ''file1.bin'', tftp_file)]"

definition tftp_error :: "nat \<Rightarrow> text \<Rightarrow> nat list" where
  "tftp_error code msg = [0, 5, 0, code] @ utf8_encode msg @ [0]"

definition tftp_data :: "nat list \<Rightarrow> nat \<Rightarrow> nat list" where
  "tftp_data file block = [0, 3] @ be16 block @ js_slice file ((block - 1) * TFTP_BLOCK) (block * TFTP_BLOCK)"

definition tftp_ack :: "nat \<Rightarrow> nat list" where
  "tftp_ack n = [0, 4] @ be16 n"

text \<open>A transfer has a socket of its own, which is gone (\<open>None\<close>) when it is over.\<close>

datatype tftp_session =
    Reading "nat list" nat
  | Writing "nat list list" nat

definition tftp_read_msg :: "nat list \<Rightarrow> nat list \<Rightarrow> nat \<Rightarrow> nat list list \<times> tftp_session option" where
  "tftp_read_msg msg file block =
    (if rdb16 msg 0 \<noteq> 4 then ([], Some (Reading file block))
     else if rdb16 msg 2 \<noteq> block then ([tftp_data file block], Some (Reading file block))
     else if (block - 1) * TFTP_BLOCK + TFTP_BLOCK > length file then ([], None)
     else ([tftp_data file (block + 1)], Some (Reading file (block + 1))))"

definition tftp_write_msg :: "nat list \<Rightarrow> nat list list \<Rightarrow> nat \<Rightarrow> nat list list \<times> tftp_session option" where
  "tftp_write_msg msg parts expected =
    (let block = rdb16 msg 2
     in if rdb16 msg 0 \<noteq> 3 then ([], Some (Writing parts expected))
        else (let fresh = (block = expected);
                  parts = (if fresh then parts @ [drop 4 msg] else parts);
                  expected = (if fresh then expected + 1 else expected)
          in ([tftp_ack block],
              if block + 1 = expected \<and> length msg < 4 + TFTP_BLOCK then None
              else Some (Writing parts expected))))"

definition tftp_msg :: "nat list \<Rightarrow> tftp_session \<Rightarrow> nat list list \<times> tftp_session option" where
  "tftp_msg msg s = (case s of
      Reading file block \<Rightarrow> tftp_read_msg msg file block
    | Writing parts expected \<Rightarrow> tftp_write_msg msg parts expected)"

text \<open>\<open>req.subarray(2, req.indexOf(0, 2))\<close>: without a zero the index is -1, the end but one.\<close>

definition tftp_name :: "nat list \<Rightarrow> nat list" where
  "tftp_name req = (if 0 \<in> set (drop 2 req) then takeWhile (\<lambda>x. x \<noteq> 0) (drop 2 req)
     else butlast (drop 2 req))"

text \<open>
  The datagrams the transfer's socket sends first. A name that every object inherits is found in
  \<open>TFTP_FILES\<close>, and is not a file: \<open>subarray\<close> is not one of its methods.
\<close>

definition tftp :: "nat list \<Rightarrow> js_error + nat list list \<times> tftp_session option" where
  "tftp req =
    (if rdb16 req 0 = 1
     then (case js_get TFTP_FILES (utf8_decode (tftp_name req)) of
         Absent \<Rightarrow> Inr ([tftp_error 1 (lit ''File not found'')], None)
       | Inherited \<Rightarrow> Inl TypeError
       | Own file \<Rightarrow> Inr ([tftp_data file 1], Some (Reading file 1)))
     else if rdb16 req 0 = 2 then Inr ([tftp_ack 0], Some (Writing [] 1))
     else Inr ([], None))"

end
