(* ===== verification/Lan_Dial.thy ===== *)
theory Lan_Dial
  imports Timed_Queue Lan_Udp Run_Args
begin

text \<open>
  The LAN calling on the board (host/lan_services.mjs, \<open>pings\<close> and \<open>dial\<close>; host/lan.mjs, \<open>ping\<close> and what
  it does with a reply): pings, each logged with its answer or with none, and connections to a port,
  tried again until one is made. What lwIP does between is what happens: replies, connections, data.
\<close>

section \<open>Pings\<close>

definition PING_ID :: nat where "PING_ID = 0x4c41"

text \<open>The sequence numbers that have not been answered, and the log: a ping, and whether it was.\<close>

record pinger =
  pinging :: "nat list"
  ping_log :: "(nat \<times> bool) list"

text \<open>A ping's time has come, a second has passed since, or a reply has come; which says whether it was
  taken.\<close>

datatype ping_event = Ping_due nat | Ping_late nat | Echo_reply nat nat

definition ping_answered :: "nat \<Rightarrow> bool \<Rightarrow> pinger \<Rightarrow> pinger" where
  "ping_answered seq yes p =
    (if seq \<in> set (pinging p) then p\<lparr>pinging := removeAll seq (pinging p), ping_log := ping_log p @ [(seq, yes)]\<rparr> else p)"

fun ping_step :: "ping_event \<Rightarrow> pinger \<Rightarrow> pinger" where
  "ping_step (Ping_due seq) p = p\<lparr>pinging := List.insert seq (pinging p)\<rparr>"
| "ping_step (Ping_late seq) p = ping_answered seq False p"
| "ping_step (Echo_reply ident seq) p = (if ident = PING_ID then ping_answered seq True p else p)"

definition reply_taken :: "nat \<Rightarrow> nat \<Rightarrow> pinger \<Rightarrow> bool" where
  "reply_taken ident seq p \<longleftrightarrow> ident = PING_ID \<and> seq \<in> set (pinging p)"

section \<open>Dialling\<close>

text \<open>A connection that was tried, whether it was made, and what has come back; they are numbered.\<close>

record dialled =
  connected :: bool
  came_back :: "nat list"

text \<open>What waits: an attempt, of so many; or a look whether the connection was made.\<close>

datatype dial_timer = Attempt nat | Look_again nat nat

text \<open>\<open>wrote\<close> is what was written to which connection; the log has a line for each that ended.\<close>

record dialler =
  dial_to :: dial_spec
  dial_timers :: "(ns \<times> dial_timer) list"
  conns :: "dialled list"
  attempts :: nat
  wrote :: "(nat \<times> text) list"
  dial_log :: "text list"

definition dial :: "dial_spec \<Rightarrow> nat \<Rightarrow> dialler" where
  "dial s tries = \<lparr>dial_to = s, dial_timers = [(int (dial_at_ms s) * 1000000, Attempt tries)], conns = [], attempts = 0,
     wrote = [], dial_log = []\<rparr>"

text \<open>\<open>tcpConnect\<close> gives a connection, or none when lwIP has no room.\<close>

definition attempt :: "ns \<Rightarrow> bool \<Rightarrow> nat \<Rightarrow> dialler \<Rightarrow> dialler" where
  "attempt now room n d =
    (let d = d\<lparr>attempts := attempts d + 1\<rparr>
     in if \<not> room then d
        else (let i = length (conns d); d = d\<lparr>conns := conns d @ [\<lparr>connected = False, came_back = []\<rparr>]\<rparr>
          in if n > 1 then d\<lparr>dial_timers := tq_insert (now + 1000000000) (Look_again i n) (dial_timers d)\<rparr> else d))"

text \<open>The first line of what came back, of its first 200 bytes.\<close>

definition first_line :: "nat list \<Rightarrow> text" where
  "first_line bytes = (let t = utf8_decode (take 200 bytes) in case index_of CRLF t of None \<Rightarrow> t | Some i \<Rightarrow> take i t)"

definition end_line :: "dialler \<Rightarrow> dialled \<Rightarrow> text" where
  "end_line d x =
    lit ''dialled '' @ dotted BOARD_IP @ lit '':'' @ nat_text (dial_port (dial_to d)) @ lit '', '' @
    nat_text (length (came_back x)) @ lit '' bytes back'' @
    (if first_line (came_back x) = [] then [] else lit '': '' @ first_line (came_back x))"

text \<open>The first timer fires, at its time, with what \<open>tcpConnect\<close> gives if it comes to that; or lwIP calls.\<close>

datatype dial_event = Timer bool | Connected nat | Data nat "nat list" | Ended nat

fun dial_step :: "dial_event \<Rightarrow> dialler \<Rightarrow> dialler" where
  "dial_step (Timer room) d =
    (case dial_timers d of
      [] \<Rightarrow> d
    | (now, t) # rest \<Rightarrow>
      (let d = d\<lparr>dial_timers := rest\<rparr>
       in case t of
         Attempt n \<Rightarrow> attempt now room n d
       | Look_again i n \<Rightarrow> if connected (conns d ! i) then d else attempt now room (n - 1) d))"
| "dial_step (Connected i) d =
    (if i < length (conns d)
     then d\<lparr>conns := (conns d)[i := (conns d ! i)\<lparr>connected := True\<rparr>], wrote := wrote d @ [(i, dial_send (dial_to d))]\<rparr>
     else d)"
| "dial_step (Data i bytes) d =
    (if i < length (conns d)
     then d\<lparr>conns := (conns d)[i := (conns d ! i)\<lparr>came_back := came_back (conns d ! i) @ bytes\<rparr>]\<rparr> else d)"
| "dial_step (Ended i) d =
    (if i < length (conns d) then d\<lparr>dial_log := dial_log d @ [end_line d (conns d ! i)]\<rparr> else d)"

end
