(* ===== verification/Lan_Dial_Proofs.thy ===== *)
theory Lan_Dial_Proofs
  imports Lan_Dial
begin

text \<open>
  Every ping is logged once, with its answer or with none; dialling stops, after as many attempts as it
  was given at most, and at the first that is made in time.
\<close>

section \<open>Pings\<close>

lemma ping_step_log:
  "\<exists>new. ping_log (ping_step e p) = ping_log p @ new \<and>
    filter (\<lambda>x. fst x = s) new = (case e of
      Ping_due t \<Rightarrow> [] | Ping_late t \<Rightarrow> if t = s \<and> s \<in> set (pinging p) then [(s, False)] else []
    | Echo_reply ident t \<Rightarrow> if ident = PING_ID \<and> t = s \<and> s \<in> set (pinging p) then [(s, True)] else [])"
  by (cases e) (auto simp: ping_answered_def)

definition log_of :: "nat \<Rightarrow> pinger \<Rightarrow> (nat \<times> bool) list" where
  "log_of s p = filter (\<lambda>x. fst x = s) (ping_log p)"

lemma log_of_step:
  "log_of s (ping_step e p) = log_of s p @ (case e of
      Ping_due t \<Rightarrow> [] | Ping_late t \<Rightarrow> if t = s \<and> s \<in> set (pinging p) then [(s, False)] else []
    | Echo_reply ident t \<Rightarrow> if ident = PING_ID \<and> t = s \<and> s \<in> set (pinging p) then [(s, True)] else [])"
  using ping_step_log [of e p s] by (auto simp: log_of_def)

lemma pinging_step:
  "s \<in> set (pinging (ping_step e p)) \<longleftrightarrow> (case e of
      Ping_due t \<Rightarrow> t = s \<or> s \<in> set (pinging p) | Ping_late t \<Rightarrow> t \<noteq> s \<and> s \<in> set (pinging p)
    | Echo_reply ident t \<Rightarrow> \<not> (ident = PING_ID \<and> t = s) \<and> s \<in> set (pinging p))"
  by (cases e) (auto simp: ping_answered_def)

lemma not_waiting:
  assumes "s \<notin> set (pinging p)" and "Ping_due s \<notin> set es"
  shows "s \<notin> set (pinging (fold ping_step es p)) \<and> log_of s (fold ping_step es p) = log_of s p"
  using assms
proof (induction es arbitrary: p)
  case (Cons e es)
  then have "s \<notin> set (pinging (ping_step e p))" by (auto simp: pinging_step split: ping_event.split)
  with Cons show ?case by (auto simp: log_of_step split: ping_event.split)
qed simp

lemma waiting:
  assumes "s \<in> set (pinging p)" and "Ping_due s \<notin> set es" and "Ping_late s \<notin> set es"
  shows "if Echo_reply PING_ID s \<in> set es
    then s \<notin> set (pinging (fold ping_step es p)) \<and> log_of s (fold ping_step es p) = log_of s p @ [(s, True)]
    else s \<in> set (pinging (fold ping_step es p)) \<and> log_of s (fold ping_step es p) = log_of s p"
  using assms
proof (induction es arbitrary: p)
  case (Cons e es)
  show ?case
  proof (cases "e = Echo_reply PING_ID s")
    case True
    have "s \<notin> set (pinging (ping_step e p))" "log_of s (ping_step e p) = log_of s p @ [(s, True)]"
      using True Cons.prems(1) by (simp_all only: pinging_step log_of_step) simp_all
    with not_waiting [of s "ping_step e p" es] Cons.prems True show ?thesis by (simp del: ping_step.simps)
  next
    case False
    have "s \<in> set (pinging (ping_step e p))" "log_of s (ping_step e p) = log_of s p"
      using False Cons.prems by (auto simp: pinging_step log_of_step simp del: ping_step.simps split: ping_event.split)
    with Cons False show ?thesis by (simp del: ping_step.simps)
  qed
qed simp


section \<open>Dialling\<close>

text \<open>One thing waits at most, and what it can still try is what is left.\<close>

definition left :: "(ns \<times> dial_timer) list \<Rightarrow> nat option" where
  "left ts = (case ts of [] \<Rightarrow> Some 0 | [(_, Attempt n)] \<Rightarrow> Some n | [(_, Look_again i n)] \<Rightarrow> Some (n - 1) | _ \<Rightarrow> None)"

definition within_tries :: "nat \<Rightarrow> dialler \<Rightarrow> bool" where
  "within_tries tries d \<longleftrightarrow> (\<exists>n. left (dial_timers d) = Some n \<and> attempts d + n \<le> tries) \<and>
     length (conns d) \<le> attempts d \<and>
     (\<forall>(t, x) \<in> set (dial_timers d). case x of Attempt n \<Rightarrow> n > 0 | Look_again i n \<Rightarrow> n > 1)"

lemma attempt_within:
  assumes "dial_timers d = []" and "attempts d + n \<le> tries" and "length (conns d) \<le> attempts d" and "0 < n"
  shows "within_tries tries (attempt now room n d)"
  using assms by (auto simp: attempt_def within_tries_def left_def Let_def)

lemma dial_step_within:
  assumes "within_tries tries d"
  shows "within_tries tries (dial_step e d)"
proof (cases e)
  case (Timer room)
  show ?thesis
  proof (cases "dial_timers d")
    case (Cons y ts)
    obtain now t where y: "y = (now, t)" by (cases y)
    from assms Cons y have ts: "ts = []" by (auto simp: within_tries_def left_def split: list.splits prod.splits dial_timer.splits)
    from assms Cons y ts have l: "length (conns d) \<le> attempts d"
      "case t of Attempt n \<Rightarrow> 0 < n \<and> attempts d + n \<le> tries | Look_again i n \<Rightarrow> 1 < n \<and> attempts d + (n - 1) \<le> tries"
      by (auto simp: within_tries_def left_def split: dial_timer.splits)
    show ?thesis
    proof (cases t)
      case (Attempt n)
      with Timer Cons y ts l show ?thesis by (auto simp: Let_def intro!: attempt_within)
    next
      case (Look_again i n)
      moreover have "within_tries tries (d\<lparr>dial_timers := []\<rparr>)" using l Look_again by (auto simp: within_tries_def left_def)
      ultimately show ?thesis using Timer Cons y ts l by (auto simp: Let_def intro!: attempt_within)
    qed
  qed (use assms Timer in simp)
qed (use assms in \<open>auto simp: within_tries_def\<close>)

text \<open>The timers that fire, of what happens.\<close>

definition firings :: "dial_event list \<Rightarrow> nat" where
  "firings es = length (filter (\<lambda>e. case e of Timer _ \<Rightarrow> True | _ \<Rightarrow> False) es)"

definition rank :: "dialler \<Rightarrow> nat" where
  "rank d = (case dial_timers d of [] \<Rightarrow> 0 | (_, Attempt n) # _ \<Rightarrow> n | (_, Look_again i n) # _ \<Rightarrow> n - 1)"

lemma dial_run_within: "within_tries tries d \<Longrightarrow> within_tries tries (fold dial_step es d)"
  by (induction es arbitrary: d) (simp_all add: dial_step_within)

lemma rank_step:
  assumes "within_tries tries d"
  shows "rank (dial_step e d) \<le> rank d \<and> (firings [e] = 1 \<and> 0 < rank d \<longrightarrow> rank (dial_step e d) < rank d)"
proof (cases e)
  case (Timer room)
  show ?thesis
  proof (cases "dial_timers d")
    case (Cons y ts)
    obtain now t where y: "y = (now, t)" by (cases y)
    from assms Cons y have ts: "ts = []" by (auto simp: within_tries_def left_def split: list.splits prod.splits dial_timer.splits)
    show ?thesis using assms Timer Cons y ts
      by (cases t) (auto simp: rank_def attempt_def Let_def within_tries_def)
  qed (use Timer in \<open>simp add: rank_def\<close>)
qed (auto simp: rank_def firings_def)

lemma rank_run:
  "within_tries tries d \<Longrightarrow> rank d \<le> firings es \<Longrightarrow> rank (fold dial_step es d) = 0"
proof (induction es arbitrary: d)
  case (Cons e es)
  have f: "firings (e # es) = firings [e] + firings es" by (simp add: firings_def)
  have "firings [e] \<le> 1" by (simp add: firings_def)
  with rank_step [OF Cons.prems(1), of e] Cons.prems(2) f have "rank (dial_step e d) \<le> firings es" by (cases "firings [e] = 1"; cases "rank d = 0") auto
  with Cons.IH [OF dial_step_within [OF Cons.prems(1), of e]] show ?case by simp
qed (simp add: firings_def)

text \<open>
  Whatever lwIP does: the board is dialled at most as often as it may be, and after that many timers
  nothing waits any more. And from an attempt that is found to have been made there is no other.
\<close>

theorem dialling_ends:
  assumes "0 < tries"
  shows "attempts (fold dial_step es (dial s tries)) \<le> tries \<and>
    (tries \<le> firings es \<longrightarrow> dial_timers (fold dial_step es (dial s tries)) = [])"
proof -
  have w: "within_tries tries (dial s tries)" using assms by (simp add: within_tries_def dial_def left_def)
  let ?d = "fold dial_step es (dial s tries)"
  have d: "within_tries tries ?d" by (rule dial_run_within [OF w])
  have "dial_timers ?d = []" if "rank ?d = 0"
    using d that by (auto simp: within_tries_def rank_def split: list.splits prod.splits dial_timer.splits)
  moreover have "rank (dial s tries) = tries" by (simp add: rank_def dial_def)
  ultimately show ?thesis using d rank_run [OF w, of es] by (auto simp: within_tries_def)
qed

text \<open>A connection that is made after a second is made besides the next one: the request goes twice.\<close>

lemma slow_board_is_asked_twice:
  "wrote (fold dial_step [Timer True, Timer True, Connected 0, Connected 1] (dial s 5)) =
    [(0, dial_send s), (1, dial_send s)]"
  by (simp add: dial_def attempt_def)

section \<open>Applied\<close>


theorem dialling_ends_witness:
  "attempts (fold dial_step [Timer True, Timer True, Timer False] (dial \<lparr>dial_at_ms = 5, dial_port = 80, dial_send = []\<rparr> 3)) \<le> 3 \<and>
    dial_timers (fold dial_step [Timer True, Timer True, Timer False] (dial \<lparr>dial_at_ms = 5, dial_port = 80, dial_send = []\<rparr> 3)) = []"
  using dialling_ends [of 3 "[Timer True, Timer True, Timer False]" "\<lparr>dial_at_ms = 5, dial_port = 80, dial_send = []\<rparr>"]
  by (simp add: firings_def)

end
