(* ===== verification/Lan_Tcp.thy ===== *)
theory Lan_Tcp
  imports Js_Text
begin

text \<open>
  A TCP connection of the LAN (\<open>TcpConn\<close>, host/lan.mjs): what is written waits in a queue, goes to
  lwIP as lwIP has room, and the connection is closed once everything written has gone. lwIP is not
  in the repository. \<open>send\<close> stands for its \<open>send_tcp_chunk\<close>: from its state and a chunk, its state
  and how many of the chunk's bytes it took.
\<close>

type_synonym 'w sender = "'w \<Rightarrow> nat list \<Rightarrow> 'w \<times> nat"

text \<open>What lwIP promises: it takes no more than it is given.\<close>

definition takes_no_more :: "'w sender \<Rightarrow> bool" where
  "takes_no_more send \<longleftrightarrow> (\<forall>w chunk. snd (send w chunk) \<le> length chunk)"

text \<open>\<open>close_pending\<close> is the job that \<open>lan.defer\<close> holds: closing the connection once lwIP returns.\<close>

record tcp_conn =
  conn_queue :: "nat list list"
  ending :: bool
  closed :: bool

definition new_conn :: tcp_conn where
  "new_conn = \<lparr> conn_queue = [], ending = False, closed = False \<rparr>"

section \<open>The pump\<close>

text \<open>The loop that sends: what is left of the queue, and what lwIP has taken.\<close>

function pump_queue :: "'w sender \<Rightarrow> 'w \<Rightarrow> nat list list \<Rightarrow> 'w \<times> nat list \<times> nat list list" where
  "pump_queue send w [] = (w, [], [])"
| "pump_queue send w (chunk # rest) =
    (let (w, n) = send w (take 0xffff chunk)
     in if n = 0 then (w, [], chunk # rest)
        else (let (w, taken, left) =
                pump_queue send w (if drop n chunk = [] then rest else drop n chunk # rest)
              in (w, take n (take 0xffff chunk) @ taken, left)))"
  by pat_completeness auto
termination
  by (relation "measure (\<lambda>(_, _, q). sum_list (map (\<lambda>c. Suc (length c)) q))") auto

text \<open>The connection after a pump, what lwIP took, and whether it is to be closed now.\<close>

definition pump :: "'w sender \<Rightarrow> 'w \<Rightarrow> tcp_conn \<Rightarrow> 'w \<times> tcp_conn \<times> nat list \<times> bool" where
  "pump send w c =
    (let (w, taken, left) = (if closed c then (w, [], conn_queue c) else pump_queue send w (conn_queue c));
         close = (ending c \<and> \<not> closed c \<and> left = [])
     in (w, c\<lparr>conn_queue := left, closed := closed c \<or> close\<rparr>, taken, close))"

definition conn_write :: "'w sender \<Rightarrow> 'w \<Rightarrow> nat list \<Rightarrow> tcp_conn \<Rightarrow> 'w \<times> tcp_conn \<times> nat list \<times> bool" where
  "conn_write send w bytes c =
    (if closed c \<or> ending c then (w, c, [], False)
     else pump send w (c\<lparr>conn_queue := conn_queue c @ [bytes]\<rparr>))"

definition conn_end :: "'w sender \<Rightarrow> 'w \<Rightarrow> tcp_conn \<Rightarrow> 'w \<times> tcp_conn \<times> nat list \<times> bool" where
  "conn_end send w c = pump send w (c\<lparr>ending := True\<rparr>)"

text \<open>What a service does with a connection, and lwIP's word that there is room again.\<close>

datatype conn_op = Write "nat list" | End

datatype tcp_event = Op conn_op | Sent

definition conn_step :: "'w sender \<Rightarrow> 'w \<Rightarrow> tcp_event \<Rightarrow> tcp_conn \<Rightarrow> 'w \<times> tcp_conn \<times> nat list \<times> bool" where
  "conn_step send w e c = (case e of
      Op (Write bytes) \<Rightarrow> conn_write send w bytes c
    | Op End \<Rightarrow> conn_end send w c
    | Sent \<Rightarrow> pump send w c)"

text \<open>
  A run of them, each with the state lwIP has come to by then: the connection, everything lwIP took,
  and how often it was told to close.
\<close>

fun conn_run :: "'w sender \<Rightarrow> ('w \<times> tcp_event) list \<Rightarrow> tcp_conn \<Rightarrow> tcp_conn \<times> nat list \<times> nat" where
  "conn_run send [] c = (c, [], 0)"
| "conn_run send ((w, e) # es) c =
    (let (_, c, taken, close) = conn_step send w e c;
         (c, more, n) = conn_run send es c
     in (c, taken @ more, (if close then 1 else 0) + n))"

section \<open>Nothing is lost\<close>

lemma takes_no_moreD: "takes_no_more send \<Longrightarrow> send w chunk = (w', n) \<Longrightarrow> n \<le> length chunk"
  unfolding takes_no_more_def by (metis snd_conv)

lemma pump_queue_conserves:
  assumes "takes_no_more send"
  shows "pump_queue send w q = (w', taken, left) \<Longrightarrow> taken @ concat left = concat q"
  using assms
proof (induction send w q arbitrary: taken rule: pump_queue.induct)
  case (2 send w chunk rest)
  obtain w1 n where s: "send w (take 0xffff chunk) = (w1, n)" by fastforce
  show ?case
  proof (cases "n = 0")
    case False
    let ?rest = "if drop n chunk = [] then rest else drop n chunk # rest"
    obtain w2 taken' left' where r: "pump_queue send w1 ?rest = (w2, taken', left')" by (metis prod_cases3)
    with 2 s False have "taken' @ concat left' = concat ?rest" by (auto split: if_splits)
    moreover have "take n (take 0xffff chunk) @ drop n chunk = chunk"
      using takes_no_moreD [OF 2(3) s] by (auto simp: min_def split: if_splits)
    moreover have "taken = take n (take 0xffff chunk) @ taken'" "left = left'"
      using 2(2) s r False by (auto split: if_splits)
    ultimately show ?thesis by (auto split: if_splits)
  qed (use 2 s in auto)
qed simp

text \<open>What was written before the connection was told to end.\<close>

fun written :: "tcp_event list \<Rightarrow> nat list" where
  "written [] = []"
| "written (Op (Write bytes) # es) = bytes @ written es"
| "written (Op End # es) = []"
| "written (Sent # es) = written es"

text \<open>A closed connection has nothing left to send.\<close>

definition conn_ok :: "tcp_conn \<Rightarrow> bool" where
  "conn_ok c \<longleftrightarrow> (closed c \<longrightarrow> ending c \<and> conn_queue c = [])"

lemma pump_conserves:
  assumes "takes_no_more send" and "conn_ok c" and "pump send w c = (w', c', taken, close)"
  shows "taken @ concat (conn_queue c') = concat (conn_queue c) \<and> ending c' = ending c \<and> conn_ok c' \<and>
    closed c' = (closed c \<or> close) \<and> (close \<longrightarrow> \<not> closed c)"
proof (cases "closed c")
  case False
  obtain w1 t l where "pump_queue send w (conn_queue c) = (w1, t, l)" by (metis prod_cases3)
  with pump_queue_conserves [OF assms(1) this] False assms(2,3) show ?thesis
    by (auto simp: pump_def conn_ok_def Let_def)
qed (use assms in \<open>auto simp: pump_def conn_ok_def Let_def\<close>)

lemma conn_step_conserves:
  assumes "takes_no_more send" and "conn_ok c" and "conn_step send w e c = (w', c', taken, close)"
  shows "taken @ concat (conn_queue c') = concat (conn_queue c) @ (if ending c then [] else written [e]) \<and>
    ending c' = (ending c \<or> e = Op End) \<and> conn_ok c' \<and> closed c' = (closed c \<or> close) \<and>
    (close \<longrightarrow> \<not> closed c)"
proof (cases e)
  case (Op op)
  show ?thesis
  proof (cases op)
    case (Write bytes)
    let ?c = "c\<lparr>conn_queue := conn_queue c @ [bytes]\<rparr>"
    show ?thesis
    proof (cases "ending c")
      case True
      then show ?thesis using Op Write assms by (auto simp: conn_step_def conn_write_def)
    next
      case False
      then have "\<not> closed c" and "conn_ok ?c" using assms(2) by (auto simp: conn_ok_def)
      moreover from this have "pump send w ?c = (w', c', taken, close)"
        using False Op Write assms(3) by (auto simp: conn_step_def conn_write_def)
      ultimately show ?thesis using pump_conserves [OF assms(1), of ?c] Op Write False by simp
    qed
  next
    case End
    have "conn_ok (c\<lparr>ending := True\<rparr>)" using assms(2) by (simp add: conn_ok_def)
    moreover have "pump send w (c\<lparr>ending := True\<rparr>) = (w', c', taken, close)"
      using Op End assms(3) by (simp add: conn_step_def conn_end_def)
    ultimately show ?thesis using pump_conserves [OF assms(1), of "c\<lparr>ending := True\<rparr>"] Op End by simp
  qed
next
  case Sent
  then have "pump send w c = (w', c', taken, close)" using assms(3) by (simp add: conn_step_def)
  from pump_conserves [OF assms(1,2) this] Sent show ?thesis by simp
qed

lemma written_Cons: "written (e # es) = written [e] @ (if e = Op End then [] else written es)"
  by (cases e rule: written.cases [of "[_]", simplified]) auto

lemma conn_run_conserves:
  assumes "takes_no_more send" and "conn_ok c" and "conn_run send es c = (c', taken, n)"
  shows "taken @ concat (conn_queue c') = concat (conn_queue c) @ (if ending c then [] else written (map snd es)) \<and>
    conn_ok c' \<and> n \<le> 1 \<and> (closed c' \<longleftrightarrow> closed c \<or> n = 1) \<and> (closed c \<longrightarrow> n = 0)"
  using assms(2,3)
proof (induction es arbitrary: c c' taken n)
  case (Cons we es)
  obtain w e where we: "we = (w, e)" by fastforce
  obtain w1 c1 t1 cl where st: "conn_step send w e c = (w1, c1, t1, cl)" by (metis prod_cases4)
  obtain c2 t2 m where run: "conn_run send es c1 = (c2, t2, m)" by (metis prod_cases3)
  note c1 = conn_step_conserves [OF assms(1) Cons.prems(1) st]
  have "c' = c2" "taken = t1 @ t2" "n = (if cl then 1 else 0) + m"
    using Cons.prems(2) st run by (auto simp: we)
  moreover have "t2 @ concat (conn_queue c2) = concat (conn_queue c1) @ (if ending c1 then [] else written (map snd es)) \<and>
    conn_ok c2 \<and> m \<le> 1 \<and> (closed c2 \<longleftrightarrow> closed c1 \<or> m = 1) \<and> (closed c1 \<longrightarrow> m = 0)"
    by (rule Cons.IH) (use c1 run in auto)
  ultimately show ?case
    using c1 by (cases cl) (auto simp: we written_Cons [of e "map snd es"])
qed simp

text \<open>
  C20. lwIP is given exactly what was written before the end, in order and once, except for what still
  waits; and it is told to close once, only when nothing waits any more.
\<close>

theorem tcp_sends_what_was_written:
  assumes "takes_no_more send" and "conn_run send es new_conn = (c, taken, closes)"
  shows "taken @ concat (conn_queue c) = written (map snd es) \<and> closes \<le> 1 \<and>
    (closes = 1 \<longleftrightarrow> closed c) \<and> (closed c \<longrightarrow> taken = written (map snd es))"
  using conn_run_conserves [OF assms(1) _ assms(2)] by (auto simp: new_conn_def conn_ok_def)

text \<open>An lwIP that takes up to five bytes at a time.\<close>

definition five_at_a_time :: "nat sender" where
  "five_at_a_time w chunk = (w, min w (min 5 (length chunk)))"

lemma five_takes_no_more: "takes_no_more five_at_a_time"
  by (auto simp: takes_no_more_def five_at_a_time_def)

theorem tcp_sends_what_was_written_witness:
  "case conn_run five_at_a_time [(0, Op (Write [1, 2, 3])), (2, Op (Write [4])), (9, Op End)] new_conn of
    (c, taken, closes) \<Rightarrow> taken @ concat (conn_queue c) = [1, 2, 3, 4] \<and> closes \<le> 1"
proof -
  let ?es = "[(0, Op (Write [1, 2, 3])), (2, Op (Write [4])), (9, Op End)]"
  obtain c taken closes where r: "conn_run five_at_a_time ?es new_conn = (c, taken, closes)"
    by (metis prod_cases3)
  from tcp_sends_what_was_written [OF five_takes_no_more r] show ?thesis by (simp only: r) simp
qed

section \<open>The connection closes\<close>

lemma pump_queue_room:
  assumes "takes_no_more send" and "pump_queue send w q = (w', taken, left)" and "[] \<notin> set q"
  shows "[] \<notin> set left"
  using assms(2,3)
proof (induction send w q arbitrary: taken rule: pump_queue.induct)
  case (2 send w chunk rest)
  obtain w1 n where s: "send w (take 0xffff chunk) = (w1, n)" by fastforce
  show ?case
  proof (cases "n = 0")
    case False
    obtain w2 t l where r: "pump_queue send w1 (if drop n chunk = [] then rest else drop n chunk # rest) = (w2, t, l)"
      by (metis prod_cases3)
    then have "[] \<notin> set l" using 2 s False by (auto split: if_splits)
    with 2(2) s r False show ?thesis by (auto split: if_splits)
  qed (use 2 s in auto)
qed simp

lemma pump_queue_progress:
  assumes "chunk \<noteq> []" and "0 < snd (send w (take 0xffff chunk))"
    and "takes_no_more send" and "pump_queue send w (chunk # rest) = (w', taken, left)"
  shows "0 < length taken"
proof -
  obtain w1 n where s: "send w (take 0xffff chunk) = (w1, n)" by fastforce
  then have "0 < n" "n \<le> length (take 0xffff chunk)"
    using assms(2) takes_no_moreD [OF assms(3) s] by auto
  with assms(4) s show ?thesis by (auto split: prod.splits)
qed

text \<open>
  C21. Once it has been told to end, a connection whose writes were not empty sends everything and
  closes, if lwIP calls often enough with room for a byte.
\<close>

theorem tcp_closes:
  assumes "takes_no_more send" and "ending c" and "\<not> closed c" and "[] \<notin> set (conn_queue c)"
    and "\<And>w chunk. w \<in> set ws \<Longrightarrow> chunk \<noteq> [] \<Longrightarrow> 0 < snd (send w chunk)"
    and "length (concat (conn_queue c)) \<le> length ws" and "ws \<noteq> []"
  shows "\<exists>c'. conn_run send (map (\<lambda>w. (w, Sent)) ws) c = (c', concat (conn_queue c), 1) \<and> closed c'"
  using assms(2-)
proof (induction ws arbitrary: c)
  case (Cons w ws)
  obtain w1 t l where q: "pump_queue send w (conn_queue c) = (w1, t, l)" by (metis prod_cases3)
  let ?c = "c\<lparr>conn_queue := l, closed := l = []\<rparr>"
  have step: "conn_step send w Sent c = (w1, ?c, t, l = [])"
    using q Cons.prems(1,2) by (simp add: conn_step_def pump_def Let_def)
  have cons: "t @ concat l = concat (conn_queue c)" by (rule pump_queue_conserves [OF assms(1) q])
  show ?case
  proof (cases "l = []")
    case True
    have "conn_run send (map (\<lambda>w. (w, Sent)) ws) ?c = (?c, [], 0)"
      using True by (induction ws) (simp_all add: conn_step_def pump_def)
    with step True cons show ?thesis by simp
  next
    case False
    have l: "[] \<notin> set l" using pump_queue_room [OF assms(1) q] Cons.prems(3) by simp
    obtain chunk rest where cq: "conn_queue c = chunk # rest"
      using False q by (cases "conn_queue c") auto
    have "0 < length t"
      using pump_queue_progress [OF _ _ assms(1) q [unfolded cq]] Cons.prems(3,4) cq by auto
    then have len: "length (concat l) < length (concat (conn_queue c))"
      using cons [symmetric] by simp
    then have "length (concat l) \<le> length ws" using Cons.prems(5) by simp
    moreover have "ws \<noteq> []"
      using calculation False l by (cases l) auto
    ultimately have "\<exists>c'. conn_run send (map (\<lambda>w. (w, Sent)) ws) ?c = (c', concat (conn_queue ?c), 1) \<and> closed c'"
      using Cons.prems l False by (intro Cons.IH) auto
    with step False cons show ?thesis by auto
  qed
qed simp

theorem tcp_closes_witness:
  "\<exists>c'. conn_run five_at_a_time (map (\<lambda>w. (w, Sent)) [1, 2, 7])
    \<lparr> conn_queue = [[1, 2], [3]], ending = True, closed = False \<rparr> = (c', concat [[1, 2], [3]], 1) \<and> closed c'"
  using tcp_closes [OF five_takes_no_more,
    of "\<lparr> conn_queue = [[1, 2], [3]], ending = True, closed = False \<rparr>" "[1, 2, 7]"]
  by (simp only: tcp_conn.select_convs) (fastforce simp: five_at_a_time_def simp del: conn_run.simps)

text \<open>
  But an empty write is never taken off the queue: lwIP takes none of its bytes, which is what having
  no room looks like. Nothing written after it is sent, and the connection never closes.
\<close>

theorem empty_write_blocks:
  assumes "takes_no_more send" and "conn_queue c = [] # q" and "\<not> closed c"
  shows "\<exists>c'. conn_run send es c = (c', [], 0) \<and> \<not> closed c'"
  using assms(2,3)
proof (induction es arbitrary: c q)
  case (Cons we es)
  obtain w e where we: "we = (w, e)" by fastforce
  have none: "snd (send v []) = 0" for v
    using assms(1) unfolding takes_no_more_def by (metis le_zero_eq list.size(3))
  have blocked: "\<exists>v. pump send w d = (v, d, [], False)" if "conn_queue d = [] # r" "\<not> closed d" for d r
  proof -
    obtain v where "send w [] = (v, 0)" using none [of w] by (cases "send w []") auto
    with that show ?thesis by (auto simp: pump_def)
  qed
  have "\<exists>v d r. conn_step send w e c = (v, d, [], False) \<and> conn_queue d = [] # r \<and> \<not> closed d"
  proof (cases e)
    case (Op op)
    show ?thesis
    proof (cases op)
      case (Write bytes)
      from blocked [of "c\<lparr>conn_queue := conn_queue c @ [bytes]\<rparr>" "q @ [bytes]"] obtain v where
        "pump send w (c\<lparr>conn_queue := conn_queue c @ [bytes]\<rparr>) =
          (v, c\<lparr>conn_queue := conn_queue c @ [bytes]\<rparr>, [], False)"
        using Cons.prems by auto
      then show ?thesis using Op Write Cons.prems
        by (cases "ending c") (auto simp: conn_step_def conn_write_def)
    next
      case End
      with Op Cons.prems blocked [of "c\<lparr>ending := True\<rparr>" q] show ?thesis
        by (auto simp: conn_step_def conn_end_def)
    qed
  next
    case Sent
    with Cons.prems blocked [of c q] show ?thesis by (auto simp: conn_step_def)
  qed
  then show ?case using Cons.IH by (auto simp: we)
qed simp

theorem empty_write_blocks_witness:
  "\<exists>c'. conn_run five_at_a_time [(9, Op (Write [1, 2])), (9, Op End), (9, Sent)]
    \<lparr> conn_queue = [[]], ending = False, closed = False \<rparr> = (c', [], 0) \<and> \<not> closed c'"
  by (rule empty_write_blocks [OF five_takes_no_more]) simp_all

end
