(* ===== verification/Lan.thy ===== *)
theory Lan
  imports Timed_Queue Lan_Tcp "HOL-Library.Monad_Syntax"
begin

text \<open>
  The host's own network (host/lan.mjs): its clock and timers, the calls into lwIP with the jobs
  that wait until lwIP has returned, and the frames lwIP sends. lwIP is WebAssembly that is not in
  the repository. A call into it is an action on the whole LAN, since what it calls back runs inside
  the call; the services' timers and the deferred jobs are values, and actions say what they do.
\<close>

section \<open>The state, and actions on it\<close>

text \<open>\<open>'w\<close> is lwIP's state and \<open>'e\<close> what a timer runs. A job closes a connection or a socket.\<close>

datatype lan_job = Close_tcp nat | Close_udp nat

record ('w, 'e) lan =
  clock_ns :: ns
  emitted :: "nat list list"
  later :: "lan_job list"
  timers :: "(ns \<times> 'e) list"
  depth :: nat
  wasm :: 'w

text \<open>An action may throw, and what it did until then stays done; \<open>None\<close> is not returning.\<close>

type_synonym ('w, 'e) action = "('w, 'e) lan \<Rightarrow> ((js_error + nat) \<times> ('w, 'e) lan) option"

definition set_clock :: "ns \<Rightarrow> ('w, 'e) lan \<Rightarrow> ('w, 'e) lan" where
  "set_clock t l = (if t > clock_ns l then l\<lparr>clock_ns := t\<rparr> else l)"

definition take_emitted :: "('w, 'e) lan \<Rightarrow> nat list list \<times> ('w, 'e) lan" where
  "take_emitted l = (emitted l, l\<lparr>emitted := []\<rparr>)"

definition at :: "ns \<Rightarrow> 'e \<Rightarrow> ('w, 'e) lan \<Rightarrow> ('w, 'e) lan" where
  "at t e l = l\<lparr>timers := tq_insert t e (timers l)\<rparr>"

definition TICK_NS :: ns where "TICK_NS = 50000000"

text \<open>The next tick of the grid, or a service's timer before it. The clock is never negative.\<close>

definition lan_next_ns :: "('w, 'e) lan \<Rightarrow> ns" where
  "lan_next_ns l =
    (let tick = (clock_ns l div TICK_NS + 1) * TICK_NS
     in case timers l of [] \<Rightarrow> tick | (t, _) # _ \<Rightarrow> if t < tick then t else tick)"

section \<open>Calls, and what waits for them\<close>

text \<open>\<^verbatim>\<open>while (this.later.length) ...\<close>: a job may leave another, so the loop may go on for ever.\<close>

partial_function (option) run_later ::
  "(lan_job \<Rightarrow> ('w, 'e) action) \<Rightarrow> nat \<Rightarrow> ('w, 'e) action" where
  "run_later job v l = (case later l of
      [] \<Rightarrow> Some (Inr v, l)
    | j # js \<Rightarrow>
        do { (r, l) \<leftarrow> job j (l\<lparr>later := js, depth := Suc (depth l)\<rparr>);
             let l = l\<lparr>depth := depth l - 1\<rparr>;
             case r of Inl err \<Rightarrow> Some (Inl err, l) | Inr _ \<Rightarrow> run_later job v l })"

definition lan_call :: "(lan_job \<Rightarrow> ('w, 'e) action) \<Rightarrow> ('w, 'e) action \<Rightarrow> ('w, 'e) action" where
  "lan_call job fn l =
    do { (r, l) \<leftarrow> fn (l\<lparr>depth := Suc (depth l)\<rparr>);
         let l = l\<lparr>depth := depth l - 1\<rparr>;
         case r of
           Inl err \<Rightarrow> Some (Inl err, l)
         | Inr v \<Rightarrow> if depth l = 0 then run_later job v l else Some (Inr v, l) }"

definition defer_job :: "(lan_job \<Rightarrow> ('w, 'e) action) \<Rightarrow> lan_job \<Rightarrow> ('w, 'e) action" where
  "defer_job job j l =
    (if depth l = 0 then lan_call job (job j) l else Some (Inr 0, l\<lparr>later := later l @ [j]\<rparr>))"

section \<open>Frames and time going in\<close>

text \<open>lwIP's entry points: a frame from the board, and its timers.\<close>

record ('w, 'e) lwip =
  send_tap :: "nat list \<Rightarrow> ('w, 'e) action"
  process_queued :: "('w, 'e) action"
  process_timeouts :: "('w, 'e) action"

definition and_then :: "('w, 'e) action \<Rightarrow> ('w, 'e) action \<Rightarrow> ('w, 'e) action" where
  "and_then f g l =
    do { (r, l) \<leftarrow> f l; case r of Inl err \<Rightarrow> Some (Inl err, l) | Inr _ \<Rightarrow> g l }"

text \<open>The frames it sent are what a call returns, unless it throws.\<close>

definition with_frames ::
  "((js_error + nat) \<times> ('w, 'e) lan) option \<Rightarrow> ((js_error + nat list list) \<times> ('w, 'e) lan) option" where
  "with_frames res =
    do { (r, l) \<leftarrow> res;
         Some (case r of Inl err \<Rightarrow> (Inl err, l) | Inr _ \<Rightarrow> map_prod Inr id (take_emitted l)) }"

definition lan_input ::
  "(lan_job \<Rightarrow> ('w, 'e) action) \<Rightarrow> ('w, 'e) lwip \<Rightarrow> nat list \<Rightarrow> ns \<Rightarrow> ('w, 'e) lan \<Rightarrow>
    ((js_error + nat list list) \<times> ('w, 'e) lan) option" where
  "lan_input job lw frame t l =
    with_frames (lan_call job (and_then (send_tap lw frame) (process_queued lw)) (set_clock t l))"

text \<open>The timers that are due, the first first.\<close>

partial_function (option) run_timers :: "('e \<Rightarrow> ('w, 'e) action) \<Rightarrow> ('w, 'e) action" where
  "run_timers fire l = (case timers l of
      [] \<Rightarrow> Some (Inr 0, l)
    | (t, e) # rest \<Rightarrow>
        if t \<le> clock_ns l
        then do { (r, l) \<leftarrow> fire e (l\<lparr>timers := rest\<rparr>);
                  case r of Inl err \<Rightarrow> Some (Inl err, l) | Inr _ \<Rightarrow> run_timers fire l }
        else Some (Inr 0, l))"

definition lan_advance ::
  "(lan_job \<Rightarrow> ('w, 'e) action) \<Rightarrow> ('w, 'e) lwip \<Rightarrow> ('e \<Rightarrow> ('w, 'e) action) \<Rightarrow> ns \<Rightarrow> ('w, 'e) lan \<Rightarrow>
    ((js_error + nat list list) \<times> ('w, 'e) lan) option" where
  "lan_advance job lw fire t l =
    with_frames (lan_call job
      (and_then (process_timeouts lw) (and_then (run_timers fire) (process_queued lw))) (set_clock t l))"

section \<open>A frame lwIP is sending\<close>

text \<open>Little-endian reads of the module's memory. A read past its end throws.\<close>

definition mem16 :: "nat list \<Rightarrow> nat \<Rightarrow> nat option" where
  "mem16 m a = (if a + 2 \<le> length m then Some (m ! a + 256 * m ! (a + 1)) else None)"

definition mem32 :: "nat list \<Rightarrow> nat \<Rightarrow> nat option" where
  "mem32 m a = (if a + 4 \<le> length m
     then Some (m ! a + 256 * m ! (a + 1) + 65536 * m ! (a + 2) + 16777216 * m ! (a + 3)) else None)"

definition mem_bytes :: "nat list \<Rightarrow> nat \<Rightarrow> nat \<Rightarrow> nat list option" where
  "mem_bytes m a n = (if a + n \<le> length m then Some (js_slice m a (a + n)) else None)"

text \<open>
  The chain of buffers: each has the next one's address, its payload's address, and at 10 its length.
  What the chain does not fill stays zero. An empty buffer that is its own next would not end.
\<close>

partial_function (option) pbuf_chain :: "nat list \<Rightarrow> nat \<Rightarrow> nat \<Rightarrow> nat list \<Rightarrow> (js_error + nat list) option" where
  "pbuf_chain m len q frame =
    (if q = 0 \<or> len \<le> length frame then Some (Inr (frame @ replicate (len - length frame) 0))
     else case mem16 m (q + 10) of
         None \<Rightarrow> Some (Inl RangeError)
       | Some n \<Rightarrow> case Option.bind (mem32 m (q + 4)) (\<lambda>a. mem_bytes m a (min n (len - length frame))) of
             None \<Rightarrow> Some (Inl RangeError)
           | Some bytes \<Rightarrow> case mem32 m q of
                 None \<Rightarrow> Some (Inl RangeError)
               | Some q \<Rightarrow> pbuf_chain m len q (frame @ bytes))"

definition frame_bytes :: "nat list \<Rightarrow> nat \<Rightarrow> nat \<Rightarrow> js_error + nat list" where
  "frame_bytes m ptr len = (case mem_bytes m ptr len of None \<Rightarrow> Inl RangeError | Some bs \<Rightarrow> Inr bs)"

text \<open>The four reads of the test stop at the first that fails. \<open>ptr\<close> and \<open>len\<close> are wasm integers.\<close>

definition frame_at :: "nat list \<Rightarrow> nat \<Rightarrow> nat \<Rightarrow> (js_error + nat list) option" where
  "frame_at m ptr len =
    (if ptr \<le> 16 then Some (frame_bytes m ptr len)
     else let p = ptr - 16 in
       case mem32 m (p + 4) of
         None \<Rightarrow> Some (Inl RangeError)
       | Some payload \<Rightarrow>
           if payload \<noteq> ptr then Some (frame_bytes m ptr len)
           else case mem16 m (p + 8) of
               None \<Rightarrow> Some (Inl RangeError)
             | Some tot \<Rightarrow>
                 if tot \<noteq> len then Some (frame_bytes m ptr len)
                 else case mem16 m (p + 10) of
                     None \<Rightarrow> Some (Inl RangeError)
                   | Some n \<Rightarrow> if n < len then pbuf_chain m len p [] else Some (frame_bytes m ptr len))"

section \<open>How a line of the log is labelled\<close>

definition pad_text :: "nat \<Rightarrow> text \<Rightarrow> text" where
  "pad_text w s = replicate (w - length s) 48 @ s"

definition lan_stamp :: "nat \<Rightarrow> text" where
  "lan_stamp ns =
    (let us = ns div 1000; s = us div 1000000; pad = (\<lambda>n w. pad_text w (nat_text n))
     in lit ''lan '' @ pad (s div 3600) 2 @ lit '':'' @ pad (s div 60 mod 60) 2 @ lit '':'' @
       pad (s mod 60) 2 @ lit ''.'' @ pad (us div 1000 mod 1000) 3 @ lit '','' @ pad (us mod 1000) 3)"

end
