(* ===== verification/Lan_Sockets.thy ===== *)
theory Lan_Sockets
  imports Lan
begin

text \<open>
  The LAN's connections and sockets (host/lan.mjs): the tables of handlers by lwIP's control blocks,
  what opens and closes an entry, and every function lwIP calls back. lwIP is a parameter: \<open>send\<close> is
  its \<open>send_tcp_chunk\<close>, \<open>shut\<close> what closing does to it, \<open>memory\<close> its memory, and what it calls, with
  which arguments, is what happens.
\<close>

section \<open>The tables\<close>

text \<open>
  A handler is a closure of a service: \<open>'h\<close> names a TCP service, \<open>'u\<close> a handler of datagrams. A
  connection's owner is who set its \<open>onConnect\<close>, \<open>onData\<close> and \<open>onEnd\<close>: the service that listens where
  it was accepted, if one does, or the one that asked for it. What handlers were called with is in
  \<open>told\<close>, and what lwIP was told, as far as it matters here, in \<open>exchanged\<close>, both in order.
\<close>

datatype ('h, 'u) told =
    Accepted 'h nat
  | Made 'h nat
  | Got 'h nat "nat list"
  | Over 'h nat
  | Got_datagram 'u nat "nat list" "nat list" nat

datatype exchange =
    Opened nat
  | Credit nat nat
  | Sent_datagram nat "nat list" nat "nat list"
  | Told_to_close lan_job

record 'h tcp_link =
  conn :: tcp_conn
  owner :: "'h option"

record ('s, 'h, 'u) sockets =
  stack :: 's
  tcp :: "nat \<rightharpoonup> 'h tcp_link"
  listeners :: "nat \<rightharpoonup> 'h"
  udp :: "nat \<rightharpoonup> 'u"
  told :: "('h, 'u) told list"
  exchanged :: "exchange list"

type_synonym ('s, 'h, 'u, 'e) net_action = "(('s, 'h, 'u) sockets, 'e) action"
type_synonym 's shutter = "lan_job \<Rightarrow> 's \<Rightarrow> 's"

definition new_sockets :: "'s \<Rightarrow> ('s, 'h, 'u) sockets" where
  "new_sockets s = \<lparr> stack = s, tcp = Map.empty, listeners = Map.empty, udp = Map.empty, told = [], exchanged = [] \<rparr>"

definition new_lan :: "'s \<Rightarrow> (('s, 'h, 'u) sockets, 'e) lan" where
  "new_lan s = \<lparr> clock_ns = 0, emitted = [], later = [], timers = [], depth = 0, wasm = new_sockets s \<rparr>"

text \<open>A change to the tables, as an action that returns.\<close>

definition upd :: "(('s, 'h, 'u) sockets \<Rightarrow> ('s, 'h, 'u) sockets) \<Rightarrow> ('s, 'h, 'u, 'e) net_action" where
  "upd f l = Some (Inr 0, l\<lparr>wasm := f (wasm l)\<rparr>)"

definition tell :: "('h, 'u) told \<Rightarrow> ('s, 'h, 'u) sockets \<Rightarrow> ('s, 'h, 'u) sockets" where
  "tell t w = w\<lparr>told := told w @ [t]\<rparr>"

definition exchange :: "exchange \<Rightarrow> ('s, 'h, 'u) sockets \<Rightarrow> ('s, 'h, 'u) sockets" where
  "exchange x w = w\<lparr>exchanged := exchanged w @ [x]\<rparr>"

definition put_conn :: "nat \<Rightarrow> 'h option \<Rightarrow> ('s, 'h, 'u) sockets \<Rightarrow> ('s, 'h, 'u) sockets" where
  "put_conn pcb h w =
    exchange (Opened pcb) (w\<lparr>tcp := (tcp w)(pcb \<mapsto> \<lparr> conn = new_conn, owner = h \<rparr>)\<rparr>)"

section \<open>Closing\<close>

text \<open>The jobs that wait for lwIP to return: the entry goes, and lwIP is told.\<close>

definition give_back :: "'s shutter \<Rightarrow> lan_job \<Rightarrow> ('s, 'h, 'u) sockets \<Rightarrow> ('s, 'h, 'u) sockets" where
  "give_back shut j w =
    exchange (Told_to_close j)
      ((case j of Close_tcp pcb \<Rightarrow> w\<lparr>tcp := (tcp w)(pcb := None)\<rparr> | Close_udp pcb \<Rightarrow> w\<lparr>udp := (udp w)(pcb := None)\<rparr>)
        \<lparr>stack := shut j (stack w)\<rparr>)"

definition close_job :: "'s shutter \<Rightarrow> lan_job \<Rightarrow> ('s, 'h, 'u, 'e) net_action" where
  "close_job shut j = upd (give_back shut j)"

section \<open>Opening\<close>

text \<open>
  lwIP is asked for a control block, \<open>pcb\<close>, which is 0 when it has none; the call returns it, and
  what waited for it has run by then.
\<close>

definition asked :: "'s shutter \<Rightarrow> nat \<Rightarrow> (nat \<Rightarrow> ('s, 'h, 'u, 'e) net_action) \<Rightarrow> ('s, 'h, 'u, 'e) net_action" where
  "asked shut pcb k l =
    do { (r, l) \<leftarrow> lan_call (close_job shut) (\<lambda>l. Some (Inr pcb, l)) l;
         case r of Inl err \<Rightarrow> Some (Inl err, l) | Inr v \<Rightarrow> k v l }"

definition tcp_listen :: "'s shutter \<Rightarrow> nat \<Rightarrow> nat \<Rightarrow> 'h \<Rightarrow> ('s, 'h, 'u, 'e) net_action" where
  "tcp_listen shut port pcb h =
    asked shut pcb (\<lambda>pcb. if pcb = 0 then (\<lambda>l. Some (Inl (Lan_refused port), l))
      else upd (\<lambda>w. w\<lparr>listeners := (listeners w)(pcb \<mapsto> h)\<rparr>))"

text \<open>A connection the LAN makes: none when lwIP has none to give.\<close>

definition tcp_connect :: "'s shutter \<Rightarrow> nat \<Rightarrow> 'h \<Rightarrow> ('s, 'h, 'u, 'e) net_action" where
  "tcp_connect shut pcb h =
    asked shut pcb (\<lambda>pcb. if pcb = 0 then (\<lambda>l. Some (Inr 0, l)) else upd (put_conn pcb (Some h)))"

definition udp_open :: "'s shutter \<Rightarrow> nat \<Rightarrow> nat \<Rightarrow> 'u \<Rightarrow> ('s, 'h, 'u, 'e) net_action" where
  "udp_open shut port pcb u =
    asked shut pcb (\<lambda>pcb. if pcb = 0 then (\<lambda>l. Some (Inl (Lan_refused port), l))
      else upd (\<lambda>w. w\<lparr>udp := (udp w)(pcb \<mapsto> u)\<rparr>))"

definition udp_send :: "'s shutter \<Rightarrow> nat \<Rightarrow> nat list \<Rightarrow> nat \<Rightarrow> nat list \<Rightarrow> ('s, 'h, 'u, 'e) net_action" where
  "udp_send shut pcb ip port data =
    lan_call (close_job shut) (upd (exchange (Sent_datagram pcb ip port data)))"

section \<open>What is done with a connection\<close>

text \<open>
  A write, an end, or room again, as \<open>TcpConn\<close> does it; a connection that closes is let go once lwIP
  has returned. One that is no longer in the table has been closed, and ignores all three.
\<close>

definition on_conn :: "'s sender \<Rightarrow> 's shutter \<Rightarrow> nat \<Rightarrow> tcp_event \<Rightarrow> ('s, 'h, 'u, 'e) net_action" where
  "on_conn send shut pcb e l = (case tcp (wasm l) pcb of
      None \<Rightarrow> Some (Inr 0, l)
    | Some x \<Rightarrow>
        (let (s, c, _, close) = conn_step send (stack (wasm l)) e (conn x);
             l = l\<lparr>wasm := (wasm l)\<lparr>stack := s, tcp := (tcp (wasm l))(pcb \<mapsto> x\<lparr>conn := c\<rparr>)\<rparr>\<rparr>
         in if close then defer_job (close_job shut) (Close_tcp pcb) l else Some (Inr 0, l)))"

text \<open>What a service does when it is called.\<close>

datatype ('h, 'u) op =
    On_conn nat conn_op
  | Connect nat 'h
  | Open_udp nat nat 'u
  | Send_udp nat "nat list" nat "nat list"
  | Shut_udp nat

fun do_op :: "'s sender \<Rightarrow> 's shutter \<Rightarrow> ('h, 'u) op \<Rightarrow> ('s, 'h, 'u, 'e) net_action" where
  "do_op send shut (On_conn pcb op) = on_conn send shut pcb (Op op)"
| "do_op send shut (Connect pcb h) = tcp_connect shut pcb h"
| "do_op send shut (Open_udp port pcb u) = udp_open shut port pcb u"
| "do_op send shut (Send_udp pcb ip port data) = udp_send shut pcb ip port data"
| "do_op send shut (Shut_udp pcb) = defer_job (close_job shut) (Close_udp pcb)"

fun do_ops :: "'s sender \<Rightarrow> 's shutter \<Rightarrow> ('h, 'u) op list \<Rightarrow> ('s, 'h, 'u, 'e) net_action" where
  "do_ops send shut [] = (\<lambda>l. Some (Inr 0, l))"
| "do_ops send shut (op # ops) = and_then (do_op send shut op) (do_ops send shut ops)"

section \<open>What lwIP calls back\<close>

text \<open>
  Each with what the service it reaches does then. \<open>Lwip\<close> is lwIP's own work, and \<open>Service\<close> a
  service's timer.
\<close>

datatype ('s, 'h, 'u) happening =
    Lwip 's
  | Frame nat nat
  | Accept nat nat "('h, 'u) op list"
  | Connected nat "('h, 'u) op list"
  | Chunk nat "nat list" "('h, 'u) op list"
  | Room nat
  | Gone nat "('h, 'u) op list"
  | Datagram nat "nat list" "nat list" nat "('h, 'u) op list"
  | Service "('h, 'u) op list"

text \<open>Who is called about a connection, if anyone: \<^verbatim>\<open>lan.tcp.get(pcb)?.onData?.(...)\<close>\<close>

definition owner_of :: "('s, 'h, 'u) sockets \<Rightarrow> nat \<Rightarrow> 'h option" where
  "owner_of w pcb = Option.bind (tcp w pcb) owner"

definition called ::
  "'s sender \<Rightarrow> 's shutter \<Rightarrow> ('h, 'u) told option \<Rightarrow> ('h, 'u) op list \<Rightarrow> ('s, 'h, 'u, 'e) net_action" where
  "called send shut t ops l = (case t of
      None \<Rightarrow> Some (Inr 0, l)
    | Some t \<Rightarrow> and_then (upd (tell t)) (do_ops send shut ops) l)"

fun happens :: "'s sender \<Rightarrow> 's shutter \<Rightarrow> ('s \<Rightarrow> nat list) \<Rightarrow> ('s, 'h, 'u) happening \<Rightarrow> ('s, 'h, 'u, 'e) net_action" where
  "happens send shut memory (Lwip s) l = upd (\<lambda>w. w\<lparr>stack := s\<rparr>) l"
| "happens send shut memory (Frame ptr len) l =
    do { f \<leftarrow> frame_at (memory (stack (wasm l))) ptr len;
         case f of Inl err \<Rightarrow> Some (Inl err, l) | Inr f \<Rightarrow> Some (Inr 0, l\<lparr>emitted := emitted l @ [f]\<rparr>) }"
| "happens send shut memory (Accept listener pcb ops) l =
    (let h = listeners (wasm l) listener
     in and_then (upd (put_conn pcb h)) (called send shut (map_option (\<lambda>h. Accepted h pcb) h) ops) l)"
| "happens send shut memory (Connected pcb ops) l =
    called send shut (map_option (\<lambda>h. Made h pcb) (owner_of (wasm l) pcb)) ops l"
| "happens send shut memory (Chunk pcb data ops) l =
    and_then (upd (exchange (Credit pcb (length data))))
      (called send shut (map_option (\<lambda>h. Got h pcb data) (owner_of (wasm l) pcb)) ops) l"
| "happens send shut memory (Room pcb) l = on_conn send shut pcb Sent l"
| "happens send shut memory (Gone pcb ops) l =
    (if tcp (wasm l) pcb = None then Some (Inr 0, l)
     else and_then (called send shut (map_option (\<lambda>h. Over h pcb) (owner_of (wasm l) pcb)) ops)
       (on_conn send shut pcb (Op End)) l)"
| "happens send shut memory (Datagram pcb data ip port ops) l =
    called send shut (map_option (\<lambda>u. Got_datagram u pcb data ip port) (udp (wasm l) pcb)) ops l"
| "happens send shut memory (Service ops) l = do_ops send shut ops l"

fun happen :: "'s sender \<Rightarrow> 's shutter \<Rightarrow> ('s \<Rightarrow> nat list) \<Rightarrow> ('s, 'h, 'u) happening list \<Rightarrow> ('s, 'h, 'u, 'e) net_action" where
  "happen send shut memory [] = (\<lambda>l. Some (Inr 0, l))"
| "happen send shut memory (x # xs) = and_then (happens send shut memory x) (happen send shut memory xs)"

section \<open>A run\<close>

text \<open>
  At rest a service may be set up; and lwIP is entered, for a frame from the board or because it is
  time, at a time on the board's clock: what happens until it returns, and the frames it sent are taken.
\<close>

datatype ('s, 'h, 'u) entry =
    Listen nat nat 'h
  | Listen_udp nat nat 'u
  | Enter ns "('s, 'h, 'u) happening list"

definition run_entry :: "'s sender \<Rightarrow> 's shutter \<Rightarrow> ('s \<Rightarrow> nat list) \<Rightarrow> ('s, 'h, 'u) entry \<Rightarrow> ('s, 'h, 'u, 'e) net_action" where
  "run_entry send shut memory e l = (case e of
      Listen port pcb h \<Rightarrow> tcp_listen shut port pcb h l
    | Listen_udp port pcb u \<Rightarrow> udp_open shut port pcb u l
    | Enter t xs \<Rightarrow>
        do { (r, l) \<leftarrow> lan_call (close_job shut) (happen send shut memory xs) (set_clock t l);
             Some (case r of Inl err \<Rightarrow> (Inl err, l) | Inr v \<Rightarrow> (Inr v, snd (take_emitted l))) })"

fun net_run :: "'s sender \<Rightarrow> 's shutter \<Rightarrow> ('s \<Rightarrow> nat list) \<Rightarrow> ('s, 'h, 'u) entry list \<Rightarrow> ('s, 'h, 'u, 'e) net_action" where
  "net_run send shut memory [] = (\<lambda>l. Some (Inr 0, l))"
| "net_run send shut memory (e # es) = and_then (run_entry send shut memory e) (net_run send shut memory es)"

end
