(* ===== verification/Lan_Proofs.thy ===== *)
theory Lan_Proofs
  imports Lan
begin

text \<open>The LAN's timers, deferred jobs and frames do what the code means by them.\<close>

section \<open>Timers\<close>

text \<open>The timers are a queue of timed entries, which always has room.\<close>

interpretation lan_timers: timed_queue timers at "\<lambda>_. True"
  by unfold_locales (simp_all add: at_def)

lemma at_simps [simp]: "clock_ns (at t e l) = clock_ns l" "timers (at t e l) = tq_insert t e (timers l)"
  by (simp_all add: at_def)

lemma set_clock_simps [simp]:
  "clock_ns (set_clock t l) = max (clock_ns l) t" "timers (set_clock t l) = timers l"
  "later (set_clock t l) = later l" "depth (set_clock t l) = depth l" "emitted (set_clock t l) = emitted l"
  by (simp_all add: set_clock_def)

definition due :: "('w, 'e) lan \<Rightarrow> (ns \<times> 'e) list" where
  "due l = filter (\<lambda>e. fst e \<le> clock_ns l) (timers l)"

text \<open>What a service's timer may do to the timers: set more, each after now.\<close>

definition sets_later :: "('e \<Rightarrow> ('w, 'e) action) \<Rightarrow> bool" where
  "sets_later fire \<longleftrightarrow> (\<forall>e l. \<exists>v l' new. fire e l = Some (Inr v, l') \<and> clock_ns l' = clock_ns l \<and>
     depth l' = depth l \<and> timers l' = fold (\<lambda>(t, e). tq_insert t e) new (timers l) \<and>
     (\<forall>(t, e) \<in> set new. clock_ns l < t))"

lemma fold_insert_later:
  assumes "tq_sorted q" and "\<forall>(t, e) \<in> set new. c < t"
  shows "tq_sorted (fold (\<lambda>(t, e). tq_insert t e) new q) \<and>
    filter (\<lambda>e. fst e \<le> c) (fold (\<lambda>(t, e). tq_insert t e) new q) = filter (\<lambda>e. fst e \<le> c) q"
  using assms
proof (induction new arbitrary: q)
  case (Cons te new)
  obtain t e where te: "te = (t, e)" by fastforce
  have "filter (\<lambda>e. fst e \<le> c) (filter (\<lambda>e. fst e \<le> t) q) = filter (\<lambda>e. fst e \<le> c) q"
    using Cons.prems(2) by (auto simp: te intro!: filter_cong)
  moreover have "filter (\<lambda>e. fst e \<le> c) (filter (\<lambda>e. t < fst e) q) = []"
    using Cons.prems(2) by (auto simp: te filter_empty_conv)
  ultimately have "filter (\<lambda>e. fst e \<le> c) (tq_insert t e q) = filter (\<lambda>e. fst e \<le> c) q"
    using Cons.prems by (simp add: te tq_insert_sorted_eq)
  with Cons.IH [of "tq_insert t e q"] Cons.prems show ?case
    by (simp add: te tq_sorted_insert)
qed simp

lemma run_timers_returns:
  assumes "sets_later fire" and "tq_sorted (timers l)"
  shows "\<exists>l'. run_timers fire l = Some (Inr 0, l') \<and> clock_ns l' = clock_ns l \<and> depth l' = depth l \<and>
    tq_sorted (timers l') \<and> due l' = []"
  using assms(2)
proof (induction "length (due l)" arbitrary: l rule: less_induct)
  case less
  show ?case
  proof (cases "due l = []")
    case True
    then have "run_timers fire l = Some (Inr 0, l)"
      by (cases "timers l") (auto simp: run_timers.simps [of _ l] due_def split: if_splits)
    with True less.prems show ?thesis by blast
  next
    case False
    then obtain x where "x \<in> set (timers l)" "fst x \<le> clock_ns l"
      by (auto simp: due_def filter_empty_conv)
    then obtain t e rest where ts: "timers l = (t, e) # rest" and now: "t \<le> clock_ns l"
      using tq_sorted_hd [OF less.prems, of x] by (cases "timers l") auto
    let ?l = "l\<lparr>timers := rest\<rparr>"
    have "\<exists>v l' new. fire e ?l = Some (Inr v, l') \<and> clock_ns l' = clock_ns ?l \<and> depth l' = depth ?l \<and>
        timers l' = fold (\<lambda>(t, e). tq_insert t e) new (timers ?l) \<and> (\<forall>(t, e) \<in> set new. clock_ns ?l < t)"
      using assms(1) unfolding sets_later_def by blast
    then obtain v l1 new where f: "fire e ?l = Some (Inr v, l1)" "clock_ns l1 = clock_ns l" "depth l1 = depth l"
      "timers l1 = fold (\<lambda>(t, e). tq_insert t e) new rest" "\<forall>(t, e) \<in> set new. clock_ns l < t"
      by auto
    have "tq_sorted rest" using less.prems ts by simp
    from fold_insert_later [OF this f(5)] f have k: "tq_sorted (timers l1)" "due l1 = due ?l"
      by (simp_all add: due_def)
    have "length (due l1) < length (due l)" using k ts now by (simp add: due_def)
    from less.hyps [OF this k(1)] obtain l2 where "run_timers fire l1 = Some (Inr 0, l2)"
      "clock_ns l2 = clock_ns l" "depth l2 = depth l" "tq_sorted (timers l2)" "due l2 = []"
      using f by auto
    with ts now f(1) show ?thesis by (simp add: run_timers.simps [of _ l])
  qed
qed

lemma due_empty_later: "tq_sorted (timers l) \<Longrightarrow> due l = [] \<Longrightarrow> timers l = (t, e) # rest \<Longrightarrow> clock_ns l < t"
  by (auto simp: due_def filter_empty_conv split: if_splits)

section \<open>Deferred jobs\<close>

text \<open>What a deferred job does: it returns, and neither waits for another nor touches the timers.\<close>

definition quiet_jobs :: "(lan_job \<Rightarrow> 'w \<Rightarrow> 'w) \<Rightarrow> (lan_job \<Rightarrow> ('w, 'e) action) \<Rightarrow> bool" where
  "quiet_jobs f job \<longleftrightarrow> (\<forall>j l. \<exists>v out. job j l = Some (Inr v, l\<lparr>wasm := f j (wasm l), emitted := out\<rparr>))"

lemma run_later_quiet:
  assumes "quiet_jobs f job"
  shows "\<exists>out. run_later job v l = Some (Inr v, l\<lparr>later := [], emitted := out, wasm := fold f (later l) (wasm l)\<rparr>)"
proof (induction "later l" arbitrary: l)
  case Nil
  then have "run_later job v l = Some (Inr v, l)" by (simp add: run_later.simps [of _ _ l])
  moreover have "l\<lparr>later := [], emitted := emitted l, wasm := fold f (later l) (wasm l)\<rparr> = l"
    using Nil by simp
  ultimately show ?case by metis
next
  case (Cons j js)
  let ?l = "l\<lparr>later := js, depth := Suc (depth l)\<rparr>"
  have "\<exists>u out. job j ?l = Some (Inr u, ?l\<lparr>wasm := f j (wasm ?l), emitted := out\<rparr>)"
    using assms unfolding quiet_jobs_def by blast
  then obtain u out where "job j ?l = Some (Inr u, ?l\<lparr>wasm := f j (wasm l), emitted := out\<rparr>)" by auto
  moreover obtain out' where "run_later job v (l\<lparr>later := js, wasm := f j (wasm l), emitted := out\<rparr>) =
      Some (Inr v, l\<lparr>later := [], emitted := out', wasm := fold f js (f j (wasm l))\<rparr>)"
    using Cons.hyps(1) [of "l\<lparr>later := js, wasm := f j (wasm l), emitted := out\<rparr>"] by auto
  ultimately show ?case
    using Cons.hyps(2) [symmetric] by (subst run_later.simps) auto
qed

lemma lan_call_outermost:
  assumes "quiet_jobs f job" and "depth l = 0"
    and "fn (l\<lparr>depth := 1\<rparr>) = Some (Inr v, l1)" and "depth l1 = 1"
  shows "\<exists>out. lan_call job fn l =
    Some (Inr v, l1\<lparr>depth := 0, later := [], emitted := out, wasm := fold f (later l1) (wasm l1)\<rparr>)"
  using assms run_later_quiet [OF assms(1), of v "l1\<lparr>depth := 0\<rparr>"] by (auto simp: lan_call_def)

text \<open>
  What happens inside a call, as far as deferring goes: lwIP works, something is deferred, or lwIP is
  called again.
\<close>

datatype 'w lan_act = Work "'w \<Rightarrow> 'w" | Defer lan_job | Call "'w lan_act list"

fun run_act :: "(lan_job \<Rightarrow> ('w, 'e) action) \<Rightarrow> 'w lan_act \<Rightarrow> ('w, 'e) action"
  and run_acts :: "(lan_job \<Rightarrow> ('w, 'e) action) \<Rightarrow> 'w lan_act list \<Rightarrow> ('w, 'e) action" where
  "run_act job (Work g) l = Some (Inr 0, l\<lparr>wasm := g (wasm l)\<rparr>)"
| "run_act job (Defer j) l = defer_job job j l"
| "run_act job (Call as) l = lan_call job (run_acts job as) l"
| "run_acts job [] l = Some (Inr 0, l)"
| "run_acts job (a # as) l = and_then (run_act job a) (run_acts job as) l"

fun worked :: "'w lan_act \<Rightarrow> 'w \<Rightarrow> 'w" and deferred :: "'w lan_act \<Rightarrow> lan_job list" where
  "worked (Work g) w = g w"
| "worked (Defer j) w = w"
| "worked (Call as) w = fold worked as w"
| "deferred (Work g) = []"
| "deferred (Defer j) = [j]"
| "deferred (Call as) = concat (map deferred as)"

lemma run_act_inside:
  "0 < depth l \<Longrightarrow> run_act job a l =
    Some (Inr 0, l\<lparr>wasm := worked a (wasm l), later := later l @ deferred a\<rparr>)"
  "0 < depth l \<Longrightarrow> run_acts job as l =
    Some (Inr 0, l\<lparr>wasm := fold worked as (wasm l), later := later l @ concat (map deferred as)\<rparr>)"
proof (induction job a l and job as l rule: run_act_run_acts.induct)
qed (simp_all add: defer_job_def lan_call_def and_then_def)

text \<open>
  Jobs deferred inside lwIP wait: nested calls leave them, and when the outermost call has returned
  they run, each once and in the order they were deferred.
\<close>

theorem deferred_jobs_run_after_the_call:
  assumes "quiet_jobs f job" and "depth l = 0" and "later l = []"
  shows "\<exists>out. lan_call job (run_acts job as) l =
    Some (Inr 0, l\<lparr>emitted := out, wasm := fold f (concat (map deferred as)) (fold worked as (wasm l))\<rparr>)"
proof -
  let ?l = "l\<lparr>depth := 1, wasm := fold worked as (wasm l), later := concat (map deferred as)\<rparr>"
  have "run_acts job as (l\<lparr>depth := 1\<rparr>) = Some (Inr 0, ?l)"
    using assms(3) by (simp add: run_act_inside)
  from lan_call_outermost [where l = l, OF assms(1,2), of "run_acts job as", OF this] obtain out where "lan_call job (run_acts job as) l =
    Some (Inr 0, ?l\<lparr>depth := 0, later := [], emitted := out, wasm := fold f (later ?l) (wasm ?l)\<rparr>)"
    by auto
  then show ?thesis using assms(2,3) by (cases l) auto
qed

section \<open>Time goes on\<close>

text \<open>lwIP, with what it calls back, returns, and leaves the clock and the timers to the LAN.\<close>

definition keeps_time :: "('w, 'e) action \<Rightarrow> bool" where
  "keeps_time a \<longleftrightarrow> (\<forall>l. \<exists>v l'. a l = Some (Inr v, l') \<and> clock_ns l' = clock_ns l \<and>
     depth l' = depth l \<and> timers l' = timers l)"

lemma keeps_timeD:
  assumes "keeps_time a"
  obtains v l' where "a l = Some (Inr v, l')" "clock_ns l' = clock_ns l" "depth l' = depth l" "timers l' = timers l"
  using assms unfolding keeps_time_def by blast

lemma next_ns_later:
  assumes "tq_sorted (timers l)" and "due l = []"
  shows "clock_ns l < lan_next_ns l"
proof -
  have "clock_ns l < (clock_ns l div TICK_NS + 1) * TICK_NS"
    using pos_mod_bound [of TICK_NS "clock_ns l"] div_mult_mod_eq [of "clock_ns l" TICK_NS]
    by (simp add: TICK_NS_def algebra_simps)
  moreover have "clock_ns l < t" if "timers l = (t, e) # rest" for t e rest
    by (rule due_empty_later [OF assms that])
  ultimately show ?thesis by (auto simp: lan_next_ns_def Let_def split: list.split)
qed

text \<open>
  When time reaches \<open>t\<close>, every timer due by then has run, with those they set for no later, the
  frames lwIP sent are handed over, nothing waits, and the next time the LAN asks for is later: the
  LAN never stops the clock. That holds of any services that set their timers for later than now.
\<close>

theorem lan_advance_goes_on:
  assumes "quiet_jobs f job" and "sets_later fire"
    and "keeps_time (process_timeouts lw)" and "keeps_time (process_queued lw)"
    and "depth l = 0" and "tq_sorted (timers l)"
  shows "\<exists>frames l'. lan_advance job lw fire t l = Some (Inr frames, l') \<and>
    clock_ns l' = max (clock_ns l) t \<and> tq_sorted (timers l') \<and> due l' = [] \<and> later l' = [] \<and>
    emitted l' = [] \<and> depth l' = 0 \<and> clock_ns l' < lan_next_ns l'"
proof -
  let ?l = "set_clock t l\<lparr>depth := 1\<rparr>"
  obtain u l1 where 1: "process_timeouts lw ?l = Some (Inr u, l1)" "clock_ns l1 = clock_ns ?l"
    "depth l1 = depth ?l" "timers l1 = timers ?l" using keeps_timeD [OF assms(3)] .
  have "tq_sorted (timers l1)" using 1 assms(6) by simp
  from run_timers_returns [OF assms(2) this] obtain l2 where 2: "run_timers fire l1 = Some (Inr 0, l2)"
    "clock_ns l2 = clock_ns l1" "depth l2 = depth l1" "tq_sorted (timers l2)" "due l2 = []" by blast
  obtain v l3 where 3: "process_queued lw l2 = Some (Inr v, l3)" "clock_ns l3 = clock_ns l2"
    "depth l3 = depth l2" "timers l3 = timers l2" using keeps_timeD [OF assms(4)] .
  have "and_then (process_timeouts lw) (and_then (run_timers fire) (process_queued lw)) ?l = Some (Inr v, l3)"
    using 1 2 3 by (simp add: and_then_def)
  moreover have "depth (set_clock t l) = 0" "depth l3 = 1" using 1 2 3 assms(5) by simp_all
  ultimately obtain out where c: "lan_call job (and_then (process_timeouts lw)
      (and_then (run_timers fire) (process_queued lw))) (set_clock t l) =
    Some (Inr v, l3\<lparr>depth := 0, later := [], emitted := out, wasm := fold f (later l3) (wasm l3)\<rparr>)"
    using lan_call_outermost [OF assms(1)] by blast
  let ?l' = "l3\<lparr>depth := 0, later := [], emitted := [], wasm := fold f (later l3) (wasm l3)\<rparr>"
  have "lan_advance job lw fire t l = Some (Inr out, ?l')"
    by (simp add: lan_advance_def with_frames_def c take_emitted_def)
  moreover have s: "tq_sorted (timers ?l')" "due ?l' = []" using 2 3 by (simp_all add: due_def)
  moreover have "clock_ns ?l' = max (clock_ns l) t" using 1 2 3 by simp
  moreover have "clock_ns ?l' < lan_next_ns ?l'" by (rule next_ns_later [OF s])
  ultimately show ?thesis by (intro exI [of _ out] exI [of _ ?l']) simp
qed

text \<open>An lwIP that does nothing, and timers that set themselves a second later.\<close>

definition idle :: "('w, 'e) action" where
  "idle l = Some (Inr 0, l)"

definition every_second :: "'e \<Rightarrow> ('w, 'e) action" where
  "every_second e l = Some (Inr 0, at (clock_ns l + 1000000000) e l)"

definition idle_lwip :: "('w, 'e) lwip" where
  "idle_lwip = \<lparr> send_tap = \<lambda>_. idle, process_queued = idle, process_timeouts = idle \<rparr>"

lemma idle_facts:
  "quiet_jobs (\<lambda>j w. w) (\<lambda>j. idle :: ('w, 'e) action)" "keeps_time idle"
  "keeps_time (process_timeouts idle_lwip)" "keeps_time (process_queued idle_lwip)"
proof -
  show "quiet_jobs (\<lambda>j w. w) (\<lambda>j. idle :: ('w, 'e) action)"
    unfolding quiet_jobs_def
  proof (intro allI)
    fix j and l :: "('w, 'e) lan"
    show "\<exists>v out. idle l = Some (Inr v, l\<lparr>wasm := wasm l, emitted := out\<rparr>)"
      by (rule exI [of _ 0], rule exI [of _ "emitted l"]) (simp add: idle_def)
  qed
qed (simp_all add: keeps_time_def idle_def idle_lwip_def)

lemma every_second_sets_later: "sets_later (every_second :: 'e \<Rightarrow> ('w, 'e) action)"
  unfolding sets_later_def
proof (intro allI)
  fix e and l :: "('w, 'e) lan"
  let ?t = "clock_ns l + 1000000000"
  show "\<exists>v l' new. every_second e l = Some (Inr v, l') \<and> clock_ns l' = clock_ns l \<and> depth l' = depth l \<and>
    timers l' = fold (\<lambda>(t, e). tq_insert t e) new (timers l) \<and> (\<forall>(t, e) \<in> set new. clock_ns l < t)"
    by (rule exI [of _ 0], rule exI [of _ "at ?t e l"], rule exI [of _ "[(?t, e)]"])
      (simp add: every_second_def at_def)
qed

abbreviation a_lan :: "(nat, nat) lan" where
  "a_lan \<equiv> \<lparr> clock_ns = 0, emitted = [], later = [], timers = [(30000000, 1)], depth = 0, wasm = 0 \<rparr>"

theorem lan_advance_goes_on_witness:
  "\<exists>frames l'. lan_advance (\<lambda>j. idle) idle_lwip every_second 30000000 a_lan = Some (Inr frames, l') \<and>
    clock_ns l' = 30000000 \<and> due l' = [] \<and> clock_ns l' < lan_next_ns l'"
  using lan_advance_goes_on [OF idle_facts(1) every_second_sets_later idle_facts(3,4), of a_lan 30000000]
  by auto

theorem deferred_jobs_run_after_the_call_witness:
  "\<exists>out. lan_call (\<lambda>j. idle) (run_acts (\<lambda>j. idle) [Defer (Close_tcp 3), Work Suc, Call [Defer (Close_udp 1)]])
    a_lan = Some (Inr 0, a_lan\<lparr>emitted := out, wasm := 1\<rparr>)"
  using deferred_jobs_run_after_the_call [OF idle_facts(1), of a_lan
    "[Defer (Close_tcp 3), Work Suc, Call [Defer (Close_udp 1)]]"]
  by (simp del: run_acts.simps)

section \<open>Frames\<close>

text \<open>A chain of buffers in memory, and what each holds.\<close>

fun pbufs :: "nat list \<Rightarrow> nat \<Rightarrow> nat list list \<Rightarrow> bool" where
  "pbufs m q [] = True"
| "pbufs m q (b # bs) =
    (0 < q \<and> mem16 m (q + 10) = Some (length b) \<and>
     Option.bind (mem32 m (q + 4)) (\<lambda>a. mem_bytes m a (length b)) = Some b \<and>
     (case mem32 m q of None \<Rightarrow> False | Some q' \<Rightarrow> pbufs m q' bs))"

lemma pbuf_chain_whole:
  "pbufs m q bs \<Longrightarrow> len = length frame + length (concat bs) \<Longrightarrow>
    pbuf_chain m len q frame = Some (Inr (frame @ concat bs))"
proof (induction m q bs arbitrary: frame rule: pbufs.induct)
  case (1 m q)
  then show ?case by (simp add: pbuf_chain.simps)
next
  case (2 m q b bs)
  obtain q' where q': "mem32 m q = Some q'" "pbufs m q' bs" using 2 by (auto split: option.splits)
  show ?case
  proof (cases "length (concat (b # bs)) = 0")
    case True
    then have "concat (b # bs) = []" by (simp only: length_0_conv)
    then have "len \<le> length frame" using 2(3) by simp
    then show ?thesis using \<open>concat (b # bs) = []\<close> by (simp add: pbuf_chain.simps [of m len q])
  next
    case False
    have "pbuf_chain m len q' (frame @ b) = Some (Inr ((frame @ b) @ concat bs))"
      using 2 q' by (intro 2(1)) auto
    moreover have "min (length b) (len - length frame) = length b" "\<not> len \<le> length frame"
      using 2(3) False by auto
    ultimately show ?thesis
      using 2(2) q' by (simp add: pbuf_chain.simps [of m len q])
  qed
qed

text \<open>
  A frame that lwIP hands over as a chain of buffers goes out as their contents, one after another,
  however many there are; and one that is a single buffer as its own bytes.
\<close>

theorem frame_is_the_whole_chain:
  assumes "16 < ptr" and "pbufs m (ptr - 16) (b # bs)" and "mem32 m (ptr - 12) = Some ptr"
    and "mem16 m (ptr - 8) = Some len" and "len = length (concat (b # bs))"
  shows "frame_at m ptr len = Some (Inr (concat (b # bs)))"
proof -
  have e: "ptr - 16 + 4 = ptr - 12" "ptr - 16 + 8 = ptr - 8" using assms(1) by simp_all
  have r: "mem32 m (ptr - 16 + 4) = Some ptr" "mem16 m (ptr - 16 + 8) = Some len"
    "mem16 m (ptr - 16 + 10) = Some (length b)" "mem_bytes m ptr (length b) = Some b"
    using assms e by auto
  have "length b = len \<Longrightarrow> b = concat (b # bs)" using assms(5) by simp
  moreover have "pbuf_chain m len (ptr - 16) [] = Some (Inr (concat (b # bs)))"
    using pbuf_chain_whole [OF assms(2), of len "[]"] assms(5) by simp
  moreover have "length b \<le> len" using assms(5) by simp
  ultimately show ?thesis
    using assms(1) r by (auto simp: frame_at_def Let_def frame_bytes_def)
qed

definition two_pbufs :: "nat list" where
  "two_pbufs = [0, 0, 0, 0, 24, 0, 0, 0, 20, 0, 0, 0, 3, 0, 2, 0, 0, 0, 0, 0, 7, 8, 0, 0,
    0, 0, 0, 0, 40, 0, 0, 0, 1, 0, 1, 0, 0, 0, 0, 0, 9]"

theorem frame_is_the_whole_chain_witness: "frame_at two_pbufs 20 3 = Some (Inr (concat [[7, 8], [9]]))"
  by (rule frame_is_the_whole_chain)
    (simp_all add: two_pbufs_def mem16_def mem32_def mem_bytes_def js_slice_def)

end
