(* ===== verification/Lan_Sockets_Proofs.thy ===== *)
theory Lan_Sockets_Proofs
  imports Lan_Sockets Lan_Proofs
begin

text \<open>
  Every connection lwIP opens is given back to it once: what is opened is closed or in the table, what
  is in the table when nothing runs is not closed, and what is closed is closed from outside lwIP.
\<close>

section \<open>What lwIP promises\<close>

text \<open>
  It keeps a control block until it is told to close it: one that is opened is not open. That is said
  of what has passed between them.
\<close>

definition opened :: "exchange list \<Rightarrow> nat \<Rightarrow> nat" where
  "opened xs pcb = count_list xs (Opened pcb)"

definition told_to_close :: "exchange list \<Rightarrow> nat \<Rightarrow> nat" where
  "told_to_close xs pcb = count_list xs (Told_to_close (Close_tcp pcb))"

fun fresh_after :: "exchange list \<Rightarrow> exchange list \<Rightarrow> bool" where
  "fresh_after seen [] = True"
| "fresh_after seen (x # xs) =
    ((case x of Opened pcb \<Rightarrow> opened seen pcb = told_to_close seen pcb | _ \<Rightarrow> True) \<and> fresh_after (seen @ [x]) xs)"

abbreviation fresh :: "(('s, 'h, 'u) sockets, 'e) lan \<Rightarrow> bool" where
  "fresh l \<equiv> fresh_after [] (exchanged (wasm l))"

lemma fresh_after_snoc:
  "fresh_after seen (xs @ [x]) \<longleftrightarrow> fresh_after seen xs \<and>
    (case x of Opened pcb \<Rightarrow> opened (seen @ xs) pcb = told_to_close (seen @ xs) pcb | _ \<Rightarrow> True)"
  by (induction xs arbitrary: seen) (simp_all split: exchange.split)

lemma counts_snoc [simp]:
  "opened (xs @ [x]) pcb = opened xs pcb + (if x = Opened pcb then 1 else 0)"
  "told_to_close (xs @ [x]) pcb = told_to_close xs pcb + (if x = Told_to_close (Close_tcp pcb) then 1 else 0)"
  by (simp_all add: opened_def told_to_close_def)

lemma counts_Nil [simp]: "opened [] pcb = 0" "told_to_close [] pcb = 0"
  by (simp_all add: opened_def told_to_close_def)

section \<open>The table and the jobs that wait agree\<close>

definition pcb_ok :: "lan_job list \<Rightarrow> ('s, 'h, 'u) sockets \<Rightarrow> nat \<Rightarrow> bool" where
  "pcb_ok js w pcb \<longleftrightarrow> (case tcp w pcb of
      None \<Rightarrow> opened (exchanged w) pcb = told_to_close (exchanged w) pcb \<and> Close_tcp pcb \<notin> set js
    | Some x \<Rightarrow> opened (exchanged w) pcb = told_to_close (exchanged w) pcb + 1 \<and> conn_ok (conn x) \<and>
        count_list js (Close_tcp pcb) = (if closed (conn x) then 1 else 0))"

definition kept :: "(('s, 'h, 'u) sockets, 'e) lan \<Rightarrow> bool" where
  "kept l \<longleftrightarrow> (fresh l \<longrightarrow> (\<forall>pcb. pcb_ok (later l) (wasm l) pcb))"

text \<open>An action that, inside lwIP, returns there and keeps that.\<close>

definition sound :: "('s, 'h, 'u, 'e) net_action \<Rightarrow> bool" where
  "sound a \<longleftrightarrow> (\<forall>l. 0 < depth l \<longrightarrow>
    (\<exists>v l'. a l = Some (Inr v, l') \<and> depth l' = depth l \<and> (kept l \<longrightarrow> kept l')))"

lemma soundE:
  assumes "sound a" and "0 < depth l"
  obtains v l' where "a l = Some (Inr v, l')" "depth l' = depth l" "kept l \<Longrightarrow> kept l'"
proof -
  from assms have "\<exists>v l'. a l = Some (Inr v, l') \<and> depth l' = depth l \<and> (kept l \<longrightarrow> kept l')"
    by (simp add: sound_def)
  then obtain v l' where "a l = Some (Inr v, l')" "depth l' = depth l" "kept l \<longrightarrow> kept l'" by blast
  with that show thesis by simp
qed

lemma sound_return [simp]: "sound (\<lambda>l. Some (Inr v, l))"
  by (simp add: sound_def)

lemma sound_and_then [intro]:
  assumes "sound a" and "sound b"
  shows "sound (and_then a b)"
  unfolding sound_def
proof (intro allI impI)
  fix l :: "(('a, 'b, 'c) sockets, 'd) lan"
  assume d: "0 < depth l"
  obtain v l1 where 1: "a l = Some (Inr v, l1)" "depth l1 = depth l" "kept l \<longrightarrow> kept l1"
    by (rule soundE [OF assms(1) d]) blast
  with d have "0 < depth l1" by simp
  then obtain u l2 where "b l1 = Some (Inr u, l2)" "depth l2 = depth l1" "kept l1 \<longrightarrow> kept l2"
    by (rule soundE [OF assms(2)]) blast
  with 1 show "\<exists>v l'. and_then a b l = Some (Inr v, l') \<and> depth l' = depth l \<and> (kept l \<longrightarrow> kept l')"
    by (auto simp: and_then_def)
qed

lemma sound_upd:
  assumes "\<And>w. tcp (f w) = tcp w"
    and "\<And>w. exchanged (f w) = exchanged w \<or> (\<exists>x. exchanged (f w) = exchanged w @ [x] \<and>
      (\<forall>pcb. x \<noteq> Opened pcb \<and> x \<noteq> Told_to_close (Close_tcp pcb)))"
  shows "sound (upd f)"
  unfolding sound_def
proof (intro allI impI)
  fix l :: "(('a, 'b, 'c) sockets, 'd) lan"
  have "kept l \<longrightarrow> kept (l\<lparr>wasm := f (wasm l)\<rparr>)"
    using assms(2) [of "wasm l"]
    by (auto simp: kept_def pcb_ok_def assms(1) fresh_after_snoc split: option.splits)
  then show "\<exists>v l'. upd f l = Some (Inr v, l') \<and> depth l' = depth l \<and> (kept l \<longrightarrow> kept l')"
    by (simp add: upd_def)
qed

lemma sound_put_conn: "sound (upd (put_conn pcb h))"
  unfolding sound_def
proof (intro allI impI)
  fix l :: "(('a, 'b, 'c) sockets, 'd) lan"
  have "pcb_ok (later l) (put_conn pcb h (wasm l)) q"
    if "\<forall>q. pcb_ok (later l) (wasm l) q" "fresh (l\<lparr>wasm := put_conn pcb h (wasm l)\<rparr>)" for q
  proof -
    have "pcb_ok (later l) (wasm l) pcb" "opened (exchanged (wasm l)) pcb = told_to_close (exchanged (wasm l)) pcb"
      using that by (simp_all add: put_conn_def exchange_def fresh_after_snoc)
    then have "opened (exchanged (wasm l)) pcb = told_to_close (exchanged (wasm l)) pcb" "Close_tcp pcb \<notin> set (later l)"
      by (auto simp: pcb_ok_def split: option.splits)
    moreover have "pcb_ok (later l) (wasm l) q" using that by simp
    ultimately show ?thesis
      by (auto simp: pcb_ok_def put_conn_def exchange_def new_conn_def conn_ok_def count_list_0_iff
          split: option.splits)
  qed
  then have "kept l \<longrightarrow> kept (l\<lparr>wasm := put_conn pcb h (wasm l)\<rparr>)"
    by (auto simp: kept_def put_conn_def exchange_def fresh_after_snoc)
  then show "\<exists>v l'. upd (put_conn pcb h) l = Some (Inr v, l') \<and> depth l' = depth l \<and> (kept l \<longrightarrow> kept l')"
    by (simp add: upd_def)
qed

lemma sound_defer_udp: "sound (defer_job job (Close_udp pcb))"
  unfolding sound_def
  by (auto simp: defer_job_def kept_def pcb_ok_def split: option.splits)

lemma sound_on_conn:
  assumes "takes_no_more send"
  shows "sound (on_conn send shut pcb e)"
  unfolding sound_def
proof (intro allI impI)
  fix l :: "(('a, 'b, 'c) sockets, 'd) lan"
  assume d: "0 < depth l"
  show "\<exists>v l'. on_conn send shut pcb e l = Some (Inr v, l') \<and> depth l' = depth l \<and> (kept l \<longrightarrow> kept l')"
  proof (cases "tcp (wasm l) pcb")
    case (Some x)
    obtain s c t cl where st: "conn_step send (stack (wasm l)) e (conn x) = (s, c, t, cl)" by (metis prod_cases4)
    let ?w = "(wasm l)\<lparr>stack := s, tcp := (tcp (wasm l))(pcb \<mapsto> x\<lparr>conn := c\<rparr>)\<rparr>"
    let ?l = "l\<lparr>wasm := ?w, later := later l @ (if cl then [Close_tcp pcb] else [])\<rparr>"
    have "on_conn send shut pcb e l = Some (Inr 0, ?l)"
      using Some st d by (simp add: on_conn_def defer_job_def)
    moreover have "pcb_ok (later ?l) ?w q" if "pcb_ok (later l) (wasm l) q" "pcb_ok (later l) (wasm l) pcb" for q
    proof -
      have "conn_ok (conn x)" using that(2) Some by (simp add: pcb_ok_def)
      from conn_step_conserves [OF assms this st] have "conn_ok c" "closed c = (closed (conn x) \<or> cl)"
        "cl \<longrightarrow> \<not> closed (conn x)" by auto
      with that Some show ?thesis by (auto simp: pcb_ok_def split: option.splits)
    qed
    then have "kept l \<longrightarrow> kept ?l" by (auto simp: kept_def)
    ultimately show ?thesis by auto
  qed (simp add: on_conn_def)
qed

lemma asked_inside: "0 < depth l \<Longrightarrow> asked shut pcb k l = k pcb l"
  by (simp add: asked_def lan_call_def)

lemma sound_cong: "(\<And>l. 0 < depth l \<Longrightarrow> a l = b l) \<Longrightarrow> sound b \<Longrightarrow> sound a"
  by (simp add: sound_def)

text \<open>What is done may depend on the tables.\<close>

lemma sound_depending: "(\<And>w. sound (a w)) \<Longrightarrow> sound (\<lambda>l. a (wasm l) l)"
  by (simp add: sound_def)

section \<open>Everything that happens is sound\<close>

text \<open>
  What does not throw: the LAN gets the UDP sockets it asks for and the ports it listens on, and a
  frame lwIP hands over is where it says.
\<close>

fun op_ok :: "('h, 'u) op \<Rightarrow> bool" where
  "op_ok (Open_udp port pcb u) \<longleftrightarrow> pcb \<noteq> 0"
| "op_ok _ \<longleftrightarrow> True"

fun orderly :: "('s \<Rightarrow> nat list) \<Rightarrow> ('s, 'h, 'u) happening \<Rightarrow> bool" where
  "orderly memory (Frame ptr len) \<longleftrightarrow> (\<forall>s. \<exists>f. frame_at (memory s) ptr len = Some (Inr f))"
| "orderly memory (Accept listener pcb ops) \<longleftrightarrow> list_all op_ok ops"
| "orderly memory (Connected pcb ops) \<longleftrightarrow> list_all op_ok ops"
| "orderly memory (Chunk pcb data ops) \<longleftrightarrow> list_all op_ok ops"
| "orderly memory (Gone pcb ops) \<longleftrightarrow> list_all op_ok ops"
| "orderly memory (Datagram pcb data ip port ops) \<longleftrightarrow> list_all op_ok ops"
| "orderly memory (Service ops) \<longleftrightarrow> list_all op_ok ops"
| "orderly memory _ \<longleftrightarrow> True"

fun entry_orderly :: "('s \<Rightarrow> nat list) \<Rightarrow> ('s, 'h, 'u) entry \<Rightarrow> bool" where
  "entry_orderly memory (Listen port pcb h) \<longleftrightarrow> pcb \<noteq> 0"
| "entry_orderly memory (Listen_udp port pcb u) \<longleftrightarrow> pcb \<noteq> 0"
| "entry_orderly memory (Enter t xs) \<longleftrightarrow> list_all (orderly memory) xs"

lemma sound_upds [intro, simp]:
  "sound (upd (tell t))" "sound (upd (exchange (Credit pcb n)))"
  "sound (upd (exchange (Sent_datagram pcb ip port data)))" "sound (upd (\<lambda>w. w\<lparr>stack := s\<rparr>))"
  "sound (upd (\<lambda>w. w\<lparr>udp := (udp w)(pcb \<mapsto> u)\<rparr>))" "sound (upd (\<lambda>w. w\<lparr>listeners := (listeners w)(pcb \<mapsto> h)\<rparr>))"
  by (auto intro!: sound_upd simp: tell_def exchange_def)

lemma lan_call_inside:
  assumes "sound a"
  shows "sound (lan_call job a)"
  unfolding sound_def
proof (intro allI impI)
  fix l :: "(('a, 'b, 'c) sockets, 'd) lan"
  assume d: "0 < depth l"
  let ?l = "l\<lparr>depth := Suc (depth l)\<rparr>"
  obtain v l' where "a ?l = Some (Inr v, l')" "depth l' = depth ?l" "kept ?l \<longrightarrow> kept l'"
    by (rule soundE [OF assms, of ?l]) auto
  with d show "\<exists>v l'. lan_call job a l = Some (Inr v, l') \<and> depth l' = depth l \<and> (kept l \<longrightarrow> kept l')"
    by (simp add: lan_call_def kept_def)
qed

lemma sound_op:
  assumes "takes_no_more send" and "op_ok op"
  shows "sound (do_op send shut op)"
proof (cases op)
  case (Connect pcb h)
  show ?thesis
  proof (rule sound_cong)
    show "sound (if pcb = 0 then (\<lambda>l. Some (Inr 0, l)) else upd (put_conn pcb (Some h)))"
      by (simp add: sound_put_conn)
  qed (simp add: Connect tcp_connect_def asked_inside)
next
  case (Open_udp port pcb u)
  show ?thesis
    by (rule sound_cong [of _ "upd (\<lambda>w. w\<lparr>udp := (udp w)(pcb \<mapsto> u)\<rparr>)"])
      (use assms(2) in \<open>simp_all add: Open_udp udp_open_def asked_inside\<close>)
qed (use assms in \<open>simp_all add: sound_on_conn sound_defer_udp udp_send_def lan_call_inside\<close>)

lemma sound_ops: "takes_no_more send \<Longrightarrow> list_all op_ok ops \<Longrightarrow> sound (do_ops send shut ops)"
  by (induction ops) (simp_all add: sound_and_then sound_op)

lemma sound_called:
  "takes_no_more send \<Longrightarrow> list_all op_ok ops \<Longrightarrow> sound (called send shut t ops)"
  by (cases t) (simp_all add: called_def [abs_def] sound_and_then sound_ops)

lemma sound_frame:
  assumes "orderly memory (Frame ptr len)"
  shows "sound (happens send shut memory (Frame ptr len) :: ('s, 'h, 'u, 'e) net_action)"
  unfolding sound_def
proof (intro allI impI)
  fix l :: "(('s, 'h, 'u) sockets, 'e) lan"
  have "\<exists>f. frame_at (memory (stack (wasm l))) ptr len = Some (Inr f)" using assms by simp
  then obtain f where "frame_at (memory (stack (wasm l))) ptr len = Some (Inr f)" ..
  then show "\<exists>v l'. happens send shut memory (Frame ptr len) l = Some (Inr v, l') \<and> depth l' = depth l \<and>
      (kept l \<longrightarrow> kept l')"
    by (simp add: kept_def)
qed

lemma sound_happens:
  assumes "takes_no_more send" and "orderly memory x"
  shows "sound (happens send shut memory x)"
proof (cases x)
  case (Accept listener pcb ops)
  show ?thesis
    by (rule sound_cong [OF _ sound_depending [of "\<lambda>w. and_then (upd (put_conn pcb (listeners w listener)))
        (called send shut (map_option (\<lambda>h. Accepted h pcb) (listeners w listener)) ops)"]])
      (use assms Accept in \<open>simp_all add: Let_def sound_and_then sound_put_conn sound_called\<close>)
next
  case (Connected pcb ops)
  show ?thesis
    by (rule sound_cong [OF _ sound_depending [of "\<lambda>w. called send shut (map_option (\<lambda>h. Made h pcb) (owner_of w pcb)) ops"]])
      (use assms Connected in \<open>simp_all add: sound_called\<close>)
next
  case (Chunk pcb data ops)
  show ?thesis
    by (rule sound_cong [OF _ sound_depending [of "\<lambda>w. and_then (upd (exchange (Credit pcb (length data))))
        (called send shut (map_option (\<lambda>h. Got h pcb data) (owner_of w pcb)) ops)"]])
      (use assms Chunk in \<open>simp_all add: sound_and_then sound_called\<close>)
next
  case (Gone pcb ops)
  show ?thesis
    by (rule sound_cong [OF _ sound_depending [of "\<lambda>w. if tcp w pcb = None then (\<lambda>l. Some (Inr 0, l))
        else and_then (called send shut (map_option (\<lambda>h. Over h pcb) (owner_of w pcb)) ops)
          (on_conn send shut pcb (Op End))"]])
      (use assms Gone in \<open>simp_all add: sound_and_then sound_called sound_on_conn\<close>)
next
  case (Datagram pcb data ip port ops)
  show ?thesis
    by (rule sound_cong [OF _ sound_depending [of "\<lambda>w. called send shut
        (map_option (\<lambda>u. Got_datagram u pcb data ip port) (udp w pcb)) ops"]])
      (use assms Datagram in \<open>simp_all add: sound_called\<close>)
next
  case (Lwip s)
  show ?thesis by (rule sound_cong [of _ "upd (\<lambda>w. w\<lparr>stack := s\<rparr>)"]) (simp_all add: Lwip)
next
  case (Room pcb)
  show ?thesis by (rule sound_cong [OF _ sound_on_conn [OF assms(1)]]) (simp add: Room)
next
  case (Service ops)
  show ?thesis by (rule sound_cong [OF _ sound_ops [OF assms(1)]]) (use assms Service in simp_all)
next
  case (Frame ptr len)
  show ?thesis using assms(2) unfolding Frame by (rule sound_frame)
qed

lemma sound_happen:
  "takes_no_more send \<Longrightarrow> list_all (orderly memory) xs \<Longrightarrow> sound (happen send shut memory xs)"
  by (induction xs) (simp_all add: sound_and_then sound_happens)

section \<open>Once lwIP has returned\<close>

lemma give_back_ok:
  assumes "\<And>pcb. pcb_ok (j # js) w pcb"
  shows "pcb_ok js (give_back shut j w) q"
proof (cases j)
  case (Close_tcp pcb)
  have "pcb_ok (j # js) w pcb" by (rule assms)
  then have "opened (exchanged w) pcb = told_to_close (exchanged w) pcb + 1" "count_list js (Close_tcp pcb) = 0"
    by (auto simp: pcb_ok_def Close_tcp split: option.splits if_splits)
  with assms [of q] show ?thesis
    by (auto simp: pcb_ok_def give_back_def exchange_def Close_tcp count_list_0_iff split: option.splits)
qed (use assms [of q] in \<open>auto simp: pcb_ok_def give_back_def exchange_def split: option.splits\<close>)

lemma give_back_fresh:
  "fresh_after [] (exchanged (give_back shut j w)) = fresh_after [] (exchanged w)"
  by (auto simp: give_back_def exchange_def fresh_after_snoc split: lan_job.split)

lemma let_all_go:
  "(\<And>pcb. pcb_ok js w pcb) \<Longrightarrow> pcb_ok [] (fold (give_back shut) js w) q"
proof (induction js arbitrary: w)
  case (Cons j js)
  have "pcb_ok js (give_back shut j w) pcb" for pcb by (rule give_back_ok [OF Cons.prems])
  from Cons.IH [OF this] show ?case by simp
qed simp

lemma let_all_go_fresh:
  "fresh_after [] (exchanged (fold (give_back shut) js w)) = fresh_after [] (exchanged w)"
  by (induction js arbitrary: w) (simp_all add: give_back_fresh)

lemma close_job_quiet: "quiet_jobs (give_back shut) (close_job shut)"
  unfolding quiet_jobs_def
proof (intro allI)
  fix j and l :: "(('a, 'b, 'c) sockets, 'd) lan"
  show "\<exists>v out. close_job shut j l = Some (Inr v, l\<lparr>wasm := give_back shut j (wasm l), emitted := out\<rparr>)"
    by (rule exI [of _ 0], rule exI [of _ "emitted l"]) (simp add: close_job_def upd_def)
qed

definition at_rest :: "(('s, 'h, 'u) sockets, 'e) lan \<Rightarrow> bool" where
  "at_rest l \<longleftrightarrow> depth l = 0 \<and> later l = [] \<and> (fresh l \<longrightarrow> (\<forall>pcb. pcb_ok [] (wasm l) pcb))"

lemma call_from_outside:
  assumes "sound fn" and "at_rest l"
  shows "\<exists>v l'. lan_call (close_job shut) fn l = Some (Inr v, l') \<and> at_rest l'"
proof -
  let ?l = "l\<lparr>depth := 1\<rparr>"
  have "kept ?l" using assms(2) by (simp add: at_rest_def kept_def)
  then obtain v l1 where 1: "fn ?l = Some (Inr v, l1)" "depth l1 = 1" "kept l1"
    by (rule_tac soundE [OF assms(1), of ?l]) auto
  have "depth l = 0" using assms(2) by (simp add: at_rest_def)
  from lan_call_outermost [OF close_job_quiet this, of fn v l1 shut, OF 1(1,2)] obtain out where c:
    "lan_call (close_job shut) fn l =
      Some (Inr v, l1\<lparr>depth := 0, later := [], emitted := out, wasm := fold (give_back shut) (later l1) (wasm l1)\<rparr>)" ..
  have "pcb_ok [] (fold (give_back shut) (later l1) (wasm l1)) q"
    if "fresh_after [] (exchanged (fold (give_back shut) (later l1) (wasm l1)))" for q
    by (rule let_all_go) (use 1(3) that in \<open>simp add: kept_def let_all_go_fresh\<close>)
  then have "fresh_after [] (exchanged (fold (give_back shut) (later l1) (wasm l1))) \<longrightarrow>
      (\<forall>q. pcb_ok [] (fold (give_back shut) (later l1) (wasm l1)) q)" by blast
  then show ?thesis by (simp add: c at_rest_def)
qed

lemma asked_outside: "at_rest l \<Longrightarrow> asked shut pcb k l = k pcb l"
  by (cases l) (simp add: at_rest_def asked_def lan_call_def run_later.simps)

lemma upd_at_rest:
  assumes "\<And>w. tcp (f w) = tcp w" and "\<And>w. exchanged (f w) = exchanged w" and "at_rest l"
  shows "\<exists>l'. upd f l = Some (Inr 0, l') \<and> at_rest l'"
proof -
  have "pcb_ok js (f w) = pcb_ok js w" for js w
    by (simp add: fun_eq_iff pcb_ok_def assms(1,2) split: option.split)
  with assms(3) show ?thesis by (auto simp: upd_def at_rest_def assms(2))
qed

lemma entry_returns:
  assumes "takes_no_more send" and "entry_orderly memory e" and "at_rest l"
  shows "\<exists>v l'. run_entry send shut memory e l = Some (Inr v, l') \<and> at_rest l'"
proof (cases e)
  case (Listen port pcb h)
  then show ?thesis
    using assms(2) upd_at_rest [OF _ _ assms(3), of "\<lambda>w. w\<lparr>listeners := (listeners w)(pcb \<mapsto> h)\<rparr>"]
    by (auto simp: run_entry_def tcp_listen_def asked_outside [OF assms(3)])
next
  case (Listen_udp port pcb u)
  then show ?thesis
    using assms(2) upd_at_rest [OF _ _ assms(3), of "\<lambda>w. w\<lparr>udp := (udp w)(pcb \<mapsto> u)\<rparr>"]
    by (auto simp: run_entry_def udp_open_def asked_outside [OF assms(3)])
next
  case (Enter t xs)
  have "at_rest (set_clock t l)" using assms(3) by (auto simp: at_rest_def kept_def set_clock_def)
  then have "\<exists>v l'. lan_call (close_job shut) (happen send shut memory xs) (set_clock t l) = Some (Inr v, l') \<and> at_rest l'"
    using assms(2) Enter by (intro call_from_outside sound_happen assms(1)) simp_all
  then show ?thesis by (auto simp: Enter run_entry_def take_emitted_def at_rest_def)
qed

lemma run_returns:
  assumes "takes_no_more send" and "list_all (entry_orderly memory) es" and "at_rest l"
  shows "\<exists>v l'. net_run send shut memory es l = Some (Inr v, l') \<and> at_rest l'"
  using assms(2,3)
proof (induction es arbitrary: l)
  case (Cons e es)
  obtain v l1 where 1: "run_entry send shut memory e l = Some (Inr v, l1)" "at_rest l1"
    using entry_returns [OF assms(1) _ Cons.prems(2), of memory e shut] Cons.prems(1) by auto
  moreover have "\<exists>v l'. net_run send shut memory es l1 = Some (Inr v, l') \<and> at_rest l'"
    by (rule Cons.IH [OF _ 1(2)]) (use Cons.prems(1) in simp)
  ultimately show ?case by (auto simp: and_then_def)
qed simp

lemma pcb_ok_rest:
  "pcb_ok [] w pcb \<Longrightarrow> (case tcp w pcb of
      None \<Rightarrow> opened (exchanged w) pcb = told_to_close (exchanged w) pcb
    | Some x \<Rightarrow> opened (exchanged w) pcb = told_to_close (exchanged w) pcb + 1 \<and> \<not> closed (conn x))"
  by (auto simp: pcb_ok_def split: option.splits if_splits)


text \<open>The jobs that wait, for evaluation.\<close>

lemma run_later_steps:
  "later l = [] \<Longrightarrow> run_later job v l = Some (Inr v, l)"
  "later l = j # js \<Longrightarrow> job j (l\<lparr>later := js, depth := Suc (depth l)\<rparr>) = Some (Inr u, l1) \<Longrightarrow>
    run_later job v l = run_later job v (l1\<lparr>depth := depth l1 - 1\<rparr>)"
  by (simp_all add: run_later.simps [of job v l])

lemmas net_defs = run_entry_def tcp_listen_def udp_open_def asked_def lan_call_def and_then_def upd_def
  set_clock_def on_conn_def conn_step_def conn_write_def conn_end_def pump_def called_def put_conn_def exchange_def
  tell_def owner_of_def defer_job_def close_job_def give_back_def take_emitted_def new_lan_def new_sockets_def new_conn_def

text \<open>
  A service listens; a connection is accepted, says something and is answered and ended at once; lwIP
  has room for three bytes, and later for the rest.
\<close>

definition three_at_most :: "nat sender" where
  "three_at_most w chunk = (w - min w (min 3 (length chunk)), min w (min 3 (length chunk)))"

abbreviation a_run :: "(nat, nat, nat) entry list" where
  "a_run \<equiv> [Listen 7 20 1,
    Enter 1000 [Lwip 3, Accept 20 100 [], Chunk 100 [1, 2] [On_conn 100 (Write [5, 6, 7, 8]), On_conn 100 End]],
    Enter 2000 [Lwip 9, Room 100, Gone 100 []],
    Enter 3000 [Accept 20 100 []]]"

lemma a_run_log:
  "\<exists>v (l :: ((nat, nat, nat) sockets, nat) lan). net_run three_at_most (\<lambda>j s. s) (\<lambda>s. []) a_run (new_lan 0) = Some (Inr v, l) \<and>
    exchanged (wasm l) = [Opened 100, Credit 100 2, Told_to_close (Close_tcp 100), Opened 100] \<and>
    told (wasm l) = [Accepted 1 100, Got 1 100 [1, 2], Over 1 100, Accepted 1 100]"
  by (simp add: net_defs three_at_most_def run_later_steps Let_def)


section \<open>A frame from the board is such an entry\<close>

lemma happen_append:
  "happen send shut memory (xs @ ys) = and_then (happen send shut memory xs) (happen send shut memory ys)"
proof (induction xs)
  case (Cons x xs)
  have "and_then a (and_then b c) = and_then (and_then a b) c" for a b c :: "('s, 'e) action"
    by (auto simp: and_then_def fun_eq_iff Option.bind_assoc split: option.split sum.split intro!: bind_option_cong)
  with Cons show ?case by simp
qed (simp add: and_then_def fun_eq_iff)

text \<open>
  When sending lwIP a frame makes \<open>xs\<close> happen and having it work off its queue \<open>ys\<close>, \<open>input\<close> leaves the LAN
  as the entry with both does.
\<close>

lemma input_is_an_entry:
  assumes "send_tap lw frame = happen send shut memory xs" and "process_queued lw = happen send shut memory ys"
  shows "map_option snd (lan_input (close_job shut) lw frame t l) =
    map_option snd (run_entry send shut memory (Enter t (xs @ ys)) l)"
  by (auto simp: lan_input_def run_entry_def happen_append assms with_frames_def
      split: option.split sum.split intro!: bind_option_cong simp: map_option_bind)

end
