(* ===== verification/Pair_Proofs.thy ===== *)
theory Pair_Proofs
  imports Pair_Run Core_Sample
begin

text \<open>
  Conservative synchronisation: the pair never comes to a stand, and as long as no step overruns its
  limit and an idle board keeps its word, nothing either board sends arrives in the other's past.
\<close>

section \<open>The pair's parts\<close>

lemma less_2_cases: "i < 2 \<Longrightarrow> i = 0 \<or> i = 1" for i :: nat
  by auto

definition pair_ok :: "('g, 'l) board_pair \<Rightarrow> bool" where
  "pair_ok p \<longleftrightarrow> length (boards p) = 2 \<and> length (powered p) = 2 \<and> length (seen p) = 2"

lemma set_board_simps [simp]:
  "powered (set_board i h p) = powered p" "seen (set_board i h p) = seen p" "paced (set_board i h p) = paced p"
  "i < length (boards p) \<Longrightarrow> board i (set_board i h p) = h" "j \<noteq> i \<Longrightarrow> board j (set_board i h p) = board j p"
  "pair_ok (set_board i h p) = pair_ok p" "length (boards (set_board i h p)) = length (boards p)"
  by (simp_all add: set_board_def pair_ok_def)

lemma chosen_less [simp]: "chosen p < 2"
  by (simp add: chosen_def Let_def)

lemma other_less [simp]: "i < 2 \<Longrightarrow> 1 - i < (2 :: nat)" "i < 2 \<Longrightarrow> 1 - (1 - i) = (i :: nat)"
  "i < 2 \<Longrightarrow> 1 - i \<noteq> (i :: nat)" "i < 2 \<Longrightarrow> i \<noteq> (1 - i :: nat)"
  by arith+

lemma chosen_awake:
  assumes "\<not> both_asleep p"
  shows "\<not> asleep (chosen p) p \<and> (asleep (1 - chosen p) p \<or> pair_time (chosen p) p \<le> pair_time (1 - chosen p) p)"
  using assms by (auto simp: chosen_def both_asleep_def Let_def)

text \<open>
  The pair never comes to a stand: unless both boards are asleep, the one that is chosen is awake, and
  it may go further than it has.
\<close>

theorem chosen_board_can_go_on:
  assumes "\<not> both_asleep p" and "powered p ! chosen p"
  shows "\<not> asleep (chosen p) p \<and>
    (\<forall>l. pair_limit (chosen p) p = Some l \<longrightarrow> global_ns (board (chosen p) p) < l)"
proof -
  let ?i = "chosen p"
  have t: "pair_time ?i p = global_ns (board ?i p)" using assms(2) by (simp add: pair_time_def)
  have "global_ns (board ?i p) < u + LINK_LATENCY_NS" if "could_send_at (1 - ?i) p = Some u" for u
  proof -
    have "pair_time (1 - ?i) p \<le> u" "\<not> asleep (1 - ?i) p"
      using that by (auto simp: could_send_at_def split: if_splits bool.splits option.splits prod.splits)
    then show ?thesis using chosen_awake [OF assms(1)] t by (simp add: LINK_LATENCY_NS_def)
  qed
  then show ?thesis
    using chosen_awake [OF assms(1)] by (auto simp: pair_limit_def Let_def PACE_YIELD_NS_def split: if_splits)
qed

lemma pair_limit_bound:
  "could_send_at (1 - i) p = Some u \<Longrightarrow> \<exists>l. pair_limit i p = Some l \<and> l \<le> u + LINK_LATENCY_NS"
  by (auto simp: pair_limit_def Let_def)

section \<open>Handing over\<close>

text \<open>The two ways to send are alike in all that the pair's clock depends on: \<open>give\<close> is either.\<close>

definition keeps_time :: "(('g, 'l) host \<Rightarrow> ('g, 'l) host) \<Rightarrow> bool" where
  "keeps_time f \<longleftrightarrow> (\<forall>h. now_ns (f h) = now_ns h \<and> epoch_ns (f h) = epoch_ns h \<and> con (f h) = con h \<and>
     latched_ready (f h) = latched_ready h \<and> eth_out (f h) = eth_out h \<and> air_out (f h) = air_out h)"

lemma keeps_time_push: "keeps_time (host_push_ethernet frame at)" "keeps_time (push_air q at)"
  by (simp_all add: keeps_time_def host_push_ethernet_def push_ethernet_def push_air_def latched_ready_def
      enabled_lines_def split: option.split hci.split)

definition give :: "nat \<Rightarrow> (('g, 'l) host \<Rightarrow> ('g, 'l) host) \<Rightarrow> ns \<Rightarrow> ('g, 'l) board_pair \<Rightarrow> ('g, 'l) board_pair" where
  "give j f at p = (if \<not> powered p ! j then p else arriving j at (set_board j (f (board j p)) p))"

lemma pair_send_give:
  "pair_send j x = give j (host_push_ethernet (snd x) (fst x)) (fst x)"
  "pair_send_air j y = give j (push_air (snd y) (fst y)) (fst y)"
  by (simp_all add: fun_eq_iff pair_send_def pair_send_air_def give_def split_beta)

lemma arriving_simps [simp]:
  "boards (arriving j at p) = boards p" "powered (arriving j at p) = powered p" "paced (arriving j at p) = paced p"
  "pair_ok (arriving j at p) = pair_ok p" "i \<noteq> j \<Longrightarrow> seen (arriving j at p) ! i = seen p ! i"
  by (auto simp: arriving_def pair_ok_def split: prod.split bool.split)

lemma give_other:
  assumes "i \<noteq> j"
  shows "board i (give j f at p) = board i p" "seen (give j f at p) ! i = seen p ! i"
  using assms by (simp_all add: give_def)

lemma give_simps [simp]:
  "powered (give j f at p) = powered p" "paced (give j f at p) = paced p" "pair_ok (give j f at p) = pair_ok p"
  by (simp_all add: give_def)

lemma give_time:
  assumes "keeps_time f" and "pair_ok p" and "i < 2"
  shows "pair_time i (give j f at p) = pair_time i p"
  using assms by (cases "i = j") (auto simp: give_def pair_time_def keeps_time_def global_ns_def pair_ok_def)

text \<open>When the receiver can next send: no sooner than before, or than what arrives.\<close>

definition no_sooner :: "ns option \<Rightarrow> ns option \<Rightarrow> ns set \<Rightarrow> bool" where
  "no_sooner new old S \<longleftrightarrow> (\<forall>r. new = Some r \<longrightarrow> (\<exists>r0. old = Some r0 \<and> r0 \<le> r) \<or> (\<exists>s \<in> S. s \<le> r))"

lemma give_could_send:
  assumes "keeps_time f" and "pair_ok p" and "j < 2"
  shows "no_sooner (could_send_at j (give j f at p)) (could_send_at j p) (if powered p ! j then {at} else {})"
proof (cases "powered p ! j")
  case False
  then show ?thesis by (simp add: give_def no_sooner_def)
next
  case on: True
  let ?p = "give j f at p"
  have t: "pair_time j ?p = pair_time j p" by (rule give_time [OF assms])
  have same: "con (board j ?p) = con (board j p)" "latched_ready (board j ?p) = latched_ready (board j p)"
    using assms on by (simp_all add: give_def keeps_time_def pair_ok_def)
  obtain idle nxt where s: "seen p ! j = (idle, nxt)" by fastforce
  have len: "j < length (seen p)" using assms by (simp add: pair_ok_def)
  show ?thesis
  proof (cases "idle \<and> (nxt = None \<or> at < the nxt)")
    case True
    then have "seen ?p ! j = (True, Some at)" using on s len by (simp add: give_def arriving_def)
    then have "could_send_at j ?p = Some (max (pair_time j p) at)" by (simp add: could_send_at_def asleep_def t)
    then show ?thesis using on by (simp add: no_sooner_def)
  next
    case False
    then have "seen ?p ! j = seen p ! j"
      using on s by (auto simp: give_def arriving_def split: bool.split)
    then have "could_send_at j ?p = could_send_at j p"
      using same by (simp add: could_send_at_def asleep_def t split: prod.split bool.split option.split)
    then show ?thesis by (simp add: no_sooner_def)
  qed
qed

text \<open>All of it.\<close>

definition stamps :: "('g, 'l) host \<Rightarrow> ns set" where
  "stamps h = fst ` set (eth_out h) \<union> fst ` set (air_out h)"

lemma no_sooner_trans: "no_sooner c b S \<Longrightarrow> no_sooner b a T \<Longrightarrow> no_sooner c a (S \<union> T)"
  unfolding no_sooner_def
proof (intro allI impI)
  fix r
  assume c: "\<forall>r. c = Some r \<longrightarrow> (\<exists>r0. b = Some r0 \<and> r0 \<le> r) \<or> (\<exists>s \<in> S. s \<le> r)"
    and b: "\<forall>r. b = Some r \<longrightarrow> (\<exists>r0. a = Some r0 \<and> r0 \<le> r) \<or> (\<exists>s \<in> T. s \<le> r)" and r: "c = Some r"
  from c r consider r0 where "b = Some r0" "r0 \<le> r" | s where "s \<in> S" "s \<le> r" by blast
  then show "(\<exists>r0. a = Some r0 \<and> r0 \<le> r) \<or> (\<exists>s \<in> S \<union> T. s \<le> r)"
  proof cases
    case (1 r0)
    with b consider r1 where "a = Some r1" "r1 \<le> r0" | s where "s \<in> T" "s \<le> r0" by blast
    then show ?thesis
    proof cases
      case (1 r1)
      with \<open>r0 \<le> r\<close> show ?thesis by auto
    next
      case (2 s)
      with \<open>r0 \<le> r\<close> have "s \<le> r" by simp
      with 2 show ?thesis by blast
    qed
  qed blast
qed

lemma no_sooner_refl [simp]: "no_sooner a a S"
  by (simp add: no_sooner_def)

lemma no_sooner_mono: "no_sooner b a S \<Longrightarrow> S \<subseteq> T \<Longrightarrow> no_sooner b a T"
  unfolding no_sooner_def by blast

text \<open>What a hand-over keeps of the pair, and what it changes of when the receiver could send.\<close>

definition handed :: "nat \<Rightarrow> ns set \<Rightarrow> ('g, 'l) board_pair \<Rightarrow> ('g, 'l) board_pair \<Rightarrow> bool" where
  "handed j S p p' \<longleftrightarrow> pair_ok p' \<and> powered p' = powered p \<and> paced p' = paced p \<and>
    (\<forall>i < 2. pair_time i p' = pair_time i p) \<and> board (1 - j) p' = board (1 - j) p \<and> seen p' ! (1 - j) = seen p ! (1 - j) \<and>
    (\<not> powered p ! j \<longrightarrow> board j p' = board j p \<and> seen p' ! j = seen p ! j) \<and>
    eth_out (board j p') = eth_out (board j p) \<and> air_out (board j p') = air_out (board j p) \<and>
    no_sooner (could_send_at j p') (could_send_at j p) (if powered p ! j then S else {})"

lemma handed_refl: "pair_ok p \<Longrightarrow> handed j S p p"
  by (simp add: handed_def)

lemma handed_trans: "handed j S p q \<Longrightarrow> handed j T q r \<Longrightarrow> handed j (S \<union> T) p r"
  unfolding handed_def by (auto intro: no_sooner_trans [THEN no_sooner_mono])

lemma handed_give: "keeps_time f \<Longrightarrow> pair_ok p \<Longrightarrow> j < 2 \<Longrightarrow> handed j {at} p (give j f at p)"
proof -
  assume f: "keeps_time f" and p: "pair_ok p" and j: "j < 2"
  have "eth_out (board j (give j f at p)) = eth_out (board j p)" "air_out (board j (give j f at p)) = air_out (board j p)"
    using f p j by (simp_all add: give_def keeps_time_def pair_ok_def)
  moreover have "\<not> powered p ! j \<longrightarrow> give j f at p = p" by (simp add: give_def)
  moreover have "1 - j \<noteq> j" using j by (rule other_less)
  ultimately show ?thesis
    unfolding handed_def using give_could_send [OF f p j, of at] give_time [OF f p] p give_other [of "1 - j" j f at p]
    by (simp del: One_nat_def)
qed

lemma handed_fold:
  assumes "\<And>x p. pair_ok p \<Longrightarrow> handed j {fst x} p (g x p)" and "pair_ok p"
  shows "handed j (fst ` set xs) p (fold g xs p)"
  using assms(2)
proof (induction xs arbitrary: p)
  case (Cons x xs)
  have "handed j {fst x} p (g x p)" by (rule assms(1) [OF Cons.prems])
  moreover from this have "handed j (fst ` set xs) (g x p) (fold g xs (g x p))"
    by (intro Cons.IH) (simp add: handed_def)
  ultimately show ?case using handed_trans by fastforce
qed (simp add: handed_refl)

lemma handed_over:
  assumes "pair_ok p" and "i < 2"
  shows "handed (1 - i) (stamps (board i p))
    (set_board i ((board i p)\<lparr>eth_out := [], air_out := []\<rparr>) p) (hand_over i p)"
proof -
  let ?h = "board i p" and ?j = "1 - i"
  define p0 where "p0 = set_board i (?h\<lparr>eth_out := [], air_out := []\<rparr>) p"
  have ok: "pair_ok p0" using assms(1) by (simp add: p0_def)
  have e: "handed ?j (fst ` set (eth_out ?h)) p0 (fold (pair_send ?j) (eth_out ?h) p0)"
    by (rule handed_fold [OF _ ok]) (simp add: pair_send_give handed_give keeps_time_push assms(2))
  then have ok1: "pair_ok (fold (pair_send ?j) (eth_out ?h) p0)" by (simp add: handed_def)
  have "handed ?j (fst ` set (air_out ?h)) (fold (pair_send ?j) (eth_out ?h) p0)
      (fold (pair_send_air ?j) (air_out ?h) (fold (pair_send ?j) (eth_out ?h) p0))"
    by (rule handed_fold [OF _ ok1]) (simp add: pair_send_give handed_give keeps_time_push assms(2))
  from handed_trans [OF e this] show ?thesis by (simp add: hand_over_def p0_def [symmetric] stamps_def Let_def)
qed

section \<open>Orderly runs\<close>

text \<open>
  A board's run keeps to its limit: no step goes on past it, as it was set or as what the board sent
  lowered it (a step cannot be interrupted, so one can).
\<close>

definition keeps_to_limit :: "nat \<Rightarrow> ('g, 'l) board_pair \<Rightarrow> ('g, 'l) host \<Rightarrow> bool" where
  "keeps_to_limit i p h \<longleftrightarrow>
    (\<forall>l. pair_limit i p = Some l \<longrightarrow> global_ns h \<le> max (global_ns (board i p)) l) \<and>
    (powered p ! (1 - i) \<longrightarrow> (\<forall>s \<in> stamps h. global_ns h \<le> max (global_ns (board i p)) (s + LINK_LATENCY_NS)))"

text \<open>
  And it keeps its word: an idle board sends nothing, and is not up again, before the event it waits
  for; and what goes on the air is not stamped with an earlier time. (That a running board sends its
  frames in time is proved: \<open>run_until_moves\<close>.)
\<close>

definition not_before :: "nat \<Rightarrow> ('g, 'l) board_pair \<Rightarrow> ns \<Rightarrow> bool" where
  "not_before i p s \<longleftrightarrow> (\<exists>r. could_send_at i p = Some r \<and> r + LINK_LATENCY_NS \<le> s)"

definition keeps_word :: "nat \<Rightarrow> ('g, 'l) board_pair \<Rightarrow> reason \<Rightarrow> ('g, 'l) host \<Rightarrow> bool" where
  "keeps_word i p why h \<longleftrightarrow> (\<forall>s \<in> fst ` set (air_out h). not_before i p s) \<and>
    (fst (seen p ! i) \<longrightarrow> (\<forall>s \<in> fst ` set (eth_out h). not_before i p s) \<and>
      no_sooner (could_send_at i (turn_over i why h p)) (could_send_at i p) {})"

text \<open>The states that orderly turns of a pair reach.\<close>

inductive orderly :: "(nat \<Rightarrow> 'g guest) \<Rightarrow> 'l lan_ops \<Rightarrow> ('g, 'l) board_pair \<Rightarrow> bool" for G ops where
  start: "0 \<le> delay \<Longrightarrow> now_ns a = 0 \<Longrightarrow> now_ns b = 0 \<Longrightarrow> eth_out a = [] \<Longrightarrow> eth_out b = [] \<Longrightarrow> air_out a = [] \<Longrightarrow> air_out b = [] \<Longrightarrow>
    orderly G ops (pair_started G (new_pair delay pcd a b))"
| wait: "orderly G ops p \<Longrightarrow> both_asleep p \<Longrightarrow> orderly G ops (pair_wait by_wall p)"
| power: "orderly G ops p \<Longrightarrow> \<not> both_asleep p \<Longrightarrow> \<not> powered p ! chosen p \<Longrightarrow>
    orderly G ops (power_on (G (chosen p)) (chosen p) p)"
| run: "orderly G ops p \<Longrightarrow> \<not> both_asleep p \<Longrightarrow> powered p ! chosen p \<Longrightarrow>
    run_until (G (chosen p)) ops (pair_limit (chosen p) p) 256 (board (chosen p) p) = Some (Inr (why, h)) \<Longrightarrow>
    why \<noteq> Done \<Longrightarrow> keeps_to_limit (chosen p) p h \<Longrightarrow> keeps_word (chosen p) p why h \<Longrightarrow>
    orderly G ops (turn_over (chosen p) why h p)"

text \<open>No board is past the time at which something the other could still send would arrive.\<close>

definition in_step :: "nat \<Rightarrow> ('g, 'l) board_pair \<Rightarrow> bool" where
  "in_step i p \<longleftrightarrow> (powered p ! i \<longrightarrow>
    (\<forall>r. could_send_at (1 - i) p = Some r \<longrightarrow> pair_time i p \<le> r + LINK_LATENCY_NS))"

lemma in_stepD:
  "in_step i p \<Longrightarrow> powered p ! i \<Longrightarrow> could_send_at (1 - i) p = Some r \<Longrightarrow> pair_time i p \<le> r + LINK_LATENCY_NS"
  by (simp add: in_step_def)

definition quiet_board :: "nat \<Rightarrow> ('g, 'l) board_pair \<Rightarrow> bool" where
  "quiet_board i p \<longleftrightarrow> eth_out (board i p) = [] \<and> air_out (board i p) = [] \<and>
    (\<not> powered p ! i \<longrightarrow> now_ns (board i p) = 0 \<and> could_send_at i p = Some (pair_time i p))"

definition pair_inv :: "('g, 'l) board_pair \<Rightarrow> bool" where
  "pair_inv p \<longleftrightarrow> pair_ok p \<and> (\<forall>i < 2. in_step i p \<and> quiet_board i p)"

lemma could_send_later: "could_send_at i p = Some r \<Longrightarrow> pair_time i p \<le> r"
  by (auto simp: could_send_at_def split: if_splits prod.splits bool.splits option.splits)

lemma start_host_simps [simp]:
  "now_ns (start_host G h) = now_ns h" "epoch_ns (start_host G h) = epoch_ns h"
  "eth_out (start_host G h) = eth_out h" "air_out (start_host G h) = air_out h"
  by (simp_all add: start_host_def boot_def enter_new_def Let_def)

lemma pair_inv_start:
  assumes "0 \<le> delay" "now_ns a = 0" "now_ns b = 0" "eth_out a = []" "eth_out b = []" "air_out a = []" "air_out b = []"
  shows "pair_inv (pair_started G (new_pair delay pcd a b))"
  using assms
  by (auto simp: pair_inv_def pair_ok_def in_step_def quiet_board_def pair_started_def new_pair_def set_board_def
      could_send_at_def asleep_def pair_time_def global_ns_def LINK_LATENCY_NS_def Let_def less_2_cases_iff)

lemma latched_ready_update [simp]:
  "latched_ready (h\<lparr>now_ns := t\<rparr>) = latched_ready h" "latched_ready (h\<lparr>peer_on := b\<rparr>) = latched_ready h"
  "latched_ready (h\<lparr>eth_out := es\<rparr>) = latched_ready h" "latched_ready (h\<lparr>air_out := as\<rparr>) = latched_ready h"
  by (simp_all add: latched_ready_def enabled_lines_def split: option.split)

lemma board_wait:
  assumes "pair_ok p" and "i < 2"
  shows "board i (pair_wait w p) = (if powered p ! i \<and> global_ns (board i p) < w
    then (board i p)\<lparr>now_ns := w - epoch_ns (board i p)\<rparr> else board i p)"
  using assms by (simp add: pair_wait_def pair_ok_def)

lemma pair_inv_wait:
  assumes "pair_inv p" and "both_asleep p"
  shows "pair_inv (pair_wait by_wall p)"
proof -
  have ok: "pair_ok p" using assms(1) by (simp add: pair_inv_def)
  have asl: "asleep i p" if "i < 2" for i
    using assms(2) that by (auto simp: both_asleep_def less_2_cases_iff)
  have keep: "powered (pair_wait w p) = powered p" "seen (pair_wait w p) = seen p" "pair_ok (pair_wait w p)" for w
    using ok by (simp_all add: pair_wait_def pair_ok_def)
  have "asleep i (pair_wait by_wall p)" if "i < 2" for i
    using asl [OF that] by (simp add: asleep_def keep board_wait [OF ok that])
  then have "could_send_at i (pair_wait by_wall p) = None" if "i < 2" for i
    using that by (simp add: could_send_at_def)
  moreover have "powered p ! i" if "i < 2" for i using asl [OF that] by (simp add: asleep_def)
  ultimately show ?thesis
    using assms(1) by (auto simp: pair_inv_def in_step_def quiet_board_def keep board_wait [OF ok])
qed

lemma pair_inv_power:
  assumes inv: "pair_inv p" and "\<not> both_asleep p" and off: "\<not> powered p ! chosen p"
  shows "pair_inv (power_on G (chosen p) p)"
proof -
  define i j where "i = chosen p" and "j = 1 - i"
  define p' where "p' = power_on G i p"
  have i: "i < 2" by (simp add: i_def)
  have j: "j < 2" "i \<noteq> j" "1 - i = j" "1 - j = i" using i unfolding j_def by (simp_all del: One_nat_def)
  have ok: "pair_ok p" using inv by (simp add: pair_inv_def)
  have bi: "now_ns (board i p') = 0" "epoch_ns (board i p') = epoch_ns (board i p)" "eth_out (board i p') = []" "air_out (board i p') = []"
    using inv i j off ok by (simp_all add: p'_def power_on_def Let_def pair_inv_def quiet_board_def pair_ok_def i_def [symmetric])
  have bj: "board j p' = (board j p)\<lparr>peer_on := True\<rparr>"
    using i j ok by (simp add: p'_def power_on_def Let_def pair_ok_def)
  have pw: "powered p' ! i" "powered p' ! j = powered p ! j" and sn: "seen p' ! i = (False, None)" "seen p' ! j = seen p ! j"
    and ok': "pair_ok p'"
    using i j ok by (simp_all add: p'_def power_on_def Let_def pair_ok_def)
  have ti: "pair_time i p' = pair_time i p" using off bi pw by (simp add: pair_time_def global_ns_def i_def)
  have tj: "pair_time j p' = pair_time j p" by (simp add: pair_time_def pw bj global_ns_def)
  have asl: "asleep j p' = asleep j p" by (simp add: asleep_def pw sn bj)
  then have cj: "could_send_at j p' = could_send_at j p"
    by (simp add: could_send_at_def sn tj split: prod.split bool.split option.split)
  have ci: "could_send_at i p' = Some (pair_time i p)" by (simp add: could_send_at_def asleep_def sn ti)
  have "could_send_at i p = Some (pair_time i p)"
    using inv i off by (simp add: pair_inv_def quiet_board_def i_def [symmetric])
  then have "in_step j p'" using inv j by (simp add: pair_inv_def in_step_def pw tj ci)
  moreover have "in_step i p'"
    unfolding in_step_def j(3) ti cj
  proof (intro impI allI)
    fix r
    assume r: "could_send_at j p = Some r"
    then have "\<not> asleep j p" by (auto simp: could_send_at_def)
    then have "pair_time i p \<le> pair_time j p" using chosen_awake [OF assms(2)] unfolding i_def [symmetric] j(3) by simp
    then show "pair_time i p \<le> r + LINK_LATENCY_NS" using could_send_later [OF r] by (simp add: LINK_LATENCY_NS_def)
  qed
  moreover have "quiet_board i p'" "quiet_board j p'"
    using inv j bi pw by (simp_all add: pair_inv_def quiet_board_def bj tj cj)
  moreover have "k = i \<or> k = j" if "k < 2" for k using that i j by auto
  ultimately show ?thesis using ok' unfolding pair_inv_def p'_def [symmetric] i_def [symmetric] by blast
qed

text \<open>What a run leaves the pair like.\<close>

lemma turn_over_simps:
  fixes why :: reason and h :: "('g, 'l) host"
  assumes ok: "pair_ok p" and i: "i < 2" and quiet: "quiet_board (1 - i) p"
  defines "q \<equiv> turn_over i why h p"
  shows "pair_ok q" and "powered q = powered p"
    and "powered p ! i \<Longrightarrow> pair_time i q = global_ns h" and "pair_time (1 - i) q = pair_time (1 - i) p"
    and "no_sooner (could_send_at (1 - i) q) (could_send_at (1 - i) p) (if powered p ! (1 - i) then stamps h else {})"
    and "eth_out (board i q) = []" "air_out (board i q) = []" "quiet_board (1 - i) q"
proof -
  define j where "j = 1 - i"
  have j: "j < 2" "i \<noteq> j" "j \<noteq> i" "1 - j = i" using i unfolding j_def by (simp_all del: One_nat_def)
  define base where "base = set_board i (h\<lparr>eth_out := [], air_out := []\<rparr>) p"
  define q1 where "q1 = hand_over i (set_board i h p)"
  have len: "i < length (boards p)" using ok i by (simp add: pair_ok_def)
  have "set_board i x (set_board i h p) = set_board i x p" for x by (simp add: set_board_def)
  moreover have "board i (set_board i h p) = h" "pair_ok (set_board i h p)" using ok len by simp_all
  ultimately have "handed j (stamps h) base q1"
    using handed_over [of "set_board i h p" i] i unfolding j_def base_def q1_def by metis
  note hd = this [unfolded handed_def j(4)]
  have bb: "board i base = h\<lparr>eth_out := [], air_out := []\<rparr>" "board j base = board j p" "powered base = powered p" "seen base = seen p"
    using len j by (simp_all add: base_def)
  have tb: "powered p ! i \<Longrightarrow> pair_time i base = global_ns h" "pair_time j base = pair_time j p"
    by (simp_all add: pair_time_def bb global_ns_def)
  have cb: "could_send_at j base = could_send_at j p"
    by (simp add: could_send_at_def asleep_def bb tb split: prod.split bool.split option.split)
  have q: "boards q = boards q1" "powered q = powered q1" "seen q ! j = seen q1 ! j" "pair_ok q = pair_ok q1"
    using hd j(2) by (auto simp: q_def turn_over_def q1_def [symmetric] Let_def pair_ok_def split: reason.split)
  have tq: "pair_time k q = pair_time k q1" for k by (simp add: pair_time_def q)
  have cq: "could_send_at j q = could_send_at j q1"
    by (simp add: could_send_at_def asleep_def q tq split: prod.split bool.split option.split)
  show "pair_ok q" "powered q = powered p" using hd bb q by simp_all
  show "powered p ! i \<Longrightarrow> pair_time i q = global_ns h" using hd tb tq i by simp
  show tj: "pair_time (1 - i) q = pair_time (1 - i) p" using hd tb tq j(1) unfolding j_def [symmetric] by simp
  show "no_sooner (could_send_at (1 - i) q) (could_send_at (1 - i) p) (if powered p ! (1 - i) then stamps h else {})"
    using hd unfolding j_def [symmetric] cq cb bb by blast
  show "eth_out (board i q) = []" "air_out (board i q) = []" using hd bb q by simp_all
  have "could_send_at j q = could_send_at j p" if "\<not> powered p ! j"
    using hd that q(3) tj unfolding j_def [symmetric]
    by (simp add: could_send_at_def asleep_def q bb split: prod.split bool.split option.split)
  then show "quiet_board (1 - i) q"
    using hd quiet tj unfolding j_def [symmetric] quiet_board_def by (simp add: q bb)
qed

text \<open>What the board sent, it sent late enough.\<close>

lemma sent_in_time:
  assumes inv: "pair_inv p" and i: "i < 2" and on: "powered p ! i" and awake: "\<not> asleep i p"
    and r: "run_until G ops limit n (board i p) = Some (Inr (why, h))" and word: "keeps_word i p why h"
  shows "\<forall>s \<in> stamps h. not_before i p s"
proof -
  have out: "eth_out (board i p) = []" using inv i by (simp add: pair_inv_def quiet_board_def)
  have "not_before i p s" if "s \<in> fst ` set (eth_out h)" for s
  proof (cases "fst (seen p ! i)")
    case True
    then show ?thesis using word that by (auto simp: keeps_word_def)
  next
    case False
    then have "could_send_at i p = Some (global_ns (board i p))"
      using awake on by (auto simp: could_send_at_def pair_time_def split: prod.split bool.split)
    moreover have "global_ns (board i p) + LINK_LATENCY_NS \<le> s"
      using run_until_moves [OF r] that out by (auto simp: moves_def)
    ultimately show ?thesis by (simp add: not_before_def)
  qed
  then show ?thesis using word by (auto simp: stamps_def keeps_word_def)
qed

lemma pair_inv_run:
  assumes inv: "pair_inv p" and nb: "\<not> both_asleep p" and on: "powered p ! chosen p"
    and r: "run_until G ops (pair_limit (chosen p) p) n (board (chosen p) p) = Some (Inr (why, h))"
    and lim: "keeps_to_limit (chosen p) p h" and word: "keeps_word (chosen p) p why h"
  shows "pair_inv (turn_over (chosen p) why h p)"
proof -
  define i j where "i = chosen p" and "j = 1 - i"
  define q where "q = turn_over i why h p"
  have i: "i < 2" by (simp add: i_def)
  have j: "j < 2" "1 - i = j" "1 - j = i" using i unfolding j_def by (simp_all del: One_nat_def)
  note inv' = inv [unfolded pair_inv_def]
  have awake: "\<not> asleep i p" using chosen_awake [OF nb] by (simp add: i_def)
  have qj: "quiet_board j p" using inv' j by simp
  note q = turn_over_simps [of p i why h, folded q_def, unfolded j(2), OF inv' [THEN conjunct1] i qj]
  have ti: "pair_time i p = global_ns (board i p)" "pair_time i q = global_ns h"
    using on q(3) by (simp_all add: pair_time_def i_def)
  have later: "pair_time i p \<le> pair_time i q"
    using run_until_moves [OF r] unfolding ti moves_def by (simp add: i_def)
  have sent: "\<forall>s \<in> stamps h. not_before i p s"
    using sent_in_time [OF inv i _ awake r [folded i_def]] on word by (simp add: i_def)
  have lim1: "\<And>l. pair_limit i p = Some l \<Longrightarrow> pair_time i q \<le> max (pair_time i p) l"
    and lim2: "\<And>s. powered p ! j \<Longrightarrow> s \<in> stamps h \<Longrightarrow> pair_time i q \<le> max (pair_time i p) (s + LINK_LATENCY_NS)"
    using lim unfolding keeps_to_limit_def ti i_def [symmetric] j(2) by blast+
  have "pair_time i q \<le> u + LINK_LATENCY_NS" if u: "could_send_at j q = Some u" for u
  proof -
    consider u0 where "could_send_at j p = Some u0" "u0 \<le> u" | s where "powered p ! j" "s \<in> stamps h" "s \<le> u"
      using q(5) u unfolding no_sooner_def by (auto split: if_splits)
    then show ?thesis
    proof cases
      case (1 u0)
      have "in_step i p" using inv' i by simp
      then have "pair_time i p \<le> u0 + LINK_LATENCY_NS"
        by (rule in_stepD) (use on 1(1) in \<open>simp_all only: i_def [symmetric] j(2)\<close>)
      moreover obtain l where "pair_limit i p = Some l" "l \<le> u0 + LINK_LATENCY_NS"
        using pair_limit_bound [of i p u0] 1(1) unfolding j(2) by blast
      ultimately show ?thesis using lim1 [of l] 1(2) by simp
    next
      case (2 s)
      obtain t where "could_send_at i p = Some t" "t + LINK_LATENCY_NS \<le> s"
        using sent 2(2) by (auto simp: not_before_def)
      then have "pair_time i p + LINK_LATENCY_NS \<le> s" using could_send_later [of i p t] by simp
      with lim2 [OF 2(1,2)] show ?thesis using 2(3) by (simp add: LINK_LATENCY_NS_def)
    qed
  qed
  then have "in_step i q" unfolding in_step_def j(2) by blast
  moreover have ns: "no_sooner (could_send_at i q) (could_send_at i p) {}"
  proof (cases "fst (seen p ! i)")
    case True
    then show ?thesis using word by (simp add: keeps_word_def i_def [symmetric] q_def)
  next
    case False
    then have "could_send_at i p = Some (pair_time i p)"
      using awake by (auto simp: could_send_at_def split: prod.split bool.split)
    then show ?thesis using could_send_later [of i q] later by (fastforce simp: no_sooner_def)
  qed
  have "in_step j q" unfolding in_step_def q(2,4) j(3)
  proof (intro impI allI)
    fix r
    assume "powered p ! j" and "could_send_at i q = Some r"
    then obtain r0 where "could_send_at i p = Some r0" "r0 \<le> r" using ns by (auto simp: no_sooner_def)
    moreover have "pair_time j p \<le> r0 + LINK_LATENCY_NS"
      using inv' j \<open>powered p ! j\<close> calculation(1) by (simp add: in_step_def)
    ultimately show "pair_time j p \<le> r + LINK_LATENCY_NS" by simp
  qed
  moreover have "quiet_board i q" using q on by (simp add: quiet_board_def i_def)
  moreover have "k = i \<or> k = j" if "k < 2" for k using that i j by auto
  ultimately show ?thesis using q(1,8) unfolding pair_inv_def q_def [symmetric] i_def [symmetric] by blast
qed

lemma orderly_inv: "orderly G ops p \<Longrightarrow> pair_inv p"
proof (induction rule: orderly.induct)
  case (power p)
  then show ?case by (intro pair_inv_power)
next
  case (run p why h)
  then show ?case by (intro pair_inv_run)
qed (simp_all add: pair_inv_start pair_inv_wait)


section \<open>Applied\<close>

text \<open>
  Two boards: the first reports progress once and waits, the second sends a frame and waits.
\<close>

definition pair_guest :: "act list \<Rightarrow> scripted guest" where
  "pair_guest acts = scripted_guest\<lparr>fresh_image := (fresh_image scripted_guest)\<lparr>image_inst := ((NORMAL, 900), acts),
     image_mem := sample_memory\<rparr>\<rparr>"

definition sample_guests :: "nat \<Rightarrow> scripted guest" where
  "sample_guests i = pair_guest (if i = 0 then [Import SafepointTick, Import WaitForEvent]
     else [Import (EthSend 32 2), Import WaitForEvent])"

definition sample_board :: "(scripted, unit) host" where
  "sample_board = new_host sample_opts False 0 (- 1) None 0 ((NORMAL, 900), [])"

definition sample_pair :: "(scripted, unit) board_pair" where
  "sample_pair = pair_started sample_guests (new_pair 0 False sample_board sample_board)"

lemma suc_255: "Suc 255 = 256" by simp
lemmas steps_256 = run_until_def run_until_steps.simps(2) [where n = 255, unfolded suc_255]

lemmas pair_defs = sample_pair_def pair_started_def new_pair_def both_asleep_def asleep_def chosen_def
   sample_board_def new_host_def set_board_def Let_def start_host_def boot_def enter_new_def pair_time_def global_ns_def pair_limit_def could_send_at_def

lemma sample_buffer_ok: "mem h = sample_memory \<Longrightarrow> buffer_ok 32 h"
  by (simp add: buffer_ok_def sample_words Let_def)
lemma sample_switch_block:
  "mem h = sample_memory \<Longrightarrow> switch_block_addr h = 0 \<Longrightarrow>
    read_switch_block h = \<lparr>from_sp = 0, from_buf = 0, to_sp = 0, to_buf = 60, to_fresh = 0, to_arg = 0\<rparr>"
  by (simp add: read_switch_block_def sample_words Let_def)

lemmas run_defs = steps_256 run_step_def step_prepared_def check_deadline_def raise_uart_def raise_due_frame_def
        raise_hci_def apply_external_def uart_ready_def Let_def step_def call_export_def enter_ctx_def update_ctx_def
        run_guest.simps scripted_guest_def do_import_def in_memory_def 
        eth_send_def lower_limit_def Core_Step.after_run_def initial_devices_def initial_console_def time_ns_def
        safepoint_tick_def SAFEPOINT_TICK_NS_def wait_or_switch_def suspend_def sample_switch_block sample_buffer_ok note_ctx_def idle_step_def
        deliverable_irqs_def latched_ready_def advance_to_next_deadline_def sample_opts_def current_ctx_def
        host_next_bt_def next_script_def host_next_frame_def next_frame_ns_def host_next_uart_def next_uart_ns_def
        host_next_lan_def alarm_step_def failed_def type_next_line_def enabled_lines_def sample_words

lemmas sample_runs = pair_defs run_defs sample_guests_def pair_guest_def LINK_LATENCY_NS_def

lemma sample_memory_length: "length sample_memory = 64"
  by (simp add: sample_memory_def)

lemma first_run:
  "\<exists>h. run_until (sample_guests 0) no_lan (pair_limit 0 sample_pair) 256 (board 0 sample_pair) = Some (Inr (Idle None, h)) \<and>
    now_ns h = 100000 \<and> epoch_ns h = 0 \<and> eth_out h = [] \<and> air_out h = [] \<and> con h = initial_console False \<and> latched_ready h = 0"
  by (simp add: sample_runs)

lemma sample_pair_first:
  "\<not> both_asleep sample_pair" "chosen sample_pair = 0" "powered sample_pair = [True, False]" "paced sample_pair = False"
  "seen sample_pair = [(False, None), (True, Some 0)]" "pair_limit 0 sample_pair = Some 100000"
  "global_ns (board 0 sample_pair) = 0" "length (boards sample_pair) = 2"
  by (simp_all add: sample_runs)

theorem chosen_board_can_go_on_witness:
  "global_ns (board 0 sample_pair) < 100000"
  using chosen_board_can_go_on [of sample_pair] by (simp add: sample_pair_first)


end
