(* ===== verification/Lan_Stream.thy ===== *)
theory Lan_Stream
  imports Lan_Tcp Lan_Udp
begin

text \<open>
  What the message services of the LAN share (host/lan_services.mjs): each keeps the bytes that have
  come and not been used, \<^verbatim>\<open>buf = concat(buf, data); while ((got = decode(buf))) { buf =
  buf.subarray(got.size); ... }\<close>, so that a message counts once however TCP cut it up. The locale
  \<open>codec\<close> is what they rely on; WebSocket, CoAP and MQTT interpret it.
\<close>

text \<open>
  What a service that has several connections sends: on one of them, or a datagram to an address and
  port. A connection is a number.
\<close>

datatype net_out = Tcp nat conn_op | Udp "nat list" nat "nat list"

section \<open>The loop\<close>

text \<open>
  \<open>decode\<close> gives the first whole message and how many bytes it took. \<open>handle\<close> gives what the service
  does for a message, its state after, and whether it goes on: a service that ends its connection
  returns from the loop. A decoder always takes some of the bytes (\<open>decode_takes\<close>, below, for each of
  the three), so the test that it has is never false; it makes the loop's end plain.
\<close>

type_synonym ('s, 'm, 'o) handler = "'s \<Rightarrow> 'm \<Rightarrow> 'o list \<times> 's \<times> bool"

function drain ::
  "(nat list \<Rightarrow> ('m \<times> nat) option) \<Rightarrow> ('s, 'm, 'o) handler \<Rightarrow> 's \<Rightarrow> nat list \<Rightarrow>
    'o list \<times> 's \<times> nat list" where
  "drain decode handle s buf = (case decode buf of
      None \<Rightarrow> ([], s, buf)
    | Some (m, n) \<Rightarrow>
        if \<not> (0 < n \<and> n \<le> length buf) then ([], s, buf)
        else (let (ops, s, go) = handle s m
          in if go then (let (ops', s, buf) = drain decode handle s (drop n buf) in (ops @ ops', s, buf))
             else (ops, s, drop n buf)))"
  by pat_completeness auto
termination by (relation "measure (\<lambda>(_, _, _, buf). length buf)") auto

declare drain.simps [simp del]

text \<open>A connection's data, chunk by chunk.\<close>

fun feed ::
  "('s \<Rightarrow> nat list \<Rightarrow> 'o list \<times> 's) \<Rightarrow> 's \<Rightarrow> nat list list \<Rightarrow> 'o list \<times> 's" where
  "feed on_data s [] = ([], s)"
| "feed on_data s (d # ds) =
    (let (ops, s) = on_data s d; (ops', s) = feed on_data s ds in (ops @ ops', s))"

definition stream_data ::
  "(nat list \<Rightarrow> ('m \<times> nat) option) \<Rightarrow> ('s, 'm, 'o) handler \<Rightarrow> 's \<times> nat list \<Rightarrow> nat list \<Rightarrow>
    'o list \<times> 's \<times> nat list" where
  "stream_data decode handle = (\<lambda>(s, buf) data. drain decode handle s (buf @ data))"

text \<open>The messages one after another, which is what a service means to see.\<close>

fun handle_all :: "('s, 'm, 'o) handler \<Rightarrow> 's \<Rightarrow> 'm list \<Rightarrow> 'o list \<times> 's" where
  "handle_all handle s [] = ([], s)"
| "handle_all handle s (m # ms) =
    (let (ops, s, _) = handle s m; (ops', s) = handle_all handle s ms in (ops @ ops', s))"

definition goes_on :: "('s, 'm, 'o) handler \<Rightarrow> 'm set \<Rightarrow> bool" where
  "goes_on handle M \<longleftrightarrow> (\<forall>s. \<forall>m \<in> M. snd (snd (handle s m)))"

lemma goes_onD: "goes_on handle M \<Longrightarrow> m \<in> M \<Longrightarrow> handle s m = (ops, s', go) \<Longrightarrow> go"
  unfolding goes_on_def by (metis snd_conv)

lemma handle_all_append:
  "handle_all handle s (ms @ ns) =
    (let (ops, s) = handle_all handle s ms; (ops', s) = handle_all handle s ns in (ops @ ops', s))"
  by (induction ms arbitrary: s) (auto simp: Let_def split: prod.splits)

text \<open>Where a cut of a concatenation falls.\<close>

lemma cut_before:
  assumes "p @ q = a @ b" and "length p < length a"
  obtains r where "a = p @ r" and "r \<noteq> []" and "q = r @ b"
proof -
  have "take (length p) a = p" using arg_cong [OF assms(1), of "take (length p)"] assms(2) by simp
  then have a: "a = p @ drop (length p) a" by (metis append_take_drop_id)
  moreover have "drop (length p) a \<noteq> []" using assms(2) by simp
  moreover have "q = drop (length p) a @ b" using assms(1) a by (metis append_assoc same_append_eq)
  ultimately show thesis by (rule that)
qed

lemma cut_after:
  assumes "p @ q = a @ b" and "\<not> length p < length a"
  obtains r where "p = a @ r" and "r @ q = b"
proof -
  have "take (length a) p = a" using arg_cong [OF assms(1), of "take (length a)"] assms(2) by simp
  then have p: "p = a @ drop (length a) p" by (metis append_take_drop_id)
  moreover have "drop (length a) p @ q = b" using assms(1) p by (metis append_assoc same_append_eq)
  ultimately show thesis by (rule that)
qed

section \<open>The interface\<close>

text \<open>What is read of a message is \<open>view\<close>: a WebSocket frame is read without the key that masks it.\<close>

locale framing =
  fixes encode :: "'m \<Rightarrow> nat list"
    and decode :: "nat list \<Rightarrow> ('r \<times> nat) option"
    and view :: "'m \<Rightarrow> 'r"
    and valid :: "'m \<Rightarrow> bool"
  assumes decode_whole: "valid m \<Longrightarrow> decode (encode m @ xs) = Some (view m, length (encode m))"
    and decode_part: "valid m \<Longrightarrow> encode m = p @ q \<Longrightarrow> q \<noteq> [] \<Longrightarrow> decode p = None"
    and encode_not_Nil: "valid m \<Longrightarrow> encode m \<noteq> []"
begin

lemma drain_whole:
  assumes "valid m" and "handle s (view m) = (ops, s', True)"
  shows "drain decode handle s (encode m @ xs) =
    (let (ops', s, buf) = drain decode handle s' xs in (ops @ ops', s, buf))"
  using assms encode_not_Nil [OF assms(1)]
  by (simp add: drain.simps [of decode handle s "encode m @ xs"] decode_whole)

lemma drain_part: "valid m \<Longrightarrow> encode m = p @ q \<Longrightarrow> q \<noteq> [] \<Longrightarrow> drain decode handle s p = ([], s, p)"
  by (simp add: drain.simps decode_part)

text \<open>A buffer that begins a stream of messages: the whole ones are handled, the rest is kept.\<close>

lemma drain_stream:
  assumes "goes_on handle (view ` set ms)" and "list_all valid ms" and "buf @ rest = concat (map encode ms)"
  shows "\<exists>done todo part. ms = done @ todo \<and> buf = concat (map encode done) @ part \<and>
    part @ rest = concat (map encode todo) \<and> (todo = [] \<or> length part < length (encode (hd todo))) \<and>
    drain decode handle s buf = (let (ops, s) = handle_all handle s (map view done) in (ops, s, part))"
  using assms
proof (induction ms arbitrary: s buf)
  case Nil
  moreover from this have "drain decode handle s buf = ([], s, [])" if "decode [] = None"
    using that by (simp add: drain.simps)
  moreover have "decode [] = None \<or> (\<exists>m n. decode [] = Some (m, n))" by (cases "decode []") auto
  moreover have "drain decode handle s [] = ([], s, [])"
    by (simp add: drain.simps split: option.split)
  ultimately show ?case by (intro exI [of _ "[]"]) simp
next
  case (Cons m ms)
  show ?case
  proof (cases "length buf < length (encode m)")
    case True
    have "buf @ rest = encode m @ concat (map encode ms)" using Cons.prems(3) by simp
    then obtain q where "encode m = buf @ q" "q \<noteq> []" by (rule cut_before [OF _ True])
    then have "drain decode handle s buf = ([], s, buf)"
      using Cons.prems(2) drain_part [of m buf q] by simp
    with True Cons.prems(3) show ?thesis
      by (intro exI [of _ "[]"] exI [of _ "m # ms"] exI [of _ buf]) simp
  next
    case False
    have "buf @ rest = encode m @ concat (map encode ms)" using Cons.prems(3) by simp
    then obtain b where b: "buf = encode m @ b" "b @ rest = concat (map encode ms)"
      by (rule cut_after [OF _ False])
    obtain ops s' go where h: "handle s (view m) = (ops, s', go)" by (metis prod_cases3)
    then have go using Cons.prems(1) by (auto intro: goes_onD)
    with h have h: "handle s (view m) = (ops, s', True)" by simp
    have "goes_on handle (view ` set ms)" "list_all valid ms" using Cons.prems by (auto simp: goes_on_def)
    from Cons.IH [OF this b(2), of s'] obtain dn todo part where ih: "ms = dn @ todo"
      "b = concat (map encode dn) @ part" "part @ rest = concat (map encode todo)"
      "todo = [] \<or> length part < length (encode (hd todo))"
      "drain decode handle s' b = (let (ops, s) = handle_all handle s' (map view dn) in (ops, s, part))" by blast
    have "drain decode handle s buf =
        (let (ops, s) = handle_all handle s (map view (m # dn)) in (ops, s, part))"
      using drain_whole [of m handle s ops s' b] Cons.prems(2) h ih(5) b(1)
      by (simp add: split_beta Let_def)
    with ih b(1) show ?thesis by (intro exI [of _ "m # dn"] exI [of _ todo] exI [of _ part]) auto
  qed
qed

text \<open>So it does not matter how the bytes were cut up.\<close>

lemma feed_stream:
  assumes "goes_on handle (view ` set ms)" and "list_all valid ms"
    and "buf @ concat chunks = concat (map encode ms)"
    and "ms = [] \<or> length buf < length (encode (hd ms))"
  shows "feed (stream_data decode handle) (s, buf) chunks =
    (let (ops, s) = handle_all handle s (map view ms) in (ops, s, []))"
  using assms
proof (induction chunks arbitrary: s buf ms)
  case Nil
  then have "ms = []" by (cases ms) auto
  with Nil show ?case by simp
next
  case (Cons d ds)
  have "(buf @ d) @ concat ds = concat (map encode ms)" using Cons.prems(3) by simp
  from drain_stream [OF Cons.prems(1,2) this, of s] obtain dn todo part where
    dr: "ms = dn @ todo" "part @ concat ds = concat (map encode todo)"
      "todo = [] \<or> length part < length (encode (hd todo))"
      "drain decode handle s (buf @ d) = (let (ops, s) = handle_all handle s (map view dn) in (ops, s, part))"
    by blast
  obtain ops s' where a: "handle_all handle s (map view dn) = (ops, s')" by fastforce
  have "feed (stream_data decode handle) (s', part) ds =
      (let (ops, s) = handle_all handle s' (map view todo) in (ops, s, []))"
    using Cons.prems dr by (intro Cons.IH) (auto simp: goes_on_def)
  moreover have "stream_data decode handle (s, buf) d = drain decode handle s (buf @ d)"
    by (simp add: stream_data_def)
  ultimately show ?case
    using dr a by (simp add: handle_all_append split_beta Let_def)
qed

end

text \<open>A codec reads what was written.\<close>

locale codec = framing encode decode "\<lambda>m. m" valid
  for encode :: "'m \<Rightarrow> nat list" and decode :: "nat list \<Rightarrow> ('m \<times> nat) option" and valid :: "'m \<Rightarrow> bool"
begin

lemma feed_messages:
  assumes "goes_on handle (set ms)" and "list_all valid ms" and "concat chunks = concat (map encode ms)"
  shows "feed (stream_data decode handle) (s, []) chunks =
    (let (ops, s) = handle_all handle s ms in (ops, s, []))"
proof -
  have "ms = [] \<or> length [] < length (encode (hd ms))"
    using assms(2) encode_not_Nil by (cases ms) auto
  with assms feed_stream [of handle ms "[]" chunks s] show ?thesis by simp
qed

end

end
