(* ===== verification/Lan_Mqtt.thy ===== *)
theory Lan_Mqtt
  imports Lan_Stream "HOL-Library.AList"
begin

text \<open>
  MQTT 3.1.1 and MQTT-SN (host/lan_services.mjs): the packets of both, the broker behind them, and
  what each front end does with what comes in. A connection is a number. What is only logged is left
  out, and so is the client's name, which only the log shows.
\<close>

section \<open>Topics\<close>

fun match_levels :: "text list \<Rightarrow> text list \<Rightarrow> bool" where
  "match_levels [] ts = (ts = [])"
| "match_levels (f # fs) ts =
    (if f = lit ''#'' then True
     else case ts of
         [] \<Rightarrow> False
       | t # ts \<Rightarrow> (f = lit ''+'' \<or> f = t) \<and> match_levels fs ts)"

definition topic_matches :: "text \<Rightarrow> text \<Rightarrow> bool" where
  "topic_matches fl topic = match_levels (split_char 47 fl) (split_char 47 topic)"

section \<open>MQTT packets\<close>

record mqtt_msg =
  mtype :: nat
  mflags :: nat
  mbody :: "nat list"

function mqtt_length :: "nat \<Rightarrow> nat list" where
  "mqtt_length n = (if n div 128 > 0 then (n mod 128 + 128) # mqtt_length (n div 128) else [n mod 128])"
  by pat_completeness auto
termination by (relation "measure id") auto

declare mqtt_length.simps [simp del]

definition mqtt_packet :: "nat \<Rightarrow> nat \<Rightarrow> nat list \<Rightarrow> nat list" where
  "mqtt_packet t flags body = (16 * t + flags) # mqtt_length (length body) @ body"

text \<open>The remaining length, from index \<open>i\<close>: its value, and the index after it.\<close>

function mqtt_read_length :: "nat list \<Rightarrow> nat \<Rightarrow> nat \<Rightarrow> nat \<Rightarrow> (nat \<times> nat) option" where
  "mqtt_read_length buf i len mul =
    (if i \<ge> length buf then None
     else (let b = buf ! i; len = len + b mod 128 * mul
       in if b div 128 mod 2 = 0 then Some (len, i + 1)
          else if i + 1 > 4 then None
          else mqtt_read_length buf (i + 1) len (mul * 128)))"
  by pat_completeness auto
termination by (relation "measure (\<lambda>(buf, i, _). length buf - i)") auto

declare mqtt_read_length.simps [simp del]

definition mqtt_decode :: "nat list \<Rightarrow> (mqtt_msg \<times> nat) option" where
  "mqtt_decode buf = (case mqtt_read_length buf 1 0 1 of
      None \<Rightarrow> None
    | Some (len, i) \<Rightarrow>
        if length buf < i + len then None
        else Some (\<lparr> mtype = buf ! 0 div 16, mflags = buf ! 0 mod 16, mbody = js_slice buf i (i + len) \<rparr>, i + len))"

definition mqtt_string :: "text \<Rightarrow> nat list" where
  "mqtt_string s = be16 (length (utf8_encode s)) @ utf8_encode s"

section \<open>The broker, and the topic ids of MQTT-SN\<close>

text \<open>
  Who is subscribed: a subscriber stands for its function \<open>deliver\<close>, of which each MQTT connection
  has one, and each CONNECT of MQTT-SN makes a new one, told apart by a number, for an address.
\<close>

datatype subscriber = On_tcp nat | On_udp nat "nat list" nat

record broker =
  subs :: "(text \<times> subscriber) list"
  topic_ids :: "(text \<times> nat) list"
  topic_names :: "(nat \<times> text) list"
  sn_clients :: "((nat list \<times> nat) \<times> subscriber) list"
  sn_made :: nat

definition new_broker :: broker where
  "new_broker = \<lparr> subs = [], topic_ids = [], topic_names = [], sn_clients = [], sn_made = 0 \<rparr>"

definition subscribe :: "text \<Rightarrow> subscriber \<Rightarrow> broker \<Rightarrow> broker" where
  "subscribe fl s b = b\<lparr>subs := subs b @ [(fl, s)]\<rparr>"

definition unsubscribe :: "subscriber \<Rightarrow> broker \<Rightarrow> broker" where
  "unsubscribe s b = b\<lparr>subs := filter (\<lambda>(_, s'). s' \<noteq> s) (subs b)\<rparr>"

definition id_for :: "text \<Rightarrow> broker \<Rightarrow> nat \<times> broker" where
  "id_for name b = (case map_of (topic_ids b) name of
      Some i \<Rightarrow> (i, b)
    | None \<Rightarrow>
        let i = length (topic_ids b) + 1
        in (i, b\<lparr>topic_ids := topic_ids b @ [(name, i)],
                topic_names := AList.update i name (topic_names b)\<rparr>))"

definition sn_message :: "nat \<Rightarrow> nat list \<Rightarrow> nat list" where
  "sn_message t body =
    (let n = length body + 2 in if n < 256 then [n, t] @ body else [1] @ be16 (n + 2) @ [t] @ body)"

fun deliver :: "subscriber \<Rightarrow> text \<Rightarrow> nat list \<Rightarrow> broker \<Rightarrow> net_out \<times> broker" where
  "deliver (On_tcp c) topic payload b = (Tcp c (Write (mqtt_packet 3 0 (mqtt_string topic @ payload))), b)"
| "deliver (On_udp _ ip port) topic payload b =
    (let (i, b) = id_for topic b
     in (Udp ip port (sn_message 0x0c ([0] @ be16 i @ [0, 0] @ payload)), b))"

fun publish_to :: "(text \<times> subscriber) list \<Rightarrow> text \<Rightarrow> nat list \<Rightarrow> broker \<Rightarrow> net_out list \<times> broker" where
  "publish_to [] topic payload b = ([], b)"
| "publish_to ((fl, s) # ss) topic payload b =
    (if topic_matches fl topic
     then (let (out, b) = deliver s topic payload b; (outs, b) = publish_to ss topic payload b in (out # outs, b))
     else publish_to ss topic payload b)"

definition publish :: "text \<Rightarrow> nat list \<Rightarrow> broker \<Rightarrow> net_out list \<times> broker" where
  "publish topic payload b = publish_to (subs b) topic payload b"

section \<open>MQTT\<close>

text \<open>The filters of a SUBSCRIBE, from index \<open>i\<close> of its body.\<close>

function mqtt_filters :: "nat list \<Rightarrow> nat \<Rightarrow> text list" where
  "mqtt_filters body i =
    (if i < length body
     then utf8_decode (js_slice body (i + 2) (i + 2 + rdb16 body i)) # mqtt_filters body (i + 2 + rdb16 body i + 1)
     else [])"
  by pat_completeness auto
termination by (relation "measure (\<lambda>(body, i). length body - i)") auto

declare mqtt_filters.simps [simp del]

definition mqtt_send :: "nat \<Rightarrow> nat \<Rightarrow> nat \<Rightarrow> nat list \<Rightarrow> net_out" where
  "mqtt_send c t flags body = Tcp c (Write (mqtt_packet t flags body))"

definition mqtt_publish :: "nat \<Rightarrow> broker \<Rightarrow> mqtt_msg \<Rightarrow> net_out list \<times> broker" where
  "mqtt_publish c b m =
    (let qos = mflags m div 2 mod 4;
         len = rdb16 (mbody m) 0;
         topic = utf8_decode (js_slice (mbody m) 2 (2 + len));
         i = (if qos \<noteq> 0 then rdb16 (mbody m) (2 + len) else 0);
         payload = drop (2 + len + (if qos \<noteq> 0 then 2 else 0)) (mbody m);
         acks = (if qos = 1 then [mqtt_send c 4 0 (be16 i)] else []) @
           (if qos = 2 then [mqtt_send c 5 0 (be16 i)] else []);
         (outs, b) = publish topic payload b
     in (acks @ outs, b))"

definition mqtt_handle :: "nat \<Rightarrow> (broker, mqtt_msg, net_out) handler" where
  "mqtt_handle c b m =
    (let reply = [byte_at (mbody m) 0, byte_at (mbody m) 1]
     in if mtype m = 1 then ([mqtt_send c 2 0 [0, 0]], b, True)
        else if mtype m = 3 then (let (outs, b) = mqtt_publish c b m in (outs, b, True))
        else if mtype m = 6 then ([mqtt_send c 7 0 reply], b, True)
        else if mtype m = 8 then
          (let fls = mqtt_filters (mbody m) 2
           in ([mqtt_send c 9 0 (reply @ map (\<lambda>_. 0) fls)], fold (\<lambda>fl. subscribe fl (On_tcp c)) fls b, True))
        else if mtype m = 10 then ([mqtt_send c 11 0 reply], unsubscribe (On_tcp c) b, True)
        else if mtype m = 12 then ([mqtt_send c 13 0 []], b, True)
        else if mtype m = 14 then ([Tcp c End], unsubscribe (On_tcp c) b, False)
        else ([], b, True))"

definition mqtt_data :: "nat \<Rightarrow> broker \<times> nat list \<Rightarrow> nat list \<Rightarrow> net_out list \<times> broker \<times> nat list" where
  "mqtt_data c = stream_data mqtt_decode (mqtt_handle c)"

definition mqtt_end :: "nat \<Rightarrow> broker \<Rightarrow> broker" where
  "mqtt_end c b = unsubscribe (On_tcp c) b"

section \<open>MQTT-SN\<close>

definition sn_connect :: "nat list \<Rightarrow> nat \<Rightarrow> broker \<Rightarrow> broker" where
  "sn_connect ip port b =
    b\<lparr>sn_clients := AList.update (ip, port) (On_udp (sn_made b) ip port) (sn_clients b), sn_made := sn_made b + 1\<rparr>"

definition sn_topic :: "nat \<Rightarrow> broker \<Rightarrow> text" where
  "sn_topic i b = (case map_of (topic_names b) i of Some name \<Rightarrow> name | None \<Rightarrow> lit ''#'' @ nat_text i)"

definition mqtt_sn :: "nat list \<Rightarrow> nat list \<Rightarrow> nat \<Rightarrow> broker \<Rightarrow> net_out list \<times> broker" where
  "mqtt_sn msg ip port b =
    (let i = (if byte_at msg 0 = 1 then 3 else 1);
         t = byte_at msg i;
         body = drop (i + 1) msg;
         send = (\<lambda>t bs. Udp ip port (sn_message t bs))
     in if t = 0x04 then ([send 0x05 [0]], sn_connect ip port b)
        else case map_of (sn_clients b) (ip, port) of
          None \<Rightarrow> ([], b)
        | Some client \<Rightarrow>
            if t = 0x0a then
              (let (n, b) = id_for (utf8_decode (drop 4 body)) b
               in ([send 0x0b (be16 n @ [byte_at body 2, byte_at body 3, 0])], b))
            else if t = 0x12 then
              (let topic = utf8_decode (drop 3 body); (n, b) = id_for topic b
               in ([send 0x13 ([0] @ be16 n @ [byte_at body 1, byte_at body 2, 0])], subscribe topic client b))
            else if t = 0x14 then ([send 0x15 [byte_at body 1, byte_at body 2]], unsubscribe client b)
            else if t = 0x0c then
              (let qos = byte_at body 0 div 32 mod 4;
                   acks = (if qos = 1 then [send 0x0d [byte_at body 1, byte_at body 2, byte_at body 3, byte_at body 4, 0]] else []);
                   (outs, b) = publish (sn_topic (rdb16 body 1) b) (drop 5 body) b
               in (acks @ outs, b))
            else if t = 0x16 then ([send 0x17 []], b)
            else if t = 0x18 then
              ([send 0x18 []], (unsubscribe client b)\<lparr>sn_clients := AList.delete (ip, port) (sn_clients b)\<rparr>)
            else ([], b))"

end
