(* ===== verification/Lan_Udp_Proofs.thy ===== *)
theory Lan_Udp_Proofs
  imports Lan_Udp
begin

text \<open>What a board gets from the LAN's UDP services.\<close>

section \<open>DHCP\<close>

text \<open>The search for an option, on the options alone.\<close>

function find_option :: "nat list \<Rightarrow> nat \<Rightarrow> nat list option" where
  "find_option [] code = None"
| "find_option [c] code = (if c = code \<and> c \<noteq> 0 \<and> c \<noteq> 255 then Some [] else None)"
| "find_option (c # n # rest) code =
    (if c = 255 then None
     else if c = 0 then find_option (n # rest) code
     else if c = code then Some (take n rest)
     else find_option (drop n rest) code)"
  by pat_completeness auto
termination by (relation "measure (\<lambda>(xs, _). length xs)") auto

lemma dhcp_option_from_find: "dhcp_option_from msg code i = find_option (drop i msg) code"
proof (induction msg code i rule: dhcp_option_from.induct)
  case (1 msg code i)
  show ?case
  proof (cases "i \<ge> length msg")
    case True
    then show ?thesis by (simp add: dhcp_option_from.simps [of msg])
  next
    case False
    then have d: "drop i msg = msg ! i # drop (i + 1) msg" by (simp add: Cons_nth_drop_Suc)
    show ?thesis
    proof (cases "i + 1 \<ge> length msg")
      case True
      with False d have "drop i msg = [msg ! i]" by simp
      moreover have "dhcp_option_from msg code (i + 1) = None"
        using True by (simp add: dhcp_option_from.simps [of msg])
      ultimately show ?thesis using True False by (simp add: dhcp_option_from.simps [of msg _ i])
    next
      case next_in: False
      then have "drop i msg = msg ! i # msg ! (i + 1) # drop (i + 2) msg"
        using d by (simp add: Cons_nth_drop_Suc)
      moreover have "drop (i + 1) msg = msg ! (i + 1) # drop (i + 2) msg"
        using next_in by (simp add: Cons_nth_drop_Suc)
      ultimately show ?thesis
        using 1 False next_in
        by (simp add: dhcp_option_from.simps [of msg _ i] js_slice_def add.commute add.left_commute)
    qed
  qed
qed

text \<open>
  A client that sends DISCOVER or REQUEST is answered with OFFER or ACK: for its own transaction and
  hardware address, offering the board's address, with the options a client looks for where it looks
  for them.
\<close>

theorem dhcp_offer_understood:
  assumes "240 \<le> length msg" and "msg ! 0 = 1" and "js_slice msg 236 240 = [99, 130, 83, 99]"
    and "dhcp_option msg 53 = Some (t # ts)" and "t = 1 \<or> t = 3"
  shows "\<exists>out. dhcp msg = Some (out, BROADCAST, 68) \<and> length out = 300 \<and> out ! 0 = 2 \<and>
    js_slice out 4 8 = js_slice msg 4 8 \<and> js_slice out 28 44 = js_slice msg 28 44 \<and>
    js_slice out 16 20 = BOARD_IP \<and> dhcp_option out 53 = Some [if t = 1 then 2 else 5] \<and>
    dhcp_option out 54 = Some LAN_IP \<and> dhcp_option out 3 = Some LAN_IP \<and> dhcp_option out 6 = Some LAN_IP \<and>
    dhcp_option out 1 = Some [255, 255, 255, 0] \<and> dhcp_option out 51 = Some (be32 86400)"
proof -
  define r where "r = (if t = 1 then 2 else 5 :: nat)"
  define z where "z = replicate 300 (0 :: nat)"
  have z: "length z = 300" by (simp only: z_def length_replicate)
  define o1 where "o1 = put_at 4 (js_slice msg 4 12) (put_at 0 [2, 1, 6, 0] z)"
  define o2 where "o2 = put_at 20 LAN_IP (put_at 16 BOARD_IP o1)"
  define o3 where "o3 = put_at 28 (js_slice msg 28 44) o2"
  define o4 where "o4 = put_at 236 [99, 130, 83, 99] o3"
  define out where "out = put_at 240 (dhcp_reply_options r) o4"
  have ls: "length (js_slice msg 4 12) = 8" "length (js_slice msg 28 44) = 16"
    "length (dhcp_reply_options r) = 34" "length BOARD_IP = 4" "length LAN_IP = 4"
    using assms(1) by (simp_all add: dhcp_reply_options_def BOARD_IP_def LAN_IP_def)
  have lo: "length o1 = 300" "length o2 = 300" "length o3 = 300" "length o4 = 300" "length out = 300"
    using ls z by (simp_all add: o1_def o2_def o3_def o4_def out_def)
  have out: "dhcp_reply msg r = out"
    by (simp only: dhcp_reply_def out_def o4_def o3_def o2_def o1_def z_def)
  have reply: "dhcp msg = Some (out, BROADCAST, 68)"
    unfolding out [symmetric] using assms by (auto simp: dhcp_def r_def)
  have s4: "js_slice out 4 8 = js_slice o1 4 8" and s16: "js_slice out 16 20 = js_slice o2 16 20"
    and s28: "js_slice out 28 44 = js_slice o3 28 44"
    using lo ls by (simp_all add: out_def o4_def o3_def o2_def slice_put_at_other)
  have "js_slice o1 4 12 = js_slice msg 4 12"
    using slice_put_at_same [of 4 "js_slice msg 4 12" "put_at 0 [2, 1, 6, 0] z"] ls z
    by (simp add: o1_def)
  then have "take 4 (js_slice o1 4 12) = take 4 (js_slice msg 4 12)" by simp
  then have xid: "js_slice o1 4 8 = js_slice msg 4 8" by (simp add: js_slice_def)
  have chaddr: "js_slice o3 28 44 = js_slice msg 28 44"
    using slice_put_at_same [of 28 "js_slice msg 28 44" o2] ls lo by (simp add: o3_def)
  have ip: "js_slice o2 16 20 = BOARD_IP"
    using slice_put_at_same [of 16 BOARD_IP o1] lo ls by (simp add: o2_def slice_put_at_other)
  have op: "out ! 0 = 2"
    using lo ls z
    by (simp add: out_def o4_def o3_def o2_def o1_def nth_put_at_before) (simp add: put_at_def)
  have "drop 240 out = dhcp_reply_options r @ drop 274 o4"
    using lo ls by (simp add: out_def put_at_def)
  then have opts: "dhcp_option out code = find_option (dhcp_reply_options r @ drop 274 o4) code" for code
    by (simp add: dhcp_option_def dhcp_option_from_find)
  show ?thesis
    using reply lo s4 s16 s28 xid chaddr ip op
    by (intro exI [of _ out])
      (simp add: opts dhcp_reply_options_def LAN_IP_def be32_def be16_def r_def)
qed

definition a_discover :: "nat list" where
  "a_discover = 1 # (replicate 235 7 @ [99, 130, 83, 99] @ [0, 53, 1, 1, 255])"

lemma a_discover_facts:
  "240 \<le> length a_discover" "a_discover ! 0 = 1" "js_slice a_discover 236 240 = [99, 130, 83, 99]"
  "dhcp_option a_discover 53 = Some [1]"
proof -
  define z where "z = 1 # replicate 235 (7 :: nat)"
  have z: "length z = 236" "z ! 0 = 1" by (simp_all only: z_def length_Cons length_replicate nth_Cons_0)
  have d: "a_discover = z @ [99, 130, 83, 99] @ [0, 53, 1, 1, 255]"
    by (simp only: a_discover_def z_def append_Cons)
  show "240 \<le> length a_discover" "a_discover ! 0 = 1" "js_slice a_discover 236 240 = [99, 130, 83, 99]"
    "dhcp_option a_discover 53 = Some [1]"
    using z by (simp_all add: d js_slice_def dhcp_option_def dhcp_option_from_find nth_append)
qed

theorem dhcp_offer_understood_witness:
  "\<exists>out. dhcp a_discover = Some (out, BROADCAST, 68) \<and> dhcp_option out 3 = Some LAN_IP"
  using dhcp_offer_understood [OF a_discover_facts] by auto

section \<open>DNS\<close>

definition dns_name :: "nat list list \<Rightarrow> nat list" where
  "dns_name ls = concat (map (\<lambda>l. length l # l) ls)"

lemma dns_name_end_labels:
  assumes "list_all (\<lambda>l. l \<noteq> []) ls"
  shows "dns_name_end (pre @ dns_name ls @ 0 # more) (length pre) = length pre + length (dns_name ls)"
  using assms
proof (induction ls arbitrary: pre)
  case Nil
  then show ?case by (simp add: dns_name_end.simps dns_name_def nth_append)
next
  case (Cons l ls)
  have "dns_name_end ((pre @ length l # l) @ dns_name ls @ 0 # more) (length (pre @ length l # l)) =
      length (pre @ length l # l) + length (dns_name ls)"
    using Cons by (intro Cons.IH) simp
  with Cons.prems show ?case
    by (subst dns_name_end.simps) (simp add: dns_name_def nth_append add.assoc)
qed

text \<open>
  Every well-formed query is answered, with its identifier and its question repeated: a query for an
  IPv4 address of any name with one record, the LAN's own address, and any other query with none.
\<close>

theorem dns_answers_every_query:
  assumes "length hdr = 12" and "hdr ! 2 < 128" and "list_all (\<lambda>l. l \<noteq> []) ls" and "qtype < 65536"
  shows "dns (hdr @ (dns_name ls @ [0] @ be16 qtype @ be16 qclass) @ more) =
    Some (take 2 hdr @ [128 + hdr ! 2 mod 2, 128, 0, 1, 0, if qtype = 1 then 1 else 0, 0, 0, 0, 0] @
      (dns_name ls @ [0] @ be16 qtype @ be16 qclass) @
      (if qtype = 1 then [0xc0, 0x0c, 0, 1, 0, 1, 0, 0, 0x0e, 0x10, 0, 4] @ LAN_IP else []))"
proof -
  let ?q = "hdr @ (dns_name ls @ [0] @ be16 qtype @ be16 qclass) @ more"
  have e: "dns_name_end ?q 12 = 12 + length (dns_name ls)"
    using dns_name_end_labels [OF assms(3), of hdr "be16 qtype @ be16 qclass @ more"] assms(1) by simp
  have t: "rdb16 ?q (12 + length (dns_name ls) + 1) = qtype"
    using assms(1,4) by (simp add: rdb16_def byte_at_append be16_def less_mult_imp_div_less)
  have s: "js_slice ?q 12 (12 + length (dns_name ls) + 5) = dns_name ls @ [0] @ be16 qtype @ be16 qclass"
    "js_slice ?q 0 2 = take 2 hdr"
    using assms(1) by (simp_all add: js_slice_def)
  show ?thesis
    using assms(1,2) e t s by (simp add: dns_def Let_def nth_append)
qed

theorem dns_answers_every_query_witness:
  "dns ([0, 7, 1, 0, 0, 1, 0, 0, 0, 0, 0, 0] @ (dns_name [[119, 119], [97]] @ [0] @ be16 1 @ be16 1) @ []) =
    Some ([0, 7, 129, 128, 0, 1, 0, 1, 0, 0, 0, 0, 2, 119, 119, 1, 97, 0, 0, 1, 0, 1,
      0xc0, 0x0c, 0, 1, 0, 1, 0, 0, 0x0e, 0x10, 0, 4, 192, 0, 2, 2])"
  by (subst dns_answers_every_query) (simp_all add: dns_name_def be16_def LAN_IP_def)

section \<open>SNTP\<close>

lemma rdb16_mod: "rdb16 (be16 v @ xs) 0 = v mod 65536"
  using mod_mult2_eq [of v 256 256] by (simp add: rdb16_def be16_def)

lemma rdb16_skip: "length p = i \<Longrightarrow> rdb16 (p @ b) i = rdb16 b 0"
  by (simp add: rdb16_def byte_at_append)

lemma rdb32_be32:
  assumes "v < 2 ^ 32"
  shows "rdb32 (be32 v @ xs) 0 = v"
proof -
  have "v div 65536 < 65536" using assms by (simp add: less_mult_imp_div_less)
  moreover have "65536 * (v div 65536) + v mod 65536 = v" by simp
  ultimately show ?thesis
    by (simp add: rdb32_def be32_def rdb16_mod rdb16_skip)
qed

lemma rdb32_skip: "length a = 4 \<Longrightarrow> rdb32 (a @ b) 4 = rdb32 b 0"
  by (simp add: rdb32_def rdb16_def byte_at_append numeral_2_eq_2 numeral_3_eq_3)

text \<open>
  The time the LAN gives is its date plus the board's clock, to within one unit of NTP's 32-bit
  fraction of a second, rounded down, until NTP's era ends.
\<close>

theorem ntp_time_accurate:
  assumes "LAN_EPOCH_UNIX + NTP_UNIX_OFFSET + t div 1000000000 < 2 ^ 32"
  defines "v \<equiv> rdb32 (ntp_time t) 0 * 2 ^ 32 + rdb32 (ntp_time t) 4"
  shows "v * 1000000000 \<le> ((LAN_EPOCH_UNIX + NTP_UNIX_OFFSET) * 1000000000 + t) * 2 ^ 32 \<and>
    ((LAN_EPOCH_UNIX + NTP_UNIX_OFFSET) * 1000000000 + t) * 2 ^ 32 < (v + 1) * 1000000000"
proof -
  define secs where "secs = LAN_EPOCH_UNIX + NTP_UNIX_OFFSET + t div 1000000000"
  define frac where "frac = t mod 1000000000 * 2 ^ 32 div 1000000000"
  have f: "frac < 2 ^ 32"
    unfolding frac_def by (rule less_mult_imp_div_less) simp
  have v: "v = secs * 2 ^ 32 + frac"
    using assms(1) f rdb32_be32 [of secs "be32 frac"] rdb32_be32 [of frac "[]"]
    by (simp add: v_def ntp_time_def Let_def secs_def frac_def rdb32_skip)
  have lo: "frac * 1000000000 \<le> t mod 1000000000 * 2 ^ 32"
    unfolding frac_def by (rule div_times_less_eq_dividend)
  have hi: "t mod 1000000000 * 2 ^ 32 < (frac + 1) * 1000000000"
    unfolding frac_def using dividend_less_div_times [of 1000000000 "t mod 1000000000 * 2 ^ 32"]
    by simp
  have "(LAN_EPOCH_UNIX + NTP_UNIX_OFFSET) * 1000000000 + t = secs * 1000000000 + t mod 1000000000"
    unfolding secs_def by (simp add: add_mult_distrib)
  then show ?thesis using lo hi by (simp only: v) (simp add: algebra_simps)
qed

theorem ntp_time_accurate_witness:
  "rdb32 (ntp_time 1500000000) 0 * 2 ^ 32 + rdb32 (ntp_time 1500000000) 4
    \<le> 3976214401 * 2 ^ 32 + 2 ^ 31"
  using ntp_time_accurate [of 1500000000] by (simp add: LAN_EPOCH_UNIX_def NTP_UNIX_OFFSET_def)

section \<open>TFTP\<close>

text \<open>A transfer's socket and the datagrams that come to it, until it closes.\<close>

fun tftp_run :: "tftp_session option \<Rightarrow> nat list list \<Rightarrow> nat list list \<times> tftp_session option" where
  "tftp_run (Some s) (m # ms) =
    (let (out, s) = tftp_msg m s; (outs, s) = tftp_run s ms in (out @ outs, s))"
| "tftp_run s ms = ([], s)"

lemma tftp_run_None [simp]: "tftp_run None ms = ([], None)"
  by (cases ms) auto

lemma tftp_run_append:
  "tftp_run s (ms @ ns) =
    (let (out, s) = tftp_run s ms; (outs, s) = tftp_run s ns in (out @ outs, s))"
  by (induction s ms rule: tftp_run.induct) (auto simp: Let_def split: prod.splits)

lemma rdb16_ack: "k < 65536 \<Longrightarrow> rdb16 (tftp_ack k) 0 = 4 \<and> rdb16 (tftp_ack k) 2 = k"
  using rdb16_skip [of "[0, 4]" 2 "be16 k"] rdb16_mod [of k "[]"]
  by (simp add: tftp_ack_def rdb16_def)

text \<open>Acknowledgements of other blocks bring the current block again, and change nothing.\<close>

lemma tftp_stale_acks:
  "list_all (\<lambda>j. j < 65536 \<and> j \<noteq> k) js \<Longrightarrow>
    tftp_run (Some (Reading file k)) (map tftp_ack js) =
      (replicate (length js) (tftp_data file k), Some (Reading file k))"
  by (induction js) (simp_all add: tftp_msg_def tftp_read_msg_def rdb16_ack)

lemma tftp_ack_current:
  assumes "k < 65536"
  shows "tftp_msg (tftp_ack k) (Reading file k) =
    (if (k - 1) * 512 + 512 > length file then ([], None)
     else ([tftp_data file (k + 1)], Some (Reading file (k + 1))))"
  using rdb16_ack [OF assms] by (simp add: tftp_msg_def tftp_read_msg_def TFTP_BLOCK_def)

abbreviation acks :: "(nat \<Rightarrow> nat list) \<Rightarrow> nat \<Rightarrow> nat list list" where
  "acks stale k \<equiv> map tftp_ack (stale k) @ [tftp_ack k]"

lemma tftp_read_blocks:
  assumes "\<And>k. list_all (\<lambda>j. j < 65536 \<and> j \<noteq> k) (stale k)" and "1 \<le> k"
    and "k + d \<le> 65535" and "(k + d - 1) * 512 \<le> length file"
  shows "tftp_run (Some (Reading file k)) (concat (map (acks stale) [k..<k + d])) =
    (concat (map (\<lambda>i. replicate (length (stale i)) (tftp_data file i) @ [tftp_data file (i + 1)]) [k..<k + d]),
     Some (Reading file (k + d)))"
  using assms(3,4)
proof (induction d)
  case (Suc d)
  have "tftp_run (Some (Reading file (k + d))) (acks stale (k + d)) =
    (replicate (length (stale (k + d))) (tftp_data file (k + d)) @ [tftp_data file (k + d + 1)],
     Some (Reading file (k + d + 1)))"
    using Suc.prems assms(1) [of "k + d"] assms(2)
    by (simp add: tftp_run_append tftp_stale_acks tftp_ack_current)
  with Suc show ?case by (simp add: tftp_run_append)
qed simp

lemma slices_concat:
  "concat (map (\<lambda>i. js_slice xs (i * n) ((i + 1) * n)) [0..<m]) = take (m * n) xs"
  by (induction m) (simp_all add: js_slice_def take_add add.commute [of n "_ * n"])

text \<open>
  C31. A file of less than 65535 blocks is read whole: whatever old acknowledgements come back in between,
  the board is sent the blocks one after another until it has acknowledged the last, their contents
  are the file, and the transfer is over.
\<close>

theorem tftp_read_delivers:
  fixes stale :: "nat \<Rightarrow> nat list"
  assumes "\<And>k. list_all (\<lambda>j. j < 65536 \<and> j \<noteq> k) (stale k)"
    and "n = length file div 512 + 1" and "n \<le> 65535"
  shows "tftp_run (Some (Reading file 1)) (concat (map (acks stale) [1..<n + 1])) =
      (concat (map (\<lambda>i. replicate (length (stale i)) (tftp_data file i) @ [tftp_data file (i + 1)]) [1..<n]) @
       replicate (length (stale n)) (tftp_data file n), None) \<and>
    concat (map (\<lambda>i. drop 4 (tftp_data file i)) [1..<n + 1]) = file"
proof (rule conjI)
  let ?d = "n - 1"
  have n: "1 + ?d = n" "?d * 512 \<le> length file" "length file < n * 512"
    using assms(2) dividend_less_div_times [of 512 "length file"] by (simp_all add: algebra_simps)
  have "tftp_run (Some (Reading file 1)) (concat (map (acks stale) [1..<1 + ?d])) =
    (concat (map (\<lambda>i. replicate (length (stale i)) (tftp_data file i) @ [tftp_data file (i + 1)]) [1..<1 + ?d]),
     Some (Reading file (1 + ?d)))"
    by (rule tftp_read_blocks) (use n assms in auto)
  moreover have "tftp_run (Some (Reading file n)) (acks stale n) =
      (replicate (length (stale n)) (tftp_data file n), None)"
    using n assms by (simp add: tftp_run_append tftp_stale_acks tftp_ack_current diff_mult_distrib)
  moreover have "[1..<n + 1] = [1..<n] @ [n]" using n by simp
  ultimately show "tftp_run (Some (Reading file 1)) (concat (map (acks stale) [1..<n + 1])) =
      (concat (map (\<lambda>i. replicate (length (stale i)) (tftp_data file i) @ [tftp_data file (i + 1)]) [1..<n]) @
       replicate (length (stale n)) (tftp_data file n), None)"
    using n by (simp add: tftp_run_append)
  have "map (\<lambda>i. drop 4 (tftp_data file i)) [1..<n + 1] =
      map (\<lambda>i. js_slice file (i * 512) ((i + 1) * 512)) [0..<n]"
    by (simp add: map_Suc_upt [symmetric] tftp_data_def TFTP_BLOCK_def be16_def comp_def del: upt_Suc)
  then show "concat (map (\<lambda>i. drop 4 (tftp_data file i)) [1..<n + 1]) = file"
    using n slices_concat [where n = 512 and m = n and xs = "file"] by (simp del: upt_Suc)
qed

theorem tftp_read_delivers_witness:
  "let file = replicate 600 1; n = length file div 512 + 1 in
    tftp_run (Some (Reading file 1)) (concat (map (acks (\<lambda>k. if k = 2 then [1] else [])) [1..<n + 1])) =
      (concat (map (\<lambda>i. replicate (length (if i = 2 then [1 :: nat] else [])) (tftp_data file i) @
         [tftp_data file (i + 1)]) [1..<n]) @
       replicate (length (if n = 2 then [1 :: nat] else [])) (tftp_data file n), None)"
  unfolding Let_def
  by (rule tftp_read_delivers [THEN conjunct1]) simp_all

text \<open>A block that the board writes.\<close>

definition tftp_block :: "nat \<Rightarrow> nat list \<Rightarrow> nat list" where
  "tftp_block k d = [0, 3] @ be16 k @ d"

lemma rdb16_block: "k < 65536 \<Longrightarrow> rdb16 (tftp_block k d) 0 = 3 \<and> rdb16 (tftp_block k d) 2 = k"
  using rdb16_skip [of "[0, 3]" 2 "be16 k @ d"] rdb16_mod [of k d]
  by (simp add: tftp_block_def rdb16_def)

lemma tftp_write_full:
  assumes "k < 65536" and "length d = 512"
  shows "tftp_run (Some (Writing parts k)) (replicate (Suc r) (tftp_block k d)) =
    (replicate (Suc r) (tftp_ack k), Some (Writing (parts @ [d]) (k + 1)))"
proof -
  have "drop 4 (tftp_block k d) = d" "length (tftp_block k d) = 516"
    using assms(2) by (simp_all add: tftp_block_def be16_def)
  then have first: "tftp_msg (tftp_block k d) (Writing parts k) =
      ([tftp_ack k], Some (Writing (parts @ [d]) (k + 1)))"
    and again: "tftp_msg (tftp_block k d) (Writing parts' (k + 1)) =
      ([tftp_ack k], Some (Writing parts' (k + 1)))" for parts'
    using rdb16_block [OF assms(1), of d]
    by (simp_all add: tftp_msg_def tftp_write_msg_def TFTP_BLOCK_def)
  have "tftp_run (Some (Writing parts' (k + 1))) (replicate r (tftp_block k d)) =
      (replicate r (tftp_ack k), Some (Writing parts' (k + 1)))" for parts'
    by (induction r) (simp_all only: replicate.simps tftp_run.simps again Let_def split append.simps)
  then show ?thesis by (simp add: first)
qed



text \<open>
  Block numbers are 16 bits wide and the count of blocks is not: after block 65535 no block is the one
  expected, so every further block is acknowledged and dropped and the transfer never ends.
\<close>

theorem tftp_write_wraps:
  assumes "k \<noteq> 65535" and "k < 65536"
  shows "tftp_msg (tftp_block k d) (Writing parts 65536) = ([tftp_ack k], Some (Writing parts 65536))"
  using rdb16_block [OF assms(2), of d] assms by (simp add: tftp_msg_def tftp_write_msg_def)

theorem tftp_write_wraps_witness:
  "tftp_msg (tftp_block 0 [1]) (Writing [] 65536) = ([tftp_ack 0], Some (Writing [] 65536))"
  by (rule tftp_write_wraps) simp_all

text \<open>
  A request to read a file by a name that every object has is not refused: it throws in the host.
\<close>

theorem tftp_inherited_name_throws:
  assumes "name \<in> set object_prototype"
  shows "tftp ([0, 1] @ utf8_encode name @ [0] @ mode) = Inl TypeError"
proof -
  have "list_all (\<lambda>name. is_ascii name \<and> 0 \<notin> set name \<and> map_of TFTP_FILES name = None) object_prototype"
    by (simp add: object_prototype_def lit_def TFTP_FILES_def)
  with assms have a: "is_ascii name" "0 \<notin> set name" "js_get TFTP_FILES name = Inherited"
    by (auto simp: list_all_iff js_get_def)
  then have "takeWhile (\<lambda>x. x \<noteq> 0) (name @ 0 # mode) = name"
    by (subst takeWhile_append2) (auto intro: gr0I)
  then have "tftp_name ([0, 1] @ name @ 0 # mode) = name"
    by (simp add: tftp_name_def del: neq0_conv)
  with a show ?thesis
    by (simp add: tftp_def rdb16_def utf8_encode_ascii utf8_decode_ascii)
qed

theorem tftp_inherited_name_throws_witness:
  "tftp ([0, 1] @ utf8_encode (lit ''toString'') @ [0] @ []) = Inl TypeError"
  by (rule tftp_inherited_name_throws) (simp add: object_prototype_def)

end
