(* ===== verification/Lan_Mqtt_Proofs.thy ===== *)
theory Lan_Mqtt_Proofs
  imports Lan_Mqtt Lan_Udp_Proofs
begin

text \<open>What a client of the LAN's MQTT and MQTT-SN servers can rely on, and where it cannot.\<close>

section \<open>MQTT packets on a stream\<close>

definition mqtt_valid :: "mqtt_msg \<Rightarrow> bool" where
  "mqtt_valid m \<longleftrightarrow> mtype m < 16 \<and> mflags m < 16 \<and> length (mbody m) < 128 ^ 4"

abbreviation mqtt_encode :: "mqtt_msg \<Rightarrow> nat list" where
  "mqtt_encode m \<equiv> mqtt_packet (mtype m) (mflags m) (mbody m)"

lemma mqtt_length_not_Nil: "mqtt_length n \<noteq> []"
  by (subst mqtt_length.simps) simp

lemma mqtt_read_length_whole:
  assumes "0 < length pre" and "length pre \<le> 4" and "n < 128 ^ (5 - length pre)"
  shows "mqtt_read_length (pre @ mqtt_length n @ rest) (length pre) len mul =
    Some (len + n * mul, length pre + length (mqtt_length n))"
  using assms
proof (induction n arbitrary: pre len mul rule: mqtt_length.induct)
  case (1 n)
  show ?case
  proof (cases "n div 128 > 0")
    case True
    have le: "length pre \<le> 3"
    proof (rule ccontr)
      assume "\<not> length pre \<le> 3"
      then have "length pre = 4" using 1(3) by simp
      with 1(4) True show False by simp
    qed
    let ?pre = "pre @ [n mod 128 + 128]"
    have "5 - length pre = Suc (5 - length ?pre)" using le by simp
    then have "n div 128 < 128 ^ (5 - length ?pre)"
      using 1(4) by (simp only: power_Suc less_mult_imp_div_less mult.commute [of 128])
    then have "mqtt_read_length (?pre @ mqtt_length (n div 128) @ rest) (length ?pre)
        (len + n mod 128 * mul) (mul * 128) =
      Some (len + n mod 128 * mul + n div 128 * (mul * 128), length ?pre + length (mqtt_length (n div 128)))"
      using le 1(2) True by (intro 1(1)) simp_all
    moreover have "len + n mod 128 * mul + n div 128 * (mul * 128) = len + n * mul"
    proof -
      have "x * mul + y * (mul * 128) = (x + y * 128) * mul" for x y by (simp add: algebra_simps)
      from this [of "n mod 128" "n div 128"] show ?thesis by (simp only: add.assoc mod_mult_div_eq mod_div_mult_eq)
    qed
    moreover have "mqtt_length n = (n mod 128 + 128) # mqtt_length (n div 128)"
      using True by (simp add: mqtt_length.simps [of n])
    moreover have "(n mod 128 + 128) div 128 mod 2 = 1" by simp
    ultimately show ?thesis
      using le by (subst mqtt_read_length.simps) (simp add: nth_append)
  next
    case False
    then have "mqtt_length n = [n]" "n < 128" by (simp_all add: mqtt_length.simps [of n] div_eq_0_iff)
    then show ?thesis by (subst mqtt_read_length.simps) (simp add: nth_append)
  qed
qed

lemma mqtt_read_length_part:
  assumes "mqtt_length n = p @ q" and "q \<noteq> []"
  shows "mqtt_read_length (pre @ p) (length pre) len mul = None"
  using assms
proof (induction n arbitrary: pre p len mul rule: mqtt_length.induct)
  case (1 n)
  show ?case
  proof (cases p)
    case Nil
    then show ?thesis by (simp add: mqtt_read_length.simps)
  next
    case (Cons b p')
    with 1(2,3) have more: "n div 128 > 0" and b: "b = n mod 128 + 128" and p': "mqtt_length (n div 128) = p' @ q"
      by (auto simp: mqtt_length.simps [of n] split: if_splits)
    have "mqtt_read_length ((pre @ [b]) @ p') (length (pre @ [b])) len' mul' = None" for len' mul'
      by (rule 1(1) [OF more p' 1(3)])
    moreover have "(n mod 128 + 128) div 128 mod 2 = 1" by simp
    ultimately show ?thesis
      using Cons b by (subst mqtt_read_length.simps) (simp add: nth_append)
  qed
qed

lemma mqtt_decode_whole:
  assumes "mqtt_valid m"
  shows "mqtt_decode (mqtt_encode m @ xs) = Some (m, length (mqtt_encode m))"
proof -
  let ?n = "length (mbody m)" and ?h = "16 * mtype m + mflags m"
  have "mqtt_read_length ([?h] @ mqtt_length ?n @ (mbody m @ xs)) (length [?h]) 0 1 =
      Some (0 + ?n * 1, length [?h] + length (mqtt_length ?n))"
    using assms by (intro mqtt_read_length_whole) (simp_all add: mqtt_valid_def)
  moreover have "?h div 16 = mtype m" "?h mod 16 = mflags m"
    using assms by (simp_all add: mqtt_valid_def)
  moreover have "js_slice (?h # mqtt_length ?n @ mbody m @ xs) (Suc (length (mqtt_length ?n)))
      (Suc (length (mqtt_length ?n) + ?n)) = mbody m"
    by (simp add: js_slice_def)
  ultimately show ?thesis
    by (cases m) (simp add: mqtt_decode_def mqtt_packet_def)
qed

lemma mqtt_decode_part:
  assumes "mqtt_valid m" and "mqtt_encode m = p @ q" and "q \<noteq> []"
  shows "mqtt_decode p = None"
proof (cases p)
  case Nil
  then show ?thesis by (simp add: mqtt_decode_def mqtt_read_length.simps)
next
  case (Cons h p')
  let ?n = "length (mbody m)"
  have pq: "p' @ q = mqtt_length ?n @ mbody m" and len: "length p < length (mqtt_encode m)"
    using assms(2,3) Cons by (simp_all add: mqtt_packet_def)
  show ?thesis
  proof (cases "length p' < length (mqtt_length ?n)")
    case True
    obtain r where "mqtt_length ?n = p' @ r" "r \<noteq> []" by (rule cut_before [OF pq True])
    from mqtt_read_length_part [OF this, of "[h]" 0 1] show ?thesis
      using Cons by (simp add: mqtt_decode_def)
  next
    case False
    obtain b where "p' = mqtt_length ?n @ b" by (rule cut_after [OF pq False])
    moreover from this have "mqtt_read_length ([h] @ mqtt_length ?n @ b) (length [h]) 0 1 =
        Some (0 + ?n * 1, length [h] + length (mqtt_length ?n))"
      using assms(1) by (intro mqtt_read_length_whole) (simp_all add: mqtt_valid_def)
    ultimately show ?thesis using Cons len by (simp add: mqtt_decode_def mqtt_packet_def)
  qed
qed

interpretation mqtt: codec mqtt_encode mqtt_decode mqtt_valid
  using mqtt_decode_whole mqtt_decode_part by unfold_locales (auto simp: mqtt_packet_def)

text \<open>
  What a packet says is what is read, whatever follows it, and nothing is read from less than a packet.
\<close>

theorem mqtt_packet_roundtrip:
  assumes "mqtt_valid m"
  shows "mqtt_decode (mqtt_encode m @ xs) = Some (m, length (mqtt_encode m)) \<and>
    (\<forall>k < length (mqtt_encode m). mqtt_decode (take k (mqtt_encode m)) = None)"
proof (intro conjI allI impI)
  show "mqtt_decode (mqtt_encode m @ xs) = Some (m, length (mqtt_encode m))"
    by (rule mqtt.decode_whole [OF assms])
  fix k assume "k < length (mqtt_encode m)"
  then show "mqtt_decode (take k (mqtt_encode m)) = None"
    by (intro mqtt.decode_part [OF assms, of _ "drop k (mqtt_encode m)"]) simp_all
qed

text \<open>
  However TCP cuts up what a client sends, the broker does what it does for the packets one by one.
\<close>

lemma mqtt_goes_on: "goes_on (mqtt_handle c) {m. mtype m \<noteq> 14}"
  by (auto simp: goes_on_def mqtt_handle_def Let_def split_beta)

theorem mqtt_chunks_do_not_matter:
  assumes "list_all mqtt_valid ms" and "list_all (\<lambda>m. mtype m \<noteq> 14) ms"
    and "concat chunks = concat (map mqtt_encode ms)"
  shows "feed (mqtt_data c) (b, []) chunks =
    (let (outs, b) = handle_all (mqtt_handle c) b ms in (outs, b, []))"
  unfolding mqtt_data_def
proof (rule mqtt.feed_messages)
  show "goes_on (mqtt_handle c) (set ms)"
    using mqtt_goes_on [of c] assms(2) by (auto simp: goes_on_def list_all_iff)
qed (use assms in simp_all)

end
