(* ===== verification/Lan_Broker_Proofs.thy ===== *)
theory Lan_Broker_Proofs
  imports Lan_Mqtt_Proofs
begin

text \<open>The broker behind MQTT and MQTT-SN: topics, who is sent what, and the topic ids.\<close>

section \<open>Topics\<close>

text \<open>The standard's rule: level by level, + for any one, # in the end for all that follow.\<close>

definition level_matches :: "text \<Rightarrow> text \<Rightarrow> bool" where
  "level_matches f t \<longleftrightarrow> f = lit ''+'' \<or> f = t"

definition filter_matches :: "text list \<Rightarrow> text list \<Rightarrow> bool" where
  "filter_matches fs ts \<longleftrightarrow> list_all2 level_matches fs ts \<or>
    (fs \<noteq> [] \<and> last fs = lit ''#'' \<and> length fs - 1 \<le> length ts \<and>
     list_all2 level_matches (butlast fs) (take (length fs - 1) ts))"

lemma match_levels_eq: "lit ''#'' \<notin> set (butlast fs) \<Longrightarrow> match_levels fs ts = filter_matches fs ts"
proof (induction fs ts rule: match_levels.induct)
  case (1 ts)
  then show ?case by (auto simp: filter_matches_def)
next
  case (2 f fs ts)
  show ?case
  proof (cases "f = lit ''#''")
    case True
    then have "fs = []" using 2(2) by (cases fs) auto
    with True show ?thesis by (simp add: filter_matches_def)
  next
    case False
    then have last: "last (f # fs) = lit ''#'' \<longleftrightarrow> fs \<noteq> [] \<and> last fs = lit ''#''" by auto
    show ?thesis
    proof (cases ts)
      case Nil
      have "length (f # fs) - 1 \<le> 0 \<Longrightarrow> last (f # fs) \<noteq> lit ''#''" using False by (cases fs) auto
      with False Nil show ?thesis by (auto simp: filter_matches_def)
    next
      case (Cons t ts')
      have "lit ''#'' \<notin> set (butlast fs)" using 2(2) by (cases fs) auto
      with False Cons 2(1) [OF False Cons] have ih: "match_levels (f # fs) ts \<longleftrightarrow> level_matches f t \<and> filter_matches fs ts'"
        by (simp add: level_matches_def)
      have "filter_matches (f # fs) ts \<longleftrightarrow> level_matches f t \<and> filter_matches fs ts'"
        using last Cons by (cases fs) (auto simp: filter_matches_def)
      with ih show ?thesis by simp
    qed
  qed
qed



section \<open>Publishing\<close>

text \<open>What a subscriber is sent.\<close>

definition sent_to :: "broker \<Rightarrow> text \<Rightarrow> nat list \<Rightarrow> text \<times> subscriber \<Rightarrow> net_out \<Rightarrow> bool" where
  "sent_to b topic payload = (\<lambda>(_, s) out. case s of
      On_tcp c \<Rightarrow> out = Tcp c (Write (mqtt_packet 3 0 (mqtt_string topic @ payload)))
    | On_udp _ ip port \<Rightarrow> \<exists>i. map_of (topic_ids b) topic = Some i \<and>
        out = Udp ip port (sn_message 0x0c ([0] @ be16 i @ [0, 0] @ payload)))"

lemma id_for_known: "id_for name b = (i, b') \<Longrightarrow> map_of (topic_ids b') name = Some i \<and> subs b' = subs b \<and>
    (map_of (topic_ids b) n = Some j \<longrightarrow> map_of (topic_ids b') n = Some j)"
  by (auto simp: id_for_def Let_def map_add_def split: option.splits)

lemma publish_to_sends:
  "publish_to ss topic payload b = (outs, b') \<Longrightarrow>
    list_all2 (sent_to b' topic payload) (filter (\<lambda>(fl, _). topic_matches fl topic) ss) outs \<and>
    subs b' = subs b \<and> (\<forall>n j. map_of (topic_ids b) n = Some j \<longrightarrow> map_of (topic_ids b') n = Some j)"
proof (induction ss arbitrary: b b' outs)
  case (Cons fs ss)
  obtain fl s where fs: "fs = (fl, s)" by fastforce
  show ?case
  proof (cases "topic_matches fl topic")
    case True
    obtain out b1 where d: "deliver s topic payload b = (out, b1)" by fastforce
    obtain outs' b2 where p: "publish_to ss topic payload b1 = (outs', b2)" by fastforce
    have k: "subs b1 = subs b \<and> (\<forall>n j. map_of (topic_ids b) n = Some j \<longrightarrow> map_of (topic_ids b1) n = Some j)"
      using d by (cases s) (auto split: prod.splits dest: id_for_known)
    note ih = Cons.IH [OF p]
    have "sent_to b2 topic payload (fl, s) out"
      using d ih by (cases s) (auto simp: sent_to_def split: prod.splits dest: id_for_known)
    with k ih Cons.prems fs True d p show ?thesis by auto
  next
    case False
    with Cons fs show ?thesis by auto
  qed
qed simp

lemma mqtt_body:
  assumes "list_all is_scalar topic" and "topic \<noteq> [] \<Longrightarrow> hd topic \<noteq> 0xfeff"
    and "length (utf8_encode topic) < 65536"
  shows "rdb16 (mqtt_string topic @ xs) 0 = length (utf8_encode topic)"
    and "utf8_decode (js_slice (mqtt_string topic @ xs) 2 (2 + length (utf8_encode topic))) = topic"
    and "drop (2 + length (utf8_encode topic)) (mqtt_string topic @ xs) = xs"
  using assms by (simp_all add: mqtt_string_def rdb16_mod js_slice_def utf8_decode_encode)


definition topic_ab :: "text" where "topic_ab = lit ''a/b''"

definition one_subscriber :: broker where
  "one_subscriber = subscribe (lit ''a/+'') (On_tcp 9) (subscribe (lit ''x'') (On_tcp 8) new_broker)"


section \<open>Subscriptions\<close>

text \<open>A SUBSCRIBE for one filter, and an UNSUBSCRIBE.\<close>

definition subscribe_msg :: "text \<Rightarrow> mqtt_msg" where
  "subscribe_msg fl = \<lparr> mtype = 8, mflags = 2, mbody = [0, 1] @ mqtt_string fl @ [0] \<rparr>"

lemma mqtt_filters_one:
  assumes "list_all is_scalar fl" and "fl \<noteq> [] \<Longrightarrow> hd fl \<noteq> 0xfeff" and "length (utf8_encode fl) < 65536"
  shows "mqtt_filters ([0, 1] @ mqtt_string fl @ [0]) 2 = [fl]"
proof -
  let ?n = "length (utf8_encode fl)"
  have "rdb16 ([0, 1] @ mqtt_string fl @ [0]) 2 = ?n"
    using rdb16_skip [of "[0, 1]" 2 "mqtt_string fl @ [0]"] mqtt_body(1) [OF assms] by simp
  moreover have "js_slice ([0, 1] @ mqtt_string fl @ [0]) 4 (4 + ?n) =
      js_slice (mqtt_string fl @ [0]) 2 (2 + ?n)"
    by (simp add: js_slice_def numeral_eq_Suc)
  moreover have "length ([0, 1] @ mqtt_string fl @ [0]) = ?n + 5" by (simp add: mqtt_string_def)
  ultimately show ?thesis
    using mqtt_body(2) [OF assms, of "[0]"]
    by (simp add: mqtt_filters.simps [of _ 2] mqtt_filters.simps [of _ "5 + ?n"])
qed

text \<open>
  The standard has a SUBSCRIBE for a filter the client already has replace the subscription. Here a
  second one is added, and every message that matches comes twice.
\<close>

theorem mqtt_subscribe_twice_delivers_twice:
  assumes "list_all is_scalar fl" and "fl \<noteq> [] \<Longrightarrow> hd fl \<noteq> 0xfeff" and "length (utf8_encode fl) < 65536"
    and "topic_matches fl topic"
  shows "fst (publish topic payload (snd (handle_all (mqtt_handle c) new_broker [subscribe_msg fl, subscribe_msg fl]))) =
    replicate 2 (Tcp c (Write (mqtt_packet 3 0 (mqtt_string topic @ payload))))"
proof -
  have "fst (snd (mqtt_handle c b (subscribe_msg fl))) = subscribe fl (On_tcp c) b" for b
    using mqtt_filters_one [OF assms(1-3)] by (simp add: mqtt_handle_def subscribe_msg_def Let_def)
  then have "snd (handle_all (mqtt_handle c) new_broker [subscribe_msg fl, subscribe_msg fl]) =
      subscribe fl (On_tcp c) (subscribe fl (On_tcp c) new_broker)"
    by (simp add: split_beta Let_def)
  then show ?thesis
    using assms(4) by (simp add: publish_def subscribe_def new_broker_def numeral_2_eq_2)
qed

text \<open>And an UNSUBSCRIBE, whatever filter it names, ends every subscription of the client.\<close>

theorem mqtt_unsubscribe_ends_all:
  assumes "mtype m = 10"
  shows "subs (fst (snd (mqtt_handle c b m))) = filter (\<lambda>(_, s). s \<noteq> On_tcp c) (subs b)"
  using assms by (simp add: mqtt_handle_def unsubscribe_def Let_def)

theorem mqtt_unsubscribe_ends_all_witness:
  "subs (fst (snd (mqtt_handle 9 one_subscriber \<lparr> mtype = 10, mflags = 2, mbody = [0, 1, 0, 1, 122] \<rparr>))) =
    [(lit ''x'', On_tcp 8)]"
  by (subst mqtt_unsubscribe_ends_all) (simp_all add: one_subscriber_def subscribe_def new_broker_def)

theorem mqtt_subscribe_twice_delivers_twice_witness:
  "fst (publish topic_ab [] (snd (handle_all (mqtt_handle 1) new_broker
    [subscribe_msg topic_ab, subscribe_msg topic_ab]))) =
    replicate 2 (Tcp 1 (Write (mqtt_packet 3 0 (mqtt_string topic_ab @ []))))"
  by (rule mqtt_subscribe_twice_delivers_twice)
    (simp_all add: topic_ab_def lit_def is_scalar_def utf8_char_def topic_matches_def)

text \<open>
  A remaining length of more than four bytes is never read: the connection stays open, and nothing
  the client sends after it is ever handled.
\<close>

theorem mqtt_bad_length_blocks:
  assumes "list_all (\<lambda>x. 128 \<le> x \<and> x < 256) [l1, l2, l3, l4]"
  shows "feed (mqtt_data c) (b, [h, l1, l2, l3, l4] @ buf) chunks = ([], b, [h, l1, l2, l3, l4] @ buf @ concat chunks)"
proof (induction chunks arbitrary: buf)
  case (Cons d ds)
  have "x div 128 mod 2 = 1" if "128 \<le> x" "x < 256" for x :: nat
  proof -
    have "x div 128 = 1" using that by (intro div_nat_eqI) simp_all
    then show ?thesis by simp
  qed
  then have "mqtt_decode ([h, l1, l2, l3, l4] @ buf @ d) = None"
    using assms
    by (simp add: mqtt_decode_def mqtt_read_length.simps [of "h # l1 # l2 # l3 # l4 # buf @ d"])
  then have "mqtt_data c (b, [h, l1, l2, l3, l4] @ buf) d = ([], b, [h, l1, l2, l3, l4] @ buf @ d)"
    by (simp add: mqtt_data_def stream_data_def drain.simps)
  with Cons [of "buf @ d"] show ?case by simp
qed simp

theorem mqtt_bad_length_blocks_witness:
  "feed (mqtt_data 1) (new_broker, [16, 255, 255, 255, 255] @ []) [[1], [12, 0]] =
    ([], new_broker, [16, 255, 255, 255, 255] @ [] @ concat [[1], [12, 0]])"
  by (rule mqtt_bad_length_blocks) simp

section \<open>MQTT-SN\<close>

text \<open>A message says its type and its body where the gateway, and a client, look for them.\<close>

theorem sn_message_roundtrip:
  "let m = sn_message t body; i = (if byte_at m 0 = 1 then 3 else 1)
   in byte_at m i = t \<and> drop (i + 1) m = body"
proof (cases "length body + 2 < 256")
  case True
  then have "sn_message t body = (length body + 2) # t # body" by (simp add: sn_message_def)
  then show ?thesis by (simp add: Let_def)
next
  case False
  then have "\<exists>x y. sn_message t body = 1 # x # y # t # body" by (simp add: sn_message_def be16_def)
  then show ?thesis by (auto simp: Let_def)
qed

text \<open>
  The topic ids: each name has one id and each id one name, and they are counted from 1.
\<close>

definition ids_ok :: "broker \<Rightarrow> bool" where
  "ids_ok b \<longleftrightarrow> (\<exists>ns. distinct ns \<and> topic_ids b = map (\<lambda>k. (ns ! k, k + 1)) [0..<length ns] \<and>
     topic_names b = map (\<lambda>k. (k + 1, ns ! k)) [0..<length ns])"

lemma alist_update_new: "x \<notin> fst ` set xs \<Longrightarrow> AList.update x y xs = xs @ [(x, y)]"
  by (induction xs) auto

lemma ids_ok_new: "ids_ok new_broker"
  by (simp add: ids_ok_def new_broker_def)

lemma map_of_ids:
  assumes "distinct ns" and "k < length ns"
  shows "map_of (map (\<lambda>k. (ns ! k, k + 1)) [0..<length ns]) (ns ! k) = Some (k + 1)"
    and "map_of (map (\<lambda>k. (k + 1, ns ! k)) [0..<length ns]) (k + 1) = Some (ns ! k)"
proof -
  have "map fst (map (\<lambda>k. (ns ! k, k + 1)) [0..<length ns]) = ns"
    by (simp add: comp_def map_nth)
  then have "distinct (map fst (map (\<lambda>k. (ns ! k, k + 1)) [0..<length ns]))" using assms(1) by metis
  then show "map_of (map (\<lambda>k. (ns ! k, k + 1)) [0..<length ns]) (ns ! k) = Some (k + 1)"
    using assms(2) by (intro map_of_is_SomeI) auto
  have "distinct (map fst (map (\<lambda>k. (k + 1, ns ! k)) [0..<length ns]))"
    by (simp add: comp_def distinct_map)
  then show "map_of (map (\<lambda>k. (k + 1, ns ! k)) [0..<length ns]) (k + 1) = Some (ns ! k)"
    using assms(2) by (intro map_of_is_SomeI) auto
qed

lemma ids_ok_id_for:
  assumes "ids_ok b" and "id_for name b = (i, b')"
  shows "ids_ok b' \<and> map_of (topic_names b') i = Some name \<and> 1 \<le> i \<and> i \<le> length (topic_ids b')"
proof -
  obtain ns where ns: "distinct ns" "topic_ids b = map (\<lambda>k. (ns ! k, k + 1)) [0..<length ns]"
    "topic_names b = map (\<lambda>k. (k + 1, ns ! k)) [0..<length ns]" using assms(1) by (auto simp: ids_ok_def)
  show ?thesis
  proof (cases "name \<in> set ns")
    case True
    then obtain k where k: "k < length ns" "ns ! k = name" by (auto simp: in_set_conv_nth)
    then have "i = k + 1" "b' = b" using map_of_ids(1) [OF ns(1) k(1)] assms(2) ns by (simp_all add: id_for_def)
    then show ?thesis using assms(1) map_of_ids(2) [OF ns(1) k(1)] k ns by simp
  next
    case False
    let ?ns = "ns @ [name]"
    have "map_of (topic_ids b) name = None"
      using False ns by (auto simp: map_of_eq_None_iff)
    moreover have "Suc (length ns) \<notin> fst ` set (topic_names b)" using ns by auto
    ultimately have b': "i = length ns + 1" "topic_ids b' = map (\<lambda>k. (?ns ! k, k + 1)) [0..<length ?ns]"
      "topic_names b' = map (\<lambda>k. (k + 1, ?ns ! k)) [0..<length ?ns]"
      using assms(2) ns by (auto simp: id_for_def Let_def alist_update_new nth_append)
    moreover have "distinct ?ns" using ns(1) False by simp
    ultimately show ?thesis
      using map_of_ids(2) [of ?ns "length ns"] unfolding ids_ok_def
      by (auto simp del: upt_Suc intro!: exI [of _ ?ns])
  qed
qed

lemma ids_ok_cong: "topic_ids b' = topic_ids b \<Longrightarrow> topic_names b' = topic_names b \<Longrightarrow> ids_ok b' = ids_ok b"
  by (simp add: ids_ok_def)

lemma ids_ok_subs [simp]:
  "ids_ok (subscribe fl s b) = ids_ok b" "ids_ok (unsubscribe s b) = ids_ok b"
  "ids_ok (sn_connect ip port b) = ids_ok b" "ids_ok (b\<lparr>sn_clients := cs\<rparr>) = ids_ok b"
  by (simp_all add: subscribe_def unsubscribe_def sn_connect_def ids_ok_def)

lemma ids_ok_fold_subscribe [simp]: "ids_ok (fold (\<lambda>fl. subscribe fl s) fls b) = ids_ok b"
  by (induction fls arbitrary: b) simp_all

lemma ids_ok_publish_to: "ids_ok b \<Longrightarrow> publish_to ss topic payload b = (outs, b') \<Longrightarrow> ids_ok b'"
proof (induction ss arbitrary: b b' outs)
  case (Cons fs ss)
  obtain fl s where fs: "fs = (fl, s)" by fastforce
  have "ids_ok b1" if "deliver s topic payload b = (out, b1)" for out b1
    using that Cons.prems(1) by (cases s) (auto split: prod.splits dest: ids_ok_id_for)
  with Cons fs show ?case by (auto split: if_splits prod.splits)
qed simp

lemma ids_ok_publish: "ids_ok b \<Longrightarrow> publish topic payload b = (outs, b') \<Longrightarrow> ids_ok b'"
  unfolding publish_def by (rule ids_ok_publish_to)

text \<open>Everything that can happen to the broker: packets and ends of connections, and datagrams.\<close>

inductive broker_reachable :: "broker \<Rightarrow> bool" where
  start: "broker_reachable new_broker"
| packet: "broker_reachable b \<Longrightarrow> broker_reachable (fst (snd (mqtt_handle c b m)))"
| gone: "broker_reachable b \<Longrightarrow> broker_reachable (mqtt_end c b)"
| datagram: "broker_reachable b \<Longrightarrow> broker_reachable (snd (mqtt_sn msg ip port b))"

lemma ids_ok_snd [simp]:
  "ids_ok b \<Longrightarrow> ids_ok (snd (id_for name b))" "ids_ok b \<Longrightarrow> ids_ok (snd (publish topic payload b))"
  using ids_ok_id_for [of b name] ids_ok_publish [of b topic payload] by (metis prod.collapse)+

lemma ids_ok_mqtt_handle: "ids_ok b \<Longrightarrow> ids_ok (fst (snd (mqtt_handle c b m)))"
  by (simp add: mqtt_handle_def mqtt_publish_def Let_def split_beta)

lemma ids_ok_mqtt_sn: "ids_ok b \<Longrightarrow> ids_ok (snd (mqtt_sn msg ip port b))"
  by (simp add: mqtt_sn_def Let_def split_beta split: option.split)

text \<open>
  C25. Whatever clients do, the broker's two maps of MQTT-SN topics are each other's inverse: the topics it
  has seen are numbered 1, 2, 3 and so on, in order, no topic twice.
\<close>

theorem topic_ids_consistent:
  assumes "broker_reachable b"
  shows "\<exists>ns. distinct ns \<and> topic_ids b = map (\<lambda>k. (ns ! k, k + 1)) [0..<length ns] \<and>
    topic_names b = map (\<lambda>k. (k + 1, ns ! k)) [0..<length ns]"
proof -
  have "ids_ok b"
    using assms by induction (auto simp: ids_ok_new ids_ok_mqtt_handle ids_ok_mqtt_sn mqtt_end_def)
  then show ?thesis by (simp add: ids_ok_def)
qed

definition registered :: broker where
  "registered = snd (mqtt_sn (sn_message 0x0a ([0, 0, 7, 8] @ utf8_encode topic_ab)) [192, 0, 2, 1] 5000
    (snd (mqtt_sn (sn_message 4 [0, 1, 0, 60, 97]) [192, 0, 2, 1] 5000 new_broker)))"

theorem topic_ids_consistent_witness:
  "\<exists>ns. ns \<noteq> [] \<and> distinct ns \<and> topic_ids registered = map (\<lambda>k. (ns ! k, k + 1)) [0..<length ns] \<and>
    topic_names registered = map (\<lambda>k. (k + 1, ns ! k)) [0..<length ns]"
proof -
  have "broker_reachable registered" unfolding registered_def by (intro broker_reachable.intros)
  moreover have "topic_ids registered \<noteq> []"
    by (simp add: registered_def mqtt_sn_def sn_message_def sn_connect_def new_broker_def id_for_def
        topic_ab_def lit_def Let_def be16_def byte_at_def)
  ultimately show ?thesis using topic_ids_consistent [of registered] by fastforce
qed

text \<open>
  The id a client is given for a topic it registers is the one its publishes reach the topic by.
\<close>

theorem sn_registered_topic_is_published_to:
  assumes "broker_reachable b" and "map_of (sn_clients b) (ip, port) = Some client"
    and "list_all is_scalar topic" and "topic \<noteq> [] \<Longrightarrow> hd topic \<noteq> 0xfeff"
    and "length (topic_ids b) < 65535"
  shows "\<exists>i b1. mqtt_sn (sn_message 0x0a ([0, 0, m1, m2] @ utf8_encode topic)) ip port b =
      ([Udp ip port (sn_message 0x0b (be16 i @ [m1, m2, 0]))], b1) \<and>
    mqtt_sn (sn_message 0x0c ([0] @ be16 i @ [0, 0] @ payload)) ip port b1 = publish topic payload b1"
proof -
  have ok: "ids_ok b"
    using assms(1) by induction (auto simp: ids_ok_new ids_ok_mqtt_handle ids_ok_mqtt_sn mqtt_end_def)
  obtain i b1 where f: "id_for topic b = (i, b1)" by fastforce
  note k = ids_ok_id_for [OF ok f]
  have c: "sn_clients b1 = sn_clients b" and l: "length (topic_ids b1) \<le> length (topic_ids b) + 1"
    using f by (auto simp: id_for_def Let_def split: option.splits)
  have "utf8_decode (utf8_encode topic) = topic" by (rule utf8_decode_encode) (use assms in auto)
  then have r: "mqtt_sn (sn_message 0x0a ([0, 0, m1, m2] @ utf8_encode topic)) ip port b =
      ([Udp ip port (sn_message 0x0b (be16 i @ [m1, m2, 0]))], b1)"
    using sn_message_roundtrip [of "0x0a" "[0, 0, m1, m2] @ utf8_encode topic"] assms(2) f
    by (simp add: mqtt_sn_def Let_def)
  have "rdb16 ([0] @ be16 i @ [0, 0] @ payload) 1 = i"
    using rdb16_skip [of "[0]" 1 "be16 i @ [0, 0] @ payload"] k l assms(5) by (simp add: rdb16_mod)
  moreover have "drop 5 ([0] @ be16 i @ [0, 0] @ payload) = payload" by (simp add: be16_def)
  ultimately have "mqtt_sn (sn_message 0x0c ([0] @ be16 i @ [0, 0] @ payload)) ip port b1 = publish topic payload b1"
    using sn_message_roundtrip [of "0x0c" "[0] @ be16 i @ [0, 0] @ payload"] assms(2) c k
    by (simp add: mqtt_sn_def Let_def sn_topic_def split: prod.splits)
  with r show ?thesis by blast
qed

theorem sn_registered_topic_is_published_to_witness:
  "\<exists>i b1. mqtt_sn (sn_message 0x0a ([0, 0, 7, 8] @ utf8_encode topic_ab)) [192, 0, 2, 1] 5000
      (snd (mqtt_sn (sn_message 4 [0, 1, 0, 60, 97]) [192, 0, 2, 1] 5000 new_broker)) =
      ([Udp [192, 0, 2, 1] 5000 (sn_message 0x0b (be16 i @ [7, 8, 0]))], b1) \<and>
    mqtt_sn (sn_message 0x0c ([0] @ be16 i @ [0, 0] @ [1, 2, 3])) [192, 0, 2, 1] 5000 b1 =
      publish topic_ab [1, 2, 3] b1"
proof -
  let ?b = "snd (mqtt_sn (sn_message 4 [0, 1, 0, 60, 97]) [192, 0, 2, 1] 5000 new_broker)"
  have "?b = sn_connect [192, 0, 2, 1] 5000 new_broker" by (simp add: mqtt_sn_def sn_message_def Let_def)
  then have "map_of (sn_clients ?b) ([192, 0, 2, 1], 5000) = Some (On_udp 0 [192, 0, 2, 1] 5000)"
    and "length (topic_ids ?b) < 65535"
    by (simp_all add: sn_connect_def new_broker_def)
  moreover have "broker_reachable ?b" by (intro broker_reachable.intros)
  moreover have "list_all is_scalar topic_ab" "topic_ab \<noteq> [] \<Longrightarrow> hd topic_ab \<noteq> 0xfeff"
    by (simp_all add: topic_ab_def lit_def is_scalar_def)
  ultimately show ?thesis by (intro sn_registered_topic_is_published_to) auto
qed

text \<open>
  A client that connects again gets a new subscriber, and the old one stays subscribed with nothing
  left to end it: after the client has disconnected its messages are still sent.
\<close>

definition sn_run :: "nat list \<Rightarrow> nat \<Rightarrow> nat list list \<Rightarrow> broker \<Rightarrow> broker" where
  "sn_run ip port = fold (\<lambda>m b. snd (mqtt_sn m ip port b))"

lemma topic_matches_refl: "topic_matches t t"
proof -
  have "match_levels ts ts" for ts by (induction ts) auto
  then show ?thesis by (simp add: topic_matches_def)
qed

theorem sn_reconnect_leaves_subscription:
  assumes "list_all is_scalar topic" and "topic \<noteq> [] \<Longrightarrow> hd topic \<noteq> 0xfeff"
  shows "fst (publish topic payload (sn_run ip port
      [sn_message 4 who, sn_message 0x12 ([0, 0, 1] @ utf8_encode topic), sn_message 4 who, sn_message 0x18 []]
      new_broker)) = [Udp ip port (sn_message 0x0c ([0] @ be16 1 @ [0, 0] @ payload))]"
proof -
  have conn: "snd (mqtt_sn (sn_message 4 who) ip port b) = sn_connect ip port b" for b
    using sn_message_roundtrip [of 4 who] by (simp add: mqtt_sn_def Let_def)
  have dec: "utf8_decode (utf8_encode topic) = topic" by (rule utf8_decode_encode) (use assms in auto)
  have sub: "snd (mqtt_sn (sn_message 0x12 ([0, 0, 1] @ utf8_encode topic)) ip port b) =
      subscribe topic s (snd (id_for topic b))" if "map_of (sn_clients b) (ip, port) = Some s" for b s
    using sn_message_roundtrip [of "0x12" "[0, 0, 1] @ utf8_encode topic"] that dec
    by (simp add: mqtt_sn_def Let_def split_beta)
  have disc: "snd (mqtt_sn (sn_message 0x18 []) ip port b) =
      (unsubscribe s b)\<lparr>sn_clients := AList.delete (ip, port) (sn_clients b)\<rparr>"
    if "map_of (sn_clients b) (ip, port) = Some s" for b s
    using sn_message_roundtrip [of "0x18" "[]"] that by (simp add: mqtt_sn_def Let_def)
  let ?b1 = "sn_connect ip port new_broker"
  let ?b2 = "subscribe topic (On_udp 0 ip port) (snd (id_for topic ?b1))"
  let ?b3 = "sn_connect ip port ?b2"
  have m1: "map_of (sn_clients ?b1) (ip, port) = Some (On_udp 0 ip port)"
    and m3: "map_of (sn_clients ?b3) (ip, port) = Some (On_udp 1 ip port)"
    by (simp_all add: sn_connect_def new_broker_def subscribe_def id_for_def update_conv')
  have "sn_run ip port [sn_message 4 who, sn_message 0x12 ([0, 0, 1] @ utf8_encode topic), sn_message 4 who,
      sn_message 0x18 []] new_broker =
    (unsubscribe (On_udp 1 ip port) ?b3)\<lparr>sn_clients := AList.delete (ip, port) (sn_clients ?b3)\<rparr>"
    by (simp only: sn_run_def fold_simps conn sub [OF m1] disc [OF m3])
  then show ?thesis
    by (simp add: publish_def sn_connect_def subscribe_def unsubscribe_def new_broker_def id_for_def
        topic_matches_refl)
qed

theorem sn_reconnect_leaves_subscription_witness:
  "fst (publish topic_ab [1] (sn_run [192, 0, 2, 1] 5000
      [sn_message 4 [0, 1, 0, 60, 97], sn_message 0x12 ([0, 0, 1] @ utf8_encode topic_ab),
       sn_message 4 [0, 1, 0, 60, 97], sn_message 0x18 []] new_broker)) =
    [Udp [192, 0, 2, 1] 5000 (sn_message 0x0c ([0] @ be16 1 @ [0, 0] @ [1]))]"
  by (rule sn_reconnect_leaves_subscription) (simp_all add: topic_ab_def lit_def is_scalar_def)

end
