(* ===== verification/Lan_Coap.thy ===== *)
theory Lan_Coap
  imports Lan_Stream
begin

text \<open>
  CoAP over TCP (RFC 8323; host/lan_services.mjs): messages to bytes and back, and the server. A
  token has at most 15 bytes, and what is only logged is left out.
\<close>

section \<open>Messages\<close>

text \<open>An option's number is \<open>None\<close> where it is NaN: a byte that is not there, plus 13.\<close>

record coap_msg =
  coap_code :: nat
  coap_token :: "nat list"
  coap_options :: "(nat option \<times> nat list) list"
  coap_payload :: "nat list"

definition coap_nibble :: "nat \<Rightarrow> nat \<times> nat list" where
  "coap_nibble n =
    (if n < 13 then (n, []) else if n < 269 then (13, [n - 13]) else (14, be16 (n - 269)))"

text \<open>The options in order of their numbers, which here are numbers, each after the \<open>prev\<close> before.\<close>

definition option_number :: "nat option \<times> nat list \<Rightarrow> nat" where
  "option_number x = (case fst x of Some n \<Rightarrow> n | None \<Rightarrow> 0)"

fun coap_put_options :: "nat \<Rightarrow> (nat option \<times> nat list) list \<Rightarrow> nat list" where
  "coap_put_options prev [] = []"
| "coap_put_options prev (x # xs) =
    (let (d, dx) = coap_nibble (option_number x - prev); (l, lx) = coap_nibble (length (snd x))
     in (16 * d + l) # dx @ lx @ snd x @ coap_put_options (option_number x) xs)"

definition coap_length :: "nat \<Rightarrow> nat \<times> nat list" where
  "coap_length n = (if n < 13 then (n, []) else if n < 269 then (13, [n - 13])
     else if n < 65805 then (14, be16 (n - 269)) else (15, be32 (n - 65805)))"

definition coap_body :: "coap_msg \<Rightarrow> nat list" where
  "coap_body m = coap_put_options 0 (sort_key option_number (coap_options m)) @
     (if coap_payload m \<noteq> [] then 0xff # coap_payload m else [])"

definition coap_encode :: "coap_msg \<Rightarrow> nat list" where
  "coap_encode m =
    (let (len, ext) = coap_length (length (coap_body m))
     in (16 * len + length (coap_token m)) # ext @ [coap_code m] @ coap_token m @ coap_body m)"

text \<open>A nibble that is 13 or 14 is followed by the rest of the number; the index after it.\<close>

definition coap_extended :: "nat list \<Rightarrow> nat \<Rightarrow> nat \<Rightarrow> nat option \<times> nat" where
  "coap_extended buf i n =
    (if n = 13 then (if i < length buf then Some (buf ! i + 13) else None, i + 1)
     else if n = 14 then (Some (rdb16 buf i + 269), i + 2)
     else (Some n, i))"

lemma coap_extended_le: "coap_extended buf i n = (d, j) \<Longrightarrow> i \<le> j"
  by (auto simp: coap_extended_def split: if_splits)

function coap_get_options ::
  "nat list \<Rightarrow> nat \<Rightarrow> nat \<Rightarrow> nat option \<Rightarrow> (nat option \<times> nat list) list \<times> nat list" where
  "coap_get_options buf stop i num =
    (if i \<ge> stop then ([], [])
     else if byte_at buf i = 0xff then ([], js_slice buf (i + 1) stop)
     else case coap_extended buf (i + 1) (byte_at buf i div 16) of
       (d, j) \<Rightarrow> (case coap_extended buf j (byte_at buf i mod 16) of
         (l, k) \<Rightarrow>
           let num = (case (num, d) of (Some a, Some b) \<Rightarrow> Some (a + b) | _ \<Rightarrow> None)
           in (case l of
               None \<Rightarrow> ([(num, [])], [])
             | Some l \<Rightarrow>
                 let (opts, payload) = coap_get_options buf stop (k + l) num
                 in ((num, js_slice buf k (k + l)) # opts, payload))))"
  by pat_completeness auto
termination
  by (relation "measure (\<lambda>(_, stop, i, _). stop - i)") (auto dest!: coap_extended_le [OF sym])

declare coap_get_options.simps [simp del]

text \<open>The length of what follows the token, given the first nibble and the bytes after it.\<close>

definition coap_read_length :: "nat list \<Rightarrow> nat \<Rightarrow> nat" where
  "coap_read_length buf len =
    (if len = 13 then buf ! 1 + 13
     else if len = 14 then rdb16 buf 1 + 269
     else if len = 15 then rdb32 buf 1 + 65805
     else len)"

definition coap_decode :: "nat list \<Rightarrow> (coap_msg \<times> nat) option" where
  "coap_decode buf =
    (if length buf < 1 then None
     else (let tkl = buf ! 0 mod 16; len = buf ! 0 div 16;
               extra = (if len = 13 then 1 else if len = 14 then 2 else if len = 15 then 4 else 0)
       in if length buf < 1 + extra then None
          else (let i = 1 + extra; stop = i + 1 + tkl + coap_read_length buf len
            in if length buf < stop then None
               else (let (opts, payload) = coap_get_options buf stop (i + 1 + tkl) (Some 0)
                 in Some (\<lparr> coap_code = buf ! i, coap_token = js_slice buf (i + 1) (i + 1 + tkl),
                           coap_options = opts, coap_payload = payload \<rparr>, stop)))))"

section \<open>The server\<close>

definition COAP_RESOURCES :: "(text \<times> text) list" where
  "COAP_RESOURCES = [(lit ''test'', lit ''Hello from CoAP TCP, served by the page's simulated network.'')]"

definition coap_path :: "coap_msg \<Rightarrow> text" where
  "coap_path m = join_text [47]
     (map (\<lambda>(_, v). utf8_decode v) (filter (\<lambda>(n, _). n = Some 11) (coap_options m)))"

definition coap_reply :: "nat \<Rightarrow> nat list \<Rightarrow> (nat option \<times> nat list) list \<Rightarrow> nat list \<Rightarrow> conn_op" where
  "coap_reply code token opts payload = Write (coap_encode
     \<lparr> coap_code = code, coap_token = token, coap_options = opts, coap_payload = payload \<rparr>)"

text \<open>
  A path that is the name of something every object inherits is found in \<open>COAP_RESOURCES\<close>: what is
  sent is that as text, which for a function is up to the engine, \<open>native\<close>.
\<close>

definition coap_request :: "(text \<Rightarrow> text) \<Rightarrow> coap_msg \<Rightarrow> conn_op" where
  "coap_request native m =
    (if coap_code m \<noteq> 0x01 then coap_reply 0x85 (coap_token m) [] []
     else case js_get COAP_RESOURCES (coap_path m) of
         Absent \<Rightarrow> coap_reply 0x84 (coap_token m) [] []
       | Own found \<Rightarrow> coap_reply 0x45 (coap_token m) [(Some 12, [])] (utf8_encode found)
       | Inherited \<Rightarrow> coap_reply 0x45 (coap_token m) [(Some 12, [])] (utf8_encode (native (coap_path m))))"

definition coap_handle :: "(text \<Rightarrow> text) \<Rightarrow> (unit, coap_msg, conn_op) handler" where
  "coap_handle native u m =
    (if coap_code m = 0xe2 then ([coap_reply 0xe3 (coap_token m) [] []], u, True)
     else if coap_code m = 0xe4 \<or> coap_code m = 0xe5 then ([End], u, False)
     else if coap_code m div 32 = 0 \<and> coap_code m \<noteq> 0 then ([coap_request native m], u, True)
     else ([], u, True))"

definition coap_accept :: "conn_op list" where
  "coap_accept = [coap_reply 0xe1 [] [(Some 2, [0x04, 0x80])] []]"

definition coap_data :: "(text \<Rightarrow> text) \<Rightarrow> unit \<times> nat list \<Rightarrow> nat list \<Rightarrow> conn_op list \<times> unit \<times> nat list" where
  "coap_data native = stream_data coap_decode (coap_handle native)"

end
