(* ===== verification/Lan_Coap_Proofs.thy ===== *)
theory Lan_Coap_Proofs
  imports Lan_Coap Lan_Udp_Proofs
begin

text \<open>CoAP messages survive the wire and TCP's cuts, and what a client's request gets.\<close>

section \<open>The codec\<close>

fun coap_options_ok :: "nat \<Rightarrow> (nat option \<times> nat list) list \<Rightarrow> bool" where
  "coap_options_ok prev [] = True"
| "coap_options_ok prev (x # xs) = (case fst x of
      None \<Rightarrow> False
    | Some n \<Rightarrow> prev \<le> n \<and> n - prev < 65805 \<and> length (snd x) < 65805 \<and> coap_options_ok n xs)"

definition coap_valid :: "coap_msg \<Rightarrow> bool" where
  "coap_valid m \<longleftrightarrow> length (coap_token m) < 16 \<and> coap_options_ok 0 (coap_options m) \<and>
    length (coap_body m) < 65805 + 2 ^ 32"

lemma coap_options_ok_sorted:
  "coap_options_ok prev xs \<Longrightarrow> sorted (map option_number xs) \<and> (\<forall>x \<in> set xs. prev \<le> option_number x)"
proof (induction prev xs rule: coap_options_ok.induct)
  case (2 prev x xs)
  then obtain n where n: "fst x = Some n" "prev \<le> n" "coap_options_ok n xs"
    by (auto split: option.splits)
  with 2(1) have "sorted (map option_number xs) \<and> (\<forall>x \<in> set xs. n \<le> option_number x)" by auto
  moreover have "option_number x = n" using n by (simp add: option_number_def)
  ultimately show ?case using n by auto
qed simp

lemma nibble_extended:
  assumes "coap_nibble n = (d, dx)" and "n < 65805"
  shows "coap_extended (pre @ dx @ rest) (length pre) d = (Some n, length pre + length dx) \<and> d < 15"
proof -
  consider "n < 13" | "13 \<le> n" "n < 269" | "269 \<le> n" by linarith
  then show ?thesis
  proof cases
    case 3
    have "rdb16 (pre @ be16 (n - 269) @ rest) (length pre) = n - 269"
      using assms(2) by (simp add: rdb16_skip rdb16_mod)
    with 3 assms(1) show ?thesis by (auto simp: coap_nibble_def coap_extended_def)
  qed (use assms(1) in \<open>auto simp: coap_nibble_def coap_extended_def nth_append\<close>)
qed

lemma coap_get_put:
  assumes "coap_options_ok prev xs" and "tail = [] \<or> hd tail = 0xff"
  shows "coap_get_options (pre @ coap_put_options prev xs @ tail @ rest)
    (length pre + length (coap_put_options prev xs) + length tail) (length pre) (Some prev) = (xs, drop 1 tail)"
  using assms(1)
proof (induction xs arbitrary: prev pre)
  case Nil
  show ?case
  proof (cases tail)
    case (Cons y ys)
    then have "y = 0xff" using assms(2) by simp
    with Cons show ?thesis
      by (simp add: coap_get_options.simps byte_at_append js_slice_def)
  qed (simp add: coap_get_options.simps)
next
  case (Cons x xs)
  obtain n v where x: "x = (Some n, v)" using Cons.prems by (cases x) (auto split: option.splits)
  have ok: "prev \<le> n" "n - prev < 65805" "length v < 65805" "coap_options_ok n xs"
    using Cons.prems by (simp_all add: x)
  obtain d dx where d: "coap_nibble (n - prev) = (d, dx)" by fastforce
  obtain l lx where l: "coap_nibble (length v) = (l, lx)" by fastforce
  let ?h = "16 * d + l"
  let ?more = "coap_put_options n xs @ tail @ rest"
  let ?buf = "pre @ ?h # dx @ lx @ v @ ?more"
  let ?stop = "length pre + 1 + length dx + length lx + length v + length (coap_put_options n xs) + length tail"
  have put: "coap_put_options prev (x # xs) = ?h # dx @ lx @ v @ coap_put_options n xs"
    by (simp add: x option_number_def d l)
  have e1: "coap_extended ?buf (length pre + 1) d = (Some (n - prev), length pre + 1 + length dx)" "d < 15"
    using nibble_extended [OF d ok(2), of "pre @ [?h]" "lx @ v @ ?more"] by simp_all
  have e2: "coap_extended ?buf (length pre + 1 + length dx) l =
      (Some (length v), length pre + 1 + length dx + length lx)" "l < 15"
    using nibble_extended [OF l ok(3), of "pre @ [?h] @ dx" "v @ ?more"] by simp_all
  have h: "byte_at ?buf (length pre) = ?h" "?h div 16 = d" "?h mod 16 = l" "?h < 0xff"
    using e1(2) e2(2) by (simp_all add: byte_at_append)
  have v: "js_slice ?buf (length pre + 1 + length dx + length lx)
      (length pre + 1 + length dx + length lx + length v) = v"
    using slice_all [of "pre @ ?h # dx @ lx" v] by (simp add: js_slice_def)
  have "coap_get_options ?buf ?stop (length pre + 1 + length dx + length lx + length v) (Some n) =
      (xs, drop 1 tail)"
    using Cons.IH [OF ok(4), of "pre @ ?h # dx @ lx @ v"] by (simp add: ac_simps)
  moreover have "?h \<noteq> 0xff" using h(4) by simp
  moreover have "prev + (n - prev) = n" using ok(1) by simp
  ultimately have "coap_get_options ?buf ?stop (length pre) (Some prev) = (x # xs, drop 1 tail)"
    by (subst coap_get_options.simps) (simp only: h e1(1) e2(1) v prod.case option.case Let_def x, simp)
  then show ?case unfolding put by (simp add: ac_simps)
qed

text \<open>The length, and the first byte and extension that say it.\<close>

lemma coap_length_cases:
  assumes "coap_length n = (len, ext)" and "n < 65805 + 2 ^ 32"
  shows "len < 16" and "length ext = (if len = 13 then 1 else if len = 14 then 2 else if len = 15 then 4 else 0)"
    and "coap_read_length (h # ext @ rest) len = n"
proof -
  have r16: "rdb16 (h # be16 k @ rest) (Suc 0) = k" if "k < 65536" for k
    using rdb16_skip [of "[h]" 1 "be16 k @ rest"] that by (simp add: rdb16_mod)
  have r32: "rdb32 (h # be32 k @ rest) (Suc 0) = k" if "k < 2 ^ 32" for k
  proof -
    have "rdb32 (h # xs) (Suc 0) = rdb32 xs 0" for xs
      by (simp add: rdb32_def rdb16_def numeral_2_eq_2 numeral_3_eq_3)
    then show ?thesis using rdb32_be32 [OF that] by simp
  qed
  consider "n < 13" | "13 \<le> n" "n < 269" | "269 \<le> n" "n < 65805" | "65805 \<le> n" by linarith
  then have "len < 16 \<and> length ext = (if len = 13 then 1 else if len = 14 then 2 else if len = 15 then 4 else 0) \<and>
    coap_read_length (h # ext @ rest) len = n"
    using assms by cases (auto simp: coap_length_def coap_read_length_def r16 r32)
  then show "len < 16" "length ext = (if len = 13 then 1 else if len = 14 then 2 else if len = 15 then 4 else 0)"
    "coap_read_length (h # ext @ rest) len = n" by auto
qed

lemma coap_decode_whole:
  assumes "coap_valid m"
  shows "coap_decode (coap_encode m @ xs) = Some (m, length (coap_encode m))"
proof -
  obtain len ext where l: "coap_length (length (coap_body m)) = (len, ext)" by fastforce
  let ?t = "coap_token m" and ?b = "coap_body m"
  let ?h = "16 * len + length ?t"
  let ?pre = "?h # ext @ coap_code m # ?t"
  have t: "length ?t < 16" and n: "length ?b < 65805 + 2 ^ 32" using assms by (simp_all add: coap_valid_def)
  note c = coap_length_cases [OF l n]
  have e: "coap_encode m @ xs = ?pre @ ?b @ xs" by (simp add: coap_encode_def l)
  have "sort_key option_number (coap_options m) = coap_options m"
    using coap_options_ok_sorted assms by (auto simp: coap_valid_def intro: sort_key_id_if_sorted)
  then have b: "?b = coap_put_options 0 (coap_options m) @ (if coap_payload m \<noteq> [] then 0xff # coap_payload m else [])"
    by (simp add: coap_body_def)
  let ?tail = "if coap_payload m \<noteq> [] then 0xff # coap_payload m else []"
  have "coap_get_options (?pre @ coap_put_options 0 (coap_options m) @ ?tail @ xs)
      (length ?pre + length (coap_put_options 0 (coap_options m)) + length ?tail) (length ?pre) (Some 0) =
    (coap_options m, drop 1 ?tail)"
    using assms by (intro coap_get_put) (auto simp: coap_valid_def)
  then have g: "coap_get_options (?pre @ ?b @ xs) (length ?pre + length ?b) (length ?pre) (Some 0) =
      (coap_options m, coap_payload m)"
    by (cases "coap_payload m") (simp_all add: b add.assoc)
  have hd: "?h div 16 = len" "?h mod 16 = length ?t" using t by simp_all
  have code: "(?pre @ ?b @ xs) ! (1 + length ext) = coap_code m" by (simp add: nth_append)
  have tok: "js_slice (?pre @ ?b @ xs) (1 + length ext + 1) (1 + length ext + 1 + length ?t) = ?t"
    using slice_all [of "?h # ext @ [coap_code m]" ?t] by (simp add: js_slice_def)
  have stop: "1 + length ext + 1 + length ?t = length ?pre" by simp
  have rl: "coap_read_length (?pre @ ?b @ xs) len = length ?b"
    using c(3) [of ?h "coap_code m # ?t @ ?b @ xs"] by simp
  have first: "(?pre @ ?b @ xs) ! 0 = ?h" by simp
  have "coap_decode (?pre @ ?b @ xs) = Some (m, length ?pre + length ?b)"
    unfolding coap_decode_def Let_def first hd c(2) [symmetric] rl code tok
    unfolding stop g by simp
  then show ?thesis by (simp add: e coap_encode_def l)
qed

lemma coap_decode_part:
  assumes "coap_valid m" and "coap_encode m = p @ q" and "q \<noteq> []"
  shows "coap_decode p = None"
proof (cases p)
  case (Cons h p')
  obtain len ext where l: "coap_length (length (coap_body m)) = (len, ext)" by fastforce
  let ?t = "coap_token m" and ?b = "coap_body m"
  have t: "length ?t < 16" and n: "length ?b < 65805 + 2 ^ 32" using assms by (simp_all add: coap_valid_def)
  note c = coap_length_cases [OF l n]
  have h: "h = 16 * len + length ?t" and pq: "p' @ q = ext @ coap_code m # ?t @ ?b"
    using assms(2) Cons by (simp_all add: coap_encode_def l)
  have hd: "p ! 0 div 16 = len" "p ! 0 mod 16 = length ?t" using t by (simp_all add: Cons h)
  have long: "length p < 2 + length ext + length ?t + length ?b"
    using arg_cong [OF pq, of length] assms(3) Cons by (cases q) auto
  show ?thesis
  proof (cases "length p' < length ext")
    case True
    then have "length p < 1 + length ext" by (simp add: Cons)
    then show ?thesis
      unfolding coap_decode_def Let_def hd c(2) [symmetric] by simp
  next
    case False
    obtain r where "p' = ext @ r" by (rule cut_after [OF pq False])
    then have "coap_read_length p len = length ?b" using c(3) [of h r] by (simp add: Cons)
    then show ?thesis
      using long unfolding coap_decode_def Let_def hd c(2) [symmetric] by simp
  qed
qed (simp add: coap_decode_def)

interpretation coap: codec coap_encode coap_decode coap_valid
  using coap_decode_whole coap_decode_part
  by unfold_locales (auto simp: coap_encode_def split: prod.splits)

text \<open>
  C26. A message with its options in order is read as it was written, whatever follows it, and nothing is
  read from less than a message.
\<close>

theorem coap_message_roundtrip:
  assumes "coap_valid m"
  shows "coap_decode (coap_encode m @ xs) = Some (m, length (coap_encode m)) \<and>
    (\<forall>k < length (coap_encode m). coap_decode (take k (coap_encode m)) = None)"
proof (intro conjI allI impI)
  show "coap_decode (coap_encode m @ xs) = Some (m, length (coap_encode m))"
    by (rule coap.decode_whole [OF assms])
  fix k assume "k < length (coap_encode m)"
  then show "coap_decode (take k (coap_encode m)) = None"
    by (intro coap.decode_part [OF assms, of _ "drop k (coap_encode m)"]) simp_all
qed

section \<open>Requests\<close>

abbreviation coap_get :: "nat list \<Rightarrow> text \<Rightarrow> coap_msg" where
  "coap_get token path \<equiv>
    \<lparr> coap_code = 1, coap_token = token, coap_options = [(Some 11, utf8_encode path)], coap_payload = [] \<rparr>"

definition coap_answer :: "nat \<Rightarrow> nat list \<Rightarrow> nat list \<Rightarrow> coap_msg" where
  "coap_answer code token payload =
    \<lparr> coap_code = code, coap_token = token,
      coap_options = (if code = 0x45 then [(Some 12, [])] else []), coap_payload = payload \<rparr>"

lemma coap_get_valid:
  assumes "length token < 16" and "length (utf8_encode path) < 65805"
  shows "coap_valid (coap_get token path)"
proof -
  obtain d dx where d: "coap_nibble 11 = (d, dx)" by fastforce
  obtain l lx where l: "coap_nibble (length (utf8_encode path)) = (l, lx)" by fastforce
  have "length dx \<le> 2" "length lx \<le> 2"
    using d l by (auto simp: coap_nibble_def split: if_splits)
  then have "length (coap_body (coap_get token path)) \<le> 5 + length (utf8_encode path)"
    by (simp add: coap_body_def option_number_def d l)
  then show ?thesis using assms by (simp add: coap_valid_def)
qed

text \<open>
  However TCP cuts up a GET for a resource, the client gets one answer, that it can read: its own
  token and the resource, or Not Found if there is no such resource.
\<close>

theorem coap_get_is_answered:
  assumes "length token < 16" and "length (utf8_encode path) < 65805"
    and "list_all is_scalar path" and "path \<noteq> [] \<Longrightarrow> hd path \<noteq> 0xfeff"
    and "path \<notin> set object_prototype" and "concat chunks = coap_encode (coap_get token path)"
  shows "\<exists>answer. feed (coap_data native) ((), []) chunks = ([Write (coap_encode answer)], (), []) \<and>
    coap_decode (coap_encode answer) = Some (answer, length (coap_encode answer)) \<and>
    answer = (case map_of COAP_RESOURCES path of
        Some found \<Rightarrow> coap_answer 0x45 token (utf8_encode found)
      | None \<Rightarrow> coap_answer 0x84 token [])"
proof -
  let ?m = "coap_get token path"
  let ?a = "case map_of COAP_RESOURCES path of
        Some found \<Rightarrow> coap_answer 0x45 token (utf8_encode found)
      | None \<Rightarrow> coap_answer 0x84 token []"
  have path: "coap_path \<lparr> coap_code = c, coap_token = token,
      coap_options = [(Some 11, utf8_encode path)], coap_payload = [] \<rparr> = path" for c
    using utf8_decode_encode [OF assms(3,4)] by (simp add: coap_path_def)
  have h: "coap_handle native u ?m = ([Write (coap_encode ?a)], u, True)" for u
    using assms(5)
    by (simp add: coap_handle_def coap_request_def path js_get_def coap_reply_def coap_answer_def
        split: option.split)
  have "feed (coap_data native) ((), []) chunks = (let (ops, s) = handle_all (coap_handle native) () [?m] in (ops, s, []))"
    unfolding coap_data_def
  proof (rule coap.feed_messages)
    show "list_all coap_valid [?m]" using coap_get_valid [OF assms(1,2)] by simp
    show "goes_on (coap_handle native) (set [?m])" by (simp add: goes_on_def h del: One_nat_def)
  qed (use assms(6) in simp)
  moreover have "coap_valid ?a"
    using assms(1)
    by (auto simp: coap_valid_def coap_answer_def COAP_RESOURCES_def lit_def coap_body_def
        coap_nibble_def option_number_def utf8_char_def split: option.split)
  then have "coap_decode (coap_encode ?a @ []) = Some (?a, length (coap_encode ?a))"
    by (rule coap.decode_whole)
  ultimately show ?thesis using h by (simp del: One_nat_def)
qed

theorem coap_get_is_answered_witness:
  "\<exists>answer. feed (coap_data id) ((), []) [coap_encode (coap_get [1, 2] (lit ''test''))] =
      ([Write (coap_encode answer)], (), []) \<and>
    coap_decode (coap_encode answer) = Some (answer, length (coap_encode answer)) \<and>
    answer = (case map_of COAP_RESOURCES (lit ''test'') of
        Some found \<Rightarrow> coap_answer 0x45 [1, 2] (utf8_encode found)
      | None \<Rightarrow> coap_answer 0x84 [1, 2] [])"
  by (rule coap_get_is_answered) (simp_all add: lit_def is_scalar_def utf8_char_def object_prototype_def)

theorem coap_message_roundtrip_witness:
  "coap_decode (coap_encode (coap_get [] [97, 98]) @ [1, 2, 3]) =
      Some (coap_get [] [97, 98], length (coap_encode (coap_get [] [97, 98]))) \<and>
    coap_decode (take 4 (coap_encode (coap_get [] [97, 98]))) = None"
proof -
  have v: "coap_valid (coap_get [] [97, 98])" by (rule coap_get_valid) (simp_all add: utf8_char_def)
  have "4 < length (coap_encode (coap_get [] [97, 98]))"
    by (simp add: coap_encode_def coap_body_def coap_length_def coap_nibble_def option_number_def
        utf8_char_def Let_def)
  with coap_message_roundtrip [OF v] show ?thesis by blast
qed

text \<open>
  A path that is a name every object inherits is answered as a resource there is not: with whatever
  text the engine makes of what is inherited, where Not Found is meant.
\<close>

theorem coap_inherited_name_is_content:
  assumes "path \<in> set object_prototype"
  shows "coap_handle native u (coap_get token path) =
    ([Write (coap_encode (coap_answer 0x45 token (utf8_encode (native path))))], u, True)"
proof -
  have "list_all (\<lambda>p. is_ascii p \<and> map_of COAP_RESOURCES p = None) object_prototype"
    by (simp add: object_prototype_def lit_def COAP_RESOURCES_def)
  with assms have a: "is_ascii path" "js_get COAP_RESOURCES path = Inherited"
    by (auto simp: list_all_iff js_get_def)
  then have "utf8_decode (utf8_encode path) = path" by (simp add: utf8_encode_ascii utf8_decode_ascii)
  then show ?thesis
    using a by (simp add: coap_handle_def coap_request_def coap_path_def coap_reply_def coap_answer_def)
qed

theorem coap_inherited_name_is_content_witness:
  "coap_handle (\<lambda>_. lit ''function'') () (coap_get [7] (lit ''valueOf'')) =
    ([Write (coap_encode (coap_answer 0x45 [7] (utf8_encode (lit ''function''))))], (), True)"
  by (rule coap_inherited_name_is_content) (simp add: object_prototype_def)

end
