(* ===== verification/Lan_Web.thy ===== *)
theory Lan_Web
  imports Lan_Stream
begin

text \<open>
  The LAN's web: HTTP on port 80, and WebSocket on port 9001 with the SHA-1 and base64 of its
  handshake (host/lan_services.mjs). What is only logged is left out. WebSocket lengths past
  \<open>2 ^ 53\<close>, which \<open>Number\<close> rounds, are more than any buffer holds.
\<close>

section \<open>HTTP\<close>

text \<open>\<^verbatim>\<open>host.replace(/:\d+$/, '').replace(/^www\./, '')\<close>\<close>

definition is_digit_char :: "nat \<Rightarrow> bool" where
  "is_digit_char c \<longleftrightarrow> 48 \<le> c \<and> c \<le> 57"

definition strip_port :: "text \<Rightarrow> text" where
  "strip_port host =
    (let digits = takeWhile is_digit_char (rev host); rest = dropWhile is_digit_char (rev host)
     in if digits \<noteq> [] \<and> rest \<noteq> [] \<and> hd rest = 58 then rev (tl rest) else host)"

definition strip_www :: "text \<Rightarrow> text" where
  "strip_www host = (if starts_with (lit ''www.'') host then drop 4 host else host)"

definition line :: "string \<Rightarrow> text" where
  "line s = lit s @ [10]"

text \<open>Status, further headers and body. \<open>None\<close> is a path that is \<open>undefined\<close>.\<close>

definition shown :: "text option \<Rightarrow> text" where
  "shown x = (case x of None \<Rightarrow> lit ''undefined'' | Some s \<Rightarrow> s)"

definition http_parts :: "text \<Rightarrow> text \<Rightarrow> text option \<Rightarrow> text \<times> text list \<times> text" where
  "http_parts method host path =
    (let bare = strip_www (strip_port host)
     in if path = Some [47] \<and> \<not> starts_with (lit ''www.'') host
        then (lit ''301 Moved Permanently'', [lit ''Location: http://www.'' @ bare @ lit ''/''],
          line ''<HTML><HEAD><TITLE>301 Moved</TITLE></HEAD><BODY>'' @
          line ''<H1>301 Moved</H1>'' @
          lit ''The document has moved <A HREF=\"http://www.'' @ bare @ line ''/\">here</A>.'' @
          line ''Answered by the host's LAN, not the internet.'' @
          line ''</BODY></HTML>'')
        else (lit ''200 OK'', [],
          line ''<HTML><BODY>'' @ method @ [32] @ shown path @ lit '' on '' @ host @
          lit '', answered by the host's LAN at 192.0.2.2. Nothing left the page.'' @ [10] @
          line ''</BODY></HTML>''))"

definition http_response :: "text \<Rightarrow> text \<Rightarrow> text option \<Rightarrow> text" where
  "http_response method host path =
    (let (status, headers, body) = http_parts method host path
     in join_text CRLF ([lit ''HTTP/1.1 '' @ status, lit ''Server: zephyr-wasm LAN'',
          lit ''Content-Type: text/html''] @ headers @
          [lit ''Content-Length: '' @ nat_text (length (utf8_encode body)), lit ''Connection: close'', [], []]) @
        body)"

text \<open>The request line's words, and what comes of the data of a connection, given what came before.\<close>

definition http_words :: "text \<Rightarrow> text list" where
  "http_words buf = split_char 32 (case index_of CRLF buf of None \<Rightarrow> buf | Some i \<Rightarrow> take i buf)"

definition http_request :: "text \<Rightarrow> nat \<Rightarrow> conn_op list" where
  "http_request buf stop =
    (let ws = http_words buf;
         host = (case header_value (lit ''host:'') True (take stop buf) of
             Some h \<Rightarrow> h | None \<Rightarrow> dotted LAN_IP)
     in [Write (utf8_encode (http_response (hd ws) host (if length ws > 1 then Some (ws ! 1) else None))), End])"

definition http_data :: "text \<Rightarrow> nat list \<Rightarrow> conn_op list \<times> text" where
  "http_data buf data =
    (let buf = buf @ utf8_decode data
     in case index_of (CRLF @ CRLF) buf of
         None \<Rightarrow> ([], buf)
       | Some stop \<Rightarrow> (http_request buf stop, buf))"

section \<open>SHA-1 and base64\<close>

definition sha1_pad :: "nat list \<Rightarrow> nat list" where
  "sha1_pad bytes =
    (let n = length bytes; total = (n + 9 + 63) div 64 * 64; bits = n * 8
     in bytes @ [0x80] @ replicate (total - n - 9) 0 @ be32 (bits div 2 ^ 32 mod 2 ^ 32) @ be32 (bits mod 2 ^ 32))"

definition rotl :: "32 word \<Rightarrow> nat \<Rightarrow> 32 word" where
  "rotl x n = push_bit n x OR drop_bit (32 - n) x"

text \<open>The 80 words of a block, from its first 16, and the 80 rounds on \<open>a\<close> to \<open>e\<close>.\<close>

fun sha1_extend :: "nat \<Rightarrow> 32 word list \<Rightarrow> 32 word list" where
  "sha1_extend 0 w = w"
| "sha1_extend (Suc k) w =
    (let i = length w
     in sha1_extend k (w @ [rotl (w ! (i - 3) XOR w ! (i - 8) XOR w ! (i - 14) XOR w ! (i - 16)) 1]))"

definition sha1_words :: "nat list \<Rightarrow> 32 word list" where
  "sha1_words block = sha1_extend 64 (map (\<lambda>i. word_of_nat (rdb32 block (4 * i))) [0..<16])"

type_synonym sha1_state = "32 word \<times> 32 word \<times> 32 word \<times> 32 word \<times> 32 word"

definition sha1_round :: "nat \<Rightarrow> 32 word \<Rightarrow> sha1_state \<Rightarrow> sha1_state" where
  "sha1_round i wi = (\<lambda>(a, b, c, d, e).
    let (f, k) = (if i < 20 then ((b AND c) OR (NOT b AND d), 0x5a827999)
           else if i < 40 then (b XOR c XOR d, 0x6ed9eba1)
           else if i < 60 then ((b AND c) OR (b AND d) OR (c AND d), 0x8f1bbcdc)
           else (b XOR c XOR d, 0xca62c1d6));
        t = rotl a 5 + f + e + k + wi
    in (t, a, rotl b 30, c, d))"

fun sha1_rounds :: "nat \<Rightarrow> 32 word list \<Rightarrow> sha1_state \<Rightarrow> sha1_state" where
  "sha1_rounds i [] s = s"
| "sha1_rounds i (w # ws) s = sha1_rounds (Suc i) ws (sha1_round i w s)"

definition sha1_block :: "sha1_state \<Rightarrow> nat list \<Rightarrow> sha1_state" where
  "sha1_block h block =
    (case h of (h0, h1, h2, h3, h4) \<Rightarrow>
      case sha1_rounds 0 (sha1_words block) h of (a, b, c, d, e) \<Rightarrow>
        (h0 + a, h1 + b, h2 + c, h3 + d, h4 + e))"

fun sha1_blocks :: "nat \<Rightarrow> nat list \<Rightarrow> sha1_state \<Rightarrow> sha1_state" where
  "sha1_blocks 0 bs h = h"
| "sha1_blocks (Suc k) bs h = sha1_blocks k (drop 64 bs) (sha1_block h (take 64 bs))"

definition sha1 :: "nat list \<Rightarrow> nat list" where
  "sha1 bytes =
    (let padded = sha1_pad bytes
     in case sha1_blocks (length padded div 64) padded (0x67452301, 0xefcdab89, 0x98badcfe, 0x10325476, 0xc3d2e1f0) of
       (h0, h1, h2, h3, h4) \<Rightarrow> concat (map (\<lambda>h. be32 (unat h)) [h0, h1, h2, h3, h4]))"

text \<open>\<open>btoa\<close>, on bytes.\<close>

definition base64_char :: "nat \<Rightarrow> nat" where
  "base64_char k = (if k < 26 then 65 + k else if k < 52 then 97 + (k - 26)
     else if k < 62 then 48 + (k - 52) else if k = 62 then 43 else 47)"

fun base64 :: "nat list \<Rightarrow> text" where
  "base64 [] = []"
| "base64 [x] = [base64_char (x div 4), base64_char (x mod 4 * 16), 61, 61]"
| "base64 [x, y] =
    [base64_char (x div 4), base64_char (x mod 4 * 16 + y div 16), base64_char (y mod 16 * 4), 61]"
| "base64 (x # y # z # rest) =
    [base64_char (x div 4), base64_char (x mod 4 * 16 + y div 16),
     base64_char (y mod 16 * 4 + z div 64), base64_char (z mod 64)] @ base64 rest"

definition WS_GUID :: "text" where
  "WS_GUID = lit ''258EAFA5-E914-47DA-95CA-C5AB0DC85B11''"

definition websocket_accept :: "text \<Rightarrow> text" where
  "websocket_accept key = base64 (sha1 (utf8_encode (key @ WS_GUID)))"

section \<open>WebSocket\<close>

record ws_frame =
  ws_fin :: bool
  ws_opcode :: nat
  ws_payload :: "nat list"

text \<open>A frame from the server: its final bit set, and not masked.\<close>

definition ws_put :: "nat \<Rightarrow> nat list \<Rightarrow> conn_op" where
  "ws_put opcode payload =
    (let n = length payload;
         len = (if n < 126 then [n] else if n < 65536 then 126 # be16 n else [127, 0, 0, 0, 0] @ be32 n)
     in Write ((128 + opcode) # len @ payload))"

text \<open>The first whole frame of what has come.\<close>

definition ws_unmask :: "nat list \<Rightarrow> nat list \<Rightarrow> nat list" where
  "ws_unmask key payload = map (\<lambda>i. payload ! i XOR key ! (i mod 4)) [0..<length payload]"

definition ws_get :: "nat list \<Rightarrow> (ws_frame \<times> nat) option" where
  "ws_get buf =
    (if length buf < 2 then None
     else (let n7 = buf ! 1 mod 128;
               head = (if n7 = 126 then 4 else if n7 = 127 then 10 else 2)
       in if length buf < head then None
          else (let n = (if n7 = 126 then rdb16 buf 2
                  else if n7 = 127 then rdb32 buf 2 * 2 ^ 32 + rdb32 buf 6 else n7);
                    masked = (buf ! 1 div 128 mod 2 = 1);
                    key = js_slice buf head (head + 4);
                    i = (if masked then head + 4 else head)
            in if length buf < i + n then None
               else (let payload = js_slice buf i (i + n)
                 in Some (\<lparr> ws_fin = (buf ! 0 div 128 mod 2 = 1), ws_opcode = buf ! 0 mod 16,
                           ws_payload = (if masked then ws_unmask key payload else payload) \<rparr>, i + n)))))"

text \<open>The parts of the message that is coming in, and what is done for a frame.\<close>

definition ws_handle :: "(nat list list, ws_frame, conn_op) handler" where
  "ws_handle parts fr =
    (if ws_opcode fr \<le> 2 then
       (let parts = parts @ [ws_payload fr]
        in if ws_fin fr then ([ws_put 1 (concat parts)], [], True) else ([], parts, True))
     else if ws_opcode fr = 8 then ([ws_put 8 (take 2 (ws_payload fr)), End], parts, True)
     else if ws_opcode fr = 9 then ([ws_put 10 (ws_payload fr)], parts, True)
     else ([], parts, True))"

text \<open>Before the handshake the connection has text; after it, frames.\<close>

datatype ws_conn = Handshake "text" | Upgraded "nat list list" "nat list"

definition ws_frames :: "nat list list \<Rightarrow> nat list \<Rightarrow> conn_op list \<times> ws_conn" where
  "ws_frames parts buf = (case drain ws_get ws_handle parts buf of
      (ops, parts, buf) \<Rightarrow> (ops, Upgraded parts buf))"

definition ws_upgrade :: "text \<Rightarrow> text" where
  "ws_upgrade key = join_text CRLF [lit ''HTTP/1.1 101 Switching Protocols'', lit ''Upgrade: websocket'',
     lit ''Connection: Upgrade'', lit ''Sec-WebSocket-Accept: '' @ websocket_accept key, [], []]"

definition ws_data :: "ws_conn \<Rightarrow> nat list \<Rightarrow> conn_op list \<times> ws_conn" where
  "ws_data c data = (case c of
      Upgraded parts buf \<Rightarrow> ws_frames parts (buf @ data)
    | Handshake head \<Rightarrow>
        let head = head @ utf8_decode data
        in case index_of (CRLF @ CRLF) head of
            None \<Rightarrow> ([], Handshake head)
          | Some stop \<Rightarrow>
              (case header_value (lit ''sec-websocket-key:'') True (take stop head) of
                  None \<Rightarrow> ([Write (utf8_encode (http_response (lit ''GET'') (dotted LAN_IP) (Some [47]))), End],
                    Handshake head)
                | Some key \<Rightarrow>
                    let (ops, c) = ws_frames [] (utf8_encode (drop (stop + 4) head))
                    in (Write (utf8_encode (ws_upgrade key)) # ops, c)))"

end
