(* ===== verification/Lan_Web_Proofs.thy ===== *)
theory Lan_Web_Proofs
  imports Lan_Web Lan_Udp_Proofs
begin

text \<open>What a client of the LAN's web servers can rely on.\<close>

section \<open>WebSocket frames\<close>

text \<open>A frame as a client sends it: with a key of four bytes, and its payload masked by it.\<close>

definition ws_length :: "nat \<Rightarrow> nat list" where
  "ws_length n = (if n < 126 then [128 + n] else if n < 65536 then 254 # be16 n
     else [255, 0, 0, 0, 0] @ be32 n)"

definition ws_client :: "nat list \<times> ws_frame \<Rightarrow> nat list" where
  "ws_client = (\<lambda>(key, fr). ((if ws_fin fr then 128 else 0) + ws_opcode fr) # ws_length (length (ws_payload fr)) @
     key @ ws_unmask key (ws_payload fr))"

definition ws_valid :: "nat list \<times> ws_frame \<Rightarrow> bool" where
  "ws_valid = (\<lambda>(key, fr). length key = 4 \<and> ws_opcode fr < 16 \<and> length (ws_payload fr) < 2 ^ 32)"

lemma length_ws_unmask [simp]: "length (ws_unmask key payload) = length payload"
  by (simp add: ws_unmask_def)

lemma ws_unmask_twice: "ws_unmask key (ws_unmask key payload) = payload"
proof (rule nth_equalityI)
  fix i assume "i < length (ws_unmask key (ws_unmask key payload))"
  then show "ws_unmask key (ws_unmask key payload) ! i = payload ! i"
    by (simp add: ws_unmask_def xor.assoc)
qed simp

lemma slice_mid: "js_slice (a @ b @ c) (length a) (length a + length b) = b"
  by (simp add: js_slice_def)

text \<open>What the second byte says, what the length is read as, and where it ends.\<close>

definition ws_short :: "nat \<Rightarrow> nat" where
  "ws_short n = (if n < 126 then n else if n < 65536 then 126 else 127)"

definition ws_read_length :: "nat list \<Rightarrow> nat \<Rightarrow> nat" where
  "ws_read_length buf n7 = (if n7 = 126 then rdb16 buf 2
     else if n7 = 127 then rdb32 buf 2 * 2 ^ 32 + rdb32 buf 6 else n7)"

definition ws_head :: "nat \<Rightarrow> nat" where
  "ws_head n7 = (if n7 = 126 then 4 else if n7 = 127 then 10 else 2)"

lemma ws_header:
  assumes "n < 2 ^ 32"
  shows "(h # ws_length n @ rest) ! 1 mod 128 = ws_short n \<and> (h # ws_length n @ rest) ! 1 div 128 mod 2 = 1 \<and>
    ws_read_length (h # ws_length n @ rest) (ws_short n) = n \<and> ws_head (ws_short n) = 1 + length (ws_length n)"
proof -
  have skip: "rdb32 ([h, 255, 0, 0, 0, 0] @ be32 n @ rest) 6 = rdb32 (be32 n @ rest) 0" if "65536 \<le> n"
    by (simp add: rdb32_def rdb16_def byte_at_append numeral_2_eq_2 numeral_3_eq_3)
  have zero: "rdb32 ([h, 255, 0, 0, 0, 0] @ be32 n @ rest) 2 = 0"
    by (simp add: rdb32_def rdb16_def)
  have two: "rdb16 ([h, 254] @ be16 n @ rest) 2 = n" if "n < 65536"
    using rdb16_skip [of "[h, 254]" 2 "be16 n @ rest"] rdb16_mod [of n rest] that by simp
  consider "n < 126" | "126 \<le> n" "n < 65536" | "65536 \<le> n" by linarith
  then show ?thesis
  proof cases
    case 1
    then have "(128 + n) div 128 mod 2 = 1" "(128 + n) mod 128 = n" by simp_all
    with 1 show ?thesis by (simp add: ws_length_def ws_short_def ws_read_length_def ws_head_def)
  next
    case 2
    then show ?thesis using two by (simp add: ws_length_def ws_short_def ws_read_length_def ws_head_def)
  next
    case 3
    then show ?thesis using skip zero rdb32_be32 [OF assms, of rest]
      by (simp add: ws_length_def ws_short_def ws_read_length_def ws_head_def)
  qed
qed

lemma ws_get_alt:
  "ws_get buf =
    (if length buf < 2 \<or> length buf < ws_head (buf ! 1 mod 128) then None
     else (let n = ws_read_length buf (buf ! 1 mod 128); head = ws_head (buf ! 1 mod 128);
               masked = (buf ! 1 div 128 mod 2 = 1); i = (if masked then head + 4 else head)
       in if length buf < i + n then None
          else Some (\<lparr> ws_fin = (buf ! 0 div 128 mod 2 = 1), ws_opcode = buf ! 0 mod 16,
            ws_payload = (if masked then ws_unmask (js_slice buf head (head + 4)) (js_slice buf i (i + n))
              else js_slice buf i (i + n)) \<rparr>, i + n)))"
  by (simp add: ws_get_def ws_read_length_def ws_head_def Let_def)

lemma ws_get_whole:
  assumes "ws_valid m"
  shows "ws_get (ws_client m @ xs) = Some (snd m, length (ws_client m))"
proof -
  obtain key fr where m: "m = (key, fr)" by fastforce
  let ?p = "ws_payload fr"
  let ?n = "length ?p" and ?h = "(if ws_fin fr then 128 else 0) + ws_opcode fr"
  let ?L = "ws_length ?n" and ?rest = "key @ ws_unmask key ?p @ xs"
  have v: "length key = 4" "ws_opcode fr < 16" "?n < 2 ^ 32" using assms by (simp_all add: ws_valid_def m)
  have b: "ws_client m @ xs = ?h # ?L @ ?rest" by (simp add: ws_client_def m)
  note w = ws_header [OF v(3), of ?h ?rest]
  have k: "js_slice (?h # ?L @ ?rest) (1 + length ?L) (1 + length ?L + 4) = key"
    using slice_mid [of "?h # ?L" key "ws_unmask key ?p @ xs"] v(1) by simp
  have p: "js_slice (?h # ?L @ ?rest) (1 + length ?L + 4) (1 + length ?L + 4 + ?n) = ws_unmask key ?p"
    using slice_mid [of "?h # ?L @ key" "ws_unmask key ?p" xs] v(1) by simp
  have "(128 + ws_opcode fr) div 128 = 1" using v(2) by (intro div_nat_eqI) simp_all
  then have first: "?h div 128 mod 2 = 1 \<longleftrightarrow> ws_fin fr" "?h mod 16 = ws_opcode fr"
    using v(2) by (simp_all add: mod_add_left_eq [of 128 16, symmetric])
  have fr: "\<lparr> ws_fin = ws_fin fr, ws_opcode = ws_opcode fr, ws_payload = ?p \<rparr> = fr" by (cases fr) simp
  have "\<not> (length (?h # ?L @ ?rest) < 2 \<or> length (?h # ?L @ ?rest) < 1 + length ?L)"
    "\<not> length (?h # ?L @ ?rest) < 1 + length ?L + 4 + ?n"
    using v(1) by simp_all
  then have "ws_get (?h # ?L @ ?rest) = Some (fr, 1 + length ?L + 4 + ?n)"
    unfolding ws_get_alt Let_def using w k p first fr by (simp only: if_False if_True nth_Cons_0 ws_unmask_twice simp_thms)
  then show ?thesis using v(1) by (simp add: b m ws_client_def)
qed

lemma ws_get_part:
  assumes "ws_valid m" and "ws_client m = p @ q" and "q \<noteq> []"
  shows "ws_get p = None"
proof (cases "length p < 2")
  case False
  obtain key fr where m: "m = (key, fr)" by fastforce
  let ?n = "length (ws_payload fr)"
  let ?rest = "key @ ws_unmask key (ws_payload fr)"
  have v: "length key = 4" "?n < 2 ^ 32" using assms(1) by (simp_all add: ws_valid_def m)
  let ?h = "(if ws_fin fr then 128 else 0) + ws_opcode fr"
  have b: "p @ q = ?h # ws_length ?n @ ?rest" using assms(2) by (simp add: ws_client_def m)
  have len: "length p < 1 + length (ws_length ?n) + 4 + ?n"
    using arg_cong [OF b, of length] assms(3) v(1) by (cases q) auto
  note w = ws_header [OF v(2), of ?h ?rest]
  have "p ! 1 = (p @ q) ! 1" using False by (simp add: nth_append)
  then have 1: "p ! 1 mod 128 = ws_short ?n" "p ! 1 div 128 mod 2 = 1" using w unfolding b by simp_all
  have "ws_read_length p (ws_short ?n) = ws_read_length (p @ q) (ws_short ?n)"
    if "ws_head (ws_short ?n) \<le> length p"
    using that by (auto simp: ws_read_length_def ws_head_def rdb32_def rdb16_def byte_at_append split: if_splits)
  then have 2: "ws_read_length p (ws_short ?n) = ?n" if "ws_head (ws_short ?n) \<le> length p"
    using that w unfolding b by simp
  show ?thesis
  proof (cases "length p < ws_head (ws_short ?n)")
    case True
    then show ?thesis unfolding ws_get_alt 1 by simp
  next
    case False
    then have "ws_read_length p (ws_short ?n) = ?n" using 2 by simp
    then show ?thesis using len w unfolding ws_get_alt 1 Let_def by simp
  qed
qed (simp add: ws_get_alt)

interpretation ws: framing ws_client ws_get snd ws_valid
  using ws_get_whole ws_get_part by unfold_locales (auto simp: ws_client_def)

section \<open>The echo\<close>

text \<open>A message in fragments, each with its own key; the last is the final one.\<close>

fun ws_message :: "(nat list \<times> nat list) list \<Rightarrow> (nat list \<times> ws_frame) list" where
  "ws_message [] = []"
| "ws_message ((key, part) # parts) =
    (key, \<lparr> ws_fin = (parts = []), ws_opcode = 0, ws_payload = part \<rparr>) # ws_message parts"

definition with_opcode :: "nat \<Rightarrow> (nat list \<times> ws_frame) list \<Rightarrow> (nat list \<times> ws_frame) list" where
  "with_opcode t frs = (case frs of [] \<Rightarrow> [] | (key, fr) # frs \<Rightarrow> (key, fr\<lparr>ws_opcode := t\<rparr>) # frs)"

lemma handle_ws_message:
  "parts \<noteq> [] \<Longrightarrow> handle_all ws_handle before (map snd (ws_message parts)) =
    ([ws_put 1 (concat (before @ map snd parts))], [])"
proof (induction parts arbitrary: before rule: ws_message.induct)
  case (2 key part parts)
  show ?case
  proof (cases "parts = []")
    case False
    then show ?thesis using 2(1) [OF False, of "before @ [part]"]
      by (simp add: ws_handle_def Let_def)
  qed (simp add: ws_handle_def Let_def)
qed simp

lemma handle_with_opcode:
  assumes "t \<le> 2" and "list_all (\<lambda>x. ws_opcode (snd x) \<le> 2) frs"
  shows "handle_all ws_handle before (map snd (with_opcode t frs)) = handle_all ws_handle before (map snd frs)"
  using assms by (cases frs) (auto simp: with_opcode_def ws_handle_def Let_def)

lemma ws_message_opcodes: "list_all (\<lambda>x. ws_opcode (snd x) = 0) (ws_message parts)"
  by (induction parts rule: ws_message.induct) auto

lemma handle_ws_messages:
  assumes "list_all (\<lambda>(t, parts). t \<le> 2 \<and> parts \<noteq> []) msgs"
  shows "handle_all ws_handle [] (map snd (concat (map (\<lambda>(t, parts). with_opcode t (ws_message parts)) msgs))) =
    (map (\<lambda>(t, parts). ws_put 1 (concat (map snd parts))) msgs, [])"
  using assms
proof (induction msgs)
  case (Cons m msgs)
  obtain t parts where m: "m = (t, parts)" by fastforce
  have "list_all (\<lambda>x. ws_opcode (snd x) \<le> 2) (ws_message parts)"
    using ws_message_opcodes [of parts] by (auto simp: list_all_iff)
  with Cons m handle_with_opcode [of t "ws_message parts" "[]"] handle_ws_message [of parts "[]"] show ?case
    by (simp add: handle_all_append)
qed simp

lemma feed_ws_data:
  "feed ws_data (Upgraded parts buf) chunks =
    (let (ops, parts, buf) = feed (stream_data ws_get ws_handle) (parts, buf) chunks in (ops, Upgraded parts buf))"
  by (induction chunks arbitrary: parts buf)
    (simp_all add: ws_data_def ws_frames_def stream_data_def Let_def split_beta)

lemma ws_goes_on: "goes_on ws_handle M"
  by (auto simp: goes_on_def ws_handle_def Let_def)

lemma ws_message_valid:
  "list_all (\<lambda>(key, part). length key = 4 \<and> length part < 2 ^ 32) parts \<Longrightarrow> t \<le> 2 \<Longrightarrow>
    list_all ws_valid (with_opcode t (ws_message parts))"
proof -
  assume "list_all (\<lambda>(key, part). length key = 4 \<and> length part < 2 ^ 32) parts"
  then have "list_all ws_valid (ws_message parts)"
    by (induction parts rule: ws_message.induct) (auto simp: ws_valid_def)
  then show "t \<le> 2 \<Longrightarrow> list_all ws_valid (with_opcode t (ws_message parts))"
    by (cases "ws_message parts") (auto simp: with_opcode_def ws_valid_def)
qed

text \<open>
  C27. Each message of a client comes back whole, as one text message, and once, in however many fragments
  it was sent and however TCP cut them up.
\<close>

theorem websocket_echoes_messages:
  assumes "list_all (\<lambda>(t, parts). t \<le> 2 \<and> parts \<noteq> []) msgs"
    and "list_all (\<lambda>(t, parts). list_all (\<lambda>(key, part). length key = 4 \<and> length part < 2 ^ 32) parts) msgs"
    and "concat chunks = concat (map ws_client (concat (map (\<lambda>(t, parts). with_opcode t (ws_message parts)) msgs)))"
  shows "feed ws_data (Upgraded [] []) chunks =
    (map (\<lambda>(t, parts). ws_put 1 (concat (map snd parts))) msgs, Upgraded [] [])"
proof -
  let ?frs = "concat (map (\<lambda>(t, parts). with_opcode t (ws_message parts)) msgs)"
  have valid: "list_all ws_valid ?frs"
    using assms(1,2)
  proof (induction msgs)
    case (Cons m msgs)
    then show ?case using ws_message_valid by (auto split: prod.splits)
  qed simp
  then have "?frs = [] \<or> length [] < length (ws_client (hd ?frs))"
    using ws.encode_not_Nil by (cases ?frs) auto
  with ws.feed_stream [OF ws_goes_on valid, of "[]" chunks] assms(3)
  show ?thesis by (simp add: feed_ws_data handle_ws_messages [OF assms(1)])
qed

theorem websocket_echoes_messages_witness:
  "feed ws_data (Upgraded [] []) [concat (map ws_client (concat (map (\<lambda>(t, parts). with_opcode t (ws_message parts))
      [(1, [([1, 2, 3, 4], [104, 105]), ([9, 9, 9, 9], [33])])])))] =
    (map (\<lambda>(t, parts). ws_put 1 (concat (map snd parts)))
      [(1 :: nat, [([1 :: nat, 2, 3, 4], [104, 105]), ([9, 9, 9, 9], [33])])], Upgraded [] [])"
  by (rule websocket_echoes_messages) simp_all

section \<open>HTTP\<close>

text \<open>
  A request in ASCII is answered once, when all of it has come, and the same however TCP cut it up.
\<close>

lemma index_of_le: "index_of pat s = Some i \<Longrightarrow> i + length pat \<le> length s"
proof (induction s arbitrary: i)
  case (Cons x s)
  show ?case
  proof (cases "take (length pat) (x # s) = pat")
    case True
    then have "length pat \<le> length (x # s)" by (metis length_take min.cobounded1)
    with True Cons.prems show ?thesis by simp
  next
    case False
    with Cons show ?thesis by auto
  qed
qed (simp split: if_splits)

lemma index_of_append: "index_of pat s = Some i \<Longrightarrow> index_of pat (s @ t) = Some i"
proof (induction s arbitrary: i)
  case Nil
  then have "pat = []" "i = 0" by (auto split: if_splits)
  then show ?case by (cases t) auto
next
  case (Cons x s)
  show ?case
  proof (cases "take (length pat) (x # s) = pat")
    case True
    then have "length pat \<le> length (x # s)" by (metis length_take min.cobounded1)
    then have "take (length pat) ((x # s) @ t) = pat" using True by (subst take_append) simp
    with True Cons.prems show ?thesis by simp
  next
    case False
    then obtain j where j: "i = Suc j" "index_of pat s = Some j" using Cons.prems by auto
    have "length pat \<le> length s"
      using index_of_le [OF j(2)] by simp
    then have "take (length pat) (x # s @ t) = take (length pat) (x # s)"
      using take_append [of "length pat" "x # s" t] by simp
    with False j Cons.IH show ?thesis by simp
  qed
qed

lemma index_of_None_prefix: "index_of pat (s @ t) = None \<Longrightarrow> index_of pat s = None"
  using index_of_append [of pat s _ t] by (cases "index_of pat s") auto

lemma http_waits:
  assumes "is_ascii (buf @ concat chunks)" and "index_of (CRLF @ CRLF) (buf @ concat chunks) = None"
  shows "feed http_data buf chunks = ([], buf @ concat chunks)"
  using assms
proof (induction chunks arbitrary: buf)
  case (Cons d ds)
  have "index_of (CRLF @ CRLF) ((buf @ d) @ concat ds) = None" using Cons.prems(2) by simp
  then have "index_of (CRLF @ CRLF) (buf @ d) = None" by (rule index_of_None_prefix)
  with Cons show ?case by (simp add: http_data_def utf8_decode_ascii)
qed simp

theorem http_answers_once:
  assumes "is_ascii (concat chunks @ d)" and "index_of (CRLF @ CRLF) (concat chunks) = None"
    and "index_of (CRLF @ CRLF) (concat chunks @ d) = Some stop"
  shows "feed http_data [] (chunks @ [d]) = (http_request (concat chunks @ d) stop, concat chunks @ d)"
proof -
  have "feed on_data s (xs @ ys) =
      (let (ops, s) = feed on_data s xs; (ops', s) = feed on_data s ys in (ops @ ops', s))"
    for on_data :: "text \<Rightarrow> nat list \<Rightarrow> conn_op list \<times> text" and s xs ys
    by (induction xs arbitrary: s) (simp_all add: Let_def split_beta)
  moreover have "feed http_data [] chunks = ([], concat chunks)"
    using http_waits [of "[]" chunks] assms(1,2) by simp
  ultimately show ?thesis
    using assms by (simp add: http_data_def utf8_decode_ascii Let_def)
qed

theorem http_answers_once_witness:
  "feed http_data [] ([lit ''GET / HTT'', lit ''P/1.1'' @ [13, 10]] @ [[13, 10]]) =
    (http_request (lit ''GET / HTTP/1.1'' @ [13, 10, 13, 10]) 14, lit ''GET / HTTP/1.1'' @ [13, 10, 13, 10])"
  using http_answers_once [of "[lit ''GET / HTT'', lit ''P/1.1'' @ [13, 10]]" "[13, 10]" 14]
  by (simp add: lit_def CRLF_def)

section \<open>Only bytes\<close>

text \<open>Decoding gives code points, and encoding them gives bytes.\<close>

definition good_text :: "text \<Rightarrow> bool" where
  "good_text cs \<longleftrightarrow> (\<forall>c \<in> set cs. c < 0x110000)"

lemma good_text_simps [simp]:
  "good_text []" "good_text (c # cs) \<longleftrightarrow> c < 0x110000 \<and> good_text cs"
  "good_text (cs @ ds) \<longleftrightarrow> good_text cs \<and> good_text ds"
  by (auto simp: good_text_def)

lemma good_text_subset: "good_text cs \<Longrightarrow> set ds \<subseteq> set cs \<Longrightarrow> good_text ds"
  by (auto simp: good_text_def)

lemma utf8_encode_bytes: "good_text cs \<Longrightarrow> is_bytes (utf8_encode cs)"
proof (induction cs)
  case (Cons c cs)
  have m: "x mod 64 < 128" for x :: nat by (rule order.strict_trans [of _ 64]) simp_all
  have "c div 64 < 32" if "c < 0x800" using that by (simp add: less_mult_imp_div_less)
  moreover have "c div 4096 < 16" if "c < 0x10000" using that by (simp add: less_mult_imp_div_less)
  moreover have "c div 262144 < 5" using Cons.prems by (simp add: less_mult_imp_div_less)
  ultimately have "is_bytes (utf8_char c)"
    by (auto simp: utf8_char_def m)
  with Cons show ?case by simp
qed simp

lemma utf8_lead_bounds:
  assumes "utf8_lead b = Some (n, cp, lo, hi)" and "b < 256"
  shows "0x80 \<le> lo \<and> hi \<le> 0xbf \<and> (64 * cp + (hi - 0x80) + 1) * 64 ^ (n - 1) \<le> 0x110000"
proof -
  consider "0xc2 \<le> b" "b \<le> 0xdf" | "0xe0 \<le> b" "b \<le> 0xef" | "0xf0 \<le> b" "b \<le> 0xf4"
    using assms(1) by (auto simp: utf8_lead_def split: if_splits)
  then show ?thesis
  proof cases
    case 1
    have "b mod 32 < 32" by simp
    with 1 assms show ?thesis by (auto simp: utf8_lead_def)
  next
    case 2
    have "b mod 16 < 16" by simp
    with 2 assms show ?thesis by (auto simp: utf8_lead_def split: if_splits)
  next
    case 3
    then have "b = 0xf0 \<or> b = 0xf1 \<or> b = 0xf2 \<or> b = 0xf3 \<or> b = 0xf4" by linarith
    with assms show ?thesis by (auto simp: utf8_lead_def)
  qed
qed

lemma utf8_run_good:
  "is_bytes bs \<Longrightarrow> n = 0 \<or> (0x80 \<le> lo \<and> hi \<le> 0xbf \<and> (64 * cp + (hi - 0x80) + 1) * 64 ^ (n - 1) \<le> 0x110000) \<Longrightarrow>
    good_text (utf8_run n cp lo hi bs)"
proof (induction n cp lo hi bs rule: utf8_run.induct)
  case (2 cp lo hi b bs)
  show ?case
  proof (cases "b < 0x80")
    case False
    show ?thesis
    proof (cases "utf8_lead b")
      case (Some l)
      obtain n cp lo hi where l: "l = (n, cp, lo, hi)" by (cases l) auto
      have "b < 256" using 2(4) by simp
      from utf8_lead_bounds [OF Some [unfolded l] this] have "good_text (utf8_run n cp lo hi bs)"
        using 2(3) [OF False Some l [symmetric] refl refl] 2(4) by simp
      then show ?thesis using False Some l by simp
    qed (use 2 False in simp)
  qed (use 2 in simp)
next
  case (3 n cp lo hi b bs)
  show ?case
  proof (cases "b < lo \<or> b > hi")
    case False
    have b: "b mod 64 = b - 0x80" "b - 0x80 \<le> hi - 0x80" and bound: "(64 * cp + (hi - 0x80) + 1) * 64 ^ n \<le> 0x110000"
    proof -
      have "128 \<le> b" "b < 192" using False 3(5) by auto
      then have "b = 128 + (b - 128)" "b - 128 < 64" by simp_all
      then show "b mod 64 = b - 0x80" using tail_mod [of "b - 128"] by simp
      show "b - 0x80 \<le> hi - 0x80" using False by (intro diff_le_mono) simp
      show "(64 * cp + (hi - 0x80) + 1) * 64 ^ n \<le> 0x110000" using 3(5) by simp
    qed
    show ?thesis
    proof (cases "n = 0")
      case True
      then show ?thesis using False 3(2) [OF False] 3(4) b bound by simp
    next
      case n: False
      then obtain m where m: "n = Suc m" by (cases n) auto
      have "(64 * (64 * cp + b mod 64) + 63 + 1) * 64 ^ (n - 1) = (64 * cp + b mod 64 + 1) * 64 ^ n"
        by (simp add: m algebra_simps)
      also have "\<dots> \<le> (64 * cp + (hi - 0x80) + 1) * 64 ^ n"
        using b by (intro mult_le_mono) simp_all
      finally have "(64 * (64 * cp + b mod 64) + (0xbf - 0x80) + 1) * 64 ^ (n - 1) \<le> 0x110000"
        using bound by simp
      then show ?thesis using False n 3(3) [OF False n] 3(4) by simp
    qed
  qed (use 3 in simp)
qed simp

lemma utf8_decode_good: "is_bytes bs \<Longrightarrow> good_text (utf8_decode bs)"
  using utf8_run_good [of _ 0] is_bytes_drop [of bs 3] by (simp add: utf8_decode_def)

lemma good_text_lit [simp]: "good_text (lit s)"
proof -
  have "of_char c < (0x110000 :: nat)" for c
    using nat_of_char_less_256 [of c] by (rule order.strict_trans2) simp
  then show ?thesis by (auto simp: good_text_def lit_def)
qed

lemma good_text_nat [simp]: "good_text (nat_text n)"
proof (induction n rule: nat_text.induct)
  case (1 n)
  show ?case
  proof (cases "n < 10")
    case False
    have "48 + n mod 10 < 0x110000" using mod_less_divisor [of 10 n] by linarith
    with 1 False show ?thesis by (simp add: nat_text.simps [of n])
  qed (simp add: nat_text.simps [of n])
qed

lemma good_text_join: "good_text sep \<Longrightarrow> \<forall>p \<in> set ps. good_text p \<Longrightarrow> good_text (join_text sep ps)"
  by (induction sep ps rule: join_text.induct) auto

lemma good_text_split: "good_text s \<Longrightarrow> p \<in> set (split_char c s) \<Longrightarrow> good_text p"
proof (induction s arbitrary: p)
  case (Cons x s)
  have "good_text (hd (split_char c s))" using Cons by simp
  with Cons show ?case by (auto split: if_splits dest: list.set_sel(2) [rotated])
qed simp

lemma header_value_subset: "header_value name b s = Some v \<Longrightarrow> set v \<subseteq> set s"
proof (induction name b s rule: header_value.induct)
  case (2 name b c cs)
  let ?r = "dropWhile is_space (drop (length name) (c # cs))"
  have "set (takeWhile (\<lambda>x. \<not> is_space x) ?r) \<subseteq> set (c # cs)"
    using set_takeWhileD [of _ _ ?r] set_dropWhileD [of _ is_space "drop (length name) (c # cs)"]
      set_drop_subset [of "length name" "c # cs"] by blast
  with 2 show ?case by (auto simp: Let_def split: if_splits)
qed simp

lemma good_text_dotted [simp]: "good_text (dotted ip)"
  by (auto simp: dotted_def intro!: good_text_join)

lemma good_text_response:
  assumes "good_text method" and "good_text host" and "good_text (shown path)"
  shows "good_text (http_response method host path)"
proof -
  have "good_text (strip_port host)"
    using assms(2) set_dropWhileD [of _ is_digit_char "rev host"]
    by (auto simp: strip_port_def Let_def good_text_def dest: list.set_sel(2) [rotated])
  then have "good_text (strip_www (strip_port host))"
    by (auto simp: strip_www_def good_text_def dest: in_set_dropD)
  then show ?thesis
    using assms
    by (auto simp: http_response_def http_parts_def Let_def line_def CRLF_def intro!: good_text_join)
qed

lemma base64_char_good: "k < 64 \<Longrightarrow> base64_char k < 0x110000"
  by (auto simp: base64_char_def)

lemma base64_sixths:
  fixes x y z :: nat
  assumes "x < 256" and "y < 256" and "z < 256"
  shows "x div 4 < 64" "x mod 4 * 16 + y div 16 < 64" "y mod 16 * 4 + z div 64 < 64"
proof -
  have "x mod 4 \<le> 3" "y mod 16 \<le> 15" by (simp_all add: less_Suc_eq_le [symmetric])
  moreover have "y div 16 < 16" "z div 64 < 4" using assms by (simp_all add: less_mult_imp_div_less)
  ultimately show "x mod 4 * 16 + y div 16 < 64" "y mod 16 * 4 + z div 64 < 64" by simp_all
  show "x div 4 < 64" using assms by (simp add: less_mult_imp_div_less)
qed

lemma good_text_base64: "is_bytes bs \<Longrightarrow> good_text (base64 bs)"
proof (induction bs rule: base64.induct)
  case (2 x)
  then show ?case using base64_sixths [of x 0 0] by (simp add: base64_char_good)
next
  case (3 x y)
  then show ?case using base64_sixths [of x y 0] by (simp add: base64_char_good)
next
  case (4 x y z rest)
  then show ?case using base64_sixths [of x y z] by (simp add: base64_char_good)
qed simp

definition op_bytes :: "conn_op \<Rightarrow> bool" where
  "op_bytes op \<longleftrightarrow> (case op of Write bs \<Rightarrow> is_bytes bs | End \<Rightarrow> True)"

lemma op_bytes_simps [simp]: "op_bytes (Write bs) = is_bytes bs" "op_bytes End"
  by (simp_all add: op_bytes_def)

lemma http_data_types:
  assumes "good_text buf" and "is_bytes data" and "http_data buf data = (ops, buf')"
  shows "list_all op_bytes ops \<and> good_text buf'"
proof -
  let ?buf = "buf @ utf8_decode data"
  have buf: "good_text ?buf" using assms(1,2) utf8_decode_good by simp
  have "good_text (case index_of CRLF ?buf of None \<Rightarrow> ?buf | Some i \<Rightarrow> take i ?buf)"
    using good_text_subset [OF buf set_take_subset] buf by (simp split: option.split)
  then have words: "good_text w" if "w \<in> set (http_words ?buf)" for w
    using that good_text_split unfolding http_words_def by blast
  have host: "good_text h" if "header_value (lit ''host:'') True (take stop ?buf) = Some h" for h stop
    using header_value_subset [OF that] buf by (auto simp: good_text_def dest: in_set_takeD)
  have "good_text (hd (http_words ?buf))" by (rule words) (simp add: http_words_def)
  moreover have "good_text (http_words ?buf ! 1)" if "length (http_words ?buf) > 1"
    by (rule words) (use that in simp)
  ultimately have "list_all op_bytes (http_request ?buf stop)" for stop
    using host by (auto simp: http_request_def Let_def shown_def intro!: utf8_encode_bytes good_text_response split: option.splits)
  then show ?thesis using assms(3) buf by (auto simp: http_data_def Let_def split: option.splits)
qed

lemma is_bytes_be [simp]: "is_bytes (be16 v)" "is_bytes (be32 v)"
  by (simp_all add: be16_def be32_def)

lemma is_bytes_concat [simp]: "is_bytes (concat xss) \<longleftrightarrow> (\<forall>xs \<in> set xss. is_bytes xs)"
  by (auto simp: is_bytes_def)

lemma xor_byte: "x < 256 \<Longrightarrow> y < 256 \<Longrightarrow> x XOR y < 256" for x y :: nat
proof -
  assume "x < 256" "y < 256"
  then have "take_bit 8 x = x" "take_bit 8 y = y" by (simp_all add: take_bit_nat_eq_self_iff)
  then have "x XOR y = take_bit 8 (x XOR y)" by simp
  also have "\<dots> < 2 ^ 8" by (rule take_bit_nat_less_exp)
  finally show ?thesis by simp
qed

lemma is_bytes_unmask: "is_bytes key \<Longrightarrow> length key = 4 \<Longrightarrow> is_bytes bs \<Longrightarrow> is_bytes (ws_unmask key bs)"
  by (auto simp: ws_unmask_def is_bytes_def intro!: xor_byte)

definition ws_frame_ok :: "ws_frame \<Rightarrow> bool" where
  "ws_frame_ok fr \<longleftrightarrow> ws_opcode fr < 16 \<and> is_bytes (ws_payload fr)"

lemma ws_get_types: "is_bytes buf \<Longrightarrow> ws_get buf = Some (fr, n) \<Longrightarrow> ws_frame_ok fr"
  by (auto simp: ws_get_alt Let_def ws_frame_ok_def is_bytes_slice intro!: is_bytes_unmask split: if_splits)

lemma ws_put_bytes: "t < 16 \<Longrightarrow> is_bytes payload \<Longrightarrow> op_bytes (ws_put t payload)"
  by (auto simp: ws_put_def Let_def)

lemma ws_handle_types:
  "list_all is_bytes parts \<Longrightarrow> ws_frame_ok fr \<Longrightarrow> ws_handle parts fr = (ops, parts', go) \<Longrightarrow>
    list_all op_bytes ops \<and> list_all is_bytes parts'"
  by (auto simp: ws_handle_def Let_def ws_frame_ok_def list_all_iff intro!: ws_put_bytes is_bytes_take split: if_splits)

lemma drain_types:
  "is_bytes buf \<Longrightarrow> list_all is_bytes parts \<Longrightarrow> drain ws_get ws_handle parts buf = (ops, parts', buf') \<Longrightarrow>
    list_all op_bytes ops \<and> list_all is_bytes parts' \<and> is_bytes buf'"
proof (induction ws_get ws_handle parts buf arbitrary: ops parts' buf' rule: drain.induct)
  case (1 parts buf)
  show ?case
  proof (cases "ws_get buf")
    case (Some r)
    obtain fr n where r: "r = (fr, n)" by fastforce
    obtain ops1 parts1 go where h: "ws_handle parts fr = (ops1, parts1, go)" by (metis prod_cases3)
    have ok: "list_all op_bytes ops1 \<and> list_all is_bytes parts1"
      using ws_handle_types [OF 1(3) ws_get_types h] 1(2) Some r by simp
    obtain ops2 parts2 buf2 where d: "drain ws_get ws_handle parts1 (drop n buf) = (ops2, parts2, buf2)"
      by (metis prod_cases3)
    show ?thesis
    proof (cases "0 < n \<and> n \<le> length buf \<and> go")
      case True
      then have "list_all op_bytes ops2 \<and> list_all is_bytes parts2 \<and> is_bytes buf2"
        using 1(1) [OF Some r [symmetric] _ h [symmetric] refl refl] d ok is_bytes_drop [OF 1(2), of n] by auto
      with True ok 1(4) Some r h d show ?thesis by (auto simp: drain.simps [of _ _ parts buf])
    next
      case False
      with ok 1 Some r h is_bytes_drop [OF 1(2), of n] show ?thesis
        by (auto simp: drain.simps [of _ _ parts buf] split: if_splits)
    qed
  qed (use 1 in \<open>simp add: drain.simps [of _ _ parts buf]\<close>)
qed

text \<open>A connection's state, well-formed.\<close>

definition ws_typed :: "ws_conn \<Rightarrow> bool" where
  "ws_typed c \<longleftrightarrow> (case c of Handshake head \<Rightarrow> good_text head
     | Upgraded parts buf \<Rightarrow> list_all is_bytes parts \<and> is_bytes buf)"

lemma ws_frames_types:
  "list_all is_bytes parts \<Longrightarrow> is_bytes buf \<Longrightarrow> ws_frames parts buf = (ops, c) \<Longrightarrow> list_all op_bytes ops \<and> ws_typed c"
  by (auto simp: ws_frames_def ws_typed_def dest: drain_types split: prod.splits)

lemma ws_data_types:
  assumes "ws_typed c" and "is_bytes data" and "ws_data c data = (ops, c')"
  shows "list_all op_bytes ops \<and> ws_typed c'"
proof (cases c)
  case (Upgraded parts buf)
  then show ?thesis
    using assms ws_frames_types [of parts "buf @ data" ops c'] by (simp add: ws_data_def ws_typed_def)
next
  case (Handshake head)
  let ?head = "head @ utf8_decode data"
  have head: "good_text ?head" using assms(1,2) utf8_decode_good by (simp add: Handshake ws_typed_def)
  show ?thesis
  proof (cases "index_of (CRLF @ CRLF) ?head")
    case None
    then show ?thesis using assms(3) head by (auto simp: ws_data_def Handshake ws_typed_def Let_def)
  next
    case (Some stop)
    show ?thesis
    proof (cases "header_value (lit ''sec-websocket-key:'') True (take stop ?head)")
      case None
      then show ?thesis
        using assms(3) head Some
        by (auto simp: ws_data_def Handshake ws_typed_def Let_def shown_def intro!: utf8_encode_bytes good_text_response)
    next
      case key: (Some key)
      have "good_text key" using header_value_subset [OF key] head by (auto simp: good_text_def dest: in_set_takeD)
      have "is_bytes (sha1 bs)" for bs by (auto simp: sha1_def Let_def split: prod.splits)
      then have "good_text (ws_upgrade key)"
        by (auto simp: ws_upgrade_def websocket_accept_def CRLF_def intro!: good_text_join good_text_base64)
      then have up: "is_bytes (utf8_encode (ws_upgrade key))" by (rule utf8_encode_bytes)
      obtain ops1 c1 where f: "ws_frames [] (utf8_encode (drop (stop + 4) ?head)) = (ops1, c1)" by fastforce
      have "is_bytes (utf8_encode (drop (stop + 4) ?head))"
        using good_text_subset [OF head set_drop_subset] by (rule utf8_encode_bytes)
      from ws_frames_types [OF _ this f] up f assms(3) Some key show ?thesis
        by (auto simp: ws_data_def Handshake Let_def)
    qed
  qed
qed



end
