(* ===== verification/Lan_Ftp.thy ===== *)
theory Lan_Ftp
  imports Lan_Stream "HOL-Library.AList" "HOL-Library.List_Lexorder"
begin

text \<open>
  The LAN's FTP server (host/lan_services.mjs): one tree of files that every session shares, a
  control connection for each session, and data connections, which all come to one port and go to the
  transfers that wait, first come first served. What is only logged is left out.
\<close>

section \<open>The state\<close>

definition FTP_DATA_PORT :: nat where "FTP_DATA_PORT = 50021"

text \<open>What a path is mapped to. A rename of what has gone meanwhile maps the new path to \<open>undefined\<close>.\<close>

datatype ftp_node = Directory | File "nat list" | Undefined

type_synonym ftp_tree = "(text \<times> ftp_node) list"

text \<open>A transfer on a control connection that waits for its data connection, or has it.\<close>

datatype ftp_transfer = Sending nat "nat list" | Receiving nat "text" bool

record ftp =
  tree :: ftp_tree
  waiting :: "ftp_transfer list"
  early :: "nat list"
  receiving :: "(nat \<times> (nat \<times> text \<times> bool \<times> nat list list)) list"

record ftp_session =
  cwd :: "text"
  renaming :: "text option"

definition FTP_FILES :: ftp_tree where
  "FTP_FILES =
    [(lit ''/readme.txt'', File (utf8_encode
       (lit ''This is the FTP server of the page's simulated network, at'' @ [10] @
        lit ''192.0.2.2, on the board's own clock. Nothing here left the page.'' @ [10]))),
     (lit ''/pub'', Directory),
     (lit ''/pub/hello.txt'', File (utf8_encode (lit ''Hello from FTP on the page.'' @ [10])))]"

definition new_ftp :: ftp where
  "new_ftp = \<lparr> tree = FTP_FILES, waiting = [], early = [], receiving = [] \<rparr>"

definition new_ftp_session :: ftp_session where
  "new_ftp_session = \<lparr> cwd = [47], renaming = None \<rparr>"

section \<open>Paths\<close>

definition arg_text :: "text option \<Rightarrow> text" where
  "arg_text arg = (case arg of None \<Rightarrow> lit ''undefined'' | Some s \<Rightarrow> s)"

fun path_parts :: "text list \<Rightarrow> text list \<Rightarrow> text list" where
  "path_parts out [] = out"
| "path_parts out (p # ps) =
    (if p = lit ''..'' then path_parts (butlast out) ps
     else if p \<noteq> [] \<and> p \<noteq> lit ''.'' then path_parts (out @ [p]) ps
     else path_parts out ps)"

definition ftp_resolve :: "text \<Rightarrow> text option \<Rightarrow> text" where
  "ftp_resolve dir arg =
    (let name = (case arg of
           Some s \<Rightarrow> if starts_with [47] s then s else dir @ [47] @ s
         | None \<Rightarrow> dir @ [47])
     in 47 # join_text [47] (path_parts [] (split_char 47 name)))"

definition is_dir :: "ftp_tree \<Rightarrow> text \<Rightarrow> bool" where
  "is_dir t path \<longleftrightarrow> path = [47] \<or> map_of t path = Some Directory"

definition has_path :: "ftp_tree \<Rightarrow> text \<Rightarrow> bool" where
  "has_path t path \<longleftrightarrow> map_of t path \<noteq> None"

text \<open>The order of \<open>sort()\<close> is that of UTF-16 code units.\<close>

definition utf16 :: "text \<Rightarrow> nat list" where
  "utf16 s = concat (map (\<lambda>c. if c < 0x10000 then [c]
     else [0xd800 + (c - 0x10000) div 1024, 0xdc00 + (c - 0x10000) mod 1024]) s)"

definition ftp_children :: "ftp_tree \<Rightarrow> text \<Rightarrow> text list" where
  "ftp_children t dir =
    (let pre = (if dir = [47] then [47] else dir @ [47])
     in sort_key utf16 (filter (\<lambda>k. k \<noteq> dir \<and> starts_with pre k \<and> 47 \<notin> set (drop (length pre) k)) (map fst t)))"

definition base_name :: "text \<Rightarrow> text" where
  "base_name path = last (split_char 47 path)"

text \<open>The size of a file; of \<open>undefined\<close> there is no length to read, and reading it throws.\<close>

definition node_size :: "ftp_tree \<Rightarrow> text \<Rightarrow> js_error + nat" where
  "node_size t path = (case map_of t path of Some (File bs) \<Rightarrow> Inr (length bs) | _ \<Rightarrow> Inl TypeError)"

definition pad_start :: "nat \<Rightarrow> text \<Rightarrow> text" where
  "pad_start w s = replicate (w - length s) 32 @ s"

definition list_line :: "ftp_tree \<Rightarrow> text \<Rightarrow> js_error + text" where
  "list_line t path = (case (if is_dir t path then Inr 0 else node_size t path) of
      Inl err \<Rightarrow> Inl err
    | Inr n \<Rightarrow> Inr ((if is_dir t path then lit ''drwxr-xr-x'' else lit ''-rw-r--r--'') @ lit '' 1 lan lan '' @
        pad_start 8 (nat_text n) @ [32] @ lit ''Jan  1  2026 '' @ base_name path @ CRLF))"

fun list_lines :: "ftp_tree \<Rightarrow> text list \<Rightarrow> js_error + text" where
  "list_lines t [] = Inr []"
| "list_lines t (e # es) = (case list_line t e of
      Inl err \<Rightarrow> Inl err
    | Inr l \<Rightarrow> (case list_lines t es of Inl err \<Rightarrow> Inl err | Inr ls \<Rightarrow> Inr (l @ ls)))"

section \<open>Transfers\<close>

definition ftp_reply :: "nat \<Rightarrow> text \<Rightarrow> net_out" where
  "ftp_reply c s = Tcp c (Write (utf8_encode (s @ CRLF)))"

text \<open>A transfer that has its data connection.\<close>

definition start_transfer :: "ftp_transfer \<Rightarrow> nat \<Rightarrow> ftp \<Rightarrow> net_out list \<times> ftp" where
  "start_transfer tr data f = (case tr of
      Sending c bytes \<Rightarrow> ([Tcp data (Write bytes), Tcp data End, ftp_reply c (lit ''226 Transfer complete'')], f)
    | Receiving c path appe \<Rightarrow> ([], f\<lparr>receiving := AList.update data (c, path, appe, []) (receiving f)\<rparr>))"

definition with_data :: "ftp_transfer \<Rightarrow> ftp \<Rightarrow> net_out list \<times> ftp" where
  "with_data tr f = (case early f of
      data # rest \<Rightarrow> start_transfer tr data (f\<lparr>early := rest\<rparr>)
    | [] \<Rightarrow> ([], f\<lparr>waiting := waiting f @ [tr]\<rparr>))"

definition ftp_data_accept :: "nat \<Rightarrow> ftp \<Rightarrow> net_out list \<times> ftp" where
  "ftp_data_accept data f = (case waiting f of
      tr # rest \<Rightarrow> start_transfer tr data (f\<lparr>waiting := rest\<rparr>)
    | [] \<Rightarrow> ([], f\<lparr>early := early f @ [data]\<rparr>))"

definition ftp_data_in :: "nat \<Rightarrow> nat list \<Rightarrow> ftp \<Rightarrow> ftp" where
  "ftp_data_in data bs f = (case map_of (receiving f) data of
      None \<Rightarrow> f
    | Some (c, path, appe, parts) \<Rightarrow>
        f\<lparr>receiving := AList.update data (c, path, appe, parts @ [bs]) (receiving f)\<rparr>)"

definition ftp_data_end :: "nat \<Rightarrow> ftp \<Rightarrow> net_out list \<times> ftp" where
  "ftp_data_end data f = (case map_of (receiving f) data of
      None \<Rightarrow> ([], f)
    | Some (c, path, appe, parts) \<Rightarrow>
        let before = (if appe \<and> \<not> is_dir (tree f) path
              then (case map_of (tree f) path of Some (File bs) \<Rightarrow> bs | _ \<Rightarrow> []) else [])
        in ([ftp_reply c (lit ''226 Transfer complete'')],
            f\<lparr>tree := AList.update path (File (before @ concat parts)) (tree f)\<rparr>))"

section \<open>Commands\<close>

definition ftp_send :: "nat \<Rightarrow> nat list \<Rightarrow> text \<Rightarrow> ftp \<Rightarrow> net_out list \<times> ftp" where
  "ftp_send c bytes what f =
    (let (outs, f) = with_data (Sending c bytes) f
     in (ftp_reply c (lit ''150 Opening data connection for '' @ what) # outs, f))"

definition ftp_receive :: "nat \<Rightarrow> text \<Rightarrow> bool \<Rightarrow> ftp \<Rightarrow> net_out list \<times> ftp" where
  "ftp_receive c path appe f =
    (let (outs, f) = with_data (Receiving c path appe) f
     in (ftp_reply c (lit ''150 Ready to receive '' @ path) # outs, f))"

type_synonym ftp_result = "js_error + net_out list \<times> ftp \<times> ftp_session"

text \<open>A reply that is all there is to it.\<close>

definition just_reply :: "nat \<Rightarrow> text \<Rightarrow> ftp \<Rightarrow> ftp_session \<Rightarrow> ftp_result" where
  "just_reply c s f u = Inr ([ftp_reply c s], f, u)"

definition ftp_list :: "nat \<Rightarrow> bool \<Rightarrow> text option \<Rightarrow> ftp \<Rightarrow> ftp_session \<Rightarrow> ftp_result" where
  "ftp_list c long arg f u =
    (let words = (case arg of None \<Rightarrow> [] | Some s \<Rightarrow> filter (\<lambda>a. \<not> starts_with [45] a) (split_char 32 s));
         target = ftp_resolve (cwd u) (if words = [] then None else Some (last words))
     in if \<not> is_dir (tree f) target \<and> \<not> has_path (tree f) target
        then just_reply c (lit ''550 '' @ arg_text arg @ lit '': not found'') f u
        else (let entries = (if is_dir (tree f) target then ftp_children (tree f) target else [target])
          in case (if long then list_lines (tree f) entries
                   else Inr (concat (map (\<lambda>e. base_name e @ CRLF) entries))) of
              Inl err \<Rightarrow> Inl err
            | Inr listing \<Rightarrow>
                (let (outs, f) = ftp_send c (utf8_encode listing) target f in Inr (outs, f, u))))"

definition ftp_retr :: "nat \<Rightarrow> text option \<Rightarrow> text \<Rightarrow> ftp \<Rightarrow> ftp_session \<Rightarrow> ftp_result" where
  "ftp_retr c arg path f u = (if is_dir (tree f) path then just_reply c (lit ''550 '' @ arg_text arg @ lit '': no such file'') f u
     else case map_of (tree f) path of
       None \<Rightarrow> just_reply c (lit ''550 '' @ arg_text arg @ lit '': no such file'') f u
     | Some (File bs) \<Rightarrow>
         (let (outs, f) = ftp_send c bs (path @ lit '' ('' @ nat_text (length bs) @ lit '' bytes)'') f
          in Inr (outs, f, u))
     | Some _ \<Rightarrow> Inl TypeError)"

definition ftp_size :: "nat \<Rightarrow> text option \<Rightarrow> text \<Rightarrow> ftp \<Rightarrow> ftp_session \<Rightarrow> ftp_result" where
  "ftp_size c arg path f u =
    (if is_dir (tree f) path \<or> \<not> has_path (tree f) path
     then just_reply c (lit ''550 '' @ arg_text arg @ lit '': no such file'') f u
     else case node_size (tree f) path of
       Inl err \<Rightarrow> Inl err
     | Inr n \<Rightarrow> just_reply c (lit ''213 '' @ nat_text n) f u)"

definition ftp_stor :: "nat \<Rightarrow> bool \<Rightarrow> text option \<Rightarrow> text \<Rightarrow> ftp \<Rightarrow> ftp_session \<Rightarrow> ftp_result" where
  "ftp_stor c appe arg path f u =
    (if is_dir (tree f) path \<or> \<not> is_dir (tree f) (ftp_resolve (cwd u) (Some (arg_text arg @ lit ''/..'')))
     then just_reply c (lit ''553 '' @ arg_text arg @ lit '': cannot write here'') f u
     else (let (outs, f) = ftp_receive c path appe f in Inr (outs, f, u)))"

definition ftp_rmd :: "nat \<Rightarrow> text option \<Rightarrow> text \<Rightarrow> ftp \<Rightarrow> ftp_session \<Rightarrow> ftp_result" where
  "ftp_rmd c arg path f u =
    (if \<not> is_dir (tree f) path \<or> path = [47] \<or> ftp_children (tree f) path \<noteq> []
     then just_reply c (lit ''550 '' @ arg_text arg @ lit '': not an empty directory'') f u
     else just_reply c (lit ''250 Removed '' @ path) (f\<lparr>tree := AList.delete path (tree f)\<rparr>) u)"

text \<open>\<^verbatim>\<open>tree.set(path, tree.get(renaming))\<close>, whatever there is of it by then.\<close>

definition ftp_rnto :: "nat \<Rightarrow> text \<Rightarrow> ftp \<Rightarrow> ftp_session \<Rightarrow> ftp_result" where
  "ftp_rnto c path f u = (case renaming u of
      None \<Rightarrow> just_reply c (lit ''503 Nothing to rename, or the name is taken'') f u
    | Some old \<Rightarrow>
        if has_path (tree f) path
        then just_reply c (lit ''503 Nothing to rename, or the name is taken'') f u
        else (let node = (case map_of (tree f) old of Some n \<Rightarrow> n | None \<Rightarrow> Undefined)
          in just_reply c (lit ''250 Renamed to '' @ path)
               (f\<lparr>tree := AList.delete old (AList.update path node (tree f))\<rparr>) (u\<lparr>renaming := None\<rparr>)))"

definition ftp_command :: "nat \<Rightarrow> text \<Rightarrow> text option \<Rightarrow> ftp \<Rightarrow> ftp_session \<Rightarrow> ftp_result" where
  "ftp_command c cmd arg f u =
    (let path = ftp_resolve (cwd u) arg; t = tree f; shown = arg_text arg
     in if cmd = lit ''USER'' then just_reply c (lit ''331 Any password will do'') f u
        else if cmd = lit ''PASS'' then just_reply c (lit ''230 Logged in'') f u
        else if cmd = lit ''SYST'' then just_reply c (lit ''215 UNIX Type: L8'') f u
        else if cmd = lit ''FEAT'' then just_reply c (lit ''211-Features:'' @ CRLF @ lit '' PASV'' @ CRLF @
            lit '' SIZE'' @ CRLF @ lit ''211 End'') f u
        else if cmd = lit ''PWD'' then just_reply c (lit ''257 \"'' @ cwd u @ lit ''\" is the current directory'') f u
        else if cmd = lit ''CWD'' then
          (if \<not> is_dir t path then just_reply c (lit ''550 '' @ shown @ lit '': no such directory'') f u
           else just_reply c (lit ''250 Directory is now '' @ path) f (u\<lparr>cwd := path\<rparr>))
        else if cmd = lit ''CDUP'' then
          (let up = ftp_resolve (cwd u) (Some (lit ''..''))
           in just_reply c (lit ''250 Directory is now '' @ up) f (u\<lparr>cwd := up\<rparr>))
        else if cmd = lit ''TYPE'' \<or> cmd = lit ''MODE'' \<or> cmd = lit ''STRU'' then
          just_reply c (lit ''200 '' @ cmd @ lit '' set to '' @ shown) f u
        else if cmd = lit ''NOOP'' then just_reply c (lit ''200 OK'') f u
        else if cmd = lit ''OPTS'' then
          (if map_option lower arg = Some (lit ''utf8 on'') then just_reply c (lit ''200 UTF8 set to on'') f u
           else just_reply c (lit ''501 OPTS '' @ shown @ lit '' is not supported here'') f u)
        else if cmd = lit ''PASV'' then
          just_reply c (lit ''227 Entering Passive Mode ('' @ join_text (lit '','') (map nat_text LAN_IP) @ lit '','' @
            nat_text (FTP_DATA_PORT div 256) @ lit '','' @ nat_text (FTP_DATA_PORT mod 256) @ lit '')'') f u
        else if cmd = lit ''EPSV'' then
          just_reply c (lit ''229 Entering Extended Passive Mode (|||'' @ nat_text FTP_DATA_PORT @ lit ''|)'') f u
        else if cmd = lit ''LIST'' \<or> cmd = lit ''NLST'' then ftp_list c (cmd = lit ''LIST'') arg f u
        else if cmd = lit ''RETR'' then ftp_retr c arg path f u
        else if cmd = lit ''SIZE'' then ftp_size c arg path f u
        else if cmd = lit ''STOR'' \<or> cmd = lit ''APPE'' then ftp_stor c (cmd = lit ''APPE'') arg path f u
        else if cmd = lit ''DELE'' then
          (if is_dir t path \<or> \<not> has_path t path then just_reply c (lit ''550 '' @ shown @ lit '': no such file'') f u
           else just_reply c (lit ''250 Deleted '' @ path) (f\<lparr>tree := AList.delete path t\<rparr>) u)
        else if cmd = lit ''MKD'' then
          (if has_path t path \<or> path = [47] then just_reply c (lit ''550 '' @ shown @ lit '': exists'') f u
           else just_reply c (lit ''257 \"'' @ path @ lit ''\" created'') (f\<lparr>tree := AList.update path Directory t\<rparr>) u)
        else if cmd = lit ''RMD'' then ftp_rmd c arg path f u
        else if cmd = lit ''RNFR'' then
          (if \<not> has_path t path then just_reply c (lit ''550 '' @ shown @ lit '': not found'') f u
           else just_reply c (lit ''350 Ready for the new name'') f (u\<lparr>renaming := Some path\<rparr>))
        else if cmd = lit ''RNTO'' then ftp_rnto c path f u
        else if cmd = lit ''QUIT'' then Inr ([ftp_reply c (lit ''221 Goodbye''), Tcp c End], f, u)
        else just_reply c (lit ''502 '' @ cmd @ lit '' is not implemented here'') f u)"

text \<open>A control connection's data: each whole line is a command. What a command throws ends the loop.\<close>

definition split_command :: "text \<Rightarrow> text \<times> text option" where
  "split_command l = (case index_of [32] l of
      None \<Rightarrow> (upper l, None)
    | Some i \<Rightarrow> (upper (take i l), Some (drop (i + 1) l)))"

function ftp_lines :: "nat \<Rightarrow> text \<Rightarrow> ftp \<Rightarrow> ftp_session \<Rightarrow> js_error option \<times> net_out list \<times> ftp \<times> ftp_session \<times> text" where
  "ftp_lines c buf f u = (case index_of CRLF buf of
      None \<Rightarrow> (None, [], f, u, buf)
    | Some i \<Rightarrow>
        let (cmd, arg) = split_command (take i buf)
        in (case ftp_command c cmd arg f u of
            Inl err \<Rightarrow> (Some err, [], f, u, drop (i + 2) buf)
          | Inr (outs, f, u) \<Rightarrow>
              let (err, outs', f, u, buf) = ftp_lines c (drop (i + 2) buf) f u in (err, outs @ outs', f, u, buf)))"
  by pat_completeness auto
termination
proof (relation "measure (\<lambda>(_, buf, _, _). length buf)", simp, goal_cases)
  case (1 c buf)
  then show ?case by (cases buf) (auto simp: CRLF_def)
qed

declare ftp_lines.simps [simp del]

definition ftp_control :: "nat \<Rightarrow> ftp \<Rightarrow> ftp_session \<times> text \<Rightarrow> nat list \<Rightarrow>
    js_error option \<times> net_out list \<times> ftp \<times> ftp_session \<times> text" where
  "ftp_control c f = (\<lambda>(u, buf) data. ftp_lines c (buf @ utf8_decode data) f u)"

definition ftp_accept :: "nat \<Rightarrow> net_out list" where
  "ftp_accept c = [ftp_reply c (lit ''220 FTP on the page's simulated network, at 192.0.2.2'')]"

section \<open>The server\<close>

text \<open>
  What reaches the two ports: a control connection is accepted, has data, or is closed, which nothing
  listens for; a data connection is accepted, has data, or is closed. A session is kept for as long as
  its connection's closures are, so a control connection that was never accepted has no handler.
\<close>

datatype ftp_event =
    Control_accept nat
  | Control_data nat "nat list"
  | Control_end nat
  | Data_accept nat
  | Data_in nat "nat list"
  | Data_end nat

record ftp_server =
  files :: ftp
  sessions :: "nat \<Rightarrow> (ftp_session \<times> text) option"

definition new_ftp_server :: ftp_server where
  "new_ftp_server = \<lparr> files = new_ftp, sessions = (\<lambda>_. None) \<rparr>"

definition ftp_step :: "ftp_event \<Rightarrow> ftp_server \<Rightarrow> js_error option \<times> net_out list \<times> ftp_server" where
  "ftp_step e s = (case e of
      Control_accept c \<Rightarrow>
        (None, ftp_accept c, s\<lparr>sessions := (sessions s)(c \<mapsto> (new_ftp_session, []))\<rparr>)
    | Control_data c bytes \<Rightarrow> (case sessions s c of
          None \<Rightarrow> (None, [], s)
        | Some u \<Rightarrow>
            (let (err, outs, f, u) = ftp_control c (files s) u bytes
             in (err, outs, s\<lparr>files := f, sessions := (sessions s)(c \<mapsto> u)\<rparr>)))
    | Control_end c \<Rightarrow> (None, [], s)
    | Data_accept d \<Rightarrow> (let (outs, f) = ftp_data_accept d (files s) in (None, outs, s\<lparr>files := f\<rparr>))
    | Data_in d bytes \<Rightarrow> (None, [], s\<lparr>files := ftp_data_in d bytes (files s)\<rparr>)
    | Data_end d \<Rightarrow> (let (outs, f) = ftp_data_end d (files s) in (None, outs, s\<lparr>files := f\<rparr>)))"

text \<open>A run, until a command throws.\<close>

fun ftp_run :: "ftp_event list \<Rightarrow> ftp_server \<Rightarrow> js_error option \<times> net_out list \<times> ftp_server" where
  "ftp_run [] s = (None, [], s)"
| "ftp_run (e # es) s = (case ftp_step e s of
      (Some err, outs, s) \<Rightarrow> (Some err, outs, s)
    | (None, outs, s) \<Rightarrow> (let (err, outs', s) = ftp_run es s in (err, outs @ outs', s)))"

end
