(* ===== verification/Lan_Ftp_Proofs.thy ===== *)
theory Lan_Ftp_Proofs
  imports Lan_Ftp Lan_Tcp
begin

text \<open>
  What the FTP server keeps: its paths are canonical, so nothing names a place outside its tree, and
  never do a transfer and a data connection wait for each other; what is stored is what is retrieved;
  and where it goes wrong.
\<close>

section \<open>Canonical paths\<close>

definition name_ok :: "text \<Rightarrow> bool" where
  "name_ok q \<longleftrightarrow> q \<noteq> [] \<and> q \<noteq> lit ''.'' \<and> q \<noteq> lit ''..'' \<and> 47 \<notin> set q"

definition canonical :: "text \<Rightarrow> bool" where
  "canonical p \<longleftrightarrow> (\<exists>ps. list_all name_ok ps \<and> p = 47 # join_text [47] ps)"

lemma path_parts_ok:
  "list_all (\<lambda>q. 47 \<notin> set q) ps \<Longrightarrow> list_all name_ok out \<Longrightarrow> list_all name_ok (path_parts out ps)"
proof (induction out ps rule: path_parts.induct)
  case (2 out p ps)
  have "list_all name_ok (butlast out)" using 2(5) by (auto simp: list_all_iff dest: in_set_butlastD)
  moreover have "list_all name_ok (out @ [p])" if "p \<noteq> lit ''..''" "p \<noteq> [] \<and> p \<noteq> lit ''.''"
  proof -
    have "name_ok p" using 2(4) that by (simp add: name_ok_def)
    then show ?thesis using 2(5) by simp
  qed
  ultimately show ?case using 2 by simp
qed simp

lemma resolve_canonical [simp]: "canonical (ftp_resolve dir arg)"
proof -
  have "list_all name_ok (path_parts [] (split_char 47 s))" for s
    by (rule path_parts_ok) (auto simp: list_all_iff dest: split_char_no_sep)
  then show ?thesis by (auto simp: canonical_def ftp_resolve_def Let_def)
qed

lemma canonical_root [simp]: "canonical [47]"
  unfolding canonical_def by (rule exI [of _ "[]"]) simp

section \<open>The invariant\<close>

definition transfer_ok :: "ftp_transfer \<Rightarrow> bool" where
  "transfer_ok tr \<longleftrightarrow> (case tr of Sending c bs \<Rightarrow> True | Receiving c p a \<Rightarrow> canonical p)"

definition tree_ok :: "ftp_tree \<Rightarrow> bool" where
  "tree_ok t \<longleftrightarrow> distinct (map fst t) \<and> (\<forall>p \<in> fst ` set t. canonical p)"

definition ftp_ok :: "ftp \<Rightarrow> bool" where
  "ftp_ok f \<longleftrightarrow> tree_ok (tree f) \<and> (waiting f = [] \<or> early f = []) \<and> list_all transfer_ok (waiting f) \<and>
    (\<forall>(d, c, p, a, bs) \<in> set (receiving f). canonical p)"

definition ftp_session_ok :: "ftp_session \<Rightarrow> bool" where
  "ftp_session_ok u \<longleftrightarrow> canonical (cwd u) \<and> (\<forall>p. renaming u = Some p \<longrightarrow> canonical p)"

lemma tree_ok_update: "tree_ok t \<Longrightarrow> canonical p \<Longrightarrow> tree_ok (AList.update p v t)"
  by (auto simp: tree_ok_def distinct_update dom_update)

lemma tree_ok_delete: "tree_ok t \<Longrightarrow> tree_ok (AList.delete p t)"
proof -
  have "set (AList.delete p t) \<subseteq> set t" by (auto simp: AList.delete_eq)
  then show "tree_ok t \<Longrightarrow> tree_ok (AList.delete p t)" by (auto simp: tree_ok_def distinct_delete)
qed

lemma receiving_update:
  "\<forall>(d, c, p, a, bs) \<in> set rs. canonical p \<Longrightarrow> canonical p \<Longrightarrow>
    \<forall>(d, c, p, a, bs) \<in> set (AList.update d (c, p, a, bs) rs). canonical p"
  by (induction rs) auto

lemma start_transfer_ok:
  assumes "ftp_ok f" and "transfer_ok tr"
  shows "ftp_ok (snd (start_transfer tr d f))"
proof (cases tr)
  case (Receiving c p a)
  then show ?thesis
    using assms receiving_update [of "receiving f" p d c a "[]"]
    by (simp add: start_transfer_def ftp_ok_def transfer_ok_def)
qed (use assms in \<open>simp add: start_transfer_def\<close>)

lemma with_data_ok: "ftp_ok f \<Longrightarrow> transfer_ok tr \<Longrightarrow> ftp_ok (snd (with_data tr f))"
proof (cases "early f")
  case (Cons d rest)
  assume "ftp_ok f" "transfer_ok tr"
  then have "ftp_ok (f\<lparr>early := rest\<rparr>)" by (auto simp: ftp_ok_def Cons)
  then show ?thesis using \<open>transfer_ok tr\<close> by (simp add: with_data_def Cons start_transfer_ok)
qed (simp add: with_data_def ftp_ok_def)

lemma data_accept_ok: "ftp_ok f \<Longrightarrow> ftp_ok (snd (ftp_data_accept d f))"
proof (cases "waiting f")
  case (Cons tr rest)
  assume "ftp_ok f"
  then have "ftp_ok (f\<lparr>waiting := rest\<rparr>)" "transfer_ok tr" by (auto simp: ftp_ok_def Cons)
  then show ?thesis by (simp add: ftp_data_accept_def Cons start_transfer_ok)
qed (simp add: ftp_data_accept_def ftp_ok_def)

lemma data_in_ok: "ftp_ok f \<Longrightarrow> ftp_ok (ftp_data_in d bs f)"
proof (cases "map_of (receiving f) d")
  case (Some r)
  assume ok: "ftp_ok f"
  obtain c p a parts where r: "r = (c, p, a, parts)" by (cases r) auto
  have "canonical p" using ok map_of_SomeD [OF Some] by (auto simp: ftp_ok_def r)
  then show ?thesis
    using ok receiving_update [of "receiving f" p d c a "parts @ [bs]"]
    by (simp add: ftp_data_in_def Some r ftp_ok_def)
qed (simp add: ftp_data_in_def)

lemma data_end_ok: "ftp_ok f \<Longrightarrow> ftp_ok (snd (ftp_data_end d f))"
proof (cases "map_of (receiving f) d")
  case (Some r)
  assume ok: "ftp_ok f"
  obtain c p a parts where r: "r = (c, p, a, parts)" by (cases r) auto
  have "canonical p" using ok map_of_SomeD [OF Some] by (auto simp: ftp_ok_def r)
  then show ?thesis using ok by (simp add: ftp_data_end_def Some r ftp_ok_def Let_def tree_ok_update)
qed (simp add: ftp_data_end_def)

text \<open>A command keeps it, and the session's own.\<close>

definition result_ok :: "ftp_result \<Rightarrow> bool" where
  "result_ok r \<longleftrightarrow> (case r of Inl err \<Rightarrow> True | Inr (outs, f, u) \<Rightarrow> ftp_ok f \<and> ftp_session_ok u)"

lemma result_ok_simps [simp]:
  "result_ok (Inl err)" "result_ok (Inr (outs, f, u)) \<longleftrightarrow> ftp_ok f \<and> ftp_session_ok u"
  "result_ok (just_reply c s f u) \<longleftrightarrow> ftp_ok f \<and> ftp_session_ok u"
  by (simp_all add: result_ok_def just_reply_def)

lemma result_ok_if: "result_ok x \<Longrightarrow> result_ok y \<Longrightarrow> result_ok (if b then x else y)"
  by simp

lemma ftp_ok_tree: "ftp_ok f \<Longrightarrow> tree_ok t \<Longrightarrow> ftp_ok (f\<lparr>tree := t\<rparr>)"
  by (simp add: ftp_ok_def)

lemma ftp_ok_tree_ok: "ftp_ok f \<Longrightarrow> tree_ok (tree f)"
  by (simp add: ftp_ok_def)

lemma ftp_send_ok: "ftp_ok f \<Longrightarrow> ftp_ok (snd (ftp_send c bs what f))"
  using with_data_ok [of f "Sending c bs"] by (simp add: ftp_send_def transfer_ok_def split_beta)

lemma ftp_receive_ok: "ftp_ok f \<Longrightarrow> canonical p \<Longrightarrow> ftp_ok (snd (ftp_receive c p a f))"
  using with_data_ok [of f "Receiving c p a"] by (simp add: ftp_receive_def transfer_ok_def split_beta)

lemma ftp_list_ok: "ftp_ok f \<Longrightarrow> ftp_session_ok u \<Longrightarrow> result_ok (ftp_list c long arg f u)"
  using ftp_send_ok [of f c] by (auto simp: ftp_list_def Let_def split_beta split: sum.splits)

lemma ftp_retr_ok: "ftp_ok f \<Longrightarrow> ftp_session_ok u \<Longrightarrow> result_ok (ftp_retr c arg p f u)"
  using ftp_send_ok [of f c] by (auto simp: ftp_retr_def Let_def split_beta split: option.splits ftp_node.splits)

lemma ftp_size_ok: "ftp_ok f \<Longrightarrow> ftp_session_ok u \<Longrightarrow> result_ok (ftp_size c arg p f u)"
  by (auto simp: ftp_size_def split: sum.splits)

lemma ftp_stor_ok:
  "ftp_ok f \<Longrightarrow> ftp_session_ok u \<Longrightarrow> canonical p \<Longrightarrow> result_ok (ftp_stor c a arg p f u)"
  using ftp_receive_ok [of f p c a] by (auto simp: ftp_stor_def is_dir_def split_beta)

lemma ftp_rmd_ok: "ftp_ok f \<Longrightarrow> ftp_session_ok u \<Longrightarrow> result_ok (ftp_rmd c arg p f u)"
  by (auto simp: ftp_rmd_def intro!: ftp_ok_tree tree_ok_delete ftp_ok_tree_ok)

lemma ftp_rnto_ok:
  "ftp_ok f \<Longrightarrow> ftp_session_ok u \<Longrightarrow> canonical p \<Longrightarrow> result_ok (ftp_rnto c p f u)"
  by (auto simp: ftp_rnto_def Let_def ftp_session_ok_def
      intro!: ftp_ok_tree tree_ok_delete tree_ok_update ftp_ok_tree_ok split: option.splits)

lemma ftp_command_ok:
  assumes "ftp_ok f" and "ftp_session_ok u"
  shows "result_ok (ftp_command c cmd arg f u)"
proof -
  have u: "ftp_session_ok (u\<lparr>cwd := ftp_resolve d a\<rparr>)" "ftp_session_ok (u\<lparr>renaming := Some (ftp_resolve d a)\<rparr>)" for d a
    using assms(2) by (simp_all add: ftp_session_ok_def)
  have "ftp_ok (f\<lparr>tree := AList.delete p (tree f)\<rparr>)" "ftp_ok (f\<lparr>tree := AList.update (ftp_resolve d a) v (tree f)\<rparr>)"
    for p d a v
    by (rule ftp_ok_tree [OF assms(1)], simp add: tree_ok_delete tree_ok_update ftp_ok_tree_ok [OF assms(1)])+
  with u assms show ?thesis
    unfolding ftp_command_def Let_def
    by (intro result_ok_if) (simp_all add: ftp_list_ok ftp_retr_ok ftp_size_ok ftp_stor_ok ftp_rmd_ok ftp_rnto_ok)
qed

lemma ftp_lines_ok:
  "ftp_ok f \<Longrightarrow> ftp_session_ok u \<Longrightarrow> ftp_lines c buf f u = (err, outs, f', u', buf') \<Longrightarrow> ftp_ok f' \<and> ftp_session_ok u'"
proof (induction c buf f u arbitrary: err outs f' u' buf' rule: ftp_lines.induct)
  case (1 c buf f u)
  show ?case
  proof (cases "index_of CRLF buf")
    case None
    then show ?thesis using 1(2-4) by (simp add: ftp_lines.simps)
  next
    case (Some i)
    obtain cmd arg where sc: "split_command (take i buf) = (cmd, arg)" by fastforce
    show ?thesis
    proof (cases "ftp_command c cmd arg f u")
      case (Inl e)
      then show ?thesis using 1(2-4) Some sc by (simp add: ftp_lines.simps)
    next
      case (Inr r)
      obtain o1 f1 u1 where r: "r = (o1, f1, u1)" by (cases r) auto
      have ok: "ftp_ok f1" "ftp_session_ok u1" using ftp_command_ok [OF 1(2,3), of c cmd arg] Inr r by simp_all
      obtain e2 o2 f2 u2 b2 where l: "ftp_lines c (drop (i + 2) buf) f1 u1 = (e2, o2, f2, u2, b2)" by (metis prod_cases5)
      have "ftp_ok f2 \<and> ftp_session_ok u2"
        using 1(1) [OF Some sc [symmetric] refl] Inr r ok l by simp
      then show ?thesis using 1(4) Some sc Inr r l by (simp add: ftp_lines.simps [of c buf])
    qed
  qed
qed

definition server_ok :: "ftp_server \<Rightarrow> bool" where
  "server_ok s \<longleftrightarrow> ftp_ok (files s) \<and> (\<forall>c u line. sessions s c = Some (u, line) \<longrightarrow> ftp_session_ok u)"

lemma server_okD: "server_ok s \<Longrightarrow> ftp_ok (files s)"
  "server_ok s \<Longrightarrow> sessions s c = Some (u, line) \<Longrightarrow> ftp_session_ok u"
  unfolding server_ok_def by blast+

lemma ftp_step_ok: "server_ok s \<Longrightarrow> server_ok (snd (snd (ftp_step e s)))"
proof (cases e)
  case (Control_data c bytes)
  assume ok: "server_ok s"
  show ?thesis
  proof (cases "sessions s c")
    case (Some ul)
    obtain u l where ul: "ul = (u, l)" by fastforce
    obtain err outs f u' l' where r: "ftp_lines c (l @ utf8_decode bytes) (files s) u = (err, outs, f, u', l')"
      by (metis prod_cases5)
    have "ftp_ok f \<and> ftp_session_ok u'"
      using ftp_lines_ok [OF server_okD(1) [OF ok] server_okD(2) [OF ok] r] Some ul by simp
    then show ?thesis using ok r Some ul Control_data by (simp add: ftp_step_def ftp_control_def server_ok_def)
  qed (use ok Control_data in \<open>simp add: ftp_step_def\<close>)
qed (auto simp: ftp_step_def split_beta server_ok_def data_accept_ok data_in_ok data_end_ok ftp_session_ok_def new_ftp_session_def)

lemma ftp_run_ok: "server_ok s \<Longrightarrow> server_ok (snd (snd (ftp_run es s)))"
proof (induction es arbitrary: s)
  case (Cons e es)
  obtain err outs s' where st: "ftp_step e s = (err, outs, s')" by (metis prod_cases3)
  then have "server_ok s'" using ftp_step_ok [OF Cons.prems, of e] by simp
  with Cons.IH [of s'] st show ?case by (cases err) (simp_all add: split_beta)
qed simp

lemma new_ftp_server_ok: "server_ok new_ftp_server"
proof -
  have "canonical (lit ''/readme.txt'')" unfolding canonical_def
    by (rule exI [of _ "[lit ''readme.txt'']"]) (simp add: name_ok_def lit_def)
  moreover have "canonical (lit ''/pub'')" unfolding canonical_def
    by (rule exI [of _ "[lit ''pub'']"]) (simp add: name_ok_def lit_def)
  moreover have "canonical (lit ''/pub/hello.txt'')" unfolding canonical_def
    by (rule exI [of _ "[lit ''pub'', lit ''hello.txt'']"]) (simp add: name_ok_def lit_def)
  moreover have "distinct [lit ''/readme.txt'', lit ''/pub'', lit ''/pub/hello.txt'']" by (simp add: lit_def)
  ultimately show ?thesis
    by (simp add: server_ok_def new_ftp_server_def ftp_ok_def new_ftp_def tree_ok_def FTP_FILES_def)
qed

text \<open>
  C29. Whatever the clients send, in whatever order and whatever pieces: every path of the server's tree,
  every session's directory and every file a transfer will write is canonical, with no empty part and
  no \<open>.\<close> or \<open>..\<close> in it, so none is outside the tree; no path is in the tree twice; and never do a
  transfer and a data connection both wait.
\<close>

theorem ftp_paths_are_canonical: "server_ok (snd (snd (ftp_run es new_ftp_server)))"
  by (rule ftp_run_ok [OF new_ftp_server_ok])

section \<open>Commands on a line\<close>

lemma index_of_CRLF: "10 \<notin> set l \<Longrightarrow> index_of CRLF (l @ CRLF) = Some (length l)"
proof (induction l)
  case (Cons x l)
  have "take (length CRLF) ((x # l) @ CRLF) \<noteq> CRLF" using Cons.prems by (cases l) (auto simp: CRLF_def)
  with Cons show ?case by simp
qed (simp add: CRLF_def)

lemma take_whole: "take (length l) (l @ r) = l"
  by simp

lemma index_of_char: "c \<notin> set w \<Longrightarrow> index_of [c] (w @ c # r) = Some (length w)"
  by (induction w) auto

lemma split_command_line: "32 \<notin> set w \<Longrightarrow> split_command (w @ 32 # name) = (upper w, Some name)"
  by (simp add: split_command_def index_of_char)

lemma ftp_lines_Nil [simp]: "ftp_lines c [] f u = (None, [], f, u, [])"
  by (simp add: ftp_lines.simps CRLF_def)

definition command_word :: "text \<Rightarrow> bool" where
  "command_word w \<longleftrightarrow> w \<noteq> [] \<and> list_all (\<lambda>x. 65 \<le> x \<and> x \<le> 90) w"

definition file_name :: "text \<Rightarrow> bool" where
  "file_name name \<longleftrightarrow> list_all is_scalar name \<and> 10 \<notin> set name"

definition line_event :: "nat \<Rightarrow> text \<Rightarrow> text \<Rightarrow> ftp_event" where
  "line_event c w name = Control_data c (utf8_encode (w @ 32 # name @ CRLF))"

lemma line_event_step:
  assumes "sessions s c = Some (u, [])" and "command_word w" and "file_name name"
  shows "ftp_step (line_event c w name) s = (case ftp_command c w (Some name) (files s) u of
      Inl err \<Rightarrow> (Some err, [], s\<lparr>sessions := (sessions s)(c \<mapsto> (u, []))\<rparr>)
    | Inr (outs, f, u) \<Rightarrow> (None, outs, s\<lparr>files := f, sessions := (sessions s)(c \<mapsto> (u, []))\<rparr>))"
proof -
  let ?l = "w @ 32 # name"
  have w: "list_all is_scalar w" "10 \<notin> set w" "32 \<notin> set w" "hd w \<noteq> 0xfeff" "upper w = w" "w \<noteq> []"
    by (use assms(2) in \<open>auto simp: command_word_def list_all_iff is_scalar_def upper_def intro!: map_idI\<close>)
      (use assms(2) in \<open>cases w, auto simp: command_word_def\<close>)
  have "utf8_decode (utf8_encode (?l @ CRLF)) = ?l @ CRLF"
    by (rule utf8_decode_encode) (use w assms(3) in \<open>auto simp: file_name_def CRLF_def is_scalar_def\<close>)
  then have d: "utf8_decode (utf8_encode (w @ 32 # name @ CRLF)) = ?l @ CRLF" by simp
  have i: "index_of CRLF (?l @ CRLF) = Some (length ?l)"
    by (rule index_of_CRLF) (use w assms(3) in \<open>simp add: file_name_def\<close>)
  have r: "drop (length ?l + 2) (?l @ CRLF) = []" by (simp add: CRLF_def)
  have t: "take (length ?l) (?l @ CRLF) = ?l" by (rule take_whole)
  have sc: "split_command ?l = (w, Some name)" using split_command_line [OF w(3)] w(5) by simp
  have "ftp_lines c (?l @ CRLF) (files s) u = (case ftp_command c w (Some name) (files s) u of
      Inl err \<Rightarrow> (Some err, [], files s, u, [])
    | Inr (outs, f, u) \<Rightarrow> (None, outs, f, u, []))"
    unfolding ftp_lines.simps [of c "?l @ CRLF"] i option.case t r sc Let_def prod.case
    by (simp split: sum.splits)
  then show ?thesis
    by (simp add: line_event_def ftp_step_def assms(1) ftp_control_def d del: utf8_encode_simps split: sum.splits prod.splits)
qed

lemma ftp_commands:
  "ftp_command c (lit ''STOR'') arg f u = ftp_stor c False arg (ftp_resolve (cwd u) arg) f u"
  "ftp_command c (lit ''RETR'') arg f u = ftp_retr c arg (ftp_resolve (cwd u) arg) f u"
  "ftp_command c (lit ''SIZE'') arg f u = ftp_size c arg (ftp_resolve (cwd u) arg) f u"
  "ftp_command c (lit ''RNTO'') arg f u = ftp_rnto c (ftp_resolve (cwd u) arg) f u"
  unfolding ftp_command_def Let_def by (simp_all add: lit_def)

section \<open>Transfers\<close>

text \<open>
  C30. A file stored over one session is what any session then retrieves, byte for byte, whatever pieces
  it came in, and with the replies a client waits for.
\<close>

theorem ftp_store_then_retrieve:
  assumes "waiting (files s) = []" and "early (files s) = []"
    and "sessions s c = Some (u, [])" and "sessions s c2 = Some (u2, [])"
    and "file_name name" and "file_name name2"
    and "\<not> is_dir (tree (files s)) (ftp_resolve (cwd u) (Some name))"
    and "is_dir (tree (files s)) (ftp_resolve (cwd u) (Some (name @ lit ''/..'')))"
    and "ftp_resolve (cwd u2) (Some name2) = ftp_resolve (cwd u) (Some name)"
  shows "\<exists>ready opened s'. ftp_run
      (line_event c (lit ''STOR'') name # Data_accept d # map (Data_in d) parts @
        [Data_end d, line_event c2 (lit ''RETR'') name2, Data_accept e]) s =
    (None, [ftp_reply c ready, ftp_reply c (lit ''226 Transfer complete''), ftp_reply c2 opened,
       Tcp e (Write (concat parts)), Tcp e End, ftp_reply c2 (lit ''226 Transfer complete'')], s')"
proof -
  let ?p = "ftp_resolve (cwd u) (Some name)"
  have cw: "command_word (lit ''STOR'')" "command_word (lit ''RETR'')" by (simp_all add: command_word_def lit_def)
  define s1 where "s1 = s\<lparr>files := (files s)\<lparr>waiting := [Receiving c ?p False]\<rparr>,
    sessions := (sessions s)(c \<mapsto> (u, []))\<rparr>"
  have 1: "ftp_step (line_event c (lit ''STOR'') name) s = (None, [ftp_reply c (lit ''150 Ready to receive '' @ ?p)], s1)"
    using assms(1,2,7,8)
    by (simp add: line_event_step [OF assms(3) cw(1) assms(5)] ftp_commands ftp_stor_def arg_text_def ftp_receive_def with_data_def s1_def)
  define put where "put bs = s1\<lparr>files := (files s)\<lparr>waiting := [],
    receiving := AList.update d (c, ?p, False, bs) (receiving (files s))\<rparr>\<rparr>" for bs
  have 2: "ftp_step (Data_accept d) s1 = (None, [], put [])"
    by (simp add: ftp_step_def ftp_data_accept_def s1_def start_transfer_def put_def)
  have in1: "ftp_step (Data_in d b) (put bs) = (None, [], put (bs @ [b]))" for b bs
    by (simp add: ftp_step_def ftp_data_in_def put_def update_conv')
  have 3: "ftp_run (map (Data_in d) parts @ es) (put bs) = ftp_run es (put (bs @ parts))" for bs es
    by (induction parts arbitrary: bs) (simp_all add: in1 split_beta)
  define s2 where "s2 = put parts\<lparr>files := (files (put parts))\<lparr>tree := AList.update ?p (File (concat parts)) (tree (files s))\<rparr>\<rparr>"
  have 4: "ftp_step (Data_end d) (put parts) = (None, [ftp_reply c (lit ''226 Transfer complete'')], s2)"
    by (simp add: ftp_step_def ftp_data_end_def put_def update_conv' s2_def Let_def)
  have c2: "sessions s2 c2 = Some (u2, [])" using assms(3,4) by (auto simp: s2_def put_def s1_def)
  have nd: "\<not> is_dir (tree (files s2)) ?p" using assms(7) by (simp add: s2_def is_dir_def update_conv')
  define opened where "opened = lit ''150 Opening data connection for '' @ ?p @ lit '' ('' @ nat_text (length (concat parts)) @ lit '' bytes)''"
  define s3 where "s3 = s2\<lparr>files := (files s2)\<lparr>waiting := [Sending c2 (concat parts)]\<rparr>, sessions := (sessions s2)(c2 \<mapsto> (u2, []))\<rparr>"
  have m: "map_of (tree (files s2)) ?p = Some (File (concat parts))" by (simp add: s2_def update_conv')
  have w: "waiting (files s2) = []" "early (files s2) = []" using assms(2) by (simp_all add: s2_def put_def)
  have 5: "ftp_step (line_event c2 (lit ''RETR'') name2) s2 = (None, [ftp_reply c2 opened], s3)"
    using nd m w
    by (simp add: line_event_step [OF c2 cw(2) assms(6)] ftp_commands assms(9) ftp_retr_def ftp_send_def with_data_def s3_def opened_def)
  have 6: "\<exists>s'. ftp_step (Data_accept e) s3 = (None, [Tcp e (Write (concat parts)), Tcp e End,
      ftp_reply c2 (lit ''226 Transfer complete'')], s')"
    by (simp add: ftp_step_def ftp_data_accept_def s3_def start_transfer_def)
  then show ?thesis using 1 2 4 5 by (auto simp: 3)
qed

text \<open>At work on the server's own files.\<close>

definition one_session :: "ftp_server" where
  "one_session = snd (snd (ftp_run [Control_accept 7] new_ftp_server))"

lemma one_session_simps:
  "waiting (files one_session) = []" "early (files one_session) = []"
  "tree (files one_session) = FTP_FILES" "sessions one_session 7 = Some (new_ftp_session, [])"
  by (simp_all add: one_session_def new_ftp_server_def ftp_step_def new_ftp_def)

lemma example_names:
  "file_name (lit ''a'')" "file_name (lit ''pub/../a'')" "file_name (lit ''readme.txt'')" "file_name (lit ''pub/hello.txt'')"
  by (simp_all add: file_name_def lit_def is_scalar_def)

lemma example_paths:
  "cwd new_ftp_session = [47]" "ftp_resolve [47] (Some (lit ''a'')) = lit ''/a''"
  "ftp_resolve [47] (Some (lit ''a'' @ lit ''/..'')) = [47]" "ftp_resolve [47] (Some (lit ''pub/../a'')) = lit ''/a''"
  "ftp_resolve [47] (Some (lit ''readme.txt'')) = lit ''/readme.txt''"
  "ftp_resolve [47] (Some (lit ''pub/hello.txt'')) = lit ''/pub/hello.txt''"
  by code_simp+

theorem ftp_store_then_retrieve_witness:
  "\<exists>ready opened s'. ftp_run
      (line_event 7 (lit ''STOR'') (lit ''a'') # Data_accept 2 # map (Data_in 2) [[1, 2], [3]] @
        [Data_end 2, line_event 7 (lit ''RETR'') (lit ''pub/../a''), Data_accept 3]) one_session =
    (None, [ftp_reply 7 ready, ftp_reply 7 (lit ''226 Transfer complete''), ftp_reply 7 opened,
       Tcp 3 (Write (concat [[1, 2], [3]])), Tcp 3 End, ftp_reply 7 (lit ''226 Transfer complete'')], s')"
  by (rule ftp_store_then_retrieve [of one_session 7 new_ftp_session 7 new_ftp_session])
    (simp_all add: one_session_simps example_names example_paths, simp_all add: is_dir_def FTP_FILES_def lit_def)

text \<open>
  Which comes first, the data connection or the command that uses it, is all one: what goes out, and
  what the server keeps, is the same.
\<close>

theorem ftp_data_connection_order:
  assumes "waiting f = []" and "early f = []"
  shows "(let (o1, f1) = with_data tr f; (o2, f2) = ftp_data_accept d f1 in (o1 @ o2, f2)) =
    (let (o1, f1) = ftp_data_accept d f; (o2, f2) = with_data tr f1 in (o1 @ o2, f2))"
  using assms by (cases tr) (simp_all add: with_data_def ftp_data_accept_def start_transfer_def)

theorem ftp_data_connection_order_witness:
  "(let (o1, f1) = with_data (Sending 1 [9]) new_ftp; (o2, f2) = ftp_data_accept 4 f1 in (o1 @ o2, f2)) =
    (let (o1, f1) = ftp_data_accept 4 new_ftp; (o2, f2) = with_data (Sending 1 [9]) f1 in (o1 @ o2, f2))"
  by (rule ftp_data_connection_order) (simp_all add: new_ftp_def)

section \<open>Where it goes wrong\<close>

text \<open>
  A file that is renamed after it was deleted: the new name is mapped to \<open>undefined\<close>, and asking for
  its size throws, through lwIP, out of the LAN.
\<close>

theorem ftp_renaming_a_deleted_file_throws:
  assumes "sessions s c = Some (u, [])" and "renaming u = Some old" and "map_of (tree (files s)) old = None"
    and "file_name name" and "map_of (tree (files s)) (ftp_resolve (cwd u) (Some name)) = None"
    and "ftp_resolve (cwd u) (Some name) \<noteq> old" and "ftp_resolve (cwd u) (Some name) \<noteq> [47]"
  shows "fst (ftp_run [line_event c (lit ''RNTO'') name, line_event c (lit ''SIZE'') name] s) = Some TypeError"
proof -
  let ?p = "ftp_resolve (cwd u) (Some name)"
  have cw: "command_word (lit ''RNTO'')" "command_word (lit ''SIZE'')" by (simp_all add: command_word_def lit_def)
  define s1 where "s1 = s\<lparr>files := (files s)\<lparr>tree := AList.delete old (AList.update ?p Undefined (tree (files s)))\<rparr>,
    sessions := (sessions s)(c \<mapsto> (u\<lparr>renaming := None\<rparr>, []))\<rparr>"
  have 1: "ftp_step (line_event c (lit ''RNTO'') name) s = (None, [ftp_reply c (lit ''250 Renamed to '' @ ?p)], s1)"
    using assms(2,3,5)
    by (simp add: line_event_step [OF assms(1) cw(1) assms(4)] ftp_commands ftp_rnto_def has_path_def just_reply_def s1_def)
  have m: "map_of (tree (files s1)) ?p = Some Undefined"
    using assms(6) by (simp add: s1_def delete_conv' update_conv')
  have "sessions s1 c = Some (u\<lparr>renaming := None\<rparr>, [])" by (simp add: s1_def)
  then have "fst (ftp_step (line_event c (lit ''SIZE'') name) s1) = Some TypeError"
    using m assms(7)
    by (simp add: line_event_step [OF _ cw(2) assms(4)] ftp_commands ftp_size_def is_dir_def has_path_def node_size_def)
  then obtain o2 s2 where "ftp_step (line_event c (lit ''SIZE'') name) s1 = (Some TypeError, o2, s2)" by (metis fst_conv prod.exhaust)
  with 1 show ?thesis by simp
qed

text \<open>
  A session that asks for a file and goes, before its data connection comes, leaves its transfer
  behind: the next session's data connection is given that file, and the file it asked for waits.
\<close>

theorem ftp_abandoned_transfer_is_next:
  assumes "waiting (files s) = []" and "early (files s) = []"
    and "sessions s c = Some (u, [])" and "sessions s c2 = Some (u2, [])" and "c \<noteq> c2"
    and "file_name name" and "file_name name2"
    and "ftp_resolve (cwd u) (Some name) \<noteq> [47]" and "ftp_resolve (cwd u2) (Some name2) \<noteq> [47]"
    and "map_of (tree (files s)) (ftp_resolve (cwd u) (Some name)) = Some (File bs)"
    and "map_of (tree (files s)) (ftp_resolve (cwd u2) (Some name2)) = Some (File bs2)"
  shows "\<exists>o1 o2 s'. ftp_run [line_event c (lit ''RETR'') name, Control_end c,
      line_event c2 (lit ''RETR'') name2, Data_accept d] s =
    (None, [ftp_reply c o1, ftp_reply c2 o2, Tcp d (Write bs), Tcp d End,
      ftp_reply c (lit ''226 Transfer complete'')], s') \<and> waiting (files s') = [Sending c2 bs2]"
proof -
  let ?s = "\<lambda>w us. s\<lparr>files := (files s)\<lparr>waiting := w\<rparr>, sessions := us\<rparr>"
  have cw: "command_word (lit ''RETR'')" by (simp add: command_word_def lit_def)
  have step: "\<exists>what us'. ftp_step (line_event k (lit ''RETR'') nm) (?s w us) =
      (None, [ftp_reply k what], ?s (w @ [Sending k b]) us') \<and> us' = us(k \<mapsto> (v, []))"
    if "us k = Some (v, [])" "file_name nm" "ftp_resolve (cwd v) (Some nm) \<noteq> [47]"
      "map_of (tree (files s)) (ftp_resolve (cwd v) (Some nm)) = Some (File b)" for k nm w us v b
    using that assms(2)
    by (simp add: line_event_step [OF _ cw] ftp_commands ftp_retr_def is_dir_def ftp_send_def with_data_def)
      blast
  have s: "?s [] (sessions s) = s" using assms(1) by simp
  obtain o1 where 1: "ftp_step (line_event c (lit ''RETR'') name) s =
      (None, [ftp_reply c o1], ?s [Sending c bs] ((sessions s)(c \<mapsto> (u, []))))"
    using step [of "sessions s" c u name bs "[]"] assms s by auto
  obtain o2 us where 2: "ftp_step (line_event c2 (lit ''RETR'') name2) (?s [Sending c bs] ((sessions s)(c \<mapsto> (u, [])))) =
      (None, [ftp_reply c2 o2], ?s [Sending c bs, Sending c2 bs2] us)"
    using step [of "(sessions s)(c \<mapsto> (u, []))" c2 u2 name2 bs2 "[Sending c bs]"] assms by auto
  have 3: "ftp_step (Control_end c) t = (None, [], t)" for t by (simp add: ftp_step_def)
  have 4: "ftp_step (Data_accept d) (?s [Sending c bs, Sending c2 bs2] us) =
      (None, [Tcp d (Write bs), Tcp d End, ftp_reply c (lit ''226 Transfer complete'')], ?s [Sending c2 bs2] us)"
    by (simp add: ftp_step_def ftp_data_accept_def start_transfer_def)
  show ?thesis by (simp add: 1 2 3 4) blast
qed


definition renamed_late :: "ftp_server" where
  "renamed_late = one_session\<lparr>sessions := [7 \<mapsto> (new_ftp_session\<lparr>renaming := Some (lit ''/gone'')\<rparr>, [])]\<rparr>"

theorem ftp_renaming_a_deleted_file_throws_witness:
  "fst (ftp_run [line_event 7 (lit ''RNTO'') (lit ''a''), line_event 7 (lit ''SIZE'') (lit ''a'')] renamed_late) = Some TypeError"
  by (rule ftp_renaming_a_deleted_file_throws [of _ _ "new_ftp_session\<lparr>renaming := Some (lit ''/gone'')\<rparr>" "lit ''/gone''"])
    (simp_all add: renamed_late_def one_session_simps example_names example_paths, simp_all add: FTP_FILES_def lit_def)

definition two_sessions :: "ftp_server" where
  "two_sessions = snd (snd (ftp_run [Control_accept 7, Control_accept 8] new_ftp_server))"

lemma two_sessions_simps:
  "waiting (files two_sessions) = []" "early (files two_sessions) = []" "tree (files two_sessions) = FTP_FILES"
  "sessions two_sessions 7 = Some (new_ftp_session, [])" "sessions two_sessions 8 = Some (new_ftp_session, [])"
  by (simp_all add: two_sessions_def new_ftp_server_def ftp_step_def new_ftp_def)

definition file_bytes :: "text \<Rightarrow> nat list" where
  "file_bytes p = (case map_of FTP_FILES p of Some (File bs) \<Rightarrow> bs | _ \<Rightarrow> [])"

theorem ftp_abandoned_transfer_is_next_witness:
  "\<exists>o1 o2 s'. ftp_run [line_event 7 (lit ''RETR'') (lit ''readme.txt''), Control_end 7,
      line_event 8 (lit ''RETR'') (lit ''pub/hello.txt''), Data_accept 3] two_sessions =
    (None, [ftp_reply 7 o1, ftp_reply 8 o2, Tcp 3 (Write (file_bytes (lit ''/readme.txt''))), Tcp 3 End,
      ftp_reply 7 (lit ''226 Transfer complete'')], s') \<and>
    waiting (files s') = [Sending 8 (file_bytes (lit ''/pub/hello.txt''))]"
  by (rule ftp_abandoned_transfer_is_next [of _ _ new_ftp_session _ new_ftp_session])
    (simp_all add: two_sessions_simps example_names example_paths, simp_all add: file_bytes_def FTP_FILES_def, simp_all add: lit_def)

end
