(* ===== verification/Relay.thy ===== *)
theory Relay
  imports Complex_Main
begin

text \<open>
  The session with a relay on the internet (host/relaynet.mjs, class \<open>RelayConnection\<close>): a state
  machine over one WebSocket at a time, with a heartbeat, reconnecting with backoff, and the events of
  the page it runs in. The socket is not the program's, and neither are the clock, the random numbers
  and the account service: what they say when something happens is in \<open>relay_env\<close> or in the event.
  \<open>Date.now()\<close> is read once for each event. What a handler does to the session while it is told of
  something comes after it here. (host/uplink.mjs does so in one place: it closes the session when the
  first one fails. The retry that is then set finds it closed, and does nothing.)
\<close>

section \<open>State\<close>

definition SUBPROTOCOL :: string where "SUBPROTOCOL = ''relay.v1''"
definition OPEN :: nat where "OPEN = 1"
definition STABLE_SESSION_MS :: int where "STABLE_SESSION_MS = 10000"
definition RESTART_DELAY_MS :: nat where "RESTART_DELAY_MS = 2000"

datatype relay_state = Idle_state | Connecting | Open_state | Waiting | Closed

record relay_options =
  relay_url :: string
  token :: "string option"
  heartbeat_ms :: int
  heartbeat_timeout_ms :: int
  initial_backoff_ms :: nat
  max_backoff_ms :: nat
  max_buffered_bytes :: nat
  check_token :: bool

text \<open>\<open>socket\<close> says whether the socket there is has opened; a timer is kept as what it was set to, and
  each check of the token that is under way as the close that it was for.\<close>

record relay =
  rstate :: relay_state
  socket :: "bool option"
  relay_sessions :: nat
  failures :: nat
  opened_at :: int
  retry_timer :: "nat option"
  heartbeat_on :: bool
  probe_timer :: "int option"
  probe_sent_at :: int
  last_tick :: int
  last_received :: int
  frames_sent :: nat
  frames_received :: nat
  frames_dropped :: nat
  reconnects :: nat
  checks :: "(nat \<times> string) list"

datatype relay_out =
    State_change relay_state
  | New_socket string "string list"
  | Send_frame "nat list"
  | Send_ping int
  | Close_socket nat string
  | On_open bool
  | On_frame "nat list"
  | On_close nat string bool "nat option"
  | Ask_account

record relay_env =
  now_ms :: int
  random_unit :: rat
  ready_state :: nat
  buffered_amount :: nat
  socket_error :: "string option"

type_synonym relay_op = "relay \<Rightarrow> relay_out list \<times> relay"

definition then_op :: "relay_op \<Rightarrow> relay_op \<Rightarrow> relay_op" where
  "then_op f g r = (let (o1, r) = f r; (o2, r) = g r in (o1 @ o2, r))"

definition quietly :: "(relay \<Rightarrow> relay) \<Rightarrow> relay_op" where
  "quietly f r = ([], f r)"

definition emit :: "relay_out list \<Rightarrow> relay_op" where
  "emit outs r = (outs, r)"

section \<open>Its parts\<close>

definition set_rstate :: "relay_state \<Rightarrow> relay_op" where
  "set_rstate s r = (if rstate r = s then ([], r) else ([State_change s], r\<lparr>rstate := s\<rparr>))"

definition stop_heartbeat :: "relay \<Rightarrow> relay" where
  "stop_heartbeat r = r\<lparr>heartbeat_on := False, probe_timer := None, probe_sent_at := 0\<rparr>"

definition start_heartbeat :: "int \<Rightarrow> relay \<Rightarrow> relay" where
  "start_heartbeat now r = (stop_heartbeat r)\<lparr>last_tick := now, heartbeat_on := True\<rparr>"

definition detach :: "relay \<Rightarrow> relay" where
  "detach r = r\<lparr>socket := None\<rparr>"

text \<open>The end of \<open>suspend\<close> and \<open>close\<close>: the timers stop, and the socket is let go of and closed.\<close>

definition let_go :: "relay_env \<Rightarrow> string \<Rightarrow> relay_state \<Rightarrow> relay_op" where
  "let_go env why s r =
    (let ws = socket r; r = detach (stop_heartbeat (r\<lparr>retry_timer := None\<rparr>));
         (outs, r) = set_rstate s r
     in ((if ws \<noteq> None \<and> ready_state env \<le> OPEN then [Close_socket 1000 why] else []) @ outs, r))"

definition relay_suspend :: "relay_env \<Rightarrow> relay_op" where
  "relay_suspend env r =
    (if rstate r = Closed \<or> rstate r = Idle_state then ([], r) else let_go env ''page hidden'' Waiting r)"

definition relay_close :: "relay_env \<Rightarrow> relay_op" where
  "relay_close env = let_go env ''client closed'' Closed"

definition relay_finish :: "relay_env \<Rightarrow> nat \<Rightarrow> string \<Rightarrow> relay_op" where
  "relay_finish env code reason = then_op (relay_close env) (emit [On_close code reason True None])"

definition relay_connect :: "relay_options \<Rightarrow> relay_env \<Rightarrow> relay_op" where
  "relay_connect opt env r =
    (let r = r\<lparr>retry_timer := None\<rparr>
     in if rstate r \<in> {Closed, Connecting, Open_state} then ([], r)
        else then_op (set_rstate Connecting)
          (case socket_error env of
            Some msg \<Rightarrow> relay_finish env 0 msg
          | None \<Rightarrow> (\<lambda>r. ([New_socket (relay_url opt) (case token opt of
                None \<Rightarrow> [SUBPROTOCOL] | Some t \<Rightarrow> [SUBPROTOCOL, ''relay.token.'' @ t])], r\<lparr>socket := Some False\<rparr>))) r)"

text \<open>Exponential backoff with jitter. \<open>Math.round\<close> rounds halves up.\<close>

definition js_round :: "rat \<Rightarrow> nat" where
  "js_round x = nat \<lfloor>x + 1 / 2\<rfloor>"

definition backoff :: "relay_options \<Rightarrow> relay_env \<Rightarrow> relay \<Rightarrow> nat" where
  "backoff opt env r =
    (let base = min (max_backoff_ms opt) (initial_backoff_ms opt * 2 ^ (failures r - 1))
     in js_round (of_nat base * (1 / 2 + random_unit env / 2)))"

definition retry_in :: "nat \<Rightarrow> nat \<Rightarrow> string \<Rightarrow> relay_op" where
  "retry_in ms code reason r =
    (if rstate r = Closed then ([], r)
     else then_op (set_rstate Waiting)
       (\<lambda>r. ([On_close code reason False (Some ms)], r\<lparr>retry_timer := Some ms\<rparr>)) r)"

datatype verdict = Final | Restart | Retry

definition classify_close :: "nat \<Rightarrow> string \<Rightarrow> verdict" where
  "classify_close code reason =
    (if code = 1008 then Final
     else if code = 1000 \<and> reason = ''idle timeout'' then Final
     else if code = 1000 \<and> reason = ''session expired'' then Restart
     else if code = 1001 then Restart
     else Retry)"

text \<open>The socket ended: decide whether and when to reconnect.\<close>

definition relay_closed :: "relay_options \<Rightarrow> relay_env \<Rightarrow> bool \<Rightarrow> nat \<Rightarrow> string \<Rightarrow> relay_op" where
  "relay_closed opt env opened code reason r =
    (let r = stop_heartbeat r;
         r = (if opened \<and> now_ms env - opened_at r \<ge> STABLE_SESSION_MS then r\<lparr>failures := 0\<rparr> else r)
     in if \<not> opened
        then (let first = (failures r = 0); r = r\<lparr>failures := failures r + 1\<rparr>
          in if first \<and> check_token opt
             then then_op (set_rstate Waiting)
               (\<lambda>r. ([Ask_account], r\<lparr>checks := checks r @ [(code, reason)]\<rparr>)) r
             else retry_in (backoff opt env r) code reason r)
        else case classify_close code reason of
            Final \<Rightarrow> relay_finish env code reason r
          | Restart \<Rightarrow> retry_in (if code = 1001 then js_round (of_nat RESTART_DELAY_MS * (1 / 2 + random_unit env)) else 0)
              code reason (r\<lparr>failures := 0\<rparr>)
          | Retry \<Rightarrow> (let r = r\<lparr>failures := failures r + 1\<rparr>
              in retry_in (if failures r = 1 then 0 else backoff opt env r) code reason r))"

text \<open>What the account service says of the token: the reason it refused it, if it did.\<close>

definition token_answer :: "relay_options \<Rightarrow> relay_env \<Rightarrow> nat \<Rightarrow> string option \<Rightarrow> relay_op" where
  "token_answer opt env k refusal r =
    (if k \<ge> length (checks r) then ([], r)
     else (let (code, reason) = checks r ! k;
               r = r\<lparr>checks := take k (checks r) @ drop (k + 1) (checks r)\<rparr>
       in if rstate r \<noteq> Waiting then ([], r)
          else case refusal of
              Some why \<Rightarrow> relay_finish env code why r
            | None \<Rightarrow> retry_in (backoff opt env r) code reason r))"

section \<open>The heartbeat\<close>

definition relay_probe :: "relay_env \<Rightarrow> relay_op" where
  "relay_probe env r =
    (if socket r = None \<or> ready_state env \<noteq> OPEN \<or> probe_sent_at r \<noteq> 0 then ([], r)
     else ([Send_ping (now_ms env)], r\<lparr>probe_sent_at := now_ms env, probe_timer := Some (now_ms env)\<rparr>))"

definition heartbeat_tick :: "relay_options \<Rightarrow> relay_env \<Rightarrow> relay_op" where
  "heartbeat_tick opt env r =
    (if \<not> heartbeat_on r then ([], r)
     else (let slept = (now_ms env - last_tick r > 2 * heartbeat_ms opt); r = r\<lparr>last_tick := now_ms env\<rparr>
       in if slept \<or> 2 * (now_ms env - last_received r) \<ge> heartbeat_ms opt then relay_probe env r else ([], r)))"

definition probe_expired :: "relay_options \<Rightarrow> relay_env \<Rightarrow> int \<Rightarrow> relay_op" where
  "probe_expired opt env sent r =
    (if probe_sent_at r \<noteq> sent \<or> socket r = None then ([], r)
     else if now_ms env - sent > 2 * heartbeat_timeout_ms opt then relay_probe env (r\<lparr>probe_sent_at := 0\<rparr>)
     else then_op (then_op (quietly detach) (emit [Close_socket 4000 ''heartbeat timeout'']))
       (relay_closed opt env True 1006 ''heartbeat timeout'') r)"

section \<open>What happens to it\<close>

datatype relay_event =
    Send_call "nat list"
  | Wake
  | Page_hide
  | Close_call
  | Retry_fired
  | Opened string
  | Text_message
  | Binary_message "nat list"
  | Socket_closed nat string
  | Tick
  | Probe_fired
  | Token_answered nat "string option"

definition relay_send :: "relay_options \<Rightarrow> relay_env \<Rightarrow> nat list \<Rightarrow> relay_op" where
  "relay_send opt env frame r =
    (if rstate r \<noteq> Open_state \<or> socket r = None \<or> ready_state env \<noteq> OPEN \<or>
        buffered_amount env > max_buffered_bytes opt
     then ([], r\<lparr>frames_dropped := frames_dropped r + 1\<rparr>)
     else ([Send_frame frame], r\<lparr>frames_sent := frames_sent r + 1\<rparr>))"

definition relay_wake :: "relay_options \<Rightarrow> relay_env \<Rightarrow> relay_op" where
  "relay_wake opt env r =
    (if rstate r = Open_state then relay_probe env r
     else if rstate r = Waiting then relay_connect opt env r
     else ([], r))"

definition socket_opened :: "relay_options \<Rightarrow> relay_env \<Rightarrow> string \<Rightarrow> relay_op" where
  "socket_opened opt env protocol r =
    (if protocol \<noteq> '''' \<and> protocol \<noteq> SUBPROTOCOL
     then then_op (then_op (quietly detach) (emit [Close_socket 1000 ''unexpected subprotocol'']))
       (relay_finish env 0 (''unexpected subprotocol \"'' @ protocol @ ''\"'')) r
     else (let again = (relay_sessions r > 0);
               r = r\<lparr>socket := Some True, opened_at := now_ms env, last_received := now_ms env,
                 relay_sessions := relay_sessions r + 1, reconnects := reconnects r + (if again then 1 else 0)\<rparr>
       in then_op (then_op (set_rstate Open_state) (quietly (start_heartbeat (now_ms env)))) (emit [On_open again]) r))"

definition socket_message :: "relay_env \<Rightarrow> nat list option \<Rightarrow> relay_op" where
  "socket_message env data r =
    (let r = r\<lparr>last_received := now_ms env, probe_sent_at := 0\<rparr>
     in case data of
       None \<Rightarrow> ([], r)
     | Some frame \<Rightarrow> ([On_frame frame], r\<lparr>frames_received := frames_received r + 1\<rparr>))"

text \<open>A socket that was let go of is heard of no more, and a timer that was cleared does not fire.\<close>

definition relay_step :: "relay_options \<Rightarrow> relay_env \<times> relay_event \<Rightarrow> relay_op" where
  "relay_step opt = (\<lambda>(env, ev) r. case ev of
      Send_call frame \<Rightarrow> relay_send opt env frame r
    | Wake \<Rightarrow> relay_wake opt env r
    | Page_hide \<Rightarrow> relay_suspend env r
    | Close_call \<Rightarrow> relay_close env r
    | Retry_fired \<Rightarrow> if retry_timer r = None then ([], r) else relay_connect opt env r
    | Opened protocol \<Rightarrow> if socket r = Some False then socket_opened opt env protocol r else ([], r)
    | Text_message \<Rightarrow> if socket r = Some True then socket_message env None r else ([], r)
    | Binary_message frame \<Rightarrow> if socket r = Some True then socket_message env (Some frame) r else ([], r)
    | Socket_closed code reason \<Rightarrow> (case socket r of
          None \<Rightarrow> ([], r)
        | Some opened \<Rightarrow> relay_closed opt env opened code reason (detach r))
    | Tick \<Rightarrow> heartbeat_tick opt env r
    | Probe_fired \<Rightarrow> (case probe_timer r of
          None \<Rightarrow> ([], r)
        | Some sent \<Rightarrow> probe_expired opt env sent (r\<lparr>probe_timer := None\<rparr>))
    | Token_answered k refusal \<Rightarrow> token_answer opt env k refusal r)"

fun relay_run :: "relay_options \<Rightarrow> (relay_env \<times> relay_event) list \<Rightarrow> relay_op" where
  "relay_run opt [] r = ([], r)"
| "relay_run opt (e # es) r = (let (o1, r) = relay_step opt e r; (o2, r) = relay_run opt es r in (o1 @ o2, r))"

definition idle_relay :: relay where
  "idle_relay = \<lparr>rstate = Idle_state, socket = None, relay_sessions = 0, failures = 0, opened_at = 0,
     retry_timer = None, heartbeat_on = False, probe_timer = None, probe_sent_at = 0, last_tick = 0,
     last_received = 0, frames_sent = 0, frames_received = 0, frames_dropped = 0, reconnects = 0, checks = []\<rparr>"

text \<open>The constructor, which connects.\<close>

definition new_relay :: "relay_options \<Rightarrow> relay_env \<Rightarrow> relay_out list \<times> relay" where
  "new_relay opt env = relay_connect opt env idle_relay"

end
