(* ===== verification/Relay_Proofs.thy ===== *)
theory Relay_Proofs
  imports Relay
begin

text \<open>
  The relay's state machine: its state says which of the socket and the timers there are, a closed
  one stays closed and silent, a dead socket is noticed, and its backoff keeps to its bounds.
\<close>

section \<open>The invariant\<close>

definition relay_ok :: "relay \<Rightarrow> bool" where
  "relay_ok r \<longleftrightarrow> (case rstate r of
      Idle_state \<Rightarrow> False
    | Connecting \<Rightarrow> socket r = Some False \<and> retry_timer r = None \<and> \<not> heartbeat_on r \<and> probe_timer r = None
    | Open_state \<Rightarrow> socket r = Some True \<and> retry_timer r = None \<and> heartbeat_on r
    | Waiting \<Rightarrow> socket r = None \<and> \<not> heartbeat_on r \<and> probe_timer r = None
    | Closed \<Rightarrow> socket r = None \<and> retry_timer r = None \<and> \<not> heartbeat_on r \<and> probe_timer r = None)"

lemmas relay_parts = then_op_def quietly_def emit_def set_rstate_def stop_heartbeat_def start_heartbeat_def
  detach_def let_go_def relay_suspend_def relay_close_def relay_finish_def Let_def

lemma finish_ok: "snd (relay_finish env c w r) = (detach (stop_heartbeat (r\<lparr>retry_timer := None\<rparr>)))\<lparr>rstate := Closed\<rparr>"
  by (simp add: relay_parts)

lemma closed_ok [simp]: "relay_ok ((detach (stop_heartbeat r))\<lparr>retry_timer := None, rstate := Closed\<rparr>)"
  by (simp add: relay_ok_def relay_parts)

lemma finish_relay_ok [simp]: "relay_ok (snd (relay_finish env c w r))"
  by (simp add: relay_ok_def relay_parts)

lemma retry_relay_ok:
  "rstate r = Closed \<longrightarrow> relay_ok r \<Longrightarrow> socket r = None \<Longrightarrow> \<not> heartbeat_on r \<Longrightarrow> probe_timer r = None \<Longrightarrow>
    relay_ok (snd (retry_in ms c w r))"
  by (auto simp: relay_ok_def retry_in_def relay_parts)

lemma connect_relay_ok: "rstate r = Idle_state \<and> socket r = None \<and> \<not> heartbeat_on r \<and> probe_timer r = None \<or> relay_ok r \<Longrightarrow>
    relay_ok (snd (relay_connect opt env r))"
  by (auto simp: relay_connect_def relay_ok_def relay_parts split: option.split relay_state.splits)

lemma relay_closed_ok:
  assumes "rstate r \<noteq> Closed" and "socket r = None"
  shows "relay_ok (snd (relay_closed opt env opened code reason r))"
proof -
  let ?r = "stop_heartbeat r"
  define r1 where "r1 = (if opened \<and> now_ms env - opened_at ?r \<ge> STABLE_SESSION_MS then ?r\<lparr>failures := 0\<rparr> else ?r)"
  have r1: "rstate r1 \<noteq> Closed" "socket r1 = None" "\<not> heartbeat_on r1" "probe_timer r1 = None"
    using assms by (auto simp: r1_def stop_heartbeat_def)
  have "relay_ok (snd (then_op (set_rstate Waiting)
      (\<lambda>r. ([Ask_account], r\<lparr>checks := checks r @ [(code, reason)]\<rparr>)) (r1\<lparr>failures := n\<rparr>)))" for n
    using r1 by (auto simp: relay_ok_def relay_parts)
  moreover have "relay_ok (snd (retry_in ms c reason (r1\<lparr>failures := n\<rparr>)))" for ms n c
    by (rule retry_relay_ok) (use r1 in simp_all)
  ultimately show ?thesis
    unfolding relay_closed_def Let_def r1_def [symmetric] by (simp split: verdict.split)
qed

lemma probe_relay_ok: "relay_ok r \<Longrightarrow> rstate r = Open_state \<Longrightarrow> relay_ok (snd (relay_probe env r))"
  by (auto simp: relay_probe_def relay_ok_def split: relay_state.splits)

lemma relay_step_ok:
  assumes ok: "relay_ok r"
  shows "relay_ok (snd (relay_step opt e r))"
proof -
  obtain env ev where e: "e = (env, ev)" by fastforce
  show ?thesis
  proof (cases ev)
    case (Send_call frame)
    then show ?thesis using ok by (auto simp: e relay_step_def relay_send_def relay_ok_def split: relay_state.splits)
  next
    case Wake
    then show ?thesis using ok by (simp add: e relay_step_def relay_wake_def probe_relay_ok connect_relay_ok)
  next
    case Page_hide
    then show ?thesis using ok by (auto simp: e relay_step_def relay_ok_def relay_parts)
  next
    case Close_call
    then show ?thesis by (simp add: e relay_step_def relay_ok_def relay_parts)
  next
    case Retry_fired
    then show ?thesis using ok by (simp add: e relay_step_def connect_relay_ok)
  next
    case (Opened protocol)
    then show ?thesis using ok
      by (auto simp: e relay_step_def socket_opened_def relay_ok_def relay_parts split: relay_state.splits)
  next
    case Text_message
    then show ?thesis using ok
      by (auto simp: e relay_step_def socket_message_def relay_ok_def Let_def split: relay_state.splits)
  next
    case (Binary_message frame)
    then show ?thesis using ok
      by (auto simp: e relay_step_def socket_message_def relay_ok_def Let_def split: relay_state.splits)
  next
    case (Socket_closed code reason)
    show ?thesis
    proof (cases "socket r")
      case (Some opened)
      then have "rstate r \<noteq> Closed" using ok by (auto simp: relay_ok_def)
      then show ?thesis
        using Socket_closed Some by (simp add: e relay_step_def relay_closed_ok detach_def)
    qed (use ok Socket_closed in \<open>simp add: e relay_step_def\<close>)
  next
    case Tick
    have "relay_ok (r\<lparr>last_tick := t\<rparr>)" for t using ok by (simp add: relay_ok_def cong: relay_state.case_cong)
    moreover have "rstate r = Open_state" if "heartbeat_on r" using ok that by (auto simp: relay_ok_def split: relay_state.splits)
    ultimately show ?thesis using Tick ok by (simp add: e relay_step_def heartbeat_tick_def probe_relay_ok Let_def)
  next
    case Probe_fired
    show ?thesis
    proof (cases "probe_timer r")
      case (Some sent)
      then have st: "rstate r = Open_state" using ok by (auto simp: relay_ok_def split: relay_state.splits)
      have "relay_ok (r\<lparr>probe_timer := None\<rparr>)" "relay_ok (r\<lparr>probe_timer := None, probe_sent_at := 0\<rparr>)"
        using ok st by (simp_all add: relay_ok_def)
      moreover have "relay_ok (snd (relay_closed opt env True 1006 ''heartbeat timeout'' (detach (r\<lparr>probe_timer := None\<rparr>))))"
        by (rule relay_closed_ok) (simp_all add: detach_def st)
      ultimately show ?thesis
        using Probe_fired Some
        by (simp add: e relay_step_def probe_expired_def probe_relay_ok st then_op_def quietly_def emit_def split_beta)
    qed (use ok Probe_fired in \<open>simp add: e relay_step_def\<close>)
  next
    case (Token_answered k refusal)
    have "relay_ok (r\<lparr>checks := cs\<rparr>)" for cs using ok by (simp add: relay_ok_def cong: relay_state.case_cong)
    moreover have "relay_ok (snd (retry_in ms c w (r\<lparr>checks := cs\<rparr>)))" if "rstate r = Waiting" for ms c w cs
      by (rule retry_relay_ok) (use that ok in \<open>simp_all add: relay_ok_def\<close>)
    ultimately show ?thesis
      using Token_answered ok by (simp add: e relay_step_def token_answer_def Let_def split: prod.split option.split)
  qed
qed

lemma relay_run_ok: "relay_ok r \<Longrightarrow> relay_ok (snd (relay_run opt es r))"
  by (induction es arbitrary: r) (simp_all add: Let_def split_beta relay_step_ok)

text \<open>
  Whatever happens to a session with a relay, its state says which of its parts there are: a socket
  only while it is connecting or open, an open one with its heartbeat, a retry only while it waits.
\<close>

theorem relay_state_consistent: "relay_ok (snd (relay_run opt es (snd (new_relay opt env))))"
  unfolding new_relay_def by (intro relay_run_ok connect_relay_ok) (simp add: idle_relay_def)

text \<open>
  C33. Once closed, by the page or by a final answer, it never does anything again: no socket, no frame, no
  notice.
\<close>

theorem closed_relay_is_silent:
  assumes "rstate (snd (relay_run opt es (snd (new_relay opt env)))) = Closed"
  shows "fst (relay_run opt fs (snd (relay_run opt es (snd (new_relay opt env))))) = []"
proof -
  have step: "fst (relay_step opt e r) = [] \<and> rstate (snd (relay_step opt e r)) = Closed"
    if "relay_ok r" "rstate r = Closed" for e r
  proof -
    obtain v ev where e: "e = (v, ev)" by fastforce
    show ?thesis
      using that
      by (cases ev) (auto simp: e relay_ok_def relay_step_def relay_send_def relay_wake_def relay_parts
          heartbeat_tick_def token_answer_def split: prod.split)
  qed
  have "fst (relay_run opt fs r) = []" if "relay_ok r" "rstate r = Closed" for r
    using that
  proof (induction fs arbitrary: r)
    case (Cons e fs)
    then show ?case using step [OF Cons.prems] relay_step_ok [OF Cons.prems(1)] by (simp add: Let_def split_beta)
  qed simp
  then show ?thesis using relay_state_consistent assms by blast
qed

section \<open>Backoff\<close>

text \<open>A wait is at least half of the least base, and never more than the most.\<close>

theorem backoff_bounds:
  assumes "0 \<le> random_unit env" and "random_unit env < 1" and "initial_backoff_ms opt \<le> max_backoff_ms opt"
  shows "initial_backoff_ms opt \<le> 2 * backoff opt env r \<and> backoff opt env r \<le> max_backoff_ms opt"
proof -
  define base where "base = min (max_backoff_ms opt) (initial_backoff_ms opt * 2 ^ (failures r - 1))"
  define x where "x = of_nat base * (1 / 2 + random_unit env / 2)"
  have "initial_backoff_ms opt * 1 \<le> initial_backoff_ms opt * 2 ^ (failures r - 1)" by (rule mult_left_mono) simp_all
  then have b: "initial_backoff_ms opt \<le> base" "base \<le> max_backoff_ms opt" using assms(3) by (simp_all add: base_def)
  have lo: "of_nat base * (1 / 2) \<le> x" unfolding x_def by (rule mult_left_mono) (use assms in simp_all)
  have "x \<le> of_nat base * 1" unfolding x_def by (rule mult_left_mono) (use assms in simp_all)
  then have "\<lfloor>x + 1 / 2\<rfloor> \<le> \<lfloor>of_nat base + (1 / 2 :: rat)\<rfloor>" by (intro floor_mono) simp
  also have "\<dots> = int base" by (rule floor_unique) simp_all
  finally have top: "\<lfloor>x + 1 / 2\<rfloor> \<le> int base" .
  have eq: "backoff opt env r = nat \<lfloor>x + 1 / 2\<rfloor>"
    unfolding backoff_def Let_def base_def [symmetric] x_def [symmetric] js_round_def ..
  have hi: "backoff opt env r \<le> base" using top by (simp add: eq)
  have "int base \<le> 2 * \<lfloor>x + 1 / 2\<rfloor>"
  proof -
    have "x < of_int (\<lfloor>x + 1 / 2\<rfloor>) + 1 / 2" using floor_correct [of "x + 1 / 2"] by simp
    then have "of_nat base < of_int (2 * \<lfloor>x + 1 / 2\<rfloor>) + (1 :: rat)" using lo by simp
    then have "(of_int (int base) :: rat) < of_int (2 * \<lfloor>x + 1 / 2\<rfloor> + 1)" by simp
    then show ?thesis unfolding of_int_less_iff by simp
  qed
  then have "base \<le> 2 * backoff opt env r" by (simp add: eq)
  with hi b show ?thesis by simp
qed

section \<open>A dead socket\<close>

text \<open>
  A session on which nothing has come for half a heartbeat is probed at the next tick; and if nothing
  comes then either, and the timer is not very late, it is given up and another is on its way at once
  or after a wait.
\<close>

theorem dead_session_is_given_up:
  assumes "relay_ok r" and "rstate r = Open_state" and "probe_sent_at r = 0"
    and "heartbeat_ms opt \<le> 2 * (now_ms env - last_received r)" and "ready_state env = OPEN" and "now_ms env > 0"
    and "now_ms env2 - now_ms env \<le> 2 * heartbeat_timeout_ms opt"
  shows "\<exists>ms. fst (relay_run opt [(env, Tick), (env2, Probe_fired)] r) =
      [Send_ping (now_ms env), Close_socket 4000 ''heartbeat timeout'', State_change Waiting,
       On_close 1006 ''heartbeat timeout'' False (Some ms)] \<and>
    retry_timer (snd (relay_run opt [(env, Tick), (env2, Probe_fired)] r)) = Some ms"
proof -
  have s: "socket r = Some True" "heartbeat_on r" using assms(1,2) by (simp_all add: relay_ok_def)
  define r1 where "r1 = r\<lparr>last_tick := now_ms env, probe_sent_at := now_ms env, probe_timer := Some (now_ms env)\<rparr>"
  have t: "relay_step opt (env, Tick) r = ([Send_ping (now_ms env)], r1)"
    using assms s by (simp add: relay_step_def heartbeat_tick_def relay_probe_def Let_def r1_def)
  define r2 where "r2 = stop_heartbeat (detach (r1\<lparr>probe_timer := None\<rparr>))"
  have p: "relay_step opt (env2, Probe_fired) r1 =
      (let (outs, q) = relay_closed opt env2 True 1006 ''heartbeat timeout'' (detach (r1\<lparr>probe_timer := None\<rparr>))
       in (Close_socket 4000 ''heartbeat timeout'' # outs, q))"
    using assms s by (simp add: relay_step_def probe_expired_def r1_def then_op_def quietly_def emit_def Let_def split_beta)
  have v: "classify_close 1006 ''heartbeat timeout'' = Retry" by (simp add: classify_close_def)
  have c: "\<exists>ms q. relay_closed opt env2 True 1006 ''heartbeat timeout'' (detach (r1\<lparr>probe_timer := None\<rparr>)) =
      ([State_change Waiting, On_close 1006 ''heartbeat timeout'' False (Some ms)], q) \<and> retry_timer q = Some ms"
    using assms(2) unfolding relay_closed_def v
    by (simp add: Let_def retry_in_def then_op_def set_rstate_def detach_def stop_heartbeat_def r1_def)
  then show ?thesis by (auto simp: t p)
qed

section \<open>Where it goes wrong\<close>

text \<open>
  A page that is hidden closes its session, and is to connect again only when it is shown. But a check
  of the token that was under way then schedules a connection when it is answered, and it is made.
\<close>

theorem hidden_page_reconnects:
  assumes "relay_ok r" and "rstate r = Waiting" and "checks r = [(code, reason)]" and "socket_error env = None"
  shows "\<exists>url protocols. New_socket url protocols \<in>
    set (fst (relay_run opt [(env, Page_hide), (env, Token_answered 0 None), (env, Retry_fired)] r))"
proof -
  define r1 where "r1 = detach (stop_heartbeat (r\<lparr>retry_timer := None\<rparr>))"
  have 1: "relay_step opt (env, Page_hide) r = ([], r1)"
    using assms(1,2) by (auto simp: relay_step_def relay_suspend_def let_go_def set_rstate_def relay_ok_def Let_def r1_def
        detach_def stop_heartbeat_def)
  have r1: "rstate r1 = Waiting" "checks r1 = [(code, reason)]" using assms by (simp_all add: r1_def detach_def stop_heartbeat_def)
  obtain ms where 2: "relay_step opt (env, Token_answered 0 None) r1 =
      ([On_close code reason False (Some ms)], r1\<lparr>checks := [], retry_timer := Some ms\<rparr>)"
    using r1 by (simp add: relay_step_def token_answer_def retry_in_def then_op_def set_rstate_def Let_def)
  have 3: "\<exists>p q. relay_step opt (env, Retry_fired) (r1\<lparr>checks := [], retry_timer := Some ms\<rparr>) =
      ([State_change Connecting, New_socket (relay_url opt) p], q)"
    using r1 assms(4) by (simp add: relay_step_def relay_connect_def then_op_def set_rstate_def)
  then show ?thesis by (auto simp: 1 2)
qed

section \<open>Applied\<close>

definition sample_options :: relay_options where
  "sample_options = \<lparr>relay_url = ''wss://relay'', token = Some ''t'', heartbeat_ms = 20000, heartbeat_timeout_ms = 10000,
     initial_backoff_ms = 1000, max_backoff_ms = 60000, max_buffered_bytes = 1048576, check_token = True\<rparr>"

definition sample_env :: "int \<Rightarrow> relay_env" where
  "sample_env t = \<lparr>now_ms = t, random_unit = 1 / 2, ready_state = 1, buffered_amount = 0, socket_error = None\<rparr>"

lemmas sample_relay = sample_options_def sample_env_def new_relay_def relay_connect_def idle_relay_def relay_step_def
  relay_closed_def classify_close_def socket_opened_def SUBPROTOCOL_def OPEN_def relay_parts

theorem closed_relay_is_silent_witness:
  "fst (relay_run sample_options [(sample_env 9, Wake), (sample_env 9, Retry_fired)]
    (snd (relay_run sample_options [(sample_env 5, Close_call)] (snd (new_relay sample_options (sample_env 1)))))) = []"
  by (rule closed_relay_is_silent) (simp add: sample_relay)

theorem backoff_bounds_witness:
  "1000 \<le> 2 * backoff sample_options (sample_env 1) (idle_relay\<lparr>failures := 3\<rparr>) \<and>
    backoff sample_options (sample_env 1) (idle_relay\<lparr>failures := 3\<rparr>) \<le> 60000"
  using backoff_bounds [of "sample_env 1" sample_options] by (simp add: sample_options_def sample_env_def)

definition open_relay :: relay where
  "open_relay = snd (relay_run sample_options [(sample_env 5, Opened ''relay.v1'')] (snd (new_relay sample_options (sample_env 1))))"

theorem dead_session_is_given_up_witness:
  "\<exists>ms. fst (relay_run sample_options [(sample_env 20005, Tick), (sample_env 30005, Probe_fired)] open_relay) =
      [Send_ping 20005, Close_socket 4000 ''heartbeat timeout'', State_change Waiting,
       On_close 1006 ''heartbeat timeout'' False (Some ms)] \<and>
    retry_timer (snd (relay_run sample_options [(sample_env 20005, Tick), (sample_env 30005, Probe_fired)] open_relay)) = Some ms"
proof -
  have "relay_ok open_relay" unfolding open_relay_def by (rule relay_state_consistent)
  moreover have "rstate open_relay = Open_state" "probe_sent_at open_relay = 0" "last_received open_relay = 5"
    by (simp_all add: open_relay_def sample_relay)
  ultimately show ?thesis
    using dead_session_is_given_up [of open_relay sample_options "sample_env 20005" "sample_env 30005"]
    by (simp add: sample_options_def sample_env_def OPEN_def)
qed

definition refused_relay :: relay where
  "refused_relay = snd (relay_run sample_options [(sample_env 5, Socket_closed 1006 '''')] (snd (new_relay sample_options (sample_env 1))))"

theorem hidden_page_reconnects_witness:
  "\<exists>url protocols. New_socket url protocols \<in> set (fst (relay_run sample_options
    [(sample_env 7, Page_hide), (sample_env 7, Token_answered 0 None), (sample_env 7, Retry_fired)] refused_relay))"
proof (rule hidden_page_reconnects)
  show "relay_ok refused_relay" unfolding refused_relay_def by (rule relay_state_consistent)
  show "rstate refused_relay = Waiting" "checks refused_relay = [(1006, '''')]" "socket_error (sample_env 7) = None"
    by (simp_all add: refused_relay_def sample_relay)
qed

end
