(* ===== verification/Uplink.thy ===== *)
theory Uplink
  imports Relay
begin

text \<open>
  The board's Ethernet on a relay (host/uplink.mjs): the frames it sends before the link is up wait in a
  short queue, and only frames go either way. The socket, and relaynet's helper (\<open>Relay\<close>), are what the
  frames are given to: what is given to it, to the board and to whoever started the link is the output.
\<close>

definition FRAME_MAX :: nat where "FRAME_MAX = 1518"
definition FRAME_MIN :: nat where "FRAME_MIN = 14"
definition PENDING_MAX :: nat where "PENDING_MAX = 64"

definition is_frame :: "nat list \<Rightarrow> bool" where
  "is_frame frame \<longleftrightarrow> \<not> (length frame < FRAME_MIN \<or> length frame > FRAME_MAX)"

text \<open>\<open>linked\<close> says whether the board's frames still come here, or what was there before is back.\<close>

record uplink =
  up_open :: bool
  up_closing :: bool
  up_pending :: "nat list list"
  linked :: bool

datatype up_out =
    To_relay "nat list"
  | To_board "nat list"
  | Ready
  | Failed_to_reach string
  | Refused string
  | Notice string
  | Close_link

definition new_uplink :: uplink where
  "new_uplink = \<lparr>up_open = False, up_closing = False, up_pending = [], linked = True\<rparr>"

section \<open>Either link\<close>

definition up_send :: "nat list \<Rightarrow> uplink \<Rightarrow> up_out list \<times> uplink" where
  "up_send frame u =
    (if \<not> linked u \<or> \<not> is_frame frame then ([], u)
     else if up_open u then ([To_relay frame], u)
     else if length (up_pending u) < PENDING_MAX then ([], u\<lparr>up_pending := up_pending u @ [frame]\<rparr>)
     else ([], u))"

definition up_receive :: "nat list \<Rightarrow> uplink \<Rightarrow> up_out list \<times> uplink" where
  "up_receive frame u = (if is_frame frame then [To_board frame] else [], u)"

definition up_opened :: "uplink \<Rightarrow> up_out list \<times> uplink" where
  "up_opened u = (map To_relay (up_pending u) @ [Ready], u\<lparr>up_open := True, up_pending := []\<rparr>)"

definition up_restore :: "uplink \<Rightarrow> uplink" where
  "up_restore u = u\<lparr>linked := False\<rparr>"

section \<open>A plain relay\<close>

text \<open>What is said of a close: 1006 is none. \<open>code_text\<close> is the code's digits.\<close>

definition close_why :: "(nat \<Rightarrow> string) \<Rightarrow> nat \<Rightarrow> string \<Rightarrow> string" where
  "close_why code_text code reason =
    (if code \<noteq> 0 \<and> code \<noteq> 1006
     then '' ('' @ code_text code @ (if reason \<noteq> '''' then '': '' @ reason else '''') @ '')''
     else '''')"

definition up_error :: "uplink \<Rightarrow> up_out list \<times> uplink" where
  "up_error u = (if \<not> up_open u then ([Failed_to_reach ''''], up_restore u) else ([], u))"

definition up_closed :: "(nat \<Rightarrow> string) \<Rightarrow> nat \<Rightarrow> string \<Rightarrow> uplink \<Rightarrow> up_out list \<times> uplink" where
  "up_closed code_text code reason u =
    (let why = close_why code_text code reason
     in if \<not> up_open u then ([Failed_to_reach why], up_restore u)
        else (if up_closing u then [] else [Notice why], u\<lparr>up_open := False\<rparr>))"

definition up_close :: "uplink \<Rightarrow> up_out list \<times> uplink" where
  "up_close u = ([Close_link], up_restore (u\<lparr>up_closing := True\<rparr>))"

section \<open>relaynet\<close>

text \<open>Opened a first time, it stays so: the helper drops what is sent while it reconnects.\<close>

definition rn_opened :: "bool \<Rightarrow> uplink \<Rightarrow> up_out list \<times> uplink" where
  "rn_opened again u = (if again then ([Notice ''a new session''], u) else up_opened u)"

definition rn_closed :: "(nat \<Rightarrow> string) \<Rightarrow> nat \<Rightarrow> string \<Rightarrow> bool \<Rightarrow> uplink \<Rightarrow> up_out list \<times> uplink" where
  "rn_closed code_text code reason final u =
    (if \<not> up_open u
     then ([Close_link, if final \<and> reason \<noteq> '''' then Refused reason else Failed_to_reach ''''], up_restore u)
     else (let why = (if reason \<noteq> '''' then reason @ '', '' @ code_text code else code_text code)
       in if final then ([Notice why], up_restore u) else ([Notice why], u)))"

definition rn_close :: "uplink \<Rightarrow> up_out list \<times> uplink" where
  "rn_close u = ([Close_link], up_restore u)"

section \<open>Runs\<close>

datatype up_event =
    Board_frame "nat list"
  | Relay_frame "nat list"
  | Link_opened
  | Link_error
  | Link_closed nat string
  | Close_called

definition up_step :: "(nat \<Rightarrow> string) \<Rightarrow> up_event \<Rightarrow> uplink \<Rightarrow> up_out list \<times> uplink" where
  "up_step ct ev u = (case ev of
      Board_frame f \<Rightarrow> up_send f u
    | Relay_frame f \<Rightarrow> up_receive f u
    | Link_opened \<Rightarrow> up_opened u
    | Link_error \<Rightarrow> up_error u
    | Link_closed code reason \<Rightarrow> up_closed ct code reason u
    | Close_called \<Rightarrow> up_close u)"

fun up_run :: "(nat \<Rightarrow> string) \<Rightarrow> up_event list \<Rightarrow> uplink \<Rightarrow> up_out list \<times> uplink" where
  "up_run ct [] u = ([], u)"
| "up_run ct (e # es) u = (let (o1, u) = up_step ct e u; (o2, u) = up_run ct es u in (o1 @ o2, u))"

text \<open>What the relay's helper tells of itself, handed on; \<open>Relay\<close> says when it does.\<close>

definition rn_event :: "(nat \<Rightarrow> string) \<Rightarrow> relay_out \<Rightarrow> uplink \<Rightarrow> up_out list \<times> uplink" where
  "rn_event ct ev u = (case ev of
      On_open again \<Rightarrow> rn_opened again u
    | On_frame f \<Rightarrow> up_receive f u
    | On_close code reason final _ \<Rightarrow> rn_closed ct code reason final u
    | _ \<Rightarrow> ([], u))"

section \<open>What the relay is given\<close>

fun board_frames :: "up_event list \<Rightarrow> nat list list" where
  "board_frames [] = []"
| "board_frames (Board_frame f # es) = (if is_frame f then f # board_frames es else board_frames es)"
| "board_frames (_ # es) = board_frames es"

fun relay_frames :: "up_event list \<Rightarrow> nat list list" where
  "relay_frames [] = []"
| "relay_frames (Relay_frame f # es) = (if is_frame f then f # relay_frames es else relay_frames es)"
| "relay_frames (_ # es) = relay_frames es"

definition to_relay :: "up_out list \<Rightarrow> nat list list" where
  "to_relay outs = concat (map (\<lambda>x. case x of To_relay f \<Rightarrow> [f] | _ \<Rightarrow> []) outs)"

definition to_board :: "up_out list \<Rightarrow> nat list list" where
  "to_board outs = concat (map (\<lambda>x. case x of To_board f \<Rightarrow> [f] | _ \<Rightarrow> []) outs)"

text \<open>Frames, both ways, and nothing else.\<close>

definition traffic :: "up_event \<Rightarrow> bool" where
  "traffic e \<longleftrightarrow> (case e of Board_frame f \<Rightarrow> True | Relay_frame f \<Rightarrow> True | _ \<Rightarrow> False)"

lemma to_relay_simps [simp]:
  "to_relay [] = []" "to_relay (xs @ ys) = to_relay xs @ to_relay ys" "to_relay (map To_relay fs) = fs"
  "to_relay (To_relay f # xs) = f # to_relay xs" "to_relay (To_board f # xs) = to_relay xs" "to_relay (Ready # xs) = to_relay xs"
  by (induction fs) (simp_all add: to_relay_def)

lemma to_board_simps [simp]:
  "to_board [] = []" "to_board (xs @ ys) = to_board xs @ to_board ys" "to_board (map To_relay fs) = []"
  "to_board (To_relay f # xs) = to_board xs" "to_board (To_board f # xs) = f # to_board xs" "to_board (Ready # xs) = to_board xs"
  by (induction fs) (simp_all add: to_board_def)

lemma up_run_append:
  "up_run ct (es @ fs) u = (let (o1, u) = up_run ct es u; (o2, u) = up_run ct fs u in (o1 @ o2, u))"
  by (induction es arbitrary: u) (auto simp: Let_def split_beta)

lemma up_traffic:
  assumes "list_all traffic es" and "linked u" and "length (up_pending u) \<le> PENDING_MAX"
  shows "\<exists>outs. up_run ct es u = (outs, u\<lparr>up_pending := (if up_open u then up_pending u
        else take PENDING_MAX (up_pending u @ board_frames es))\<rparr>) \<and>
    to_relay outs = (if up_open u then board_frames es else []) \<and> to_board outs = relay_frames es"
  using assms
proof (induction es arbitrary: u)
  case (Cons e es)
  obtain o1 u1 where st: "up_step ct e u = (o1, u1)" by fastforce
  have "linked u1 \<and> length (up_pending u1) \<le> PENDING_MAX \<and> up_open u1 = up_open u \<and>
      to_relay o1 = (if up_open u then board_frames [e] else []) \<and> to_board o1 = relay_frames [e] \<and>
      u1 = u\<lparr>up_pending := (if up_open u then up_pending u else take PENDING_MAX (up_pending u @ board_frames [e]))\<rparr>"
    using Cons.prems st
    by (cases e) (auto simp: up_step_def up_send_def up_receive_def traffic_def split: if_splits)
  note u1 = this
  obtain outs where "up_run ct es u1 = (outs, u1\<lparr>up_pending := (if up_open u1 then up_pending u1
        else take PENDING_MAX (up_pending u1 @ board_frames es))\<rparr>) \<and>
      to_relay outs = (if up_open u1 then board_frames es else []) \<and> to_board outs = relay_frames es"
    using Cons.IH [of u1] Cons.prems u1 by auto
  moreover have "board_frames (e # es) = board_frames [e] @ board_frames es" "relay_frames (e # es) = relay_frames [e] @ relay_frames es"
    by (cases e; simp)+
  moreover have "take n (take n (xs @ ys) @ zs) = take n (xs @ ys @ zs)" for n and xs ys zs :: "nat list list"
    by (cases "length (xs @ ys) \<le> n") (simp_all add: min_def)
  ultimately show ?case using u1 st by auto
qed simp



end
