(* ===== verification/Spec2Isabelle.thy ===== *)
theory Spec2Isabelle
  imports Core_Sample Core_Loop_Sample Core_Inspect_Proofs Web_Worker_Proofs Run_Args_Proofs Lan_Dial_Proofs Lan_Sockets_Proofs Pair_Proofs Lan_Proofs Lan_Broker_Proofs Lan_Coap_Proofs Lan_Web_Proofs Lan_Ftp_Proofs
    Relay_Proofs Uplink
begin

text \<open>
  The host harness of zephyr-wasm-soc (host/*.mjs) in Isabelle/HOL. The harness runs a Zephyr image
  compiled to WebAssembly: it is the clock, the interrupt controller, the UARTs and the other devices
  of the board, the Bluetooth controller, the wire to a second board, and the network that the board
  is plugged into. The guest, a WebAssembly module, is not in the repository.

  \<^bold>\<open>Parts and files.\<close>

  \<^item> The board (host/core.mjs, class \<open>Host\<close>). \<open>Core_Console\<close>: the console UART and what is typed
    (\<open>uartReady\<close>, \<open>type\<close>, \<open>typeNextLine\<close>, \<open>notePrompt\<close>). \<open>Core_Devices\<close>: the latch of interrupts from
    outside, GPIO, input events, sensors, Ethernet frames. \<open>Core_Display\<close>: the framebuffer.
    \<open>Core_Semihost\<close>: semihosting and its files. \<open>Hci_Serial\<close>: host/hci_serial.mjs, and the choice of
    controller behind the second UART. \<open>Core_Host\<close>: the state of \<open>Host\<close>, the clock, the alarm, guest
    memory, and the imports that only change the host. \<open>Core_Deadline\<close>: \<open>nextDeadlineNs\<close> and
    \<open>advanceToNextDeadline\<close>.
  \<^item> The driver loop (host/core.mjs). \<open>Core_Guest\<close>: the guest as the host sees it, and its imports with
    suspension. \<open>Core_Step\<close>: \<open>boot\<close>, \<open>resetForReboot\<close>, \<open>raiseTrap\<close>, \<open>step\<close>, \<open>runStep\<close>, \<open>runUntil\<close>.
    \<open>Core_Snapshot\<close>: \<open>snapshot\<close>, \<open>restore\<close>, \<open>stepBack\<close>. \<open>Core_Loop\<close>: \<open>run\<close>, with pausing, stepping and
    pacing. Proofs: \<open>Core_Run\<close> (interrupts), \<open>Core_Switch\<close> (contexts), \<open>Core_Reboot\<close>, \<open>Core_Time\<close> (the
    board's time on a pair's timeline), \<open>Core_Replay\<close> (what the wall clock cannot change),
    \<open>Core_Loop_Proofs\<close> and \<open>Core_Pause\<close>; \<open>Core_Sample\<close> and \<open>Core_Loop_Sample\<close> have small guests to apply
    the theorems to.
  \<^item> The Bluetooth controller (host/bt.mjs). \<open>Bt\<close>: its state, H4 parsing and the HCI commands. \<open>Bt_Radio\<close>:
    advertising, scanning, connections and the PDUs between two controllers. Proofs: \<open>Bt_Events\<close>,
    \<open>Bt_Framing\<close>, \<open>Bt_Links\<close>, \<open>Bt_Time\<close>, \<open>Bt_Air\<close> (two controllers).
  \<^item> A pair of boards (host/pair.mjs): \<open>Pair_Run\<close>, proofs in \<open>Pair_Proofs\<close>. It steps two boards with
    \<open>run_until\<close> and carries frames and PDUs from one to the other.
  \<^item> The board's own network (host/lan.mjs, host/lan_services.mjs): \<open>Lan\<close> (frames, timers, calls into
    lwIP), \<open>Lan_Tcp\<close> (a connection's queue), \<open>Lan_Sockets\<close> (the tables of connections and sockets, and what
    lwIP calls back), \<open>Lan_Udp\<close> (DHCP, DNS, SNTP, TFTP), \<open>Lan_Stream\<close> and \<open>Lan_Web\<close>
    (HTTP, WebSocket), \<open>Lan_Coap\<close>, \<open>Lan_Mqtt\<close> (MQTT, MQTT-SN, the broker), \<open>Lan_Ftp\<close>; proofs in the
    theories named \<open>_Proofs\<close>. \<open>Js_Text\<close> has what JavaScript does with text and numbers there.
    \<open>Lan_Dial\<close>: the pings and connections the network makes to the board.
  \<^item> Real networks: \<open>Relay\<close> (host/relaynet.mjs, the session with a relay), \<open>Relay_Proofs\<close>, \<open>Uplink\<close>
    (host/uplink.mjs).
  \<^item> What is around a run: \<open>Run_Args\<close> (host/run.mjs: the options, the boards' seeds, where files go),
    \<open>Web_Worker\<close> (host/web/worker.js: the page's messages, the timer that saves flash and display, how a
    run begins and ends), \<open>Core_Inspect\<close> (\<open>snapshotThreads\<close>, host/threads.mjs, and the guest's side of
    it, arch/wasm/core/inspect.c); proofs in the theories named \<open>_Proofs\<close>. A message of the page is what
    a person does in \<open>Core_Loop\<close>, which happens to a board while its run waits.

  A host is a record of the fields of the class, its imports are functions of the record, and the calls
  of the run loop compose them as the code does. Exceptions are values: \<open>thrown\<close> for what unwinds out of
  the guest, \<open>js_error\<close> for what the host throws itself. What may not return is an option.

  \<^bold>\<open>What is a parameter.\<close> The guest (\<open>guest\<close>, a record of functions on its state: run to the next call
  of an import, answer it, Asyncify's functions); lwIP (its sender, and what it does with a frame); the
  text functions that JavaScript has built in (\<open>TextDecoder\<close> of bad UTF-8); the wall clock, how long a
  wait takes and what arrives in it; a relay's WebSocket and the random source. Theorems hold for every
  value of them, or name the law they need.

  \<^bold>\<open>Interfaces.\<close> \<open>timed_queue\<close> (\<open>Timed_Queue\<close>) is a queue by time, interpreted on the LAN's timers, the
  PDUs on the air and the Ethernet frames; \<open>uart_wire\<close> (\<open>Uart_Wire\<close>) is a wire that paces bytes, interpreted on
  the console, the controller's HCI and the serial controller; \<open>framing\<close> and \<open>codec\<close> (in \<open>Lan_Stream\<close>)
  are what a stream's parser and an encoder promise, interpreted on the
  WebSocket, and on CoAP and MQTT.

  \<^bold>\<open>What is shown.\<close> Of the run loop: no interrupt is lost, a waiting context keeps its buffer and stack
  pointer and is resumed on them, virtual time never passes anything that is due, frames leave in order
  over any run, pacing changes when and never what, a paced guest is never ahead of the wall clock, a
  step can be undone. Of a pair: nothing arrives late. Of the controller: its output is whole HCI packets
  and every command is answered once; data crosses a link in order; encryption is agreed by both sides
  only with the same key. Of the LAN: connections send what was written, once and in order, and are given back to lwIP once; codecs round
  trip; topics match as MQTT says; file paths stay canonical; a file stored is the file retrieved. Of a
  relay: backing off, giving up, silence once closed. Around a run: a stop message ends it, the page has
  the flash, the thread table is the kernel's, guest files stay in their directory. The theorems that state a defect say so in their
  text.

  \<^bold>\<open>Bounds and fuel.\<close> Loops over data are structural recursion or have a measure. \<open>run_guest\<close> is a
  \<open>partial_function\<close>, as a guest need not stop; \<open>spinning_guest_stopped\<close> shows that one that reports
  safepoints is. \<open>run_until\<close> has the fuel that the code has (\<open>maxSteps\<close>). Advancing the controller has no
  bound in the code; \<open>hci_advance\<close> is an option and \<open>Bt_Time\<close> shows that it returns.

  \<^bold>\<open>Not modelled.\<close> Tracing. Checks (scripts/check_*.mjs) and spikes, which nothing imports. The Zephyr port
  (C, devicetree, Kconfig), build scripts (Python, shell), vendored code. The page itself; fetching
  modules, files, terminals and devices, and text that is only printed. Of host/lan.mjs compiling lwIP's
  module, copying arguments into its memory, and the WASI functions it needs. Of a thread
  report the fields that are copied from elsewhere. Yielding to the event loop changes no board, apart
  from what arrives in it, which \<open>Core_Loop\<close> has; a pair's pacing is left out for the same reason.
\<close>

end
